(* ===== verification/Prelude.thy ===== *)
theory Prelude
  imports Main "HOL-Library.Word" "HOL-Library.Finite_Map"
begin

text \<open>
  The ground the component theories share: the fixed-width integer types of the Rust code,
  Rust's checked and saturating arithmetic, little- and big-endian byte encodings, the outcome
  of a state-changing operation (success, error with the state it leaves, panic), sums over
  hash maps, and the decimal formatting used in event strings.

  A \<open>HashMap\<close> is a finite map (\<open>fmap\<close>), so that iteration order is not observable; a
  \<open>HashSet\<close> is a finite set (\<open>fset\<close>). A \<open>[u8; 32]\<close> is a \<open>256 word\<close> whose byte \<open>i\<close> is
  bits \<open>8 * i\<close> to \<open>8 * i + 7\<close>, so every value of the type is an array of exactly 32 bytes;
  a \<open>Vec<u8>\<close> is a list of bytes.
\<close>

section \<open>Integer and byte types\<close>

type_synonym u8 = "8 word"
type_synonym u16 = "16 word"
type_synonym u32 = "32 word"
type_synonym u64 = "64 word"
type_synonym u128 = "128 word"
type_synonym i32 = "32 word"
type_synonym i64 = "64 word"
type_synonym bytes = "u8 list"
type_synonym b32 = "256 word"

named_theorems arith_simps \<open>reading machine arithmetic as arithmetic on naturals\<close>
named_theorems sum_simps \<open>sums over finite maps after an update\<close>

section \<open>Checked and saturating arithmetic\<close>

text \<open>
  \<open>a + b\<close> on unsigned integers with overflow checks on, as in the dev and test profiles:
  an overflow panics, here \<open>None\<close>.
\<close>

definition chk_add :: "'a::len word \<Rightarrow> 'a word \<Rightarrow> 'a word option" where
  "chk_add a b = (if unat a + unat b < 2 ^ LENGTH('a) then Some (a + b) else None)"

definition sat_add :: "'a::len word \<Rightarrow> 'a word \<Rightarrow> 'a word" where
  "sat_add a b = (if unat a + unat b < 2 ^ LENGTH('a) then a + b else - 1)"

definition sat_sub :: "'a::len word \<Rightarrow> 'a word \<Rightarrow> 'a word" where
  "sat_sub a b = (if b \<le> a then a - b else 0)"

definition sat_sadd :: "'a::len word \<Rightarrow> 'a word \<Rightarrow> 'a word" where
  "sat_sadd a b =
     (let s = sint a + sint b
      in if s \<ge> 2 ^ (LENGTH('a) - 1) then word_of_int (2 ^ (LENGTH('a) - 1) - 1)
         else if s < - (2 ^ (LENGTH('a) - 1)) then word_of_int (- (2 ^ (LENGTH('a) - 1)))
         else a + b)"

lemma chk_add_Some [arith_simps]:
  "chk_add a b = Some c \<Longrightarrow> unat c = unat a + unat b"
  by (auto simp: chk_add_def unat_word_ariths split: if_splits)

lemma chk_add_fits:
  fixes a b :: "'a::len word"
  assumes "unat a + unat b < 2 ^ LENGTH('a)"
  shows "chk_add a b = Some (a + b)"
  using assms by (simp add: chk_add_def)

lemma chk_add_overflow:
  fixes a b :: "'a::len word"
  shows "chk_add a b = None \<longleftrightarrow> 2 ^ LENGTH('a) \<le> unat a + unat b"
  by (auto simp: chk_add_def)

lemma unat_plus_fits [arith_simps]:
  fixes a b :: "'a::len word"
  assumes "unat a + unat b < 2 ^ LENGTH('a)"
  shows "unat (a + b) = unat a + unat b"
  using assms by (simp add: unat_word_ariths)

lemma unat_minus_fits [arith_simps]: "b \<le> a \<Longrightarrow> unat (a - b) = unat a - unat b"
  for a b :: "'a::len word"
  by (simp add: unat_sub)

lemma unat_sat_add [arith_simps]:
  fixes a b :: "'a::len word"
  shows "unat (sat_add a b) = min (unat a + unat b) (2 ^ LENGTH('a) - 1)"
proof (cases "unat a + unat b < 2 ^ LENGTH('a)")
  case True
  then show ?thesis by (simp add: sat_add_def unat_word_ariths)
next
  case False
  then show ?thesis by (simp add: sat_add_def unsigned_minus_1_eq_mask mask_eq_exp_minus_1)
qed

lemma unat_sat_sub [arith_simps]: "unat (sat_sub a b) = unat a - unat b"
  for a b :: "'a::len word"
  by (auto simp: sat_sub_def unat_sub word_le_nat_alt)

lemma unat_less_pow [simp]: "unat (a :: 'a::len word) < 2 ^ LENGTH('a)"
  by (rule unsigned_less)

lemma sint_sat_sadd_bounds:
  fixes a b :: "'a::len word"
  shows "- (2 ^ (LENGTH('a) - 1)) \<le> sint (sat_sadd a b)"
    and "sint (sat_sadd a b) < 2 ^ (LENGTH('a) - 1)"
  using sint_greater_eq [of "sat_sadd a b"] sint_less [of "sat_sadd a b"] by simp_all

section \<open>Outcomes of state-changing operations\<close>

text \<open>
  An operation on \<open>&mut self\<close> returns a value, an error, or panics. An error leaves the
  mutations made before it, so it carries the state; a panic has no state to go on from.
\<close>

datatype ('s, 'e, 'a) outcome = Ok 'a 's | Err 'e 's | Panic

fun is_Ok :: "('s, 'e, 'a) outcome \<Rightarrow> bool" where
  "is_Ok (Ok a s) = True"
| "is_Ok (Err e s) = False"
| "is_Ok Panic = False"

fun outcome_state :: "('s, 'e, 'a) outcome \<Rightarrow> 's option" where
  "outcome_state (Ok a s) = Some s"
| "outcome_state (Err e s) = Some s"
| "outcome_state Panic = None"

definition ret_or_panic :: "'a option \<Rightarrow> ('a \<Rightarrow> ('s, 'e, 'b) outcome) \<Rightarrow> ('s, 'e, 'b) outcome" where
  "ret_or_panic x k = (case x of None \<Rightarrow> Panic | Some a \<Rightarrow> k a)"

lemma ret_or_panic_simps [simp]:
  "ret_or_panic None k = Panic"
  "ret_or_panic (Some a) k = k a"
  by (simp_all add: ret_or_panic_def)

lemma ret_or_panic_Ok:
  "ret_or_panic x k = Ok a s \<longleftrightarrow> (\<exists>v. x = Some v \<and> k v = Ok a s)"
  by (cases x) auto

lemma ret_or_panic_Err:
  "ret_or_panic x k = Err e s \<longleftrightarrow> (\<exists>v. x = Some v \<and> k v = Err e s)"
  by (cases x) auto

lemma ret_or_panic_Panic:
  "ret_or_panic x k = Panic \<longleftrightarrow> x = None \<or> (\<exists>v. x = Some v \<and> k v = Panic)"
  by (cases x) auto

lemmas ret_or_panic_iff = ret_or_panic_Ok ret_or_panic_Err ret_or_panic_Panic

text \<open>
  \<open>r.map_err(..)?\<close> followed by the rest of the function: the error outcome is given, the value
  is passed on. \<open>and_then\<close> is the same for an operation that returns an outcome.
\<close>

definition or_err :: "('x + 'a) \<Rightarrow> ('s, 'e, 'b) outcome \<Rightarrow> ('a \<Rightarrow> ('s, 'e, 'b) outcome) \<Rightarrow> ('s, 'e, 'b) outcome" where
  "or_err r err k = (case r of Inl _ \<Rightarrow> err | Inr a \<Rightarrow> k a)"

definition and_then :: "('s, 'e, 'a) outcome \<Rightarrow> ('a \<Rightarrow> 's \<Rightarrow> ('s, 'e, 'b) outcome) \<Rightarrow> ('s, 'e, 'b) outcome" where
  "and_then r k = (case r of Ok a s \<Rightarrow> k a s | Err e s \<Rightarrow> Err e s | Panic \<Rightarrow> Panic)"

lemma or_err_simps [simp]:
  "or_err (Inl x) err k = err"
  "or_err (Inr a) err k = k a"
  by (simp_all add: or_err_def)

lemma and_then_simps [simp]:
  "and_then (Ok a s) k = k a s"
  "and_then (Err e s) k = Err e s"
  "and_then Panic k = Panic"
  by (simp_all add: and_then_def)

lemma or_err_Ok: "or_err r (Err e t) k = Ok a s \<longleftrightarrow> (\<exists>v. r = Inr v \<and> k v = Ok a s)"
  by (cases r) auto

lemma or_err_Err:
  "or_err r (Err e t) k = Err e' s \<longleftrightarrow> (\<exists>x. r = Inl x \<and> e' = e \<and> s = t) \<or> (\<exists>v. r = Inr v \<and> k v = Err e' s)"
  by (cases r) auto

lemma or_err_Panic: "or_err r (Err e t) k = Panic \<longleftrightarrow> (\<exists>v. r = Inr v \<and> k v = Panic)"
  by (cases r) auto

lemma and_then_Ok: "and_then r k = Ok b s \<longleftrightarrow> (\<exists>a m. r = Ok a m \<and> k a m = Ok b s)"
  by (cases r) auto

lemma and_then_Err: "and_then r k = Err e s \<longleftrightarrow> r = Err e s \<or> (\<exists>a m. r = Ok a m \<and> k a m = Err e s)"
  by (cases r) auto

lemma and_then_Panic: "and_then r k = Panic \<longleftrightarrow> r = Panic \<or> (\<exists>a m. r = Ok a m \<and> k a m = Panic)"
  by (cases r) auto

lemmas or_err_iff = or_err_Ok or_err_Err or_err_Panic
lemmas and_then_iff = and_then_Ok and_then_Err and_then_Panic
lemmas outcome_iff = ret_or_panic_iff or_err_iff and_then_iff

section \<open>Byte encodings of integers\<close>

text \<open>\<open>to_le_bytes\<close> of an integer of \<open>n\<close> bytes, and its inverse read as a natural.\<close>

primrec le_bytes :: "nat \<Rightarrow> 'a::len word \<Rightarrow> bytes" where
  "le_bytes 0 w = []"
| "le_bytes (Suc n) w = ucast w # le_bytes n (drop_bit 8 w)"

primrec nat_of_le :: "bytes \<Rightarrow> nat" where
  "nat_of_le [] = 0"
| "nat_of_le (b # bs) = unat b + 256 * nat_of_le bs"

definition be_bytes :: "nat \<Rightarrow> 'a::len word \<Rightarrow> bytes" where
  "be_bytes n w = rev (le_bytes n w)"

definition u32_of_le :: "bytes \<Rightarrow> u32" where
  "u32_of_le bs = word_of_nat (nat_of_le bs)"

definition u32_of_be :: "bytes \<Rightarrow> u32" where
  "u32_of_be bs = word_of_nat (nat_of_le (rev bs))"

definition b32_bytes :: "b32 \<Rightarrow> bytes" where
  "b32_bytes w = le_bytes 32 w"

definition byte0 :: "b32 \<Rightarrow> u8" where
  "byte0 w = ucast w"

lemma length_le_bytes [simp]: "length (le_bytes n w) = n"
  by (induction n arbitrary: w) auto

lemma length_be_bytes [simp]: "length (be_bytes n w) = n"
  by (simp add: be_bytes_def)

lemma length_b32_bytes [simp]: "length (b32_bytes w) = 32"
  by (simp add: b32_bytes_def)

lemma unat_ucast_byte: "unat (ucast w :: u8) = unat w mod 256" for w :: "'a::len word"
  by (simp add: unsigned_ucast_eq take_bit_eq_mod)

lemma unat_drop_byte: "unat (drop_bit 8 w) = unat w div 256" for w :: "'a::len word"
  by (simp only: unat_drop_bit_eq) (simp add: drop_bit_eq_div)

lemma nat_of_le_bytes: "nat_of_le (le_bytes n w) = unat w mod 256 ^ n"
proof (induction n arbitrary: w)
  case 0
  then show ?case by simp
next
  case (Suc n)
  have "nat_of_le (le_bytes (Suc n) w) = unat w mod 256 + 256 * (unat w div 256 mod 256 ^ n)"
    by (simp add: Suc.IH unat_ucast_byte unat_drop_byte)
  also have "\<dots> = unat w mod 256 ^ Suc n"
    using mod_mult2_eq [of "unat w" 256 "256 ^ n"] by simp
  finally show ?case .
qed

lemma nat_of_le_bytes_full:
  fixes w :: "'a::len word"
  assumes "LENGTH('a) \<le> 8 * n"
  shows "nat_of_le (le_bytes n w) = unat w"
proof -
  have "unat w < 2 ^ LENGTH('a)" by simp
  also have "(2::nat) ^ LENGTH('a) \<le> 2 ^ (8 * n)"
    using assms by (simp add: power_increasing)
  also have "(2::nat) ^ (8 * n) = 256 ^ n" by (simp add: power_mult)
  finally show ?thesis by (simp add: nat_of_le_bytes)
qed

lemma le_bytes_inj:
  fixes v w :: "'a::len word"
  assumes "LENGTH('a) \<le> 8 * n" and "le_bytes n v = le_bytes n w"
  shows "v = w"
proof -
  have "nat_of_le (le_bytes n v) = nat_of_le (le_bytes n w)" using assms(2) by simp
  then show ?thesis using assms(1) by (simp add: nat_of_le_bytes_full word_unat_eq_iff)
qed

lemma b32_bytes_inj [simp]: "b32_bytes v = b32_bytes w \<longleftrightarrow> v = w"
  unfolding b32_bytes_def by (auto dest: le_bytes_inj [rotated])

lemma u32_of_le_bytes [simp]: "u32_of_le (le_bytes 4 w) = w" for w :: u32
  by (simp add: u32_of_le_def nat_of_le_bytes_full)

lemma u32_of_be_bytes [simp]: "u32_of_be (be_bytes 4 w) = w" for w :: u32
  by (simp add: u32_of_be_def be_bytes_def nat_of_le_bytes_full)

lemma nat_of_le_less: "nat_of_le bs < 256 ^ length bs"
proof (induction bs)
  case (Cons b bs)
  have "unat b < 256" using unsigned_less [of b] by simp
  then show ?case using Cons by simp
qed simp

lemma nat_of_le_eqD:
  assumes "length as = length bs" and "nat_of_le as = nat_of_le bs"
  shows "as = bs"
  using assms
proof (induction as bs rule: list_induct2)
  case (Cons a as b bs)
  have lt: "unat a < 256" "unat b < 256" using unsigned_less [of a] unsigned_less [of b] by simp_all
  have "(unat a + 256 * nat_of_le as) mod 256 = (unat b + 256 * nat_of_le bs) mod 256"
    and "(unat a + 256 * nat_of_le as) div 256 = (unat b + 256 * nat_of_le bs) div 256"
    using Cons.prems by simp_all
  then show ?case using lt Cons.IH by (simp add: word_unat_eq_iff)
qed simp

lemma be_bytes_u32_of_be:
  assumes "length bs = 4"
  shows "be_bytes 4 (u32_of_be bs) = bs"
proof -
  have "nat_of_le (rev bs) < 2 ^ 32" using nat_of_le_less [of "rev bs"] assms by simp
  then have "unat (u32_of_be bs) = nat_of_le (rev bs)"
    unfolding u32_of_be_def by (simp add: unat_of_nat)
  then have "nat_of_le (le_bytes 4 (u32_of_be bs)) = nat_of_le (rev bs)" by (simp add: nat_of_le_bytes_full)
  then have "le_bytes 4 (u32_of_be bs) = rev bs" by (rule nat_of_le_eqD [rotated]) (simp add: assms)
  then show ?thesis by (simp add: be_bytes_def)
qed

lemma u64_le_bytes_inj [simp]: "le_bytes 8 v = le_bytes 8 w \<longleftrightarrow> v = w" for v w :: u64
  by (auto dest: le_bytes_inj [rotated])

section \<open>Sums over hash maps\<close>

text \<open>
  \<open>fm_sum f m\<close> is the sum of \<open>f key value\<close> over the entries of a map, a natural number.
  Rust sums \<open>u128\<close> values with \<open>.sum()\<close>, which panics on overflow; all summands are
  non-negative, so it panics in any iteration order exactly when the total does not fit.
\<close>

definition fm_sum :: "('k \<Rightarrow> 'v \<Rightarrow> nat) \<Rightarrow> ('k, 'v) fmap \<Rightarrow> nat" where
  "fm_sum f m = (\<Sum>k \<in> fset (fmdom m). f k (the (fmlookup m k)))"

definition chk_sum :: "('k \<Rightarrow> 'v \<Rightarrow> nat) \<Rightarrow> ('k, 'v) fmap \<Rightarrow> u128 option" where
  "chk_sum f m = (let t = fm_sum f m in if t < 2 ^ 128 then Some (word_of_nat t) else None)"

lemma fm_sum_empty [simp, sum_simps]: "fm_sum f fmempty = 0"
  by (simp add: fm_sum_def)

lemma fm_sum_cong:
  assumes "\<And>k v. fmlookup m k = Some v \<Longrightarrow> f k v = g k v"
  shows "fm_sum f m = fm_sum g m"
  unfolding fm_sum_def by (rule sum.cong) (auto simp: assms fmlookup_dom_iff)

lemma fm_sum_split:
  assumes "fmlookup m k = Some v"
  shows "fm_sum f m = f k v + fm_sum f (fmdrop k m)"
proof -
  have k: "k \<in> fset (fmdom m)" using assms by (simp add: fmdomI)
  have "fm_sum f m = f k v + (\<Sum>x \<in> fset (fmdom m) - {k}. f x (the (fmlookup m x)))"
    unfolding fm_sum_def
    using sum.remove [OF finite_fset k, of "\<lambda>x. f x (the (fmlookup m x))"] assms by simp
  also have "(\<Sum>x \<in> fset (fmdom m) - {k}. f x (the (fmlookup m x))) = fm_sum f (fmdrop k m)"
    unfolding fm_sum_def by (rule sum.cong) auto
  finally show ?thesis .
qed

lemma fm_sum_new:
  assumes "fmlookup m k = None"
  shows "fm_sum f (fmupd k v m) = fm_sum f m + f k v"
proof -
  have k: "k \<notin> fset (fmdom m)" using assms by (simp add: fmdom_notI)
  have "fm_sum f (fmupd k v m) =
      f k v + (\<Sum>x \<in> fset (fmdom m). f x (the (fmlookup (fmupd k v m) x)))"
    unfolding fm_sum_def using k by simp
  also have "(\<Sum>x \<in> fset (fmdom m). f x (the (fmlookup (fmupd k v m) x))) = fm_sum f m"
    unfolding fm_sum_def using k by (intro sum.cong) auto
  finally show ?thesis by simp
qed

lemma fmdrop_fmupd_same_key: "fmdrop k (fmupd k v m) = fmdrop k m"
  by (rule fmap_ext) simp

lemma fm_sum_upd:
  assumes "fmlookup m k = Some w"
  shows "fm_sum f (fmupd k v m) + f k w = fm_sum f m + f k v"
  using fm_sum_split [of "fmupd k v m" k v f] fm_sum_split [OF assms, of f]
  by (simp add: fmdrop_fmupd_same_key)

lemma fm_sum_drop:
  assumes "fmlookup m k = Some w"
  shows "fm_sum f (fmdrop k m) + f k w = fm_sum f m"
  using fm_sum_split [OF assms, of f] by simp

lemma fm_sum_ge:
  assumes "fmlookup m k = Some w"
  shows "f k w \<le> fm_sum f m"
  using fm_sum_split [OF assms, of f] by simp

lemma fm_sum_upd_same:
  assumes "fmlookup m k = Some w" and "f k v = f k w"
  shows "fm_sum f (fmupd k v m) = fm_sum f m"
  using fm_sum_upd [OF assms(1), of f v] assms(2) by simp

lemma fm_sum_add: "fm_sum (\<lambda>k v. f k v + g k v) m = fm_sum f m + fm_sum g m"
  by (simp add: fm_sum_def sum.distrib)

lemma chk_sum_Some: "chk_sum f m = Some t \<Longrightarrow> unat t = fm_sum f m"
  by (auto simp: chk_sum_def Let_def unat_of_nat split: if_splits)

lemma chk_sum_fits: "fm_sum f m < 2 ^ 128 \<Longrightarrow> chk_sum f m = Some (word_of_nat (fm_sum f m))"
  by (simp add: chk_sum_def)

text \<open>
  The loop the code runs: adding the values one by one, in whatever order the hash map yields
  them. It panics, or returns its total, exactly as \<open>chk_sum\<close> says.
\<close>

fun sum_loop :: "u128 \<Rightarrow> u128 list \<Rightarrow> u128 option" where
  "sum_loop acc [] = Some acc"
| "sum_loop acc (x # xs) = (case chk_add acc x of None \<Rightarrow> None | Some a \<Rightarrow> sum_loop a xs)"

lemma sum_loop_eq:
  "sum_loop acc xs =
     (if unat acc + sum_list (map unat xs) < 2 ^ 128
      then Some (word_of_nat (unat acc + sum_list (map unat xs))) else None)"
proof (induction xs arbitrary: acc)
  case Nil
  have "unat acc < 2 ^ 128" using unsigned_less [of acc] by simp
  then show ?case by simp
next
  case (Cons x xs)
  show ?case
  proof (cases "unat acc + unat x < 2 ^ 128")
    case True
    then have "unat (acc + x) = unat acc + unat x" by (intro unat_plus_fits) simp
    with True show ?thesis by (simp add: chk_add_def Cons.IH add.assoc)
  next
    case False
    then show ?thesis by (simp add: chk_add_def)
  qed
qed

lemma sum_loop_any_order:
  assumes "distinct ks" and "set ks = fset (fmdom m)"
  shows "sum_loop 0 (map (\<lambda>k. g k (the (fmlookup m k))) ks) = chk_sum (\<lambda>k v. unat (g k v)) m"
proof -
  have "sum_list (map unat (map (\<lambda>k. g k (the (fmlookup m k))) ks)) =
      (\<Sum>k \<in> set ks. unat (g k (the (fmlookup m k))))"
    using assms(1) by (simp add: comp_def sum_list_distinct_conv_sum_set)
  then show ?thesis
    using assms(2) by (simp add: sum_loop_eq chk_sum_def fm_sum_def Let_def)
qed

section \<open>Decimal formatting\<close>

definition digit_char :: "nat \<Rightarrow> char" where
  "digit_char d = char_of (48 + d)"

fun dec_nat :: "nat \<Rightarrow> string" where
  "dec_nat n = (if n < 10 then [digit_char n] else dec_nat (n div 10) @ [digit_char (n mod 10)])"

declare dec_nat.simps [simp del]

definition dec_word :: "'a::len word \<Rightarrow> string" where
  "dec_word w = dec_nat (unat w)"

definition dec_sword :: "'a::len word \<Rightarrow> string" where
  "dec_sword w = (if sint w < 0 then ''-'' @ dec_nat (nat (- sint w)) else dec_nat (nat (sint w)))"

definition dec_bool :: "bool \<Rightarrow> string" where
  "dec_bool b = (if b then ''true'' else ''false'')"

end
