(* ===== verification/External.thy ===== *)
theory External
  imports Prelude
begin

text \<open>
  The third-party code the program rests on, as parameters: BLAKE3, the CBOR writer
  (\<open>ciborium\<close>), Ed25519 (\<open>ed25519-dalek\<close>) and the MlDsa65 signatures (\<open>ml_dsa\<close>). A value of the
  record \<open>crypto\<close> is one choice of all of them; every operation that hashes, encodes or signs
  takes it as its first argument. \<open>crypto_ok\<close> states the documented behaviour the code relies
  on; the theory Sample_Codec gives a concrete instance that has it, used by the witnesses.

  The CBOR writer takes the item tree that \<open>serde\<close> hands it: a struct becomes a map from field
  names to values in declaration order, a fixed array or a \<open>Vec<u8>\<close> an array of integers, a
  newtype its content.
\<close>

section \<open>CBOR items\<close>

datatype cval =
    CUint u128
  | CNeg u64
  | CText string
  | CBool bool
  | CNull
  | CArr "cval list"
  | CMap "(string \<times> cval) list"

definition c_u64 :: "u64 \<Rightarrow> cval" where "c_u64 w = CUint (ucast w)"
definition c_u16 :: "u16 \<Rightarrow> cval" where "c_u16 w = CUint (ucast w)"
definition c_u8 :: "u8 \<Rightarrow> cval" where "c_u8 w = CUint (ucast w)"
definition c_bytes :: "bytes \<Rightarrow> cval" where "c_bytes bs = CArr (map c_u8 bs)"
definition c_b32 :: "b32 \<Rightarrow> cval" where "c_b32 w = c_bytes (b32_bytes w)"
definition c_texts :: "string list \<Rightarrow> cval" where "c_texts xs = CArr (map CText xs)"

definition c_sint :: "'a::len word \<Rightarrow> cval" where
  "c_sint w = (if 0 \<le> sint w then CUint (word_of_int (sint w)) else CNeg (word_of_int (- 1 - sint w)))"

text \<open>An enum value with named fields is a map from the variant's name to the map of its fields.\<close>

definition variant :: "string \<Rightarrow> (string \<times> cval) list \<Rightarrow> cval" where
  "variant name fs = CMap [(name, CMap fs)]"

lemma variant_inj [simp]: "variant n f = variant m g \<longleftrightarrow> n = m \<and> f = g"
  by (simp add: variant_def)

named_theorems cval_inj \<open>injectivity of the serializers\<close>

lemma unat_ucast_up:
  assumes "LENGTH('a) \<le> LENGTH('b)"
  shows "unat (ucast (v :: 'a::len word) :: 'b::len word) = unat v"
proof -
  have "unat v < 2 ^ LENGTH('a)" by simp
  also have "(2::nat) ^ LENGTH('a) \<le> 2 ^ LENGTH('b)" using assms by (simp add: power_increasing)
  finally show ?thesis by (simp add: unsigned_ucast_eq take_bit_nat_eq_self)
qed

lemma ucast_up_inj:
  assumes "LENGTH('a) \<le> LENGTH('b)" and "(ucast v :: 'b::len word) = ucast (w :: 'a::len word)"
  shows "v = w"
  using unat_ucast_up [OF assms(1), of v] unat_ucast_up [OF assms(1), of w] assms(2)
  by (simp add: word_unat_eq_iff)

lemma c_u64_inj [cval_inj, simp]: "c_u64 v = c_u64 w \<longleftrightarrow> v = w"
  by (auto simp: c_u64_def dest: ucast_up_inj [rotated])

lemma c_u16_inj [cval_inj, simp]: "c_u16 v = c_u16 w \<longleftrightarrow> v = w"
  by (auto simp: c_u16_def dest: ucast_up_inj [rotated])

lemma c_u8_inj [cval_inj, simp]: "c_u8 v = c_u8 w \<longleftrightarrow> v = w"
  by (auto simp: c_u8_def dest: ucast_up_inj [rotated])

lemma c_bytes_inj [cval_inj, simp]: "c_bytes v = c_bytes w \<longleftrightarrow> v = w"
  by (simp add: c_bytes_def inj_def)

lemma c_b32_inj [cval_inj, simp]: "c_b32 v = c_b32 w \<longleftrightarrow> v = w"
  by (simp add: c_b32_def)

lemma c_texts_inj [cval_inj, simp]: "c_texts v = c_texts w \<longleftrightarrow> v = w"
  by (simp add: c_texts_def inj_def)

section \<open>The parameters\<close>

record crypto =
  blake3 :: "bytes \<Rightarrow> b32"
  cbor_write :: "cval \<Rightarrow> bytes option"
  ed_public :: "b32 \<Rightarrow> b32"
  ed_point_ok :: "b32 \<Rightarrow> bool"
  ed_sign :: "b32 \<Rightarrow> bytes \<Rightarrow> bytes"
  ed_verify :: "b32 \<Rightarrow> bytes \<Rightarrow> bytes \<Rightarrow> bool"
  pq_public :: "bytes \<Rightarrow> bytes"
  pq_sign :: "bytes \<Rightarrow> bytes \<Rightarrow> bytes"
  pq_key_len :: nat
  pq_sig_len :: nat
  pq_sig_ok :: "bytes \<Rightarrow> bool"
  pq_verify :: "bytes \<Rightarrow> bytes \<Rightarrow> bytes \<Rightarrow> bool"

text \<open>
  \<open>ed_point_ok\<close> says whether \<open>VerifyingKey::from_bytes\<close> accepts 32 bytes; \<open>ed_verify\<close> is
  \<open>VerifyingKey::verify\<close> on a 64-byte signature. \<open>pq_key_len\<close> and \<open>pq_sig_len\<close> are the encoded
  lengths \<open>EncodedVerifyingKey\<close> and \<open>EncodedSignature\<close> require, \<open>pq_sig_ok\<close> says whether
  \<open>Signature::decode\<close> succeeds.
\<close>

definition crypto_ok :: "crypto \<Rightarrow> bool" where
  "crypto_ok X \<longleftrightarrow>
     (\<forall>v. cbor_write X v \<noteq> None) \<and>
     (\<forall>k. ed_point_ok X (ed_public X k)) \<and>
     (\<forall>k m. length (ed_sign X k m) = 64) \<and>
     (\<forall>k m. ed_verify X (ed_public X k) m (ed_sign X k m)) \<and>
     0 < pq_key_len X \<and> 0 < pq_sig_len X \<and>
     (\<forall>k. length (pq_public X k) = pq_key_len X) \<and>
     (\<forall>k m. length (pq_sign X k m) = pq_sig_len X) \<and>
     (\<forall>k m. pq_sig_ok X (pq_sign X k m)) \<and>
     (\<forall>k m. pq_verify X (pq_public X k) m (pq_sign X k m))"

text \<open>The CBOR writer encodes different items differently (it has a reader).\<close>

definition cbor_injective :: "crypto \<Rightarrow> bool" where
  "cbor_injective X \<longleftrightarrow> (\<forall>v w b. cbor_write X v = Some b \<longrightarrow> cbor_write X w = Some b \<longrightarrow> v = w)"

lemma crypto_okD:
  assumes "crypto_ok X"
  shows crypto_cbor_total: "\<exists>b. cbor_write X v = Some b"
    and crypto_point: "ed_point_ok X (ed_public X k)"
    and crypto_sign_length: "length (ed_sign X k m) = 64"
    and crypto_verify: "ed_verify X (ed_public X k) m (ed_sign X k m)"
    and crypto_pq_key_length: "length (pq_public X pk) = pq_key_len X"
    and crypto_pq_sig_length: "length (pq_sign X pk m) = pq_sig_len X"
    and crypto_pq_sig_ok: "pq_sig_ok X (pq_sign X pk m)"
    and crypto_pq_verify: "pq_verify X (pq_public X pk) m (pq_sign X pk m)"
    and crypto_pq_key_pos: "0 < pq_key_len X"
    and crypto_pq_sig_pos: "0 < pq_sig_len X"
  using assms by (simp_all add: crypto_ok_def)

lemmas crypto_simps [simp] = crypto_point crypto_sign_length crypto_verify crypto_pq_key_length
  crypto_pq_sig_length crypto_pq_sig_ok crypto_pq_verify

lemma crypto_sign_nonempty [simp]: "crypto_ok X \<Longrightarrow> ed_sign X k m \<noteq> []"
  by (metis crypto_sign_length list.size(3) zero_neq_numeral)

lemma crypto_pq_nonempty [simp]:
  assumes "crypto_ok X"
  shows "pq_public X k \<noteq> []" and "pq_sign X k m \<noteq> []"
proof -
  show "pq_public X k \<noteq> []"
    using crypto_pq_key_length [OF assms, of k] crypto_pq_key_pos [OF assms] by auto
  show "pq_sign X k m \<noteq> []"
    using crypto_pq_sig_length [OF assms, of k m] crypto_pq_sig_pos [OF assms] by auto
qed

lemma cbor_injectiveD:
  "cbor_injective X \<Longrightarrow> cbor_write X v = Some b \<Longrightarrow> cbor_write X w = Some b \<Longrightarrow> v = w"
  by (auto simp: cbor_injective_def)

section \<open>Strings and fixed byte strings\<close>

definition str_bytes :: "string \<Rightarrow> bytes" where
  "str_bytes s = map of_char s"

end
