(* ===== verification/Types.thy ===== *)
theory Types
  imports External
begin

text \<open>
  The shared data types (\<open>crates/types\<close>): identifiers, accounts, assets, capabilities, payments,
  receipts, checkpoints and the transactions of the global ledger, with the canonical
  transaction id and the CBOR form of what is hashed or logged. The newtypes of \<open>ids.rs\<close> are
  datatypes with one constructor; \<open>micros\<close>, \<open>epoch_num\<close> and so on are the code's \<open>.0\<close>. The
  suffix-free structs of the code become records with the struct's name as a field prefix.
\<close>

section \<open>Identifiers (ids.rs)\<close>

datatype types_error =
    EmptyShardId
  | UnsupportedCurrency string
  | CborEncode
  | CborDecode

datatype shard_id = ShardId (shard_str: string)
datatype epoch = Epoch (epoch_num: u64)
datatype sequence_no = Sequence (seq_num: u64)
datatype amount_micros = AmountMicros (micros: u128)
datatype account_id = AccountId (account_bytes: b32)
datatype agent_id = AgentId (agent_bytes: b32)
datatype capability_id = CapabilityId (capability_bytes: b32)
datatype asset_id = AssetId (asset_bytes: b32)

definition shard_id_new :: "string \<Rightarrow> types_error + shard_id" where
  "shard_id_new s = (if s = [] then Inl EmptyShardId else Inr (ShardId s))"

definition parse_currency :: "string \<Rightarrow> types_error + string" where
  "parse_currency s = (if s = ''EURC'' then Inr s else Inl (UnsupportedCurrency s))"

text \<open>The order the code derives for amounts is the order of the number.\<close>

instantiation amount_micros :: linorder
begin

definition less_eq_amount_micros :: "amount_micros \<Rightarrow> amount_micros \<Rightarrow> bool" where
  "less_eq_amount_micros a b \<longleftrightarrow> micros a \<le> micros b"

definition less_amount_micros :: "amount_micros \<Rightarrow> amount_micros \<Rightarrow> bool" where
  "less_amount_micros a b \<longleftrightarrow> micros a < micros b"

instance
  by standard (auto simp: less_eq_amount_micros_def less_amount_micros_def amount_micros.expand)

end

definition amt :: "amount_micros \<Rightarrow> nat" where
  "amt a = unat (micros a)"

lemma amt_AmountMicros [simp]: "amt (AmountMicros w) = unat w"
  by (simp add: amt_def)

lemma amt_less_pow [simp]: "amt a < 2 ^ 128"
  using unsigned_less [of "micros a"] by (simp add: amt_def)

lemma micros_le_amt [arith_simps]: "micros a \<le> micros b \<longleftrightarrow> amt a \<le> amt b"
  by (simp add: amt_def word_le_nat_alt)

lemma micros_less_amt [arith_simps]: "micros a < micros b \<longleftrightarrow> amt a < amt b"
  by (simp add: amt_def word_less_nat_alt)

lemma amt_inj: "amt a = amt b \<longleftrightarrow> a = b"
  by (cases a; cases b) (auto simp: word_unat_eq_iff)

section \<open>Accounts and assets (account.rs, asset.rs)\<close>

datatype account_kind = Human | Agent | Contract

record account =
  acc_id :: account_id
  acc_kind :: account_kind
  balance_available :: amount_micros
  balance_locked :: amount_micros
  stake :: amount_micros
  acc_agent_id :: "agent_id option"
  acc_reputation :: i64
  acc_suspended :: bool

definition new_human :: "account_id \<Rightarrow> amount_micros \<Rightarrow> account" where
  "new_human i balance =
     \<lparr> acc_id = i, acc_kind = Human, balance_available = balance,
       balance_locked = AmountMicros 0, stake = AmountMicros 0, acc_agent_id = None,
       acc_reputation = 0, acc_suspended = False \<rparr>"

definition new_agent :: "account_id \<Rightarrow> agent_id \<Rightarrow> amount_micros \<Rightarrow> account" where
  "new_agent i agent balance =
     \<lparr> acc_id = i, acc_kind = Agent, balance_available = balance,
       balance_locked = AmountMicros 0, stake = AmountMicros 0, acc_agent_id = Some agent,
       acc_reputation = 0, acc_suspended = False \<rparr>"

type_synonym asset_units = u128

record asset =
  as_asset_id :: asset_id
  as_symbol :: string
  as_name :: string
  as_issuer :: account_id
  as_decimals :: u8
  as_max_supply :: asset_units
  as_minted :: asset_units

section \<open>Capabilities (capability.rs)\<close>

record spend_capability =
  cap_capability_id :: capability_id
  cap_account_id :: account_id
  cap_agent_id :: agent_id
  cap_shard_id :: shard_id
  cap_epoch :: epoch
  cap_currency :: string
  cap_maximum_total :: amount_micros
  cap_maximum_per_call :: amount_micros
  cap_service_scope :: "string list"
  cap_policy_hash :: b32
  cap_sequence_start :: sequence_no
  cap_sequence_end :: sequence_no
  cap_valid_from_unix_ms :: u64
  cap_valid_until_unix_ms :: u64
  cap_region :: string
  cap_issuer_alg :: u16
  cap_issuer_pubkey :: b32
  cap_issuer_signature :: bytes
  cap_issuer_pq_pubkey :: bytes
  cap_issuer_pq_signature :: bytes

datatype epoch_state = Active | Fenced | Expired

section \<open>Payments (pay.rs)\<close>

record pay =
  pay_capability_id :: capability_id
  pay_epoch :: epoch
  pay_sequence :: sequence_no
  pay_agent_id :: agent_id
  pay_service_id :: string
  pay_amount :: amount_micros
  pay_currency :: string
  pay_request_hash :: b32
  pay_price_quote_hash :: b32
  pay_max_amount :: amount_micros
  pay_pricing_schedule_version :: u64
  pay_expiry_unix_ms :: u64
  pay_agent_signature :: bytes

definition tx_id_input :: "pay \<Rightarrow> bytes" where
  "tx_id_input p =
     b32_bytes (capability_bytes (pay_capability_id p))
     @ le_bytes 8 (epoch_num (pay_epoch p))
     @ le_bytes 8 (seq_num (pay_sequence p))
     @ b32_bytes (pay_request_hash p)"

definition tx_id :: "crypto \<Rightarrow> pay \<Rightarrow> b32" where
  "tx_id X p = blake3 X (tx_id_input p)"

definition encode_cbor :: "crypto \<Rightarrow> cval \<Rightarrow> types_error + bytes" where
  "encode_cbor X v = (case cbor_write X v of None \<Rightarrow> Inl CborEncode | Some b \<Rightarrow> Inr b)"

lemma encode_cbor_total: "crypto_ok X \<Longrightarrow> \<exists>b. encode_cbor X v = Inr b"
  using crypto_cbor_total [of X v] by (auto simp: encode_cbor_def)

lemma encode_cbor_inj:
  "cbor_injective X \<Longrightarrow> encode_cbor X v = Inr b \<Longrightarrow> encode_cbor X w = Inr b \<Longrightarrow> v = w"
  by (auto simp: encode_cbor_def split: option.splits dest: cbor_injectiveD)

section \<open>Receipts (receipt.rs)\<close>

record agent_authorization =
  aa_pay_cbor_hash :: b32
  aa_agent_signature :: bytes

record edge_acceptance =
  ea_agent_auth_hash :: b32
  ea_commit_index :: u64
  ea_tx_id :: b32
  ea_edge_pubkey :: b32
  ea_edge_signature :: bytes

record service_receipt =
  sr_edge_accept_hash :: b32
  sr_execution_hash :: b32
  sr_actual_amount :: amount_micros
  sr_service_pubkey :: b32
  sr_service_signature :: bytes

record payment_proof =
  pp_agent :: agent_authorization
  pp_edge :: edge_acceptance
  pp_service :: service_receipt

definition hash_bytes :: "crypto \<Rightarrow> bytes \<Rightarrow> b32" where
  "hash_bytes X bs = blake3 X bs"

definition hash_cbor :: "crypto \<Rightarrow> cval \<Rightarrow> types_error + b32" where
  "hash_cbor X v = (case encode_cbor X v of Inl e \<Rightarrow> Inl e | Inr bs \<Rightarrow> Inr (hash_bytes X bs))"

definition c_amount :: "amount_micros \<Rightarrow> cval" where "c_amount a = CUint (micros a)"
definition c_epoch :: "epoch \<Rightarrow> cval" where "c_epoch e = c_u64 (epoch_num e)"
definition c_seq :: "sequence_no \<Rightarrow> cval" where "c_seq s = c_u64 (seq_num s)"
definition c_shard :: "shard_id \<Rightarrow> cval" where "c_shard s = CText (shard_str s)"

lemma c_newtype_inj [cval_inj, simp]:
  "c_amount a = c_amount b \<longleftrightarrow> a = b"
  "c_epoch e = c_epoch e' \<longleftrightarrow> e = e'"
  "c_seq s = c_seq s' \<longleftrightarrow> s = s'"
  "c_shard d = c_shard d' \<longleftrightarrow> d = d'"
  by (auto simp: c_amount_def c_epoch_def c_seq_def c_shard_def amount_micros.expand
      epoch.expand sequence_no.expand shard_id.expand)

definition ser_pay :: "pay \<Rightarrow> cval" where
  "ser_pay p = CMap
     [(''capability_id'', c_b32 (capability_bytes (pay_capability_id p))),
      (''epoch'', c_epoch (pay_epoch p)),
      (''sequence'', c_seq (pay_sequence p)),
      (''agent_id'', c_b32 (agent_bytes (pay_agent_id p))),
      (''service_id'', CText (pay_service_id p)),
      (''amount'', c_amount (pay_amount p)),
      (''currency'', CText (pay_currency p)),
      (''request_hash'', c_b32 (pay_request_hash p)),
      (''price_quote_hash'', c_b32 (pay_price_quote_hash p)),
      (''max_amount'', c_amount (pay_max_amount p)),
      (''pricing_schedule_version'', c_u64 (pay_pricing_schedule_version p)),
      (''expiry_unix_ms'', c_u64 (pay_expiry_unix_ms p)),
      (''agent_signature'', c_bytes (pay_agent_signature p))]"

definition ser_agent_authorization :: "agent_authorization \<Rightarrow> cval" where
  "ser_agent_authorization a = CMap
     [(''pay_cbor_hash'', c_b32 (aa_pay_cbor_hash a)),
      (''agent_signature'', c_bytes (aa_agent_signature a))]"

definition ser_edge_acceptance :: "edge_acceptance \<Rightarrow> cval" where
  "ser_edge_acceptance e = CMap
     [(''agent_auth_hash'', c_b32 (ea_agent_auth_hash e)),
      (''commit_index'', c_u64 (ea_commit_index e)),
      (''tx_id'', c_b32 (ea_tx_id e)),
      (''edge_pubkey'', c_b32 (ea_edge_pubkey e)),
      (''edge_signature'', c_bytes (ea_edge_signature e))]"

definition ser_service_receipt :: "service_receipt \<Rightarrow> cval" where
  "ser_service_receipt s = CMap
     [(''edge_accept_hash'', c_b32 (sr_edge_accept_hash s)),
      (''execution_hash'', c_b32 (sr_execution_hash s)),
      (''actual_amount'', c_amount (sr_actual_amount s)),
      (''service_pubkey'', c_b32 (sr_service_pubkey s)),
      (''service_signature'', c_bytes (sr_service_signature s))]"

definition ser_payment_proof :: "payment_proof \<Rightarrow> cval" where
  "ser_payment_proof p = CMap
     [(''agent'', ser_agent_authorization (pp_agent p)),
      (''edge'', ser_edge_acceptance (pp_edge p)),
      (''service'', ser_service_receipt (pp_service p))]"

definition receipt_leaf_hash :: "crypto \<Rightarrow> payment_proof \<Rightarrow> types_error + b32" where
  "receipt_leaf_hash X p = hash_cbor X (ser_payment_proof p)"

lemma hash_cbor_total: "crypto_ok X \<Longrightarrow> \<exists>h. hash_cbor X v = Inr h"
  using encode_cbor_total [of X v] by (auto simp: hash_cbor_def)

section \<open>Checkpoints (checkpoint.rs)\<close>

record checkpoint_header =
  hd_shard_id :: shard_id
  hd_epoch :: epoch
  hd_root :: b32
  hd_height :: u64
  hd_tx_count :: u64
  hd_exposure :: amount_micros
  hd_sealed_at_unix_ms :: u64

record signed_checkpoint =
  sc_header :: checkpoint_header
  sc_shard_signer_pubkey :: b32
  sc_shard_signature :: bytes

record witness_sig =
  ws_witness_pubkey :: b32
  ws_signature :: bytes

record witnessed_checkpoint =
  wc_checkpoint :: signed_checkpoint
  wc_witness_sigs :: "witness_sig list"

section \<open>Ledger transactions (l1\_tx.rs)\<close>

datatype dispute_status = Open | ResolvedForPlaintiff | ResolvedForDefendant

record dispute =
  dis_id :: b32
  dis_plaintiff :: account_id
  dis_defendant :: account_id
  dis_bond :: amount_micros
  dis_status :: dispute_status
  dis_evidence_hash :: b32

datatype l1_tx =
    GenesisFund account_id amount_micros
  | Stake account_id amount_micros
  | Unstake account_id amount_micros
  | AllocateShardAllowance account_id shard_id amount_micros
  | CheckpointFinalized witnessed_checkpoint account_id
  | SlashConflict shard_id epoch u64 account_id amount_micros
  | RegisterAgent account_id agent_id b32
  | SuspendAgent agent_id
  | UpdateReputation agent_id i64 b32
  | DeployContract account_id b32 bytes
  | CallContract account_id b32 string i32 i32 u64
  | OpenDispute b32 account_id account_id amount_micros b32
  | ResolveDispute b32 bool
  | RegisterAsset asset_id account_id string string u8 asset_units
  | MintAsset asset_id account_id account_id asset_units
  | TransferAsset asset_id account_id account_id asset_units
  | SpotTrade asset_id account_id account_id asset_units amount_micros

record signed_l1_tx =
  sl_tx :: l1_tx
  sl_proposer :: b32
  sl_signature :: bytes

section \<open>What the transaction id binds\<close>

text \<open>The bytes hashed into the transaction id determine the four fields they are made of.\<close>

lemma tx_id_input_inj:
  "tx_id_input p = tx_id_input q \<longleftrightarrow>
     pay_capability_id p = pay_capability_id q \<and> pay_epoch p = pay_epoch q \<and>
     pay_sequence p = pay_sequence q \<and> pay_request_hash p = pay_request_hash q"
  by (auto simp: tx_id_input_def capability_id.expand epoch.expand sequence_no.expand)

end
