(* ===== verification/Signing.thy ===== *)
theory Signing
  imports Types
begin

text \<open>
  Signatures (\<open>crates/crypto\<close>): the bodies that are signed for payments, capabilities, edge
  acceptances and service receipts, the sign and verify functions, and the hybrid
  Ed25519 + MlDsa65 sealing of capabilities. The locale \<open>sig_scheme\<close> is the interface between a
  signer and its verifier; each pair of functions interprets it. A panic of \<open>expect\<close> in a sign
  function is \<open>None\<close>.
\<close>

section \<open>Keys and algorithm identifiers (keys.rs, alg.rs)\<close>

datatype key_domain = Root | Issuance | Edge | AgentSession | ServiceReceipt | Settlement | Audit

datatype keypair = Keypair (signing_key: b32)
datatype vkey = VKey (vkey_bytes: b32)
datatype pq_keypair = PqKeypair (pq_seed: bytes)

text \<open>\<open>Keypair::generate\<close>: the bytes drawn from the system's generator are the argument.\<close>

definition keypair_generate :: "b32 \<Rightarrow> keypair" where
  "keypair_generate drawn = Keypair drawn"

definition verifying_key :: "crypto \<Rightarrow> keypair \<Rightarrow> vkey" where
  "verifying_key X kp = VKey (ed_public X (signing_key kp))"

definition verifying_key_bytes :: "crypto \<Rightarrow> keypair \<Rightarrow> b32" where
  "verifying_key_bytes X kp = vkey_bytes (verifying_key X kp)"

definition keypair_from_bytes :: "b32 \<Rightarrow> keypair" where
  "keypair_from_bytes bs = Keypair bs"

datatype algorithm_id = Ed25519 | MlDsa65 | HybridEd25519MlDsa65

definition alg_from_u16 :: "u16 \<Rightarrow> algorithm_id option" where
  "alg_from_u16 v =
     (if v = 1 then Some Ed25519 else if v = 2 then Some MlDsa65
      else if v = 3 then Some HybridEd25519MlDsa65 else None)"

fun alg_as_u16 :: "algorithm_id \<Rightarrow> u16" where
  "alg_as_u16 Ed25519 = 1"
| "alg_as_u16 MlDsa65 = 2"
| "alg_as_u16 HybridEd25519MlDsa65 = 3"

lemma alg_round_trip [simp]: "alg_from_u16 (alg_as_u16 a) = Some a"
  by (cases a) (simp_all add: alg_from_u16_def)

lemma alg_from_u16_Some: "alg_from_u16 v = Some a \<longleftrightarrow> v = alg_as_u16 a"
  by (cases a) (auto simp: alg_from_u16_def split: if_splits)

section \<open>The interface of a signature scheme\<close>

text \<open>
  \<open>attach s m\<close> stores the signature in the message, \<open>sign\<close> ignores the stored signature, and
  what was signed and attached verifies under the signer's public key.
\<close>

locale sig_scheme =
  fixes lawful :: "'x \<Rightarrow> bool"
    and sign :: "'x \<Rightarrow> 'k \<Rightarrow> 'm \<Rightarrow> bytes option"
    and pub :: "'x \<Rightarrow> 'k \<Rightarrow> 'v"
    and attach :: "bytes \<Rightarrow> 'm \<Rightarrow> 'm"
    and verify :: "'x \<Rightarrow> 'v \<Rightarrow> 'm \<Rightarrow> 'e + unit"
  assumes sign_total: "lawful X \<Longrightarrow> \<exists>s. sign X k m = Some s"
    and sign_attach: "sign X k (attach s m) = sign X k m"
    and attach_attach: "attach s (attach t m) = attach s m"
    and verify_attached: "lawful X \<Longrightarrow> sign X k m = Some s \<Longrightarrow> verify X (pub X k) (attach s m) = Inr ()"
begin

lemma seal_verifies:
  "lawful X \<Longrightarrow> \<exists>s. sign X k m = Some s \<and> verify X (pub X k) (attach s m) = Inr ()"
  using sign_total verify_attached by blast

lemma resign_stable: "sign X k m = Some s \<Longrightarrow> sign X k (attach s m) = Some s"
  by (simp add: sign_attach)

lemma reseal_verifies:
  "lawful X \<Longrightarrow> sign X k m = Some s \<Longrightarrow> verify X (pub X k) (attach s (attach t m)) = Inr ()"
  by (simp add: attach_attach verify_attached)

end

section \<open>Signing and verifying an item (the shape shared by sign.rs and receipt\_sign.rs)\<close>

datatype crypto_error = EmptySignature | InvalidSignature | InvalidVerifyingKey | CryptoCborEncode

definition sign_item :: "crypto \<Rightarrow> keypair \<Rightarrow> cval \<Rightarrow> bytes option" where
  "sign_item X kp body =
     (case encode_cbor X body of Inl _ \<Rightarrow> None | Inr bs \<Rightarrow> Some (ed_sign X (signing_key kp) bs))"

definition verify_item :: "crypto \<Rightarrow> vkey \<Rightarrow> cval \<Rightarrow> bytes \<Rightarrow> crypto_error + unit" where
  "verify_item X vk body sig =
     (if sig = [] then Inl EmptySignature
      else case encode_cbor X body of
        Inl _ \<Rightarrow> Inl CryptoCborEncode
      | Inr bs \<Rightarrow>
          if length sig \<noteq> 64 then Inl InvalidSignature
          else if ed_verify X (vkey_bytes vk) bs sig then Inr () else Inl InvalidSignature)"

definition verifying_key_from_bytes :: "crypto \<Rightarrow> b32 \<Rightarrow> crypto_error + vkey" where
  "verifying_key_from_bytes X bs = (if ed_point_ok X bs then Inr (VKey bs) else Inl InvalidVerifyingKey)"

lemma sign_item_total: "crypto_ok X \<Longrightarrow> \<exists>s. sign_item X k b = Some s"
  using encode_cbor_total [of X b] by (auto simp: sign_item_def)

lemma verify_sign_item:
  "crypto_ok X \<Longrightarrow> sign_item X k b = Some s \<Longrightarrow> verify_item X (verifying_key X k) b s = Inr ()"
  by (auto simp: sign_item_def verify_item_def verifying_key_def split: sum.splits)

lemma verify_item_Inr:
  "verify_item X vk b s = Inr () \<longleftrightarrow>
     length s = 64 \<and> (\<exists>bs. encode_cbor X b = Inr bs \<and> ed_verify X (vkey_bytes vk) bs s)"
  by (auto simp: verify_item_def split: sum.splits)

lemma verifying_key_from_own [simp]:
  "crypto_ok X \<Longrightarrow> verifying_key_from_bytes X (verifying_key_bytes X k) = Inr (verifying_key X k)"
  by (simp add: verifying_key_from_bytes_def verifying_key_bytes_def verifying_key_def)

section \<open>Payments and capabilities (sign.rs)\<close>

record pay_sign_body =
  psb_domain :: string
  psb_capability_id :: b32
  psb_epoch :: u64
  psb_sequence :: u64
  psb_agent_id :: b32
  psb_service_id :: string
  psb_amount :: u128
  psb_currency :: string
  psb_request_hash :: b32
  psb_price_quote_hash :: b32
  psb_max_amount :: u128
  psb_pricing_schedule_version :: u64
  psb_expiry_unix_ms :: u64

definition ser_pay_sign_body :: "pay_sign_body \<Rightarrow> cval" where
  "ser_pay_sign_body b = CMap
     [(''domain'', CText (psb_domain b)),
      (''capability_id'', c_b32 (psb_capability_id b)),
      (''epoch'', c_u64 (psb_epoch b)),
      (''sequence'', c_u64 (psb_sequence b)),
      (''agent_id'', c_b32 (psb_agent_id b)),
      (''service_id'', CText (psb_service_id b)),
      (''amount'', CUint (psb_amount b)),
      (''currency'', CText (psb_currency b)),
      (''request_hash'', c_b32 (psb_request_hash b)),
      (''price_quote_hash'', c_b32 (psb_price_quote_hash b)),
      (''max_amount'', CUint (psb_max_amount b)),
      (''pricing_schedule_version'', c_u64 (psb_pricing_schedule_version b)),
      (''expiry_unix_ms'', c_u64 (psb_expiry_unix_ms b))]"

definition pay_sign_body_of :: "pay \<Rightarrow> pay_sign_body" where
  "pay_sign_body_of p =
     \<lparr> psb_domain = ''PAY'', psb_capability_id = capability_bytes (pay_capability_id p),
       psb_epoch = epoch_num (pay_epoch p), psb_sequence = seq_num (pay_sequence p),
       psb_agent_id = agent_bytes (pay_agent_id p), psb_service_id = pay_service_id p,
       psb_amount = micros (pay_amount p), psb_currency = pay_currency p,
       psb_request_hash = pay_request_hash p, psb_price_quote_hash = pay_price_quote_hash p,
       psb_max_amount = micros (pay_max_amount p),
       psb_pricing_schedule_version = pay_pricing_schedule_version p,
       psb_expiry_unix_ms = pay_expiry_unix_ms p \<rparr>"

definition pay_body :: "pay \<Rightarrow> cval" where
  "pay_body p = ser_pay_sign_body (pay_sign_body_of p)"

lemmas pay_body_cbor =
  pay_body_def [unfolded ser_pay_sign_body_def pay_sign_body_of_def pay_sign_body.select_convs]

record capability_sign_body =
  csb_domain :: string
  csb_capability_id :: b32
  csb_account_id :: b32
  csb_agent_id :: b32
  csb_shard_id :: string
  csb_epoch :: u64
  csb_currency :: string
  csb_maximum_total :: u128
  csb_maximum_per_call :: u128
  csb_service_scope :: "string list"
  csb_policy_hash :: b32
  csb_sequence_start :: u64
  csb_sequence_end :: u64
  csb_valid_from_unix_ms :: u64
  csb_valid_until_unix_ms :: u64
  csb_region :: string
  csb_issuer_pubkey :: b32

definition ser_capability_sign_body :: "capability_sign_body \<Rightarrow> cval" where
  "ser_capability_sign_body b = CMap
     [(''domain'', CText (csb_domain b)),
      (''capability_id'', c_b32 (csb_capability_id b)),
      (''account_id'', c_b32 (csb_account_id b)),
      (''agent_id'', c_b32 (csb_agent_id b)),
      (''shard_id'', CText (csb_shard_id b)),
      (''epoch'', c_u64 (csb_epoch b)),
      (''currency'', CText (csb_currency b)),
      (''maximum_total'', CUint (csb_maximum_total b)),
      (''maximum_per_call'', CUint (csb_maximum_per_call b)),
      (''service_scope'', c_texts (csb_service_scope b)),
      (''policy_hash'', c_b32 (csb_policy_hash b)),
      (''sequence_start'', c_u64 (csb_sequence_start b)),
      (''sequence_end'', c_u64 (csb_sequence_end b)),
      (''valid_from_unix_ms'', c_u64 (csb_valid_from_unix_ms b)),
      (''valid_until_unix_ms'', c_u64 (csb_valid_until_unix_ms b)),
      (''region'', CText (csb_region b)),
      (''issuer_pubkey'', c_b32 (csb_issuer_pubkey b))]"

definition capability_sign_body_of :: "spend_capability \<Rightarrow> capability_sign_body" where
  "capability_sign_body_of c =
     \<lparr> csb_domain = ''CAPABILITY'', csb_capability_id = capability_bytes (cap_capability_id c),
       csb_account_id = account_bytes (cap_account_id c), csb_agent_id = agent_bytes (cap_agent_id c),
       csb_shard_id = shard_str (cap_shard_id c), csb_epoch = epoch_num (cap_epoch c),
       csb_currency = cap_currency c, csb_maximum_total = micros (cap_maximum_total c),
       csb_maximum_per_call = micros (cap_maximum_per_call c), csb_service_scope = cap_service_scope c,
       csb_policy_hash = cap_policy_hash c, csb_sequence_start = seq_num (cap_sequence_start c),
       csb_sequence_end = seq_num (cap_sequence_end c),
       csb_valid_from_unix_ms = cap_valid_from_unix_ms c,
       csb_valid_until_unix_ms = cap_valid_until_unix_ms c, csb_region = cap_region c,
       csb_issuer_pubkey = cap_issuer_pubkey c \<rparr>"

definition capability_body :: "spend_capability \<Rightarrow> cval" where
  "capability_body c = ser_capability_sign_body (capability_sign_body_of c)"

lemmas capability_body_cbor =
  capability_body_def [unfolded ser_capability_sign_body_def capability_sign_body_of_def capability_sign_body.select_convs]

definition sign_pay :: "crypto \<Rightarrow> keypair \<Rightarrow> pay \<Rightarrow> bytes option" where
  "sign_pay X agent p = sign_item X agent (pay_body p)"

definition verify_pay :: "crypto \<Rightarrow> vkey \<Rightarrow> pay \<Rightarrow> crypto_error + unit" where
  "verify_pay X agent_vk p = verify_item X agent_vk (pay_body p) (pay_agent_signature p)"

definition sign_capability :: "crypto \<Rightarrow> keypair \<Rightarrow> spend_capability \<Rightarrow> bytes option" where
  "sign_capability X issuer c = sign_item X issuer (capability_body c)"

definition verify_capability :: "crypto \<Rightarrow> vkey \<Rightarrow> spend_capability \<Rightarrow> crypto_error + unit" where
  "verify_capability X issuer_vk c = verify_item X issuer_vk (capability_body c) (cap_issuer_signature c)"

definition attach_pay :: "bytes \<Rightarrow> pay \<Rightarrow> pay" where
  "attach_pay s p = p\<lparr>pay_agent_signature := s\<rparr>"

definition attach_capability :: "bytes \<Rightarrow> spend_capability \<Rightarrow> spend_capability" where
  "attach_capability s c = c\<lparr>cap_issuer_signature := s\<rparr>"

lemma pay_body_attach [simp]: "pay_body (p\<lparr>pay_agent_signature := s\<rparr>) = pay_body p"
  by (simp add: pay_body_cbor)

lemma capability_body_attach [simp]:
  "capability_body (c\<lparr>cap_issuer_signature := s\<rparr>) = capability_body c"
  "capability_body (c\<lparr>cap_issuer_pq_signature := t\<rparr>) = capability_body c"
  by (simp_all add: capability_body_cbor)

interpretation pay_sig: sig_scheme crypto_ok sign_pay verifying_key attach_pay verify_pay
  by unfold_locales
    (simp_all add: sign_pay_def attach_pay_def verify_pay_def sign_item_total verify_sign_item)

interpretation capability_sig:
  sig_scheme crypto_ok sign_capability verifying_key attach_capability verify_capability
  by unfold_locales
    (simp_all add: sign_capability_def attach_capability_def verify_capability_def sign_item_total
      verify_sign_item)

text \<open>A payment body determines every field of the payment but its signature.\<close>

lemma pay_body_inj:
  "pay_body p = pay_body q \<longleftrightarrow> p\<lparr>pay_agent_signature := []\<rparr> = q\<lparr>pay_agent_signature := []\<rparr>"
  by (cases p; cases q)
    (auto simp: pay_body_cbor capability_id.expand epoch.expand sequence_no.expand agent_id.expand
      amount_micros.expand)

text \<open>
  A capability body determines every field but the signatures, the algorithm identifier and
  the lattice key: those are not under the classical signature.
\<close>

definition classical_part :: "spend_capability \<Rightarrow> spend_capability" where
  "classical_part c = c\<lparr>cap_issuer_alg := 0, cap_issuer_signature := [],
     cap_issuer_pq_pubkey := [], cap_issuer_pq_signature := []\<rparr>"

lemma capability_body_inj:
  "capability_body c = capability_body d \<longleftrightarrow> classical_part c = classical_part d"
  by (cases c; cases d)
    (auto simp: capability_body_cbor classical_part_def capability_id.expand account_id.expand
      epoch.expand sequence_no.expand agent_id.expand shard_id.expand amount_micros.expand)

section \<open>Receipts (receipt\_sign.rs)\<close>

record edge_sign_body =
  esb_domain :: string
  esb_agent_auth_hash :: b32
  esb_commit_index :: u64
  esb_tx_id :: b32
  esb_edge_pubkey :: b32

definition ser_edge_sign_body :: "edge_sign_body \<Rightarrow> cval" where
  "ser_edge_sign_body b = CMap
     [(''domain'', CText (esb_domain b)),
      (''agent_auth_hash'', c_b32 (esb_agent_auth_hash b)),
      (''commit_index'', c_u64 (esb_commit_index b)),
      (''tx_id'', c_b32 (esb_tx_id b)),
      (''edge_pubkey'', c_b32 (esb_edge_pubkey b))]"

definition edge_sign_body_of :: "edge_acceptance \<Rightarrow> edge_sign_body" where
  "edge_sign_body_of e =
     \<lparr> esb_domain = ''EDGE_ACCEPT'', esb_agent_auth_hash = ea_agent_auth_hash e,
       esb_commit_index = ea_commit_index e, esb_tx_id = ea_tx_id e, esb_edge_pubkey = ea_edge_pubkey e \<rparr>"

definition edge_body :: "edge_acceptance \<Rightarrow> cval" where
  "edge_body e = ser_edge_sign_body (edge_sign_body_of e)"

lemmas edge_body_cbor =
  edge_body_def [unfolded ser_edge_sign_body_def edge_sign_body_of_def edge_sign_body.select_convs]

record service_sign_body =
  ssb_domain :: string
  ssb_edge_accept_hash :: b32
  ssb_execution_hash :: b32
  ssb_actual_amount :: u128
  ssb_service_pubkey :: b32

definition ser_service_sign_body :: "service_sign_body \<Rightarrow> cval" where
  "ser_service_sign_body b = CMap
     [(''domain'', CText (ssb_domain b)),
      (''edge_accept_hash'', c_b32 (ssb_edge_accept_hash b)),
      (''execution_hash'', c_b32 (ssb_execution_hash b)),
      (''actual_amount'', CUint (ssb_actual_amount b)),
      (''service_pubkey'', c_b32 (ssb_service_pubkey b))]"

definition service_sign_body_of :: "service_receipt \<Rightarrow> service_sign_body" where
  "service_sign_body_of s =
     \<lparr> ssb_domain = ''SERVICE_RECEIPT'', ssb_edge_accept_hash = sr_edge_accept_hash s,
       ssb_execution_hash = sr_execution_hash s, ssb_actual_amount = micros (sr_actual_amount s),
       ssb_service_pubkey = sr_service_pubkey s \<rparr>"

definition service_body :: "service_receipt \<Rightarrow> cval" where
  "service_body s = ser_service_sign_body (service_sign_body_of s)"

lemmas service_body_cbor =
  service_body_def [unfolded ser_service_sign_body_def service_sign_body_of_def service_sign_body.select_convs]

definition sign_edge_acceptance :: "crypto \<Rightarrow> keypair \<Rightarrow> edge_acceptance \<Rightarrow> bytes option" where
  "sign_edge_acceptance X edge e = sign_item X edge (edge_body e)"

definition verify_edge_acceptance :: "crypto \<Rightarrow> vkey \<Rightarrow> edge_acceptance \<Rightarrow> crypto_error + unit" where
  "verify_edge_acceptance X vk e = verify_item X vk (edge_body e) (ea_edge_signature e)"

definition sign_service_receipt :: "crypto \<Rightarrow> keypair \<Rightarrow> service_receipt \<Rightarrow> bytes option" where
  "sign_service_receipt X service s = sign_item X service (service_body s)"

definition verify_service_receipt :: "crypto \<Rightarrow> vkey \<Rightarrow> service_receipt \<Rightarrow> crypto_error + unit" where
  "verify_service_receipt X vk s = verify_item X vk (service_body s) (sr_service_signature s)"

definition attach_edge :: "bytes \<Rightarrow> edge_acceptance \<Rightarrow> edge_acceptance" where
  "attach_edge s e = e\<lparr>ea_edge_signature := s\<rparr>"

definition attach_service :: "bytes \<Rightarrow> service_receipt \<Rightarrow> service_receipt" where
  "attach_service s r = r\<lparr>sr_service_signature := s\<rparr>"

lemma receipt_body_attach [simp]:
  "edge_body (e\<lparr>ea_edge_signature := s\<rparr>) = edge_body e"
  "service_body (r\<lparr>sr_service_signature := s\<rparr>) = service_body r"
  by (simp_all add: edge_body_cbor service_body_cbor)

interpretation edge_sig:
  sig_scheme crypto_ok sign_edge_acceptance verifying_key attach_edge verify_edge_acceptance
  by unfold_locales
    (simp_all add: sign_edge_acceptance_def attach_edge_def verify_edge_acceptance_def
      sign_item_total verify_sign_item)

interpretation service_sig:
  sig_scheme crypto_ok sign_service_receipt verifying_key attach_service verify_service_receipt
  by unfold_locales
    (simp_all add: sign_service_receipt_def attach_service_def verify_service_receipt_def
      sign_item_total verify_sign_item)

section \<open>Lattice signatures (pq.rs)\<close>

definition pq_keypair_generate :: "bytes \<Rightarrow> pq_keypair" where
  "pq_keypair_generate drawn = PqKeypair drawn"

definition pq_verifying_key_bytes :: "crypto \<Rightarrow> pq_keypair \<Rightarrow> bytes" where
  "pq_verifying_key_bytes X kp = pq_public X (pq_seed kp)"

definition pq_keypair_sign :: "crypto \<Rightarrow> pq_keypair \<Rightarrow> bytes \<Rightarrow> bytes" where
  "pq_keypair_sign X kp msg = pq_sign X (pq_seed kp) msg"

definition verify_pq :: "crypto \<Rightarrow> bytes \<Rightarrow> bytes \<Rightarrow> bytes \<Rightarrow> crypto_error + unit" where
  "verify_pq X pubkey msg sig =
     (if length pubkey \<noteq> pq_key_len X then Inl InvalidVerifyingKey
      else if length sig \<noteq> pq_sig_len X then Inl InvalidSignature
      else if \<not> pq_sig_ok X sig then Inl InvalidSignature
      else if pq_verify X pubkey msg sig then Inr () else Inl InvalidSignature)"

section \<open>Hybrid capabilities (hybrid.rs)\<close>

record hybrid_cap_body =
  hcb_domain :: string
  hcb_alg :: u16
  hcb_capability_id :: b32
  hcb_account_id :: b32
  hcb_agent_id :: b32
  hcb_shard_id :: string
  hcb_epoch :: u64
  hcb_currency :: string
  hcb_maximum_total :: u128
  hcb_maximum_per_call :: u128
  hcb_service_scope :: "string list"
  hcb_policy_hash :: b32
  hcb_sequence_start :: u64
  hcb_sequence_end :: u64
  hcb_valid_from_unix_ms :: u64
  hcb_valid_until_unix_ms :: u64
  hcb_region :: string
  hcb_issuer_pubkey :: b32
  hcb_issuer_pq_pubkey :: bytes

definition ser_hybrid_cap_body :: "hybrid_cap_body \<Rightarrow> cval" where
  "ser_hybrid_cap_body b = CMap
     [(''domain'', CText (hcb_domain b)),
      (''alg'', c_u16 (hcb_alg b)),
      (''capability_id'', c_b32 (hcb_capability_id b)),
      (''account_id'', c_b32 (hcb_account_id b)),
      (''agent_id'', c_b32 (hcb_agent_id b)),
      (''shard_id'', CText (hcb_shard_id b)),
      (''epoch'', c_u64 (hcb_epoch b)),
      (''currency'', CText (hcb_currency b)),
      (''maximum_total'', CUint (hcb_maximum_total b)),
      (''maximum_per_call'', CUint (hcb_maximum_per_call b)),
      (''service_scope'', c_texts (hcb_service_scope b)),
      (''policy_hash'', c_b32 (hcb_policy_hash b)),
      (''sequence_start'', c_u64 (hcb_sequence_start b)),
      (''sequence_end'', c_u64 (hcb_sequence_end b)),
      (''valid_from_unix_ms'', c_u64 (hcb_valid_from_unix_ms b)),
      (''valid_until_unix_ms'', c_u64 (hcb_valid_until_unix_ms b)),
      (''region'', CText (hcb_region b)),
      (''issuer_pubkey'', c_b32 (hcb_issuer_pubkey b)),
      (''issuer_pq_pubkey'', c_bytes (hcb_issuer_pq_pubkey b))]"

definition hybrid_cap_body_of :: "spend_capability \<Rightarrow> hybrid_cap_body" where
  "hybrid_cap_body_of c =
     \<lparr> hcb_domain = ''CAPABILITY_HYBRID'', hcb_alg = alg_as_u16 HybridEd25519MlDsa65,
       hcb_capability_id = capability_bytes (cap_capability_id c),
       hcb_account_id = account_bytes (cap_account_id c), hcb_agent_id = agent_bytes (cap_agent_id c),
       hcb_shard_id = shard_str (cap_shard_id c), hcb_epoch = epoch_num (cap_epoch c),
       hcb_currency = cap_currency c, hcb_maximum_total = micros (cap_maximum_total c),
       hcb_maximum_per_call = micros (cap_maximum_per_call c), hcb_service_scope = cap_service_scope c,
       hcb_policy_hash = cap_policy_hash c, hcb_sequence_start = seq_num (cap_sequence_start c),
       hcb_sequence_end = seq_num (cap_sequence_end c),
       hcb_valid_from_unix_ms = cap_valid_from_unix_ms c,
       hcb_valid_until_unix_ms = cap_valid_until_unix_ms c, hcb_region = cap_region c,
       hcb_issuer_pubkey = cap_issuer_pubkey c, hcb_issuer_pq_pubkey = cap_issuer_pq_pubkey c \<rparr>"

definition hybrid_body :: "spend_capability \<Rightarrow> cval" where
  "hybrid_body c = ser_hybrid_cap_body (hybrid_cap_body_of c)"

lemmas hybrid_body_cbor =
  hybrid_body_def [unfolded ser_hybrid_cap_body_def hybrid_cap_body_of_def hybrid_cap_body.select_convs]

text \<open>
  \<open>seal_capability_hybrid\<close> works on \<open>&mut cap\<close>: an encoding failure leaves the key fields and
  the classical signature already written. The second classical signature of the code is
  computed and dropped, so it has no effect here.
\<close>

definition seal_capability_hybrid ::
  "crypto \<Rightarrow> keypair \<Rightarrow> pq_keypair \<Rightarrow> spend_capability \<Rightarrow> (spend_capability, crypto_error, unit) outcome" where
  "seal_capability_hybrid X classical pq cap =
     (let cap1 = cap\<lparr>cap_issuer_alg := alg_as_u16 HybridEd25519MlDsa65,
                     cap_issuer_pubkey := verifying_key_bytes X classical,
                     cap_issuer_pq_pubkey := pq_verifying_key_bytes X pq\<rparr>
      in case sign_capability X classical cap1 of
           None \<Rightarrow> Panic
         | Some sig \<Rightarrow>
             let cap2 = cap1\<lparr>cap_issuer_signature := sig\<rparr>
             in case encode_cbor X (hybrid_body cap2) of
                  Inl _ \<Rightarrow> Err CryptoCborEncode cap2
                | Inr bs \<Rightarrow> Ok () (cap2\<lparr>cap_issuer_pq_signature := pq_keypair_sign X pq bs\<rparr>))"

definition verify_capability_hybrid :: "crypto \<Rightarrow> spend_capability \<Rightarrow> crypto_error + unit" where
  "verify_capability_hybrid X cap =
     (if alg_from_u16 (cap_issuer_alg cap) \<noteq> Some HybridEd25519MlDsa65 then Inl InvalidSignature
      else case verifying_key_from_bytes X (cap_issuer_pubkey cap) of
        Inl e \<Rightarrow> Inl e
      | Inr vk \<Rightarrow>
          (case verify_capability X vk cap of
             Inl e \<Rightarrow> Inl e
           | Inr _ \<Rightarrow>
               if cap_issuer_pq_pubkey cap = [] \<or> cap_issuer_pq_signature cap = []
               then Inl EmptySignature
               else case encode_cbor X (hybrid_body cap) of
                 Inl _ \<Rightarrow> Inl CryptoCborEncode
               | Inr bs \<Rightarrow> verify_pq X (cap_issuer_pq_pubkey cap) bs (cap_issuer_pq_signature cap)))"

lemma hybrid_body_attach [simp]:
  "hybrid_body (c\<lparr>cap_issuer_pq_signature := t\<rparr>) = hybrid_body c"
  by (simp add: hybrid_body_cbor)

lemma verify_pq_signed:
  "crypto_ok X \<Longrightarrow> verify_pq X (pq_verifying_key_bytes X pq) m (pq_keypair_sign X pq m) = Inr ()"
  by (simp add: verify_pq_def pq_verifying_key_bytes_def pq_keypair_sign_def)

definition hybrid_keys :: "crypto \<Rightarrow> keypair \<Rightarrow> pq_keypair \<Rightarrow> spend_capability \<Rightarrow> spend_capability" where
  "hybrid_keys X k pq c = c\<lparr>cap_issuer_alg := alg_as_u16 HybridEd25519MlDsa65,
     cap_issuer_pubkey := verifying_key_bytes X k, cap_issuer_pq_pubkey := pq_verifying_key_bytes X pq\<rparr>"

text \<open>Sealing always succeeds when CBOR encoding does, and the result verifies.\<close>

lemma seal_capability_hybrid_verifies:
  assumes "crypto_ok X"
  shows "\<exists>c'. seal_capability_hybrid X k pq c = Ok () c' \<and> verify_capability_hybrid X c' = Inr ()
    \<and> verify_capability X (verifying_key X k) c' = Inr ()"
proof -
  let ?c1 = "hybrid_keys X k pq c"
  obtain s where s: "sign_capability X k ?c1 = Some s"
    using capability_sig.sign_total [OF assms] by blast
  let ?c2 = "?c1\<lparr>cap_issuer_signature := s\<rparr>"
  obtain bs where bs: "encode_cbor X (hybrid_body ?c2) = Inr bs"
    using encode_cbor_total [OF assms] by blast
  let ?c3 = "?c2\<lparr>cap_issuer_pq_signature := pq_keypair_sign X pq bs\<rparr>"
  have seal: "seal_capability_hybrid X k pq c = Ok () ?c3"
    using s bs by (simp add: seal_capability_hybrid_def Let_def hybrid_keys_def)
  have cl: "verify_capability X (verifying_key X k) ?c3 = Inr ()"
    using capability_sig.verify_attached [OF assms s]
    by (simp add: attach_capability_def verify_capability_def)
  have "cap_issuer_pq_pubkey ?c3 \<noteq> []" "cap_issuer_pq_signature ?c3 \<noteq> []"
    using assms by (simp_all add: hybrid_keys_def pq_verifying_key_bytes_def pq_keypair_sign_def)
  moreover have "alg_from_u16 (cap_issuer_alg ?c3) = Some HybridEd25519MlDsa65"
    unfolding alg_from_u16_Some by (simp add: hybrid_keys_def)
  moreover have "verifying_key_from_bytes X (cap_issuer_pubkey ?c3) = Inr (verifying_key X k)"
    using assms by (simp add: hybrid_keys_def)
  moreover have "cap_issuer_pq_pubkey ?c3 = pq_verifying_key_bytes X pq"
    by (simp add: hybrid_keys_def)
  ultimately have "verify_capability_hybrid X ?c3 = Inr ()"
    using cl bs verify_pq_signed [OF assms, of pq bs] by (simp add: verify_capability_hybrid_def)
  then show ?thesis using seal cl by blast
qed

text \<open>The classical check does not see the algorithm identifier or the lattice half.\<close>

lemma verify_capability_ignores_pq:
  "verify_capability X vk
     (c\<lparr>cap_issuer_alg := a, cap_issuer_pq_pubkey := pk, cap_issuer_pq_signature := s\<rparr>)
   = verify_capability X vk c"
  by (simp add: verify_capability_def capability_body_cbor)

end
