(* ===== verification/Shard_State.thy ===== *)
theory Shard_State
  imports Types
begin

text \<open>
  The spend ledger of one shard validator (\<open>crates/shard/src/state.rs\<close>) and the errors of the
  shard (\<open>lib.rs\<close>): active capabilities with their remaining allowance, the set of consumed
  (capability, epoch, sequence) triples, the epoch states and the commit index.
\<close>

section \<open>Errors (lib.rs)\<close>

datatype shard_error =
    EmptyReceiptLog
  | UnknownCapability
  | Replay capability_id epoch sequence_no
  | EpochFenced epoch
  | EpochExpired epoch
  | EpochMismatch
  | SequenceOutOfRange sequence_no
  | InsufficientRemaining amount_micros amount_micros
  | WrongShard string string
  | ExceedsPerCall amount_micros amount_micros
  | ExceedsMaxAmount
  | BadSignature
  | ServiceOutOfScope
  | NotYetValid
  | CapabilityExpired
  | PayExpired
  | AgentMismatch
  | CurrencyMismatch
  | BftQuorumFailed
  | ValidatorKilled
  | Io string
  | Cbor

section \<open>State and operations (state.rs)\<close>

record active_capability =
  ac_remaining :: amount_micros
  ac_sequence_start :: sequence_no
  ac_sequence_end :: sequence_no
  ac_epoch :: epoch

type_synonym consume_key = "capability_id \<times> u64 \<times> u64"

record shard_state =
  ss_capabilities :: "(capability_id, active_capability) fmap"
  ss_consumed :: "consume_key fset"
  ss_epoch_states :: "(u64, epoch_state) fmap"
  ss_commit_index :: u64

definition shard_state_new :: shard_state where
  "shard_state_new = \<lparr> ss_capabilities = fmempty, ss_consumed = {||},
     ss_epoch_states = fmempty, ss_commit_index = 0 \<rparr>"

definition activate_capability ::
  "capability_id \<Rightarrow> epoch \<Rightarrow> amount_micros \<Rightarrow> sequence_no \<Rightarrow> sequence_no \<Rightarrow> shard_state \<Rightarrow> shard_state" where
  "activate_capability cid ep remaining sstart send s =
     s\<lparr> ss_capabilities := fmupd cid \<lparr> ac_remaining = remaining, ac_sequence_start = sstart,
           ac_sequence_end = send, ac_epoch = ep \<rparr> (ss_capabilities s),
        ss_epoch_states := (case fmlookup (ss_epoch_states s) (epoch_num ep) of
           None \<Rightarrow> fmupd (epoch_num ep) Active (ss_epoch_states s)
         | Some _ \<Rightarrow> ss_epoch_states s) \<rparr>"

definition fence_epoch :: "epoch \<Rightarrow> shard_state \<Rightarrow> shard_state" where
  "fence_epoch ep s = s\<lparr> ss_epoch_states := fmupd (epoch_num ep) Fenced (ss_epoch_states s) \<rparr>"

definition epoch_state_of :: "shard_state \<Rightarrow> epoch \<Rightarrow> epoch_state" where
  "epoch_state_of s ep =
     (case fmlookup (ss_epoch_states s) (epoch_num ep) of None \<Rightarrow> Expired | Some st \<Rightarrow> st)"

definition remaining_of :: "shard_state \<Rightarrow> capability_id \<Rightarrow> shard_error + amount_micros" where
  "remaining_of s cid =
     (case fmlookup (ss_capabilities s) cid of
        None \<Rightarrow> Inl UnknownCapability | Some c \<Rightarrow> Inr (ac_remaining c))"

definition consume_key_of :: "capability_id \<Rightarrow> epoch \<Rightarrow> sequence_no \<Rightarrow> consume_key" where
  "consume_key_of cid ep sq = (cid, epoch_num ep, seq_num sq)"

definition is_consumed :: "shard_state \<Rightarrow> capability_id \<Rightarrow> epoch \<Rightarrow> sequence_no \<Rightarrow> bool" where
  "is_consumed s cid ep sq \<longleftrightarrow> consume_key_of cid ep sq |\<in>| ss_consumed s"

definition try_mark_consumed ::
  "capability_id \<Rightarrow> epoch \<Rightarrow> sequence_no \<Rightarrow> shard_state \<Rightarrow> (shard_state, shard_error, unit) outcome" where
  "try_mark_consumed cid ep sq s =
     (let s' = s\<lparr> ss_consumed := finsert (consume_key_of cid ep sq) (ss_consumed s) \<rparr>
      in if is_consumed s cid ep sq then Err (Replay cid ep sq) s' else Ok () s')"

text \<open>
  All checks come before the first write, so an error leaves the state as it was; the
  increment of the commit index panics when it overflows a \<open>u64\<close>.
\<close>

definition consume_pay ::
  "capability_id \<Rightarrow> epoch \<Rightarrow> sequence_no \<Rightarrow> amount_micros \<Rightarrow> shard_state \<Rightarrow> (shard_state, shard_error, u64) outcome" where
  "consume_pay cid ep sq amount s =
     (case epoch_state_of s ep of
        Fenced \<Rightarrow> Err (EpochFenced ep) s
      | Expired \<Rightarrow> Err (EpochExpired ep) s
      | Active \<Rightarrow>
          if is_consumed s cid ep sq then Err (Replay cid ep sq) s
          else case fmlookup (ss_capabilities s) cid of
            None \<Rightarrow> Err UnknownCapability s
          | Some cap \<Rightarrow>
              if ep \<noteq> ac_epoch cap then Err EpochMismatch s
              else if seq_num sq < seq_num (ac_sequence_start cap)
                    \<or> seq_num (ac_sequence_end cap) < seq_num sq
              then Err (SequenceOutOfRange sq) s
              else if micros (ac_remaining cap) < micros amount
              then Err (InsufficientRemaining (ac_remaining cap) amount) s
              else ret_or_panic (chk_add (ss_commit_index s) 1) (\<lambda>ci. Ok ci
                (s\<lparr> ss_capabilities := fmupd cid
                      (cap\<lparr>ac_remaining := AmountMicros (micros (ac_remaining cap) - micros amount)\<rparr>)
                      (ss_capabilities s),
                    ss_consumed := finsert (consume_key_of cid ep sq) (ss_consumed s),
                    ss_commit_index := ci \<rparr>)))"

section \<open>The contract of a consume\<close>

text \<open>When a payment can be consumed, and the state after it.\<close>

definition consumable :: "shard_state \<Rightarrow> capability_id \<Rightarrow> epoch \<Rightarrow> sequence_no \<Rightarrow> amount_micros \<Rightarrow> bool" where
  "consumable s cid ep sq amount \<longleftrightarrow>
     epoch_state_of s ep = Active \<and> \<not> is_consumed s cid ep sq \<and>
     (case fmlookup (ss_capabilities s) cid of
        None \<Rightarrow> False
      | Some cap \<Rightarrow> ep = ac_epoch cap \<and>
          seq_num (ac_sequence_start cap) \<le> seq_num sq \<and> seq_num sq \<le> seq_num (ac_sequence_end cap) \<and>
          amt amount \<le> amt (ac_remaining cap))"

definition after_consume :: "shard_state \<Rightarrow> capability_id \<Rightarrow> epoch \<Rightarrow> sequence_no \<Rightarrow> amount_micros \<Rightarrow> shard_state" where
  "after_consume s cid ep sq amount =
     s\<lparr> ss_capabilities := fmupd cid
          ((the (fmlookup (ss_capabilities s) cid))\<lparr>ac_remaining := AmountMicros
             (micros (ac_remaining (the (fmlookup (ss_capabilities s) cid))) - micros amount)\<rparr>)
          (ss_capabilities s),
        ss_consumed := finsert (consume_key_of cid ep sq) (ss_consumed s),
        ss_commit_index := ss_commit_index s + 1 \<rparr>"

lemma consume_pay_Ok_iff:
  "consume_pay cid ep sq amount s = Ok ci s' \<longleftrightarrow>
     consumable s cid ep sq amount \<and> unat (ss_commit_index s) + 1 < 2 ^ 64 \<and>
     ci = ss_commit_index s + 1 \<and> s' = after_consume s cid ep sq amount"
  unfolding consume_pay_def consumable_def after_consume_def
  by (cases "epoch_state_of s ep"; cases "fmlookup (ss_capabilities s) cid")
    (auto simp: ret_or_panic_iff chk_add_def micros_le_amt micros_less_amt not_less not_le
      split: if_splits)

lemma consume_pay_Err_state: "consume_pay cid ep sq amount s = Err e s' \<Longrightarrow> s' = s"
  unfolding consume_pay_def
  by (auto simp: ret_or_panic_iff split: epoch_state.splits if_splits option.splits)

lemma consume_pay_Err_iff:
  "(\<exists>e. consume_pay cid ep sq amount s = Err e s) \<longleftrightarrow> \<not> consumable s cid ep sq amount"
  unfolding consume_pay_def consumable_def
  by (cases "epoch_state_of s ep"; cases "fmlookup (ss_capabilities s) cid")
    (auto simp: ret_or_panic_iff chk_add_def micros_le_amt micros_less_amt not_less not_le
      split: if_splits)

lemma consume_pay_Panic_iff:
  "consume_pay cid ep sq amount s = Panic \<longleftrightarrow>
     consumable s cid ep sq amount \<and> unat (ss_commit_index s) + 1 = 2 ^ 64"
proof -
  have b: "unat (ss_commit_index s) < 2 ^ 64" using unsigned_less [of "ss_commit_index s"] by simp
  show ?thesis
    unfolding consume_pay_def consumable_def
    using b by (cases "epoch_state_of s ep"; cases "fmlookup (ss_capabilities s) cid")
      (auto simp: ret_or_panic_iff chk_add_def micros_le_amt micros_less_amt not_less not_le
        split: if_splits)
qed

lemma consumed_after [simp]:
  "is_consumed (after_consume s cid ep sq amount) cid' ep' sq' \<longleftrightarrow>
     (cid', ep', sq') = (cid, ep, sq) \<or> is_consumed s cid' ep' sq'"
  by (auto simp: is_consumed_def after_consume_def consume_key_of_def epoch.expand sequence_no.expand)

lemma epoch_state_frame [simp]:
  "epoch_state_of (after_consume s cid ep sq amount) ep' = epoch_state_of s ep'"
  by (simp add: epoch_state_of_def after_consume_def)

lemma after_consume_fields [simp]:
  "ss_consumed (after_consume s cid ep sq amount) = finsert (consume_key_of cid ep sq) (ss_consumed s)"
  "ss_commit_index (after_consume s cid ep sq amount) = ss_commit_index s + 1"
  by (simp_all add: after_consume_def)

lemma epoch_state_fence [simp]:
  "epoch_state_of (fence_epoch ep s) ep' = (if ep' = ep then Fenced else epoch_state_of s ep')"
  by (auto simp: epoch_state_of_def fence_epoch_def epoch.expand)

lemma epoch_state_activate [simp]:
  "epoch_state_of (activate_capability cid ep r a b s) ep' =
     (if ep' = ep \<and> fmlookup (ss_epoch_states s) (epoch_num ep) = None then Active
      else epoch_state_of s ep')"
  by (auto simp: epoch_state_of_def activate_capability_def epoch.expand split: option.splits)

lemma consumed_frame [simp]:
  "is_consumed (fence_epoch e s) cid ep sq = is_consumed s cid ep sq"
  "is_consumed (activate_capability c e r a b s) cid ep sq = is_consumed s cid ep sq"
  by (simp_all add: is_consumed_def fence_epoch_def activate_capability_def)

lemma capabilities_frame [simp]:
  "ss_capabilities (fence_epoch e s) = ss_capabilities s"
  "ss_commit_index (fence_epoch e s) = ss_commit_index s"
  "ss_commit_index (activate_capability c e r a b s) = ss_commit_index s"
  "ss_consumed (fence_epoch e s) = ss_consumed s"
  "ss_consumed (activate_capability c e r a b s) = ss_consumed s"
  by (simp_all add: fence_epoch_def activate_capability_def)

text \<open>What is left of a capability's allowance, zero when it is not active.\<close>

definition left :: "shard_state \<Rightarrow> capability_id \<Rightarrow> nat" where
  "left s cid = (case fmlookup (ss_capabilities s) cid of None \<Rightarrow> 0 | Some c \<Rightarrow> amt (ac_remaining c))"

lemma left_frame [simp]:
  "left (fence_epoch e s) cid = left s cid"
  "left (activate_capability c e r a b s) cid = (if cid = c then amt r else left s cid)"
  by (auto simp: left_def fence_epoch_def activate_capability_def)

lemma left_after:
  assumes "consumable s cid ep sq amount"
  shows "left (after_consume s cid ep sq amount) c + (if c = cid then amt amount else 0) = left s c"
  using assms
  by (auto simp: left_def after_consume_def consumable_def amt_def word_le_nat_alt unat_sub
      split: option.splits)

end
