(* ===== verification/Sample_Codec.thy ===== *)
theory Sample_Codec
  imports External
begin

text \<open>
  A concrete instance of the parameters of \<open>External\<close>, for the witnesses: a self-delimiting
  binary encoding of CBOR items with its reader, a polynomial hash, and signatures that are the
  public key followed by the hash of the message. It satisfies \<open>crypto_ok\<close> and
  \<open>cbor_injective\<close>, so the hypotheses of the properties can hold.
\<close>

section \<open>An encoding of items and its reader\<close>

fun enc_text :: "string \<Rightarrow> bytes" where
  "enc_text [] = [0]"
| "enc_text (c # cs) = 1 # word_of_nat (of_char c) # enc_text cs"

fun enc :: "cval \<Rightarrow> bytes" where
  "enc (CUint w) = 0 # le_bytes 16 w"
| "enc (CNeg w) = 1 # le_bytes 8 w"
| "enc (CText s) = 2 # enc_text s"
| "enc (CBool b) = [3, if b then 1 else 0]"
| "enc CNull = [4]"
| "enc (CArr xs) = 5 # concat (map (\<lambda>x. 1 # enc x) xs) @ [0]"
| "enc (CMap kvs) = 6 # concat (map (\<lambda>kv. 1 # enc_text (fst kv) @ enc (snd kv)) kvs) @ [0]"

fun dec_text :: "bytes \<Rightarrow> (string \<times> bytes) option" where
  "dec_text (b # c # bs) =
     (if b = 0 then Some ([], c # bs)
      else map_option (\<lambda>(s, r). (char_of (unat c) # s, r)) (dec_text bs))"
| "dec_text [b] = (if b = 0 then Some ([], []) else None)"
| "dec_text [] = None"

fun dec_item :: "nat \<Rightarrow> bytes \<Rightarrow> (cval \<times> bytes) option"
  and dec_items :: "nat \<Rightarrow> bytes \<Rightarrow> (cval list \<times> bytes) option"
  and dec_pairs :: "nat \<Rightarrow> bytes \<Rightarrow> ((string \<times> cval) list \<times> bytes) option" where
  "dec_item (Suc f) (b # bs) =
     (if b = 0 then Some (CUint (word_of_nat (nat_of_le (take 16 bs))), drop 16 bs)
      else if b = 1 then Some (CNeg (word_of_nat (nat_of_le (take 8 bs))), drop 8 bs)
      else if b = 2 then map_option (\<lambda>(s, r). (CText s, r)) (dec_text bs)
      else if b = 3 then (case bs of [] \<Rightarrow> None | c # r \<Rightarrow> Some (CBool (c = 1), r))
      else if b = 4 then Some (CNull, bs)
      else if b = 5 then map_option (\<lambda>(xs, r). (CArr xs, r)) (dec_items f bs)
      else if b = 6 then map_option (\<lambda>(xs, r). (CMap xs, r)) (dec_pairs f bs)
      else None)"
| "dec_item f bs = None"
| "dec_items (Suc f) (b # bs) =
     (if b = 0 then Some ([], bs)
      else case dec_item f bs of None \<Rightarrow> None
        | Some (x, r) \<Rightarrow> map_option (\<lambda>(xs, r'). (x # xs, r')) (dec_items f r))"
| "dec_items f bs = None"
| "dec_pairs (Suc f) (b # bs) =
     (if b = 0 then Some ([], bs)
      else case dec_text bs of None \<Rightarrow> None
        | Some (k, r) \<Rightarrow>
            (case dec_item f r of None \<Rightarrow> None
               | Some (x, r') \<Rightarrow> map_option (\<lambda>(xs, r''). ((k, x) # xs, r'')) (dec_pairs f r')))"
| "dec_pairs f bs = None"

lemma char_byte [simp]: "char_of (unat (word_of_nat (of_char c) :: u8)) = c"
proof -
  have "(of_char c :: nat) < 256" by (rule nat_of_char_less_256)
  then show ?thesis by (simp add: unat_of_nat)
qed

lemma dec_enc_text [simp]: "dec_text (enc_text s @ r) = Some (s, r)"
proof (induction s)
  case Nil
  then show ?case by (cases r) auto
next
  case (Cons c s)
  then show ?case by simp
qed

lemma enc_nonempty [simp]: "0 < length (enc v)"
  by (cases v) auto

lemma dec_enc_items:
  assumes "\<And>x f r. x \<in> set xs \<Longrightarrow> length (enc x) \<le> f \<Longrightarrow> dec_item f (enc x @ r) = Some (x, r)"
    and "length (concat (map (\<lambda>x. 1 # enc x) xs)) < f"
  shows "dec_items f (concat (map (\<lambda>x. 1 # enc x) xs) @ 0 # r) = Some (xs, r)"
  using assms
proof (induction xs arbitrary: f)
  case Nil
  then show ?case by (cases f) auto
next
  case (Cons x xs)
  then obtain g where f: "f = Suc g" by (cases f) auto
  have "dec_item g (enc x @ q) = Some (x, q)" for q
    using Cons.prems f by simp
  moreover have "dec_items g (concat (map (\<lambda>x. 1 # enc x) xs) @ 0 # r) = Some (xs, r)"
    by (rule Cons.IH) (use Cons.prems f in auto)
  ultimately show ?case using f by simp
qed

lemma dec_enc_pairs:
  assumes "\<And>k x f r. (k, x) \<in> set xs \<Longrightarrow> length (enc x) \<le> f \<Longrightarrow> dec_item f (enc x @ r) = Some (x, r)"
    and "length (concat (map (\<lambda>kv. 1 # enc_text (fst kv) @ enc (snd kv)) xs)) < f"
  shows "dec_pairs f (concat (map (\<lambda>kv. 1 # enc_text (fst kv) @ enc (snd kv)) xs) @ 0 # r) = Some (xs, r)"
  using assms
proof (induction xs arbitrary: f)
  case Nil
  then show ?case by (cases f) auto
next
  case (Cons kv xs)
  then obtain g where f: "f = Suc g" by (cases f) auto
  obtain k x where kv: "kv = (k, x)" by (cases kv)
  have "dec_item g (enc x @ q) = Some (x, q)" for q
    by (rule Cons.prems(1) [of k]) (use Cons.prems(2) f kv in auto)
  moreover have "dec_pairs g (concat (map (\<lambda>kv. 1 # enc_text (fst kv) @ enc (snd kv)) xs) @ 0 # r) = Some (xs, r)"
    by (rule Cons.IH) (use Cons.prems f in auto)
  ultimately show ?case using f kv by simp
qed

lemma le_bytes_16_read [simp]: "nat_of_le (le_bytes 16 w) = unat w" for w :: u128
  by (simp add: nat_of_le_bytes_full)

lemma le_bytes_8_read [simp]: "nat_of_le (le_bytes 8 w) = unat w" for w :: u64
  by (simp add: nat_of_le_bytes_full)

lemma dec_item_leaf:
  "dec_item (Suc g) (0 # le_bytes 16 w @ r) = Some (CUint w, r)"
  "dec_item (Suc g) (1 # le_bytes 8 n @ r) = Some (CNeg n, r)"
  "dec_item (Suc g) (2 # enc_text s @ r) = Some (CText s, r)"
  "dec_item (Suc g) (3 # (if b then 1 else 0) # r) = Some (CBool b, r)"
  "dec_item (Suc g) (4 # r) = Some (CNull, r)"
  by simp_all

lemma dec_enc_item: "length (enc v) \<le> f \<Longrightarrow> dec_item f (enc v @ r) = Some (v, r)"
proof (induction v arbitrary: f r)
  case (CArr xs)
  then obtain g where f: "f = Suc g" by (cases f) auto
  have "dec_items g (concat (map (\<lambda>x. 1 # enc x) xs) @ 0 # r) = Some (xs, r)"
    by (rule dec_enc_items) (use CArr f in auto)
  then show ?case using f by simp
next
  case (CMap kvs)
  then obtain g where f: "f = Suc g" by (cases f) auto
  have "dec_pairs g (concat (map (\<lambda>kv. 1 # enc_text (fst kv) @ enc (snd kv)) kvs) @ 0 # r) = Some (kvs, r)"
  proof (rule dec_enc_pairs)
    fix k x f' r'
    assume "(k, x) \<in> set kvs" and "length (enc x) \<le> f'"
    then show "dec_item f' (enc x @ r') = Some (x, r')"
      by (intro CMap.IH [of "(k, x)"]) auto
  qed (use CMap.prems f in auto)
  then show ?case using f by simp
next
  case (CUint w)
  then show ?case using dec_item_leaf(1) by (cases f) auto
next
  case (CNeg w)
  then show ?case using dec_item_leaf(2) by (cases f) auto
next
  case (CText s)
  then show ?case using dec_item_leaf(3) by (cases f) auto
next
  case (CBool b)
  then show ?case using dec_item_leaf(4) by (cases f) auto
next
  case CNull
  then show ?case using dec_item_leaf(5) by (cases f) auto
qed

definition sample_read :: "bytes \<Rightarrow> cval option" where
  "sample_read bs = map_option fst (dec_item (length bs) bs)"

lemma sample_read_enc [simp]: "sample_read (enc v) = Some v"
  using dec_enc_item [of v "length (enc v)" "[]"] by (simp add: sample_read_def)

section \<open>Hashing and signing\<close>

definition sample_hash :: "bytes \<Rightarrow> b32" where
  "sample_hash bs = foldr (\<lambda>b a. ucast b + 257 * a + 1) bs 0"

text \<open>The sample hash tells two byte strings apart that differ in one byte's parity.\<close>

lemma sample_hash_parity: "even (sample_hash bs) \<longleftrightarrow> even (length (filter even bs))"
proof (induction bs)
  case (Cons b bs)
  have "bit (ucast b :: b32) 0 \<longleftrightarrow> bit b 0" by (simp add: bit_ucast_iff)
  then have "even (ucast b :: b32) \<longleftrightarrow> even b" by (simp add: bit_0)
  then show ?case using Cons.IH by (simp add: sample_hash_def)
qed (simp add: sample_hash_def)

definition sample_public :: "b32 \<Rightarrow> b32" where
  "sample_public k = 2 * k + 1"

definition sample_crypto :: crypto where
  "sample_crypto = \<lparr>
     blake3 = sample_hash,
     cbor_write = (\<lambda>v. Some (enc v)),
     ed_public = sample_public,
     ed_point_ok = odd,
     ed_sign = (\<lambda>k m. b32_bytes (sample_public k) @ b32_bytes (sample_hash m)),
     ed_verify = (\<lambda>v m s. s = b32_bytes v @ b32_bytes (sample_hash m)),
     pq_public = (\<lambda>k. b32_bytes (sample_hash k)),
     pq_sign = (\<lambda>k m. b32_bytes (sample_hash k) @ b32_bytes (sample_hash m)),
     pq_key_len = 32,
     pq_sig_len = 64,
     pq_sig_ok = (\<lambda>_. True),
     pq_verify = (\<lambda>v m s. s = v @ b32_bytes (sample_hash m)) \<rparr>"

lemma sample_crypto_ok [simp]: "crypto_ok sample_crypto"
  unfolding crypto_ok_def sample_crypto_def crypto.select_convs
proof (intro conjI allI)
  show "odd (sample_public k)" for k by (simp add: sample_public_def)
qed (simp, simp, rule refl, simp, simp, simp, simp, simp, rule refl)

lemma enc_inj:
  assumes "enc v = enc w"
  shows "v = w"
proof -
  have "Some v = sample_read (enc v)" by simp
  also have "\<dots> = sample_read (enc w)" by (simp only: assms)
  finally show ?thesis by simp
qed

lemma sample_cbor_write [simp]: "cbor_write sample_crypto v = Some (enc v)"
  by (simp add: sample_crypto_def)

lemma sample_crypto_injective [simp]: "cbor_injective sample_crypto"
  unfolding cbor_injective_def sample_cbor_write option.inject
  by (intro allI impI, rule enc_inj, rule trans, assumption, rule sym)

end
