(* ===== verification/Wal.thy ===== *)
theory Wal
  imports Shard_State Sample_Codec
begin

text \<open>
  The write-ahead log of a validator (\<open>crates/shard/src/wal.rs\<close>): its records, the length-prefixed
  append and the replay that rebuilds the spend ledger at start-up. The log is the byte content
  of the file. An append takes the fault the file system injects: \<open>None\<close> when all writes, the
  flush and the sync succeed, \<open>Some (k, e)\<close> when only the first \<open>k\<close> bytes of the frame reach the
  file and the call fails with \<open>e\<close>. The reader of a CBOR record is a parameter of the replay.
\<close>

section \<open>Records\<close>

datatype wal_record =
    ActivateCapability capability_id epoch amount_micros sequence_no sequence_no
  | ConsumePay b32 capability_id epoch sequence_no amount_micros
  | FenceEpoch epoch

fun ser_wal_record :: "wal_record \<Rightarrow> cval" where
  "ser_wal_record (ActivateCapability cid ep remaining sstart send) = CMap
     [(''ActivateCapability'', CMap
        [(''capability_id'', c_b32 (capability_bytes cid)), (''epoch'', c_epoch ep),
         (''remaining'', c_amount remaining), (''sequence_start'', c_seq sstart),
         (''sequence_end'', c_seq send)])]"
| "ser_wal_record (ConsumePay tid cid ep sq amount) = CMap
     [(''ConsumePay'', CMap
        [(''tx_id'', c_b32 tid), (''capability_id'', c_b32 (capability_bytes cid)),
         (''epoch'', c_epoch ep), (''sequence'', c_seq sq), (''amount'', c_amount amount)])]"
| "ser_wal_record (FenceEpoch ep) = CMap [(''FenceEpoch'', CMap [(''epoch'', c_epoch ep)])]"

lemma ser_wal_record_inj: "ser_wal_record r = ser_wal_record q \<longleftrightarrow> r = q"
  by (cases r; cases q) (auto simp: capability_id.expand)

section \<open>Appending\<close>

type_synonym io_fault = "(nat \<times> string) option"

definition wal_open :: "string option \<Rightarrow> bytes option \<Rightarrow> shard_error + bytes" where
  "wal_open fault existing =
     (case fault of Some e \<Rightarrow> Inl (Io e)
      | None \<Rightarrow> Inr (case existing of None \<Rightarrow> [] | Some file \<Rightarrow> file))"

definition wal_frame :: "crypto \<Rightarrow> wal_record \<Rightarrow> shard_error + bytes" where
  "wal_frame X r =
     (case encode_cbor X (ser_wal_record r) of
        Inl _ \<Rightarrow> Inl Cbor
      | Inr bs \<Rightarrow> Inr (le_bytes 4 (word_of_nat (length bs) :: u32) @ bs))"

definition wal_append :: "crypto \<Rightarrow> io_fault \<Rightarrow> wal_record \<Rightarrow> bytes \<Rightarrow> (bytes, shard_error, unit) outcome" where
  "wal_append X io r file =
     (case wal_frame X r of
        Inl e \<Rightarrow> Err e file
      | Inr fr \<Rightarrow> (case io of
            None \<Rightarrow> Ok () (file @ fr)
          | Some (k, e) \<Rightarrow> Err (Io e) (file @ take k fr)))"

section \<open>Replay\<close>

fun apply_record :: "wal_record \<Rightarrow> shard_state \<Rightarrow> (shard_state, shard_error, unit) outcome" where
  "apply_record (ActivateCapability cid ep remaining sstart send) s =
     Ok () (activate_capability cid ep remaining sstart send s)"
| "apply_record (ConsumePay tid cid ep sq amount) s =
     (case consume_pay cid ep sq amount s of
        Ok _ s' \<Rightarrow> Ok () s' | Err e s' \<Rightarrow> Err e s' | Panic \<Rightarrow> Panic)"
| "apply_record (FenceEpoch ep) s = Ok () (fence_epoch ep s)"

text \<open>
  The replay loop. A short read of the length prefix ends the log (\<open>UnexpectedEof\<close>); a short read
  of a body is an error, with the text the standard library gives it.
\<close>

function wal_replay_from ::
  "(bytes \<Rightarrow> wal_record option) \<Rightarrow> shard_state \<Rightarrow> bytes \<Rightarrow> (shard_state, shard_error, unit) outcome" where
  "wal_replay_from D s file =
     (if length file < 4 then Ok () s
      else let len = unat (u32_of_le (take 4 file)); rest = drop 4 file
           in if length rest < len then Err (Io ''failed to fill whole buffer'') s
              else case D (take len rest) of
                None \<Rightarrow> Err Cbor s
              | Some r \<Rightarrow> (case apply_record r s of
                    Ok _ s' \<Rightarrow> wal_replay_from D s' (drop len rest)
                  | Err e s' \<Rightarrow> Err e s'
                  | Panic \<Rightarrow> Panic))"
  by pat_completeness auto
termination
  by (relation "measure (\<lambda>(D, s, file). length file)") auto

declare wal_replay_from.simps [simp del]

definition wal_replay ::
  "(bytes \<Rightarrow> wal_record option) \<Rightarrow> string option \<Rightarrow> bytes \<Rightarrow> (shard_state, shard_error, unit) outcome" where
  "wal_replay D fault file =
     (case fault of Some e \<Rightarrow> Err (Io e) shard_state_new
      | None \<Rightarrow> wal_replay_from D shard_state_new file)"

section \<open>Journals\<close>

text \<open>
  The interface between a state and the log that rebuilds it: records are applied in order and
  the first error stops. \<open>hist rs s\<close> is a property of the records applied so far and the state.
\<close>

fun run_log :: "('r \<Rightarrow> 's \<Rightarrow> ('s, 'e, unit) outcome) \<Rightarrow> 'r list \<Rightarrow> 's \<Rightarrow> ('s, 'e, unit) outcome" where
  "run_log f [] s = Ok () s"
| "run_log f (r # rs) s =
     (case f r s of Ok _ s' \<Rightarrow> run_log f rs s' | Err e s' \<Rightarrow> Err e s' | Panic \<Rightarrow> Panic)"

lemma run_log_append:
  "run_log f (rs @ qs) s =
     (case run_log f rs s of Ok _ s' \<Rightarrow> run_log f qs s' | Err e s' \<Rightarrow> Err e s' | Panic \<Rightarrow> Panic)"
  by (induction rs arbitrary: s) (auto split: outcome.splits)

lemma run_log_snoc_Ok:
  "run_log f (rs @ [r]) s = Ok () s' \<longleftrightarrow> (\<exists>m. run_log f rs s = Ok () m \<and> f r m = Ok () s')"
  by (auto simp: run_log_append split: outcome.splits)

locale journal =
  fixes step :: "'r \<Rightarrow> 's \<Rightarrow> ('s, 'e, unit) outcome"
    and start :: 's
    and hist :: "'r list \<Rightarrow> 's \<Rightarrow> bool"
  assumes hist_start: "hist [] start"
    and hist_step: "hist rs s \<Longrightarrow> step r s = Ok () s' \<Longrightarrow> hist (rs @ [r]) s'"
begin

lemma hist_run: "run_log step rs start = Ok () s \<Longrightarrow> hist rs s"
proof (induction rs arbitrary: s rule: rev_induct)
  case Nil
  then show ?case using hist_start by simp
next
  case (snoc r rs)
  then obtain m where "run_log step rs start = Ok () m" and "step r m = Ok () s"
    by (auto simp: run_log_snoc_Ok)
  then show ?case using snoc.IH hist_step by blast
qed

lemma hist_prefix:
  assumes "run_log step (rs @ qs) start = Ok () s"
  obtains m where "run_log step rs start = Ok () m" and "hist rs m" and "run_log step qs m = Ok () s"
  using assms hist_run by (auto simp: run_log_append split: outcome.splits)

end

section \<open>What the log says was granted, spent and consumed\<close>

fun granted :: "capability_id \<Rightarrow> wal_record list \<Rightarrow> nat" where
  "granted c [] = 0"
| "granted c (ActivateCapability cid ep remaining a b # rs) =
     (if cid = c then amt remaining else 0) + granted c rs"
| "granted c (_ # rs) = granted c rs"

fun spent :: "capability_id \<Rightarrow> wal_record list \<Rightarrow> nat" where
  "spent c [] = 0"
| "spent c (ConsumePay tid cid ep sq amount # rs) = (if cid = c then amt amount else 0) + spent c rs"
| "spent c (_ # rs) = spent c rs"

fun consumed_keys :: "wal_record list \<Rightarrow> consume_key list" where
  "consumed_keys [] = []"
| "consumed_keys (ConsumePay tid cid ep sq amount # rs) = consume_key_of cid ep sq # consumed_keys rs"
| "consumed_keys (_ # rs) = consumed_keys rs"

lemma log_append [simp]:
  "granted c (rs @ qs) = granted c rs + granted c qs"
  "spent c (rs @ qs) = spent c rs + spent c qs"
  "consumed_keys (rs @ qs) = consumed_keys rs @ consumed_keys qs"
proof -
  show "granted c (rs @ qs) = granted c rs + granted c qs"
    by (induction rs rule: granted.induct) auto
  show "spent c (rs @ qs) = spent c rs + spent c qs"
    by (induction rs rule: spent.induct) auto
  show "consumed_keys (rs @ qs) = consumed_keys rs @ consumed_keys qs"
    by (induction rs rule: consumed_keys.induct) auto
qed

definition ledger_hist :: "wal_record list \<Rightarrow> shard_state \<Rightarrow> bool" where
  "ledger_hist rs s \<longleftrightarrow>
     (\<forall>c. spent c rs + left s c \<le> granted c rs) \<and>
     distinct (consumed_keys rs) \<and>
     fset (ss_consumed s) = set (consumed_keys rs) \<and>
     unat (ss_commit_index s) = length (consumed_keys rs) \<and>
     (\<forall>ep. FenceEpoch ep \<in> set rs \<longrightarrow> epoch_state_of s ep = Fenced)"

lemma ledger_hist_start: "ledger_hist [] shard_state_new"
  by (simp add: ledger_hist_def shard_state_new_def left_def)

lemma apply_ConsumePay_Ok:
  "apply_record (ConsumePay tid cid ep sq amount) s = Ok () s' \<longleftrightarrow>
     consumable s cid ep sq amount \<and> unat (ss_commit_index s) + 1 < 2 ^ 64 \<and>
     s' = after_consume s cid ep sq amount"
  using consume_pay_Ok_iff [of cid ep sq amount s]
  by (auto split: outcome.splits)

lemma ledger_hist_consume:
  assumes h: "ledger_hist rs s" and c: "consumable s cid ep sq amount"
    and b: "unat (ss_commit_index s) + 1 < 2 ^ 64"
  shows "ledger_hist (rs @ [ConsumePay tid cid ep sq amount]) (after_consume s cid ep sq amount)"
proof -
  have fresh: "consume_key_of cid ep sq \<notin> set (consumed_keys rs)"
    using h c by (auto simp: ledger_hist_def consumable_def is_consumed_def)
  have "spent c (rs @ [ConsumePay tid cid ep sq amount]) + left (after_consume s cid ep sq amount) c
      \<le> granted c (rs @ [ConsumePay tid cid ep sq amount])" for c
  proof -
    have "spent c rs + left s c \<le> granted c rs" using h by (simp add: ledger_hist_def)
    then show ?thesis using left_after [OF assms(2), of c] by auto
  qed
  moreover have "epoch_state_of s ep' = Fenced" if "FenceEpoch ep' \<in> set rs" for ep'
    using h that by (simp add: ledger_hist_def)
  moreover have "unat (ss_commit_index s + 1) = unat (ss_commit_index s) + 1"
    using b by (simp add: unat_word_ariths)
  ultimately show ?thesis
    using h fresh unfolding ledger_hist_def by auto
qed

lemma ledger_hist_apply:
  assumes h: "ledger_hist rs s" and a: "apply_record r s = Ok () s'"
  shows "ledger_hist (rs @ [r]) s'"
proof (cases r)
  case (ActivateCapability cid ep remaining x y)
  have "spent c rs \<le> granted c rs" for c
    using h unfolding ledger_hist_def by (meson add_leE)
  moreover have "\<not> fmlookup (ss_epoch_states s) (epoch_num ep) = None" if "FenceEpoch ep \<in> set rs"
    using h that by (auto simp: ledger_hist_def epoch_state_of_def split: option.splits)
  ultimately show ?thesis using h a ActivateCapability by (auto simp: ledger_hist_def)
next
  case (ConsumePay tid cid ep sq amount)
  with a have "consumable s cid ep sq amount" "unat (ss_commit_index s) + 1 < 2 ^ 64"
    and s': "s' = after_consume s cid ep sq amount"
    by (simp_all only: apply_ConsumePay_Ok)
  then show ?thesis unfolding s' ConsumePay by (intro ledger_hist_consume h)
next
  case (FenceEpoch ep)
  then show ?thesis using h a by (auto simp: ledger_hist_def)
qed

interpretation ledger: journal apply_record shard_state_new ledger_hist
  by unfold_locales (auto intro: ledger_hist_start ledger_hist_apply)

section \<open>Reading back what was written\<close>

text \<open>
  The documented behaviour of the CBOR reader on records: what the writer produced is read back,
  and a record is shorter than 4 GiB, so its length fits the prefix.
\<close>

definition wal_codec :: "crypto \<Rightarrow> (bytes \<Rightarrow> wal_record option) \<Rightarrow> bool" where
  "wal_codec X D \<longleftrightarrow>
     (\<forall>r bs. encode_cbor X (ser_wal_record r) = Inr bs \<longrightarrow> D bs = Some r \<and> length bs < 2 ^ 32)"

definition wal_file :: "crypto \<Rightarrow> wal_record list \<Rightarrow> bytes \<Rightarrow> bool" where
  "wal_file X rs file \<longleftrightarrow>
     (\<exists>frs. map (wal_frame X) rs = map Inr frs \<and> file = concat frs)"

lemma wal_frame_split:
  assumes "wal_codec X D" and "wal_frame X r = Inr fr"
  obtains bs where "fr = le_bytes 4 (word_of_nat (length bs) :: u32) @ bs"
    and "D bs = Some r" and "unat (word_of_nat (length bs) :: u32) = length bs"
proof -
  from assms(2) obtain bs where bs: "encode_cbor X (ser_wal_record r) = Inr bs"
    and fr: "fr = le_bytes 4 (word_of_nat (length bs) :: u32) @ bs"
    by (auto simp: wal_frame_def split: sum.splits)
  have "D bs = Some r" "length bs < 2 ^ 32" using assms(1) bs by (auto simp: wal_codec_def)
  then show ?thesis using that fr by (simp add: unat_of_nat)
qed

lemma wal_replay_from_entry:
  assumes "length pre = 4" and "unat (u32_of_le pre) = length bs" and "D bs = Some r"
  shows "wal_replay_from D s (pre @ bs @ rest) =
     (case apply_record r s of Ok _ s' \<Rightarrow> wal_replay_from D s' rest | Err e s' \<Rightarrow> Err e s' | Panic \<Rightarrow> Panic)"
  using assms by (subst wal_replay_from.simps) (simp add: Let_def split: outcome.split)

lemma wal_replay_from_frame:
  assumes "wal_codec X D" and "wal_frame X r = Inr fr"
  shows "wal_replay_from D s (fr @ rest) =
     (case apply_record r s of Ok _ s' \<Rightarrow> wal_replay_from D s' rest | Err e s' \<Rightarrow> Err e s' | Panic \<Rightarrow> Panic)"
proof -
  obtain bs where fr: "fr = le_bytes 4 (word_of_nat (length bs) :: u32) @ bs"
    and D: "D bs = Some r" and len: "unat (word_of_nat (length bs) :: u32) = length bs"
    using wal_frame_split [OF assms] .
  show ?thesis
    unfolding fr append_assoc by (rule wal_replay_from_entry) (simp_all add: len D)
qed

lemma wal_replay_from_file:
  "wal_codec X D \<Longrightarrow> wal_file X rs f \<Longrightarrow> wal_replay_from D s (f @ tail) =
     (case run_log apply_record rs s of
        Ok _ s' \<Rightarrow> wal_replay_from D s' tail | Err e s' \<Rightarrow> Err e s' | Panic \<Rightarrow> Panic)"
proof (induction rs arbitrary: s f)
  case Nil
  then show ?case by (simp add: wal_file_def)
next
  case (Cons r rs)
  then obtain fr f' where fr: "wal_frame X r = Inr fr" and f: "f = fr @ f'"
    and rest: "wal_file X rs f'"
    by (auto simp: wal_file_def Cons_eq_map_conv)
  show ?case
    unfolding f append_assoc wal_replay_from_frame [OF Cons.prems(1) fr]
    by (auto simp: Cons.IH [OF Cons.prems(1) rest] split: outcome.splits)
qed

lemma wal_replay_from_Nil [simp]: "wal_replay_from D s [] = Ok () s"
  by (simp add: wal_replay_from.simps)

lemma wal_file_Nil [simp]: "wal_file X [] []"
  by (simp add: wal_file_def)

lemma wal_file_append:
  assumes "wal_file X rs file" and "wal_append X io r file = Ok () file'"
  shows "wal_file X (rs @ [r]) file'"
proof -
  obtain frs where "map (wal_frame X) rs = map Inr frs" "file = concat frs"
    using assms(1) by (auto simp: wal_file_def)
  moreover obtain fr where "wal_frame X r = Inr fr" "file' = file @ fr"
    using assms(2) by (auto simp: wal_append_def split: sum.splits option.splits)
  ultimately show ?thesis unfolding wal_file_def
    by (intro exI [of _ "frs @ [fr]"]) simp
qed

lemma wal_replay_file:
  assumes "wal_codec X D" and "wal_file X rs file"
  shows "wal_replay D None file = run_log apply_record rs shard_state_new"
  using wal_replay_from_file [OF assms, of shard_state_new "[]"]
  by (auto simp: wal_replay_def split: outcome.splits)

text \<open>A frame that reached the file only in part: its prefix tells the two cases apart.\<close>

lemma wal_replay_torn:
  assumes "wal_codec X D" and "wal_file X rs file" and "wal_frame X r = Inr fr" and "k < length fr"
    and "run_log apply_record rs shard_state_new = Ok () s"
  shows "wal_replay D None (file @ take k fr) =
     (if k < 4 then Ok () s else Err (Io ''failed to fill whole buffer'') s)"
proof -
  obtain bs where fr: "fr = le_bytes 4 (word_of_nat (length bs) :: u32) @ bs"
    and len: "unat (word_of_nat (length bs) :: u32) = length bs"
    using wal_frame_split [OF assms(1,3)] .
  have "wal_replay_from D s (take k fr) =
     (if k < 4 then Ok () s else Err (Io ''failed to fill whole buffer'') s)"
  proof (cases "k < 4")
    case True
    then show ?thesis by (subst wal_replay_from.simps) (simp add: fr)
  next
    case False
    then have "take 4 (take k fr) = le_bytes 4 (word_of_nat (length bs) :: u32)"
      and "length (drop 4 (take k fr)) < length bs" and "\<not> length (take k fr) < 4"
      using assms(4) by (simp_all add: fr min_def)
    then show ?thesis
      using False by (subst wal_replay_from.simps) (simp add: Let_def len)
  qed
  then show ?thesis
    using wal_replay_from_file [OF assms(1,2), of shard_state_new "take k fr"] assms(5)
    by (simp add: wal_replay_def)
qed

section \<open>A concrete reader\<close>

fun get_u64 :: "cval \<Rightarrow> u64" where
  "get_u64 (CUint w) = ucast w"
| "get_u64 _ = 0"

fun get_u8 :: "cval \<Rightarrow> u8" where
  "get_u8 (CUint w) = ucast w"
| "get_u8 _ = 0"

fun get_amount :: "cval \<Rightarrow> amount_micros" where
  "get_amount (CUint w) = AmountMicros w"
| "get_amount _ = AmountMicros 0"

fun get_b32 :: "cval \<Rightarrow> b32" where
  "get_b32 (CArr xs) = word_of_nat (nat_of_le (map get_u8 xs))"
| "get_b32 _ = 0"

definition sample_parse_record :: "cval \<Rightarrow> wal_record option" where
  "sample_parse_record v =
     (case v of
        CMap [(_, CMap [(_, e)])] \<Rightarrow> Some (FenceEpoch (Epoch (get_u64 e)))
      | CMap [(t, CMap [(_, a), (_, b), (_, c), (_, d), (_, e)])] \<Rightarrow>
          Some (if t = ''ActivateCapability''
            then ActivateCapability (CapabilityId (get_b32 a)) (Epoch (get_u64 b)) (get_amount c)
                   (Sequence (get_u64 d)) (Sequence (get_u64 e))
            else ConsumePay (get_b32 a) (CapabilityId (get_b32 b)) (Epoch (get_u64 c))
                   (Sequence (get_u64 d)) (get_amount e))
      | _ \<Rightarrow> None)"

definition sample_wal_read :: "bytes \<Rightarrow> wal_record option" where
  "sample_wal_read bs = Option.bind (sample_read bs) sample_parse_record"

lemma ucast_down_up [simp]:
  assumes "LENGTH('a) \<le> LENGTH('b)"
  shows "ucast (ucast (w :: 'a::len word) :: 'b::len word) = w"
proof -
  have "unat (ucast (ucast w :: 'b word) :: 'a word) = take_bit LENGTH('a) (unat (ucast w :: 'b word))"
    by (rule unsigned_ucast_eq)
  also have "\<dots> = unat w" by (simp only: unat_ucast_up [OF assms]) (simp add: take_bit_nat_eq_self)
  finally show ?thesis by (simp only: word_unat_eq_iff)
qed

lemma get_ser [simp]:
  "get_u64 (c_epoch ep) = epoch_num ep" "get_u64 (c_seq sq) = seq_num sq"
  "get_amount (c_amount a) = a" "get_u8 (c_u8 b) = b"
  by (simp_all add: c_epoch_def c_seq_def c_amount_def c_u64_def c_u8_def)

lemma get_b32_ser [simp]: "get_b32 (c_b32 w) = w"
  by (simp add: c_b32_def c_bytes_def comp_def b32_bytes_def nat_of_le_bytes_full)

lemma sample_parse_ser [simp]: "sample_parse_record (ser_wal_record r) = Some r"
  by (cases r) (simp_all add: sample_parse_record_def)

lemma length_enc_b32: "length (enc (c_b32 w)) = 578"
  by (simp add: c_b32_def c_bytes_def length_concat comp_def c_u8_def sum_list_triv)

lemma length_enc_nums:
  "length (enc (c_epoch ep)) = 17" "length (enc (c_seq sq)) = 17" "length (enc (c_amount a)) = 17"
  by (simp_all add: c_epoch_def c_seq_def c_amount_def c_u64_def)

lemma sample_wal_codec [simp]: "wal_codec sample_crypto sample_wal_read"
  unfolding wal_codec_def
proof (intro allI impI conjI)
  fix r bs
  assume "encode_cbor sample_crypto (ser_wal_record r) = Inr bs"
  then have bs: "bs = enc (ser_wal_record r)" by (simp add: encode_cbor_def)
  show "sample_wal_read bs = Some r" by (simp add: bs sample_wal_read_def)
  show "length bs < 2 ^ 32"
    by (cases r) (simp_all add: bs length_enc_b32 length_enc_nums)
qed

end
