(* ===== verification/Net.thy ===== *)
theory Net
  imports Signing Wal
begin

text \<open>
  The QUIC data plane (\<open>crates/net\<close>): application frames and their length-prefixed encoding
  (\<open>frame.rs\<close>), the early-data policy (\<open>policy.rs\<close>), and sending and receiving a frame on a stream
  (\<open>quic.rs\<close>). The streams are \<open>quinn\<close>'s: a receive stream is the bytes it still delivers and the
  error it then reports, a send stream the bytes written and the fault it injects. The CBOR reader
  of frames is a parameter.
\<close>

section \<open>Frames\<close>

datatype app_frame = IdempotentRead string | PayFrame pay

datatype frame_error = FrameEncode | FrameDecode | TooLarge

fun ser_frame :: "app_frame \<Rightarrow> cval" where
  "ser_frame (IdempotentRead path) = variant ''IdempotentRead'' [(''path'', CText path)]"
| "ser_frame (PayFrame p) = variant ''Pay'' [(''pay'', ser_pay p)]"

lemma ser_pay_inj [simp]: "ser_pay p = ser_pay q \<longleftrightarrow> p = q"
  by (cases p; cases q) (auto simp: ser_pay_def capability_id.expand agent_id.expand)

lemma ser_frame_inj: "ser_frame f = ser_frame g \<longleftrightarrow> f = g"
  by (cases f; cases g) simp_all

definition max_frame :: nat where
  "max_frame = 256 * 1024"

definition encode_frame :: "crypto \<Rightarrow> app_frame \<Rightarrow> frame_error + bytes" where
  "encode_frame X f =
     (case encode_cbor X (ser_frame f) of
        Inl _ \<Rightarrow> Inl FrameEncode
      | Inr body \<Rightarrow>
          if max_frame < length body then Inl TooLarge
          else Inr (be_bytes 4 (word_of_nat (length body) :: u32) @ body))"

definition decode_frame :: "(bytes \<Rightarrow> app_frame option) \<Rightarrow> bytes \<Rightarrow> frame_error + app_frame" where
  "decode_frame D bs =
     (if length bs < 4 then Inl FrameDecode
      else let len = unat (u32_of_be (take 4 bs)) in
        if max_frame < len \<or> length bs \<noteq> 4 + len then Inl FrameDecode
        else (case D (drop 4 bs) of None \<Rightarrow> Inl FrameDecode | Some f \<Rightarrow> Inr f))"

section \<open>The early-data policy\<close>

datatype admit_error = ZeroRttPayForbidden

fun admit_frame :: "bool \<Rightarrow> app_frame \<Rightarrow> admit_error + unit" where
  "admit_frame is_early_data (PayFrame p) = (if is_early_data then Inl ZeroRttPayForbidden else Inr ())"
| "admit_frame is_early_data (IdempotentRead path) = Inr ()"

section \<open>Streams\<close>

datatype quic_error = QuicFrame frame_error | QuicAdmit admit_error | QuicIo string

record recv_stream =
  rs_data :: bytes
  rs_end :: string

record send_stream =
  ts_written :: bytes
  ts_fault :: "(nat \<times> string) option"

text \<open>\<open>read_exact\<close> on a stream that runs short takes what there is and reports the stream's end.\<close>

definition read_exact :: "nat \<Rightarrow> recv_stream \<Rightarrow> (recv_stream, quic_error, bytes) outcome" where
  "read_exact n s =
     (if n \<le> length (rs_data s) then Ok (take n (rs_data s)) (s\<lparr> rs_data := drop n (rs_data s) \<rparr>)
      else Err (QuicIo (rs_end s)) (s\<lparr> rs_data := [] \<rparr>))"

definition write_all :: "bytes \<Rightarrow> send_stream \<Rightarrow> (send_stream, quic_error, unit) outcome" where
  "write_all bs s =
     (case ts_fault s of
        None \<Rightarrow> Ok () (s\<lparr> ts_written := ts_written s @ bs \<rparr>)
      | Some (k, e) \<Rightarrow> Err (QuicIo e) (s\<lparr> ts_written := ts_written s @ take k bs \<rparr>))"

definition send_frame :: "crypto \<Rightarrow> app_frame \<Rightarrow> send_stream \<Rightarrow> (send_stream, quic_error, unit) outcome" where
  "send_frame X f s =
     (case encode_frame X f of Inl e \<Rightarrow> Err (QuicFrame e) s | Inr bs \<Rightarrow> write_all bs s)"

definition recv_frame ::
  "(bytes \<Rightarrow> app_frame option) \<Rightarrow> recv_stream \<Rightarrow> (recv_stream, quic_error, app_frame) outcome" where
  "recv_frame D s =
     and_then (read_exact 4 s) (\<lambda>len_buf s1.
     and_then (read_exact (unat (u32_of_be len_buf)) s1) (\<lambda>body s2.
     case decode_frame D (len_buf @ body) of Inl e \<Rightarrow> Err (QuicFrame e) s2 | Inr f \<Rightarrow> Ok f s2))"

definition recv_admitted_frame ::
  "(bytes \<Rightarrow> app_frame option) \<Rightarrow> bool \<Rightarrow> recv_stream \<Rightarrow> (recv_stream, quic_error, app_frame) outcome" where
  "recv_admitted_frame D is_early_data s =
     and_then (recv_frame D s) (\<lambda>f s1.
       case admit_frame is_early_data f of Inl e \<Rightarrow> Err (QuicAdmit e) s1 | Inr _ \<Rightarrow> Ok f s1)"

section \<open>Framing\<close>

text \<open>
  The contract of a self-delimiting encoding: a frame followed by anything is read back, and what
  follows is left. A sequence of frames is then read back in order.
\<close>

locale framing =
  fixes codec :: "'c \<Rightarrow> bool" and put :: "'c \<Rightarrow> 'f \<Rightarrow> bytes option" and get :: "'c \<Rightarrow> bytes \<Rightarrow> ('f \<times> bytes) option"
  assumes get_put: "codec c \<Longrightarrow> put c f = Some bs \<Longrightarrow> get c (bs @ rest) = Some (f, rest)"
begin

fun put_all :: "'c \<Rightarrow> 'f list \<Rightarrow> bytes option" where
  "put_all c [] = Some []"
| "put_all c (f # fs) =
     (case put c f of None \<Rightarrow> None | Some bs \<Rightarrow> map_option ((@) bs) (put_all c fs))"

fun get_n :: "'c \<Rightarrow> nat \<Rightarrow> bytes \<Rightarrow> ('f list \<times> bytes) option" where
  "get_n c 0 bs = Some ([], bs)"
| "get_n c (Suc n) bs =
     (case get c bs of None \<Rightarrow> None
      | Some (f, rest) \<Rightarrow> map_option (\<lambda>(fs, r). (f # fs, r)) (get_n c n rest))"

lemma get_put_all: "codec c \<Longrightarrow> put_all c fs = Some bs \<Longrightarrow> get_n c (length fs) (bs @ rest) = Some (fs, rest)"
  by (induction fs arbitrary: bs) (auto simp: get_put split: option.splits)

lemma put_prefix_free:
  assumes "codec c" and "put c f = Some as" and "put c g = Some bs" and "as @ r = bs @ q"
  shows "f = g \<and> r = q"
  using get_put [OF assms(1,2), of r] get_put [OF assms(1,3), of q] assms(4) by simp

end

text \<open>The documented behaviour of the CBOR reader on frames.\<close>

definition frame_reader :: "crypto \<times> (bytes \<Rightarrow> app_frame option) \<Rightarrow> bool" where
  "frame_reader c \<longleftrightarrow> (\<forall>f bs. encode_cbor (fst c) (ser_frame f) = Inr bs \<longrightarrow> snd c bs = Some f)"

definition frame_put :: "crypto \<times> (bytes \<Rightarrow> app_frame option) \<Rightarrow> app_frame \<Rightarrow> bytes option" where
  "frame_put c f = (case encode_frame (fst c) f of Inl _ \<Rightarrow> None | Inr bs \<Rightarrow> Some bs)"

definition frame_get :: "crypto \<times> (bytes \<Rightarrow> app_frame option) \<Rightarrow> bytes \<Rightarrow> (app_frame \<times> bytes) option" where
  "frame_get c bs = (case recv_frame (snd c) \<lparr> rs_data = bs, rs_end = [] \<rparr> of Ok f s \<Rightarrow> Some (f, rs_data s) | _ \<Rightarrow> None)"

lemma frame_length: "length body \<le> max_frame \<Longrightarrow> unat (word_of_nat (length body) :: u32) = length body"
  by (simp add: max_frame_def unat_of_nat take_bit_nat_eq_self)

lemma decode_frame_Inr:
  "decode_frame D bs = Inr f \<longleftrightarrow>
     (\<exists>body. bs = be_bytes 4 (word_of_nat (length body) :: u32) @ body \<and> length body \<le> max_frame \<and> D body = Some f)"
proof
  assume d: "decode_frame D bs = Inr f"
  let ?pre = "take 4 bs" and ?body = "drop 4 bs"
  have l: "4 \<le> length bs" and n: "unat (u32_of_be ?pre) = length ?body" and m: "length ?body \<le> max_frame"
    and f: "D ?body = Some f"
    using d by (auto simp: decode_frame_def Let_def split: if_splits option.splits)
  have "u32_of_be ?pre = word_of_nat (length ?body)" unfolding n [symmetric] by simp
  moreover have "be_bytes 4 (u32_of_be ?pre) = ?pre" using l by (intro be_bytes_u32_of_be) simp
  ultimately have "bs = be_bytes 4 (word_of_nat (length ?body) :: u32) @ ?body" by (metis append_take_drop_id)
  then show "\<exists>body. bs = be_bytes 4 (word_of_nat (length body) :: u32) @ body \<and> length body \<le> max_frame \<and> D body = Some f"
    using m f by blast
next
  assume "\<exists>body. bs = be_bytes 4 (word_of_nat (length body) :: u32) @ body \<and> length body \<le> max_frame \<and> D body = Some f"
  then show "decode_frame D bs = Inr f" by (auto simp: decode_frame_def Let_def frame_length)
qed

lemma encode_frame_Inr:
  "encode_frame X f = Inr bs \<longleftrightarrow>
     (\<exists>body. encode_cbor X (ser_frame f) = Inr body \<and> length body \<le> max_frame \<and>
        bs = be_bytes 4 (word_of_nat (length body) :: u32) @ body)"
  by (auto simp: encode_frame_def split: sum.splits)

text \<open>Receiving when the announced body is there, whatever follows it.\<close>

lemma recv_frame_body:
  assumes "length pre = 4" and "unat (u32_of_be pre) = length body"
  shows "recv_frame D \<lparr> rs_data = pre @ body @ rest, rs_end = e \<rparr> =
    (case decode_frame D (pre @ body) of
       Inl err \<Rightarrow> Err (QuicFrame err) \<lparr> rs_data = rest, rs_end = e \<rparr>
     | Inr f \<Rightarrow> Ok f \<lparr> rs_data = rest, rs_end = e \<rparr>)"
  using assms by (simp add: recv_frame_def read_exact_def)

lemma recv_encoded:
  assumes "frame_reader (X, D)" and "encode_frame X f = Inr bs"
  shows "recv_frame D \<lparr> rs_data = bs @ rest, rs_end = e \<rparr> = Ok f \<lparr> rs_data = rest, rs_end = e \<rparr>"
proof -
  obtain body where enc: "encode_cbor X (ser_frame f) = Inr body" and len: "length body \<le> max_frame"
    and bs: "bs = be_bytes 4 (word_of_nat (length body) :: u32) @ body"
    using assms(2) by (auto simp: encode_frame_Inr)
  have "D body = Some f" using assms(1) enc by (simp add: frame_reader_def)
  then have "decode_frame D (be_bytes 4 (word_of_nat (length body) :: u32) @ body) = Inr f"
    using len by (auto simp: decode_frame_Inr)
  then show ?thesis
    using recv_frame_body [of "be_bytes 4 (word_of_nat (length body) :: u32)" body D rest e] len
    by (simp add: bs frame_length)
qed

interpretation frames: framing frame_reader frame_put frame_get
proof
  fix c :: "crypto \<times> (bytes \<Rightarrow> app_frame option)" and f bs rest
  assume "frame_reader c" "frame_put c f = Some bs"
  then show "frame_get c (bs @ rest) = Some (f, rest)"
    using recv_encoded [of "fst c" "snd c" f bs rest "[]"]
    by (auto simp: frame_put_def frame_get_def split: sum.splits)
qed

section \<open>A sequence of frames on a stream\<close>

fun send_frames :: "crypto \<Rightarrow> app_frame list \<Rightarrow> send_stream \<Rightarrow> (send_stream, quic_error, unit) outcome" where
  "send_frames X [] s = Ok () s"
| "send_frames X (f # fs) s = and_then (send_frame X f s) (\<lambda>_ s1. send_frames X fs s1)"

fun recv_frames ::
  "(bytes \<Rightarrow> app_frame option) \<Rightarrow> nat \<Rightarrow> recv_stream \<Rightarrow> (recv_stream, quic_error, app_frame list) outcome" where
  "recv_frames D 0 s = Ok [] s"
| "recv_frames D (Suc n) s =
     and_then (recv_frame D s) (\<lambda>f s1. and_then (recv_frames D n s1) (\<lambda>fs s2. Ok (f # fs) s2))"

lemma send_frame_Ok:
  "send_frame X f s = Ok () t \<longleftrightarrow>
     (\<exists>bs. encode_frame X f = Inr bs \<and> ts_fault s = None \<and> t = s\<lparr> ts_written := ts_written s @ bs \<rparr>)"
  by (auto simp: send_frame_def write_all_def split: sum.splits option.splits)

lemma send_frames_put_all:
  assumes "send_frames X fs s = Ok () t"
  shows "\<exists>bs. frames.put_all (X, D) fs = Some bs \<and> ts_written t = ts_written s @ bs"
  using assms
proof (induction fs arbitrary: s)
  case (Cons f fs)
  then obtain s1 b where b: "encode_frame X f = Inr b" and s1: "s1 = s\<lparr> ts_written := ts_written s @ b \<rparr>"
    and rest: "send_frames X fs s1 = Ok () t"
    by (auto simp: and_then_Ok send_frame_Ok)
  obtain bs where "frames.put_all (X, D) fs = Some bs" "ts_written t = ts_written s1 @ bs"
    using Cons.IH [OF rest] by blast
  moreover have "frame_put (X, D) f = Some b" using b by (simp add: frame_put_def)
  ultimately show ?case by (simp add: s1)
qed simp

lemma recv_frames_get_n:
  assumes "frames.get_n (X, D) n (rs_data s) = Some (fs, rest)"
  shows "recv_frames D n s = Ok fs (s\<lparr> rs_data := rest \<rparr>)"
  using assms
proof (induction n arbitrary: s fs)
  case (Suc n)
  have e: "recv_frame D s = Ok f (s\<lparr> rs_data := r \<rparr>)"
    if "frame_get (X, D) (rs_data s) = Some (f, r)" for f r
  proof -
    have "recv_frame D \<lparr> rs_data = rs_data s, rs_end = [] \<rparr> = Ok f \<lparr> rs_data = r, rs_end = [] \<rparr>"
      using that by (auto simp: frame_get_def recv_frame_def read_exact_def and_then_Ok split: outcome.splits if_splits sum.splits)
    then show ?thesis
      by (cases s) (auto simp: recv_frame_def read_exact_def and_then_Ok split: if_splits sum.splits)
  qed
  obtain f r gs where g: "frame_get (X, D) (rs_data s) = Some (f, r)" "frames.get_n (X, D) n r = Some (gs, rest)"
    "fs = f # gs"
    using Suc.prems by (auto split: option.splits)
  have "recv_frames D n (s\<lparr> rs_data := r \<rparr>) = Ok gs (s\<lparr> rs_data := rest \<rparr>)"
    using Suc.IH [of "s\<lparr> rs_data := r \<rparr>" gs] g(2) by simp
  then show ?case using e [OF g(1)] g(3) by simp
qed simp

section \<open>A concrete reader\<close>

definition sample_parse_pay :: "cval \<Rightarrow> pay option" where
  "sample_parse_pay v =
     (case v of
        CMap [(_, a), (_, b), (_, c), (_, d), (_, CText sid), (_, e), (_, CText cur), (_, g), (_, h), (_, i),
              (_, j), (_, k), (_, CArr sig)] \<Rightarrow>
          Some \<lparr> pay_capability_id = CapabilityId (get_b32 a), pay_epoch = Epoch (get_u64 b),
            pay_sequence = Sequence (get_u64 c), pay_agent_id = AgentId (get_b32 d), pay_service_id = sid,
            pay_amount = get_amount e, pay_currency = cur, pay_request_hash = get_b32 g,
            pay_price_quote_hash = get_b32 h, pay_max_amount = get_amount i,
            pay_pricing_schedule_version = get_u64 j, pay_expiry_unix_ms = get_u64 k,
            pay_agent_signature = map get_u8 sig \<rparr>
      | _ \<Rightarrow> None)"

definition sample_parse_frame :: "cval \<Rightarrow> app_frame option" where
  "sample_parse_frame v =
     (case v of
        CMap [(_, CMap [(_, x)])] \<Rightarrow>
          (case x of CText path \<Rightarrow> Some (IdempotentRead path) | _ \<Rightarrow> map_option PayFrame (sample_parse_pay x))
      | _ \<Rightarrow> None)"

definition sample_frame_read :: "bytes \<Rightarrow> app_frame option" where
  "sample_frame_read bs = Option.bind (sample_read bs) sample_parse_frame"

lemma get_u64_ser [simp]: "get_u64 (c_u64 w) = w"
  by (simp add: c_u64_def)

lemma sample_parse_ser_pay [simp]: "sample_parse_pay (ser_pay p) = Some p"
  by (cases p) (simp add: sample_parse_pay_def ser_pay_def c_bytes_def comp_def)

lemma sample_parse_ser_frame [simp]: "sample_parse_frame (ser_frame f) = Some f"
proof (cases f)
  case (PayFrame p)
  obtain xs where xs: "ser_pay p = CMap xs" by (simp add: ser_pay_def)
  then have "sample_parse_pay (CMap xs) = Some p" using sample_parse_ser_pay [of p] by simp
  then show ?thesis by (simp add: PayFrame sample_parse_frame_def variant_def xs)
qed (simp add: sample_parse_frame_def variant_def)

lemma sample_frame_reader [simp]: "frame_reader (sample_crypto, sample_frame_read)"
  by (auto simp: frame_reader_def sample_frame_read_def encode_cbor_def simp del: ser_frame.simps enc.simps)

end
