(* ===== verification/Net_Theorems.thy ===== *)
theory Net_Theorems
  imports Net
begin

text \<open>The theorems about the data plane: framing, its limits, and the early-data policy.\<close>

text \<open>C24: Frames sent one after the other on a stream are received unchanged and in order, and nothing
  is left over.\<close>

theorem frames_received_in_order:
  assumes "frame_reader (X, D)" and "send_frames X fs \<lparr> ts_written = [], ts_fault = None \<rparr> = Ok () t"
  shows "recv_frames D (length fs) \<lparr> rs_data = ts_written t, rs_end = e \<rparr> = Ok fs \<lparr> rs_data = [], rs_end = e \<rparr>"
proof -
  obtain bs where bs: "frames.put_all (X, D) fs = Some bs" "ts_written t = bs"
    using send_frames_put_all [OF assms(2), of D] by auto
  have "frames.get_n (X, D) (length fs) bs = Some (fs, [])"
    using frames.get_put_all [OF assms(1) bs(1), of "[]"] by simp
  then show ?thesis
    using recv_frames_get_n [of X D "length fs" "\<lparr> rs_data = ts_written t, rs_end = e \<rparr>" fs "[]"] bs(2) by simp
qed

lemma frames_received_in_order_witness:
  "\<exists>t :: send_stream. recv_frames sample_frame_read 2 \<lparr> rs_data = ts_written t, rs_end = ''finished'' \<rparr>
     = Ok [IdempotentRead ''/a'', IdempotentRead ''/b''] \<lparr> rs_data = [], rs_end = ''finished'' \<rparr>"
proof -
  let ?fs = "[IdempotentRead ''/a'', IdempotentRead ''/b'']"
  have "\<exists>t. send_frames sample_crypto [IdempotentRead ''/a'', IdempotentRead ''/b''] \<lparr> ts_written = [], ts_fault = None \<rparr> = Ok () t"
    by (simp add: send_frame_def encode_frame_def encode_cbor_def variant_def max_frame_def write_all_def)
  then obtain t where t: "send_frames sample_crypto ?fs \<lparr> ts_written = [], ts_fault = None \<rparr> = Ok () t" by blast
  have "recv_frames sample_frame_read (length ?fs) \<lparr> rs_data = ts_written t, rs_end = ''finished'' \<rparr>
      = Ok ?fs \<lparr> rs_data = [], rs_end = ''finished'' \<rparr>"
    by (rule frames_received_in_order [OF sample_frame_reader t])
  then have "recv_frames sample_frame_read 2 \<lparr> rs_data = ts_written t, rs_end = ''finished'' \<rparr>
      = Ok ?fs \<lparr> rs_data = [], rs_end = ''finished'' \<rparr>"
    by (simp only: list.size add_0 add_Suc numeral_2_eq_2)
  then show ?thesis by blast
qed

text \<open>Decoding accepts exactly a four-byte big-endian length of at most 256 KiB followed by that many
  bytes which the CBOR reader takes: a truncated frame, one with trailing bytes, and one over
  the limit are refused.\<close>

lemma decode_frame_exact:
  "decode_frame D bs = Inr f \<longleftrightarrow>
     (\<exists>body. bs = be_bytes 4 (word_of_nat (length body) :: u32) @ body \<and> length body \<le> 256 * 1024 \<and> D body = Some f)"
  using decode_frame_Inr [of D bs f] by (simp add: max_frame_def)

text \<open>No payment is admitted as early data: receiving with admission returns exactly the frames
  that receiving returns, except that a payment in early data is refused, and only that.\<close>

lemma pay_never_admitted_early:
  "(recv_admitted_frame D early s = Ok f t \<longleftrightarrow>
      recv_frame D s = Ok f t \<and> \<not> (early \<and> (\<exists>p. f = PayFrame p))) \<and>
   (recv_admitted_frame D early s = Err (QuicAdmit e) t \<longleftrightarrow> early \<and> (\<exists>p. recv_frame D s = Ok (PayFrame p) t))"
proof -
  have a: "admit_frame early g = Inl x \<longleftrightarrow> early \<and> (\<exists>p. g = PayFrame p)" for g x
    by (cases g; cases x) simp_all
  have b: "admit_frame early g = Inr () \<longleftrightarrow> \<not> (early \<and> (\<exists>p. g = PayFrame p))" for g
    by (cases g) simp_all
  have "recv_frame D s \<noteq> Err (QuicAdmit x) u" for x u
    by (auto simp: recv_frame_def read_exact_def and_then_Err split: if_splits sum.splits)
  moreover have "(case admit_frame early g of Inl x \<Rightarrow> Err (QuicAdmit x) u | Inr _ \<Rightarrow> Ok g u) = Ok f t \<longleftrightarrow>
      g = f \<and> u = t \<and> admit_frame early f = Inr ()" for g u
    by (auto split: sum.splits)
  moreover have "(case admit_frame early g of Inl x \<Rightarrow> Err (QuicAdmit x) u | Inr _ \<Rightarrow> Ok g u) = Err (QuicAdmit e) t \<longleftrightarrow>
      u = t \<and> admit_frame early g = Inl e" for g u
    by (auto split: sum.splits)
  ultimately show ?thesis by (auto simp: recv_admitted_frame_def and_then_Ok and_then_Err a b)
qed

text \<open>
  The limit is checked after reading: a receiver takes the whole body that a length announces, up
  to 4 GiB, before it refuses a frame over 256 KiB.
\<close>

lemma oversized_body_read_before_refusal:
  assumes "length pre = 4" and "max_frame < unat (u32_of_be pre)" and "length body = unat (u32_of_be pre)"
  shows "recv_frame D \<lparr> rs_data = pre @ body @ rest, rs_end = e \<rparr>
    = Err (QuicFrame FrameDecode) \<lparr> rs_data = rest, rs_end = e \<rparr>"
  using recv_frame_body [of pre body D rest e] assms by (simp add: decode_frame_def)

end
