(* ===== verification/Merkle.thy ===== *)
theory Merkle
  imports Sample_Codec
begin

text \<open>
  Merkle trees over receipt leaves (\<open>crates/shard/src/merkle.rs\<close>): the root, inclusion proofs and
  their verification. The loops over levels become recursive functions; a level of odd length is
  padded with a copy of its last hash, as in the code. Facts that rest on the hash being
  collision free assume so only on the inputs the two computations compared hash, since no
  function from 64 bytes to 32 is injective.
\<close>

section \<open>Levels\<close>

record merkle_proof =
  mp_index :: nat
  mp_siblings :: "b32 list"

definition hash_pair :: "crypto \<Rightarrow> b32 \<Rightarrow> b32 \<Rightarrow> b32" where
  "hash_pair X l r = blake3 X (b32_bytes l @ b32_bytes r)"

definition pad_level :: "b32 list \<Rightarrow> b32 list" where
  "pad_level level = (if odd (length level) then level @ [last level] else level)"

text \<open>
  \<open>chunks(2)\<close> with the hash of each chunk; a chunk of one hash would panic and does not occur,
  since the level has been padded.
\<close>

fun hash_chunks :: "crypto \<Rightarrow> b32 list \<Rightarrow> b32 list" where
  "hash_chunks X (a # b # xs) = hash_pair X a b # hash_chunks X xs"
| "hash_chunks X _ = []"

definition level_up :: "crypto \<Rightarrow> b32 list \<Rightarrow> b32 list" where
  "level_up X level = hash_chunks X (pad_level level)"

lemma length_hash_chunks [simp]: "length (hash_chunks X xs) = length xs div 2"
  by (induction X xs rule: hash_chunks.induct) auto

lemma length_pad_level [simp]: "length (pad_level level) = 2 * ((length level + 1) div 2)"
  by (auto simp: pad_level_def elim: oddE)

lemma length_level_up [simp]: "length (level_up X level) = (length level + 1) div 2"
  by (simp add: level_up_def)

section \<open>Root, proof and verification\<close>

function root_loop :: "crypto \<Rightarrow> b32 list \<Rightarrow> b32" where
  "root_loop X level = (if length level > 1 then root_loop X (level_up X level) else level ! 0)"
  by pat_completeness auto
termination
  by (relation "measure (\<lambda>(X, level). length level)") auto

declare root_loop.simps [simp del]

definition merkle_root :: "crypto \<Rightarrow> b32 list \<Rightarrow> b32" where
  "merkle_root X leaves =
     (if leaves = [] then blake3 X (str_bytes ''empty-merkle'') else root_loop X leaves)"

function proof_loop :: "crypto \<Rightarrow> b32 list \<Rightarrow> nat \<Rightarrow> b32 list" where
  "proof_loop X level idx =
     (if length level > 1
      then pad_level level ! (if even idx then idx + 1 else idx - 1)
           # proof_loop X (level_up X level) (idx div 2)
      else [])"
  by pat_completeness auto
termination
  by (relation "measure (\<lambda>(X, level, idx). length level)") auto

declare proof_loop.simps [simp del]

definition merkle_proof_of :: "crypto \<Rightarrow> b32 list \<Rightarrow> nat \<Rightarrow> merkle_proof option" where
  "merkle_proof_of X leaves index =
     (if leaves = [] \<or> length leaves \<le> index then None
      else Some \<lparr> mp_index = index, mp_siblings = proof_loop X leaves index \<rparr>)"

fun climb :: "crypto \<Rightarrow> b32 \<Rightarrow> nat \<Rightarrow> b32 list \<Rightarrow> b32" where
  "climb X h idx [] = h"
| "climb X h idx (sib # sibs) =
     climb X (if even idx then hash_pair X h sib else hash_pair X sib h) (idx div 2) sibs"

definition verify_merkle_proof :: "crypto \<Rightarrow> b32 \<Rightarrow> merkle_proof \<Rightarrow> b32 \<Rightarrow> bool" where
  "verify_merkle_proof X leaf p root \<longleftrightarrow> climb X leaf (mp_index p) (mp_siblings p) = root"

section \<open>Completeness\<close>

lemma hash_chunks_nth:
  "2 * j + 1 < length xs \<Longrightarrow> hash_chunks X xs ! j = hash_pair X (xs ! (2 * j)) (xs ! (2 * j + 1))"
proof (induction X xs arbitrary: j rule: hash_chunks.induct)
  case (1 X a b xs)
  then show ?case by (cases j) auto
qed auto

lemma pad_level_nth [simp]: "i < length level \<Longrightarrow> pad_level level ! i = level ! i"
  by (simp add: pad_level_def nth_append)

text \<open>One level: the parent of position \<open>i\<close> is the hash of the node and its sibling.\<close>

lemma level_up_nth:
  assumes "i < length level"
  shows "level_up X level ! (i div 2) =
     (if even i then hash_pair X (level ! i) (pad_level level ! (i + 1))
      else hash_pair X (pad_level level ! (i - 1)) (level ! i))"
proof -
  have b: "2 * (i div 2) + 1 < length (pad_level level)"
    using assms by (simp, presburger)
  show ?thesis
  proof (cases "even i")
    case True
    then have "2 * (i div 2) = i" by simp
    then show ?thesis using True assms hash_chunks_nth [OF b, of X] by (simp add: level_up_def)
  next
    case False
    then have "2 * (i div 2) + 1 = i" "2 * (i div 2) = i - 1" by presburger+
    then show ?thesis using False assms hash_chunks_nth [OF b, of X] by (simp add: level_up_def)
  qed
qed

lemma climb_proof_loop:
  "i < length level \<Longrightarrow> climb X (level ! i) i (proof_loop X level i) = root_loop X level"
proof (induction X level i rule: proof_loop.induct)
  case (1 X level idx)
  show ?case
  proof (cases "length level > 1")
    case True
    have "idx div 2 < length (level_up X level)" using "1.prems" by simp
    then have "climb X (level_up X level ! (idx div 2)) (idx div 2) (proof_loop X (level_up X level) (idx div 2))
        = root_loop X (level_up X level)"
      by (rule "1.IH" [OF True])
    then show ?thesis
      using True level_up_nth [OF "1.prems", of X]
      by (cases "even idx") (simp_all add: proof_loop.simps [of X level idx] root_loop.simps [of X level])
  next
    case False
    with "1.prems" have "idx = 0" by simp
    then show ?thesis
      using False by (simp add: proof_loop.simps [of X level 0] root_loop.simps [of X level])
  qed
qed

section \<open>Binding, when the inputs that are hashed do not collide\<close>

definition pair_input :: "b32 \<Rightarrow> b32 \<Rightarrow> bytes" where
  "pair_input l r = b32_bytes l @ b32_bytes r"

text \<open>The inputs a climb hashes, and those the computation of a root hashes.\<close>

fun climb_inputs :: "crypto \<Rightarrow> b32 \<Rightarrow> nat \<Rightarrow> b32 list \<Rightarrow> bytes list" where
  "climb_inputs X h idx [] = []"
| "climb_inputs X h idx (sib # sibs) =
     (let (l, r) = (if even idx then (h, sib) else (sib, h))
      in pair_input l r # climb_inputs X (hash_pair X l r) (idx div 2) sibs)"

fun chunk_inputs :: "b32 list \<Rightarrow> bytes list" where
  "chunk_inputs (a # b # xs) = pair_input a b # chunk_inputs xs"
| "chunk_inputs _ = []"

function root_inputs :: "crypto \<Rightarrow> b32 list \<Rightarrow> bytes list" where
  "root_inputs X level =
     (if length level > 1 then chunk_inputs (pad_level level) @ root_inputs X (level_up X level) else [])"
  by pat_completeness auto
termination
  by (relation "measure (\<lambda>(X, level). length level)") auto

declare root_inputs.simps [simp del]

lemma pair_input_inj [simp]: "pair_input a b = pair_input c d \<longleftrightarrow> a = c \<and> b = d"
  by (simp add: pair_input_def)

lemma hash_pair_inj_on:
  assumes "inj_on (blake3 X) S" and "pair_input a b \<in> S" and "pair_input c d \<in> S"
    and "hash_pair X a b = hash_pair X c d"
  shows "a = c \<and> b = d"
proof -
  have "blake3 X (pair_input a b) = blake3 X (pair_input c d)"
    using assms(4) by (simp only: hash_pair_def pair_input_def)
  then have "pair_input a b = pair_input c d" by (rule inj_onD [OF assms(1) _ assms(2,3)])
  then show ?thesis by simp
qed

lemma climb_inj:
  assumes "inj_on (blake3 X) S"
  shows "length ss = length ts \<Longrightarrow> set (climb_inputs X h i ss) \<subseteq> S \<Longrightarrow>
    set (climb_inputs X k i ts) \<subseteq> S \<Longrightarrow> climb X h i ss = climb X k i ts \<Longrightarrow> h = k \<and> ss = ts"
proof (induction ss ts arbitrary: h k i rule: list_induct2)
  case (Cons s ss t ts)
  show ?case
  proof (cases "even i")
    case True
    then have "hash_pair X h s = hash_pair X k t \<and> ss = ts"
      using Cons.prems by (intro Cons.IH [of _ "i div 2"]) simp_all
    moreover have "pair_input h s \<in> S" "pair_input k t \<in> S" using Cons.prems True by simp_all
    ultimately show ?thesis using hash_pair_inj_on [OF assms] by blast
  next
    case False
    then have "hash_pair X s h = hash_pair X t k \<and> ss = ts"
      using Cons.prems by (intro Cons.IH [of _ "i div 2"]) simp_all
    moreover have "pair_input s h \<in> S" "pair_input t k \<in> S" using Cons.prems False by simp_all
    ultimately show ?thesis using hash_pair_inj_on [OF assms] by blast
  qed
qed simp

lemma hash_chunks_inj:
  "inj_on (blake3 X) S \<Longrightarrow> length xs = length ys \<Longrightarrow> even (length xs) \<Longrightarrow>
    set (chunk_inputs xs) \<subseteq> S \<Longrightarrow> set (chunk_inputs ys) \<subseteq> S \<Longrightarrow>
    hash_chunks X xs = hash_chunks X ys \<Longrightarrow> xs = ys"
proof (induction X xs arbitrary: ys rule: hash_chunks.induct)
  case (1 X a b xs)
  obtain c ys' where ys: "ys = c # ys'" using "1.prems"(2) by (cases ys) auto
  obtain d zs where ys': "ys' = d # zs" using "1.prems"(2) ys by (cases ys') auto
  have "hash_pair X a b = hash_pair X c d" and eq: "hash_chunks X xs = hash_chunks X zs"
    using "1.prems"(6) ys ys' by simp_all
  moreover have "xs = zs" by (rule "1.IH" [OF "1.prems"(1) _ _ _ _ eq]) (use "1.prems" ys ys' in auto)
  moreover have "pair_input a b \<in> S" "pair_input c d \<in> S" using "1.prems" ys ys' by simp_all
  ultimately show ?case using ys ys' hash_pair_inj_on [OF "1.prems"(1)] by blast
qed auto

lemma pad_level_inj: "length xs = length ys \<Longrightarrow> pad_level xs = pad_level ys \<Longrightarrow> xs = ys"
  by (simp add: pad_level_def split: if_splits)

lemma root_loop_inj:
  assumes S: "inj_on (blake3 X) S"
  shows "xs \<noteq> [] \<Longrightarrow> length xs = length ys \<Longrightarrow> set (root_inputs X xs) \<subseteq> S \<Longrightarrow>
    set (root_inputs X ys) \<subseteq> S \<Longrightarrow> root_loop X xs = root_loop X ys \<Longrightarrow> xs = ys"
proof (induction "length xs" arbitrary: xs ys rule: less_induct)
  case less
  show ?case
  proof (cases "length xs > 1")
    case True
    then have True': "length ys > 1" using less.prems(2) by simp
    note unfold = root_inputs.simps [of X xs] root_inputs.simps [of X ys]
      root_loop.simps [of X xs] root_loop.simps [of X ys]
    have "level_up X xs = level_up X ys"
    proof (rule less.hyps)
      show "length (level_up X xs) < length xs" using True by simp
      have "0 < length (level_up X xs)" using True by simp
      then show "level_up X xs \<noteq> []" by (simp only: length_greater_0_conv not_False_eq_True)
      show "length (level_up X xs) = length (level_up X ys)" using less.prems(2) by simp
      show "set (root_inputs X (level_up X xs)) \<subseteq> S" "set (root_inputs X (level_up X ys)) \<subseteq> S"
        "root_loop X (level_up X xs) = root_loop X (level_up X ys)"
        using less.prems(3-5) True True' unfolding unfold by simp_all
    qed
    moreover have "set (chunk_inputs (pad_level xs)) \<subseteq> S" "set (chunk_inputs (pad_level ys)) \<subseteq> S"
      using less.prems(3,4) True True' unfolding unfold by simp_all
    ultimately have "pad_level xs = pad_level ys"
      using less.prems(2) hash_chunks_inj [OF S, of "pad_level xs" "pad_level ys"]
      by (simp add: level_up_def)
    then show ?thesis using less.prems(2) pad_level_inj by blast
  next
    case False
    with less.prems(1,2) obtain a b where "xs = [a]" "ys = [b]"
      by (cases xs; cases ys) auto
    then show ?thesis using less.prems(5) by (simp add: root_loop.simps)
  qed
qed

section \<open>Padding is not binding across lengths\<close>

lemma pad_level_even: "even (length xs) \<Longrightarrow> pad_level xs = xs"
  by (simp add: pad_level_def)

lemma level_up_duplicate_last:
  assumes "odd (length xs)"
  shows "level_up X (xs @ [last xs]) = level_up X xs"
  using assms by (simp add: level_up_def pad_level_def)

end
