(* ===== verification/Receipts.thy ===== *)
theory Receipts
  imports Signing Shard_State Merkle
begin

text \<open>
  Three-party receipts: the log of completed payments (\<open>crates/shard/src/receipt_log.rs\<close>) and the
  construction of a payment proof from an authorised payment, the edge acceptance and the
  service execution (\<open>payment.rs\<close>). The locale \<open>receipt_store\<close> is the interface the checkpoint
  sealer uses.
\<close>

section \<open>The log\<close>

record receipt_log =
  rl_proofs :: "payment_proof list"
  rl_leaves :: "b32 list"
  rl_exposure :: amount_micros

definition receipt_log_new :: receipt_log where
  "receipt_log_new = \<lparr> rl_proofs = [], rl_leaves = [], rl_exposure = AmountMicros 0 \<rparr>"

definition log_len :: "receipt_log \<Rightarrow> nat" where
  "log_len log = length (rl_proofs log)"

definition log_is_empty :: "receipt_log \<Rightarrow> bool" where
  "log_is_empty log \<longleftrightarrow> rl_proofs log = []"

definition log_append :: "crypto \<Rightarrow> payment_proof \<Rightarrow> receipt_log \<Rightarrow> (receipt_log, shard_error, unit) outcome" where
  "log_append X p log =
     or_err (receipt_leaf_hash X p) (Err Cbor log) (\<lambda>leaf.
     ret_or_panic (chk_add (micros (rl_exposure log)) (micros (sr_actual_amount (pp_service p)))) (\<lambda>e.
     Ok () (log\<lparr> rl_exposure := AmountMicros e,
               rl_leaves := rl_leaves log @ [leaf],
               rl_proofs := rl_proofs log @ [p] \<rparr>)))"

definition clear_sealed :: "receipt_log \<Rightarrow> receipt_log" where
  "clear_sealed log = log\<lparr> rl_proofs := [], rl_leaves := [], rl_exposure := AmountMicros 0 \<rparr>"

section \<open>The interface to the sealer\<close>

definition actual_cost :: "payment_proof \<Rightarrow> nat" where
  "actual_cost p = amt (sr_actual_amount (pp_service p))"

definition leaf_of :: "crypto \<Rightarrow> payment_proof \<Rightarrow> b32 option" where
  "leaf_of X p = (case receipt_leaf_hash X p of Inl _ \<Rightarrow> None | Inr h \<Rightarrow> Some h)"

locale receipt_store =
  fixes new_store :: 'l
    and append :: "'x \<Rightarrow> 'p \<Rightarrow> 'l \<Rightarrow> ('l, 'e, unit) outcome"
    and clear :: "'l \<Rightarrow> 'l"
    and items :: "'l \<Rightarrow> 'p list"
    and leaves :: "'l \<Rightarrow> b32 list"
    and exposure :: "'l \<Rightarrow> nat"
    and cost :: "'p \<Rightarrow> nat"
    and leaf :: "'x \<Rightarrow> 'p \<Rightarrow> b32 option"
  assumes new_store_empty: "items new_store = []" "leaves new_store = []" "exposure new_store = 0"
    and clear_empty: "items (clear l) = []" "leaves (clear l) = []" "exposure (clear l) = 0"
    and append_items: "append X p l = Ok () l' \<Longrightarrow> items l' = items l @ [p]"
    and append_leaves: "append X p l = Ok () l' \<Longrightarrow> \<exists>h. leaf X p = Some h \<and> leaves l' = leaves l @ [h]"
    and append_exposure: "append X p l = Ok () l' \<Longrightarrow> exposure l' = exposure l + cost p"
begin

text \<open>A store accounts for its items when its leaves and its exposure are theirs.\<close>

definition accounts :: "'x \<Rightarrow> 'l \<Rightarrow> bool" where
  "accounts X l \<longleftrightarrow> map (leaf X) (items l) = map Some (leaves l) \<and> exposure l = sum_list (map cost (items l))"

lemma accounts_new: "accounts X new_store"
  by (simp add: accounts_def new_store_empty)

lemma accounts_clear: "accounts X (clear l)"
  by (simp add: accounts_def clear_empty)

lemma accounts_append:
  assumes "accounts X l" and "append X p l = Ok () l'"
  shows "accounts X l'"
proof -
  obtain h where "leaf X p = Some h" "leaves l' = leaves l @ [h]"
    using append_leaves [OF assms(2)] by blast
  then show ?thesis
    using assms append_items [OF assms(2)] append_exposure [OF assms(2)]
    by (simp add: accounts_def)
qed

lemma accounts_length: "accounts X l \<Longrightarrow> length (leaves l) = length (items l)"
  unfolding accounts_def by (metis length_map)

lemma accounts_nth:
  "accounts X l \<Longrightarrow> i < length (items l) \<Longrightarrow> leaf X (items l ! i) = Some (leaves l ! i)"
  using accounts_length [of X l] unfolding accounts_def by (metis nth_map)

end

lemma log_append_Ok:
  "log_append X p log = Ok () log' \<longleftrightarrow>
     (\<exists>h. receipt_leaf_hash X p = Inr h \<and>
        amt (rl_exposure log) + actual_cost p < 2 ^ 128 \<and>
        log' = log\<lparr> rl_exposure := AmountMicros (micros (rl_exposure log) + micros (sr_actual_amount (pp_service p))),
                    rl_leaves := rl_leaves log @ [h], rl_proofs := rl_proofs log @ [p] \<rparr>)"
  by (auto simp: log_append_def outcome_iff chk_add_def amt_def actual_cost_def split: if_splits)

interpretation rlog: receipt_store receipt_log_new log_append clear_sealed rl_proofs rl_leaves
  "\<lambda>l. amt (rl_exposure l)" actual_cost leaf_of
  by unfold_locales
    (auto simp: receipt_log_new_def clear_sealed_def log_append_Ok leaf_of_def
      amt_def actual_cost_def unat_word_ariths)

section \<open>Completing a payment (payment.rs, engine.rs)\<close>

record edge_accept =
  ed_commit_index :: u64
  ed_tx_id :: b32
  ed_edge_signature :: bytes

text \<open>
  The proof of a payment: the agent part hashes the CBOR of the whole payment, the edge part
  hashes the agent part and is signed by the edge, the service part hashes the signed edge part
  and is signed by the service.
\<close>

definition agent_part :: "pay \<Rightarrow> b32 \<Rightarrow> agent_authorization" where
  "agent_part p h = \<lparr> aa_pay_cbor_hash = h, aa_agent_signature = pay_agent_signature p \<rparr>"

definition edge_part :: "crypto \<Rightarrow> edge_accept \<Rightarrow> keypair \<Rightarrow> b32 \<Rightarrow> edge_acceptance" where
  "edge_part X acc edge_kp agent_auth_hash =
     \<lparr> ea_agent_auth_hash = agent_auth_hash, ea_commit_index = ed_commit_index acc,
       ea_tx_id = ed_tx_id acc, ea_edge_pubkey = verifying_key_bytes X edge_kp, ea_edge_signature = [] \<rparr>"

definition service_part :: "crypto \<Rightarrow> b32 \<Rightarrow> b32 \<Rightarrow> amount_micros \<Rightarrow> keypair \<Rightarrow> service_receipt" where
  "service_part X edge_accept_hash execution_hash actual_amount service_kp =
     \<lparr> sr_edge_accept_hash = edge_accept_hash, sr_execution_hash = execution_hash,
       sr_actual_amount = actual_amount, sr_service_pubkey = verifying_key_bytes X service_kp,
       sr_service_signature = [] \<rparr>"

definition complete_payment_proof ::
  "crypto \<Rightarrow> pay \<Rightarrow> edge_accept \<Rightarrow> keypair \<Rightarrow> b32 \<Rightarrow> amount_micros \<Rightarrow> keypair \<Rightarrow> receipt_log
   \<Rightarrow> (receipt_log, shard_error, payment_proof) outcome" where
  "complete_payment_proof X p acc edge_kp execution_hash actual_amount service_kp log =
     (if micros (pay_max_amount p) < micros actual_amount then Err ExceedsMaxAmount log
      else or_err (encode_cbor X (ser_pay p)) (Err Cbor log) (\<lambda>bs.
      let agent = agent_part p (blake3 X bs)
      in or_err (hash_cbor X (ser_agent_authorization agent)) (Err Cbor log) (\<lambda>agent_auth_hash.
      let edge0 = edge_part X acc edge_kp agent_auth_hash
      in ret_or_panic (sign_edge_acceptance X edge_kp edge0) (\<lambda>esig.
      let edge = attach_edge esig edge0
      in or_err (hash_cbor X (ser_edge_acceptance edge)) (Err Cbor log) (\<lambda>edge_accept_hash.
      let service0 = service_part X edge_accept_hash execution_hash actual_amount service_kp
      in ret_or_panic (sign_service_receipt X service_kp service0) (\<lambda>ssig.
      let proof = \<lparr> pp_agent = agent, pp_edge = edge, pp_service = attach_service ssig service0 \<rparr>
      in and_then (log_append X proof log) (\<lambda>_ log'. Ok proof log')))))))"

lemma complete_payment_proof_Ok:
  "complete_payment_proof X p acc ek h a sk log = Ok pr log' \<longleftrightarrow>
     amt a \<le> amt (pay_max_amount p) \<and>
     (\<exists>bs ah es eh ss.
        encode_cbor X (ser_pay p) = Inr bs \<and>
        hash_cbor X (ser_agent_authorization (agent_part p (blake3 X bs))) = Inr ah \<and>
        sign_edge_acceptance X ek (edge_part X acc ek ah) = Some es \<and>
        hash_cbor X (ser_edge_acceptance (attach_edge es (edge_part X acc ek ah))) = Inr eh \<and>
        sign_service_receipt X sk (service_part X eh h a sk) = Some ss \<and>
        pr = \<lparr> pp_agent = agent_part p (blake3 X bs), pp_edge = attach_edge es (edge_part X acc ek ah),
               pp_service = attach_service ss (service_part X eh h a sk) \<rparr>) \<and>
     log_append X pr log = Ok () log'"
  by (auto simp: complete_payment_proof_def Let_def outcome_iff micros_less_amt not_less)

text \<open>What a complete proof chain is: each part hashes the one before and carries its signature.\<close>

definition proof_chain :: "crypto \<Rightarrow> pay \<Rightarrow> edge_accept \<Rightarrow> vkey \<Rightarrow> vkey \<Rightarrow> payment_proof \<Rightarrow> bool" where
  "proof_chain X p acc edge_vk service_vk pr \<longleftrightarrow>
     (\<exists>bs. encode_cbor X (ser_pay p) = Inr bs \<and> aa_pay_cbor_hash (pp_agent pr) = blake3 X bs) \<and>
     aa_agent_signature (pp_agent pr) = pay_agent_signature p \<and>
     hash_cbor X (ser_agent_authorization (pp_agent pr)) = Inr (ea_agent_auth_hash (pp_edge pr)) \<and>
     ea_tx_id (pp_edge pr) = ed_tx_id acc \<and> ea_commit_index (pp_edge pr) = ed_commit_index acc \<and>
     verify_edge_acceptance X edge_vk (pp_edge pr) = Inr () \<and>
     hash_cbor X (ser_edge_acceptance (pp_edge pr)) = Inr (sr_edge_accept_hash (pp_service pr)) \<and>
     verify_service_receipt X service_vk (pp_service pr) = Inr ()"

lemma part_fields [simp]:
  "ea_agent_auth_hash (attach_edge s (edge_part X acc ek ah)) = ah"
  "ea_tx_id (attach_edge s (edge_part X acc ek ah)) = ed_tx_id acc"
  "ea_commit_index (attach_edge s (edge_part X acc ek ah)) = ed_commit_index acc"
  "aa_pay_cbor_hash (agent_part p x) = x"
  "aa_agent_signature (agent_part p x) = pay_agent_signature p"
  "sr_edge_accept_hash (attach_service s (service_part X eh h a sk)) = eh"
  "sr_actual_amount (attach_service s (service_part X eh h a sk)) = a"
  "sr_execution_hash (attach_service s (service_part X eh h a sk)) = h"
  by (simp_all add: attach_edge_def edge_part_def agent_part_def attach_service_def service_part_def)

lemma complete_payment_proof_chain:
  assumes X: "crypto_ok X" and ok: "complete_payment_proof X p acc ek h a sk log = Ok pr log'"
  shows "proof_chain X p acc (verifying_key X ek) (verifying_key X sk) pr"
proof -
  obtain bs ah es eh ss where
    "encode_cbor X (ser_pay p) = Inr bs"
    "hash_cbor X (ser_agent_authorization (agent_part p (blake3 X bs))) = Inr ah"
    "hash_cbor X (ser_edge_acceptance (attach_edge es (edge_part X acc ek ah))) = Inr eh"
    "pr = \<lparr> pp_agent = agent_part p (blake3 X bs), pp_edge = attach_edge es (edge_part X acc ek ah),
            pp_service = attach_service ss (service_part X eh h a sk) \<rparr>"
    and es: "sign_edge_acceptance X ek (edge_part X acc ek ah) = Some es"
    and ss: "sign_service_receipt X sk (service_part X eh h a sk) = Some ss"
    using ok unfolding complete_payment_proof_Ok by blast
  then show ?thesis
    using edge_sig.verify_attached [OF X es] service_sig.verify_attached [OF X ss]
    by (simp add: proof_chain_def)
qed

lemma log_append_total:
  assumes "crypto_ok X" and "amt (rl_exposure log) + actual_cost pr < 2 ^ 128"
  shows "\<exists>log'. log_append X pr log = Ok () log'"
proof -
  obtain h where "receipt_leaf_hash X pr = Inr h"
    using hash_cbor_total [OF assms(1)] unfolding receipt_leaf_hash_def by blast
  then show ?thesis using assms(2) unfolding log_append_Ok by blast
qed

lemma complete_payment_proof_total:
  assumes X: "crypto_ok X" and m: "amt a \<le> amt (pay_max_amount p)"
    and e: "amt (rl_exposure log) + amt a < 2 ^ 128"
  shows "\<exists>pr log'. complete_payment_proof X p acc ek h a sk log = Ok pr log'"
proof -
  obtain bs where bs: "encode_cbor X (ser_pay p) = Inr bs" using encode_cbor_total [OF X] by blast
  obtain ah where ah: "hash_cbor X (ser_agent_authorization (agent_part p (blake3 X bs))) = Inr ah"
    using hash_cbor_total [OF X] by blast
  obtain es where es: "sign_edge_acceptance X ek (edge_part X acc ek ah) = Some es"
    using edge_sig.sign_total [OF X] by blast
  obtain eh where eh: "hash_cbor X (ser_edge_acceptance (attach_edge es (edge_part X acc ek ah))) = Inr eh"
    using hash_cbor_total [OF X] by blast
  obtain ss where ss: "sign_service_receipt X sk (service_part X eh h a sk) = Some ss"
    using service_sig.sign_total [OF X] by blast
  define pr where "pr = \<lparr> pp_agent = agent_part p (blake3 X bs),
    pp_edge = attach_edge es (edge_part X acc ek ah),
    pp_service = attach_service ss (service_part X eh h a sk) \<rparr>"
  have "actual_cost pr = amt a" by (simp add: pr_def actual_cost_def)
  then obtain log' where "log_append X pr log = Ok () log'"
    using log_append_total [OF X] e by metis
  then show ?thesis
    unfolding complete_payment_proof_Ok using m bs ah es eh ss pr_def by blast
qed

end
