(* ===== verification/Checkpoint.thy ===== *)
theory Checkpoint
  imports Receipts
begin

text \<open>
  Checkpoints of a shard: the sealer that turns a receipt log into a signed checkpoint, and the
  verification of a signed checkpoint (\<open>crates/shard/src/checkpoint.rs\<close>). The sealer's state is
  its limits and the next height; sealing also empties the log, so an outcome carries both.
\<close>

section \<open>Artefacts checked against a key they name themselves\<close>

text \<open>
  A checkpoint, a witness signature and an attestation carry the public key they are checked
  with. \<open>make\<close> produces one with any key, \<open>check\<close> verifies it with the key inside.
\<close>

locale self_keyed =
  fixes lawful :: "'x \<Rightarrow> 'm \<Rightarrow> bool"
    and make :: "'x \<Rightarrow> 'k \<Rightarrow> 'm \<Rightarrow> 's option"
    and check :: "'x \<Rightarrow> 'm \<Rightarrow> 's \<Rightarrow> 'e + unit"
  assumes make_total: "lawful X m \<Longrightarrow> \<exists>s. make X k m = Some s"
    and make_checks: "lawful X m \<Longrightarrow> make X k m = Some s \<Longrightarrow> check X m s = Inr ()"
begin

lemma any_key_accepted: "lawful X m \<Longrightarrow> \<exists>s. make X k m = Some s \<and> check X m s = Inr ()"
  using make_total make_checks by blast

end

section \<open>Signing and verifying a header\<close>

definition checkpoint_body :: "checkpoint_header \<Rightarrow> cval" where
  "checkpoint_body h = CMap
     [(''domain'', CText ''CHECKPOINT''),
      (''shard_id'', CText (shard_str (hd_shard_id h))),
      (''epoch'', c_u64 (epoch_num (hd_epoch h))),
      (''root'', c_b32 (hd_root h)),
      (''height'', c_u64 (hd_height h)),
      (''tx_count'', c_u64 (hd_tx_count h)),
      (''exposure'', CUint (micros (hd_exposure h))),
      (''sealed_at_unix_ms'', c_u64 (hd_sealed_at_unix_ms h))]"

lemma checkpoint_body_inj: "checkpoint_body h = checkpoint_body g \<longleftrightarrow> h = g"
  by (cases h; cases g)
    (auto simp: checkpoint_body_def shard_id.expand epoch.expand amount_micros.expand)

definition sign_checkpoint :: "crypto \<Rightarrow> keypair \<Rightarrow> checkpoint_header \<Rightarrow> shard_error + bytes" where
  "sign_checkpoint X kp h =
     (case encode_cbor X (checkpoint_body h) of
        Inl _ \<Rightarrow> Inl Cbor | Inr bs \<Rightarrow> Inr (ed_sign X (signing_key kp) bs))"

definition verify_signed_checkpoint :: "crypto \<Rightarrow> signed_checkpoint \<Rightarrow> shard_error + unit" where
  "verify_signed_checkpoint X cp =
     (if \<not> ed_point_ok X (sc_shard_signer_pubkey cp) then Inl BadSignature
      else case encode_cbor X (checkpoint_body (sc_header cp)) of
        Inl _ \<Rightarrow> Inl Cbor
      | Inr bs \<Rightarrow>
          if length (sc_shard_signature cp) \<noteq> 64 then Inl BadSignature
          else if ed_verify X (sc_shard_signer_pubkey cp) bs (sc_shard_signature cp) then Inr ()
          else Inl BadSignature)"

definition make_checkpoint :: "crypto \<Rightarrow> keypair \<Rightarrow> checkpoint_header \<Rightarrow> bytes \<Rightarrow> signed_checkpoint" where
  "make_checkpoint X kp h sig =
     \<lparr> sc_header = h, sc_shard_signer_pubkey = verifying_key_bytes X kp, sc_shard_signature = sig \<rparr>"

lemma sign_checkpoint_total: "crypto_ok X \<Longrightarrow> \<exists>s. sign_checkpoint X kp h = Inr s"
  using encode_cbor_total [of X "checkpoint_body h"] by (auto simp: sign_checkpoint_def)

lemma verify_make_checkpoint:
  "crypto_ok X \<Longrightarrow> sign_checkpoint X kp h = Inr sig \<Longrightarrow>
     verify_signed_checkpoint X (make_checkpoint X kp h sig) = Inr ()"
  by (auto simp: sign_checkpoint_def verify_signed_checkpoint_def make_checkpoint_def
      verifying_key_bytes_def verifying_key_def split: sum.splits)

definition own_checkpoint :: "crypto \<Rightarrow> keypair \<Rightarrow> checkpoint_header \<Rightarrow> signed_checkpoint option" where
  "own_checkpoint X kp h =
     (case sign_checkpoint X kp h of Inl _ \<Rightarrow> None | Inr s \<Rightarrow> Some (make_checkpoint X kp h s))"

interpretation cp_key: self_keyed "\<lambda>X h. crypto_ok X" own_checkpoint
  "\<lambda>X h cp. if sc_header cp = h then verify_signed_checkpoint X cp else Inl BadSignature"
proof unfold_locales
  show "\<exists>s. own_checkpoint X k m = Some s" if "crypto_ok X" for X k m
    using sign_checkpoint_total [OF that, of k m] by (auto simp: own_checkpoint_def)
  show "(if sc_header s = m then verify_signed_checkpoint X s else Inl BadSignature) = Inr ()"
    if "crypto_ok X" "own_checkpoint X k m = Some s" for X k m s
    using that verify_make_checkpoint [OF that(1)]
    by (auto simp: own_checkpoint_def make_checkpoint_def split: sum.splits)
qed

section \<open>The sealer\<close>

record checkpoint_sealer =
  cs_max_txs :: u64
  cs_max_exposure :: amount_micros
  cs_next_height :: u64

definition sealer_new :: "u64 \<Rightarrow> amount_micros \<Rightarrow> checkpoint_sealer" where
  "sealer_new max_txs max_exposure =
     \<lparr> cs_max_txs = max_txs, cs_max_exposure = max_exposure, cs_next_height = 1 \<rparr>"

definition should_seal :: "checkpoint_sealer \<Rightarrow> receipt_log \<Rightarrow> bool" where
  "should_seal s log \<longleftrightarrow>
     \<not> log_is_empty log \<and>
     (cs_max_txs s \<le> word_of_nat (log_len log) \<or> micros (cs_max_exposure s) \<le> micros (rl_exposure log))"

type_synonym seal_state = "checkpoint_sealer \<times> receipt_log"

definition sealed_header :: "crypto \<Rightarrow> checkpoint_sealer \<Rightarrow> receipt_log \<Rightarrow> shard_id \<Rightarrow> epoch \<Rightarrow> u64 \<Rightarrow> checkpoint_header" where
  "sealed_header X s log shard ep now =
     \<lparr> hd_shard_id = shard, hd_epoch = ep, hd_root = merkle_root X (rl_leaves log),
       hd_height = cs_next_height s, hd_tx_count = word_of_nat (log_len log),
       hd_exposure = rl_exposure log, hd_sealed_at_unix_ms = now \<rparr>"

definition force_seal ::
  "crypto \<Rightarrow> keypair \<Rightarrow> shard_id \<Rightarrow> epoch \<Rightarrow> u64 \<Rightarrow> seal_state \<Rightarrow> (seal_state, shard_error, signed_checkpoint) outcome" where
  "force_seal X kp shard ep now st =
     (let (s, log) = st in
      if log_is_empty log then Err EmptyReceiptLog (s, log)
      else let header = sealed_header X s log shard ep now
      in or_err (sign_checkpoint X kp header) (Err Cbor (s, log)) (\<lambda>sig.
         ret_or_panic (chk_add (cs_next_height s) 1) (\<lambda>h.
         Ok (make_checkpoint X kp header sig) (s\<lparr> cs_next_height := h \<rparr>, clear_sealed log))))"

definition maybe_seal ::
  "crypto \<Rightarrow> keypair \<Rightarrow> shard_id \<Rightarrow> epoch \<Rightarrow> u64 \<Rightarrow> seal_state
   \<Rightarrow> (seal_state, shard_error, signed_checkpoint option) outcome" where
  "maybe_seal X kp shard ep now st =
     (if \<not> should_seal (fst st) (snd st) then Ok None st
      else and_then (force_seal X kp shard ep now st) (\<lambda>cp st'. Ok (Some cp) st'))"

text \<open>\<open>CheckpointError::Cbor\<close> is the only error of the encoder, so the mapped error is the source's.\<close>

lemma force_seal_Ok:
  "force_seal X kp shard ep now (s, log) = Ok cp st' \<longleftrightarrow>
     \<not> log_is_empty log \<and> unat (cs_next_height s) + 1 < 2 ^ 64 \<and>
     (\<exists>sig. sign_checkpoint X kp (sealed_header X s log shard ep now) = Inr sig \<and>
        cp = make_checkpoint X kp (sealed_header X s log shard ep now) sig) \<and>
     st' = (s\<lparr> cs_next_height := cs_next_height s + 1 \<rparr>, clear_sealed log)"
  by (auto simp: force_seal_def Let_def outcome_iff chk_add_def split: if_splits)

text \<open>What a sealed checkpoint says of the log it seals.\<close>

definition seals :: "crypto \<Rightarrow> receipt_log \<Rightarrow> signed_checkpoint \<Rightarrow> bool" where
  "seals X log cp \<longleftrightarrow>
     hd_root (sc_header cp) = merkle_root X (rl_leaves log) \<and>
     hd_tx_count (sc_header cp) = word_of_nat (length (rl_proofs log)) \<and>
     hd_exposure (sc_header cp) = rl_exposure log"

lemma force_seal_seals:
  assumes "force_seal X kp shard ep now (s, log) = Ok cp st'"
  shows "seals X log cp" and "hd_height (sc_header cp) = cs_next_height s"
    and "hd_shard_id (sc_header cp) = shard" and "hd_epoch (sc_header cp) = ep"
  using assms by (auto simp: force_seal_Ok seals_def make_checkpoint_def sealed_header_def log_len_def)

lemma force_seal_verifies:
  assumes "crypto_ok X" and "force_seal X kp shard ep now (s, log) = Ok cp st'"
  shows "verify_signed_checkpoint X cp = Inr ()"
  using assms verify_make_checkpoint [OF assms(1)] by (auto simp: force_seal_Ok)

text \<open>Every receipt of a sealed log has an inclusion proof against the sealed root.\<close>

lemma sealed_inclusion:
  assumes "rlog.accounts X log" and "force_seal X kp shard ep now (s, log) = Ok cp st'"
    and "i < length (rl_proofs log)"
  shows "\<exists>leaf p. leaf_of X (rl_proofs log ! i) = Some leaf \<and>
     merkle_proof_of X (rl_leaves log) i = Some p \<and>
     verify_merkle_proof X leaf p (hd_root (sc_header cp))"
proof -
  have len: "length (rl_leaves log) = length (rl_proofs log)"
    using rlog.accounts_length [OF assms(1)] .
  have "leaf_of X (rl_proofs log ! i) = Some (rl_leaves log ! i)"
    using rlog.accounts_nth [OF assms(1,3)] .
  moreover have "rl_leaves log \<noteq> []" and i: "i < length (rl_leaves log)" using assms(3) len by auto
  ultimately show ?thesis
    using force_seal_seals(1) [OF assms(2)] climb_proof_loop [OF i, of X]
    by (auto simp: merkle_proof_of_def verify_merkle_proof_def seals_def merkle_root_def)
qed

end
