(* ===== verification/Witness.thy ===== *)
theory Witness
  imports Checkpoint
begin

text \<open>
  Witnesses that countersign a shard's checkpoints, and the set of accepted checkpoints that
  refuses a conflicting history (\<open>crates/witness/src/lib.rs\<close>).
\<close>

datatype witness_error =
  BadShardSignature
  | BadWitnessSignature
  | DuplicateWitness
  | InsufficientWitnesses nat nat
  | ConflictingCheckpoint
  | WitnessCbor

section \<open>Countersigning\<close>

text \<open>A witness is the key pair it signs with.\<close>

type_synonym witness = keypair

definition witness_new :: "keypair \<Rightarrow> witness" where
  "witness_new key = key"

definition witness_generate :: "b32 \<Rightarrow> witness" where
  "witness_generate drawn = witness_new (keypair_generate drawn)"

definition witness_pubkey :: "crypto \<Rightarrow> witness \<Rightarrow> b32" where
  "witness_pubkey X w = verifying_key_bytes X w"

definition witness_body :: "signed_checkpoint \<Rightarrow> cval" where
  "witness_body cp =
     (let h = sc_header cp in CMap
       [(''domain'', CText ''WITNESS_CHECKPOINT''),
        (''shard_id'', CText (shard_str (hd_shard_id h))),
        (''epoch'', c_u64 (epoch_num (hd_epoch h))),
        (''root'', c_b32 (hd_root h)),
        (''height'', c_u64 (hd_height h)),
        (''shard_signature'', c_bytes (sc_shard_signature cp))])"

definition countersign :: "crypto \<Rightarrow> keypair \<Rightarrow> signed_checkpoint \<Rightarrow> witness_error + witness_sig" where
  "countersign X kp cp =
     (case verify_signed_checkpoint X cp of
        Inl _ \<Rightarrow> Inl BadShardSignature
      | Inr _ \<Rightarrow>
          (case encode_cbor X (witness_body cp) of
             Inl _ \<Rightarrow> Inl WitnessCbor
           | Inr bs \<Rightarrow> Inr \<lparr> ws_witness_pubkey = verifying_key_bytes X kp,
                             ws_signature = ed_sign X (signing_key kp) bs \<rparr>))"

definition verify_witness_sig :: "crypto \<Rightarrow> signed_checkpoint \<Rightarrow> witness_sig \<Rightarrow> witness_error + unit" where
  "verify_witness_sig X cp s =
     (if \<not> ed_point_ok X (ws_witness_pubkey s) then Inl BadWitnessSignature
      else case encode_cbor X (witness_body cp) of
        Inl _ \<Rightarrow> Inl WitnessCbor
      | Inr bs \<Rightarrow>
          if length (ws_signature s) \<noteq> 64 then Inl BadWitnessSignature
          else if ed_verify X (ws_witness_pubkey s) bs (ws_signature s) then Inr ()
          else Inl BadWitnessSignature)"

lemma countersign_total:
  assumes "crypto_ok X" "verify_signed_checkpoint X cp = Inr ()"
  shows "\<exists>s. countersign X kp cp = Inr s"
  using assms encode_cbor_total [OF assms(1), of "witness_body cp"]
  by (auto simp: countersign_def)

lemma countersign_verifies:
  assumes "crypto_ok X" "countersign X kp cp = Inr s"
  shows "verify_witness_sig X cp s = Inr ()"
  using assms
  by (auto simp: countersign_def verify_witness_sig_def verifying_key_bytes_def verifying_key_def
      split: sum.splits)

lemma countersign_key: "countersign X kp cp = Inr s \<Longrightarrow> ws_witness_pubkey s = verifying_key_bytes X kp"
  by (auto simp: countersign_def split: sum.splits)

lemma countersign_refuses:
  "verify_signed_checkpoint X cp = Inl e \<Longrightarrow> countersign X kp cp = Inl BadShardSignature"
  by (simp add: countersign_def)

interpretation witness_key: self_keyed
  "\<lambda>X cp. crypto_ok X \<and> verify_signed_checkpoint X cp = Inr ()"
  "\<lambda>X kp cp. (case countersign X kp cp of Inl _ \<Rightarrow> None | Inr s \<Rightarrow> Some s)"
  verify_witness_sig
proof unfold_locales
  show "\<exists>s. (case countersign X k m of Inl _ \<Rightarrow> None | Inr s \<Rightarrow> Some s) = Some s"
    if "crypto_ok X \<and> verify_signed_checkpoint X m = Inr ()" for X k m
    using countersign_total [of X m k] that by auto
  show "verify_witness_sig X m s = Inr ()"
    if "crypto_ok X \<and> verify_signed_checkpoint X m = Inr ()"
      and "(case countersign X k m of Inl _ \<Rightarrow> None | Inr s \<Rightarrow> Some s) = Some s" for X k m s
    using that countersign_verifies [of X k m s] by (auto split: sum.splits)
qed

section \<open>A witnessed checkpoint\<close>

text \<open>The loop over the witness signatures, with the set of keys already seen.\<close>

fun check_witnesses ::
  "crypto \<Rightarrow> signed_checkpoint \<Rightarrow> b32 fset \<Rightarrow> witness_sig list \<Rightarrow> witness_error + unit" where
  "check_witnesses X cp seen [] = Inr ()"
| "check_witnesses X cp seen (s # ss) =
     (if ws_witness_pubkey s |\<in>| seen then Inl DuplicateWitness
      else case verify_witness_sig X cp s of
        Inl e \<Rightarrow> Inl e
      | Inr _ \<Rightarrow> check_witnesses X cp (finsert (ws_witness_pubkey s) seen) ss)"

definition verify_witnessed :: "crypto \<Rightarrow> witnessed_checkpoint \<Rightarrow> nat \<Rightarrow> witness_error + unit" where
  "verify_witnessed X w need =
     (case verify_signed_checkpoint X (wc_checkpoint w) of
        Inl _ \<Rightarrow> Inl BadShardSignature
      | Inr _ \<Rightarrow>
          (case check_witnesses X (wc_checkpoint w) {||} (wc_witness_sigs w) of
             Inl e \<Rightarrow> Inl e
           | Inr _ \<Rightarrow>
               if length (wc_witness_sigs w) < need
               then Inl (InsufficientWitnesses (length (wc_witness_sigs w)) need)
               else Inr ()))"

lemma check_witnesses_Inr:
  "check_witnesses X cp seen ss = Inr () \<longleftrightarrow>
     distinct (map ws_witness_pubkey ss) \<and>
     (\<forall>s \<in> set ss. verify_witness_sig X cp s = Inr () \<and> ws_witness_pubkey s |\<notin>| seen)"
proof (induction ss arbitrary: seen)
  case (Cons s ss)
  have "check_witnesses X cp seen (s # ss) = Inr () \<longleftrightarrow>
      ws_witness_pubkey s |\<notin>| seen \<and> verify_witness_sig X cp s = Inr () \<and>
      check_witnesses X cp (finsert (ws_witness_pubkey s) seen) ss = Inr ()"
    by (auto split: sum.splits)
  then show ?case unfolding Cons.IH by (auto simp: image_iff)
qed simp

text \<open>An accepted witnessed checkpoint carries at least \<open>need\<close> signatures of distinct keys.\<close>

lemma verify_witnessed_Inr:
  "verify_witnessed X w need = Inr () \<longleftrightarrow>
     verify_signed_checkpoint X (wc_checkpoint w) = Inr () \<and>
     distinct (map ws_witness_pubkey (wc_witness_sigs w)) \<and>
     (\<forall>s \<in> set (wc_witness_sigs w). verify_witness_sig X (wc_checkpoint w) s = Inr ()) \<and>
     need \<le> length (wc_witness_sigs w)"
  using check_witnesses_Inr [of X "wc_checkpoint w" "{||}" "wc_witness_sigs w"]
  by (auto simp: verify_witnessed_def split: sum.split)

text \<open>Whatever set of distinct witnesses countersigns a valid checkpoint, the bundle verifies.\<close>

lemma countersigned_bundle:
  assumes "crypto_ok X" and "verify_signed_checkpoint X cp = Inr ()"
    and "list_all2 (\<lambda>kp s. countersign X kp cp = Inr s) kps ss"
    and "distinct (map (verifying_key_bytes X) kps)"
  shows "check_witnesses X cp {||} ss = Inr ()"
proof -
  have "map ws_witness_pubkey ss = map (verifying_key_bytes X) kps"
    using assms(3) by (induction rule: list_all2_induct) (auto simp: countersign_key)
  moreover have "\<forall>s \<in> set ss. verify_witness_sig X cp s = Inr ()"
    using assms(3) by (induction rule: list_all2_induct) (auto simp: countersign_verifies [OF assms(1)])
  ultimately show ?thesis using assms(4) by (simp add: check_witnesses_Inr)
qed

section \<open>The set of accepted checkpoints\<close>

type_synonym witness_key = "string \<times> u64 \<times> u64"

record witness_set =
  wt_accepted :: "(string \<times> u64 \<times> u64 \<times> b32) fset"
  wt_by_key :: "(witness_key, b32) fmap"

definition witness_set_new :: witness_set where
  "witness_set_new = \<lparr> wt_accepted = {||}, wt_by_key = fmempty \<rparr>"

definition header_key :: "checkpoint_header \<Rightarrow> witness_key" where
  "header_key h = (shard_str (hd_shard_id h), epoch_num (hd_epoch h), hd_height h)"

definition witness_accept ::
  "crypto \<Rightarrow> witnessed_checkpoint \<Rightarrow> nat \<Rightarrow> witness_set \<Rightarrow> (witness_set, witness_error, unit) outcome" where
  "witness_accept X w need ws =
     (case verify_witnessed X w need of
        Inl e \<Rightarrow> Err e ws
      | Inr _ \<Rightarrow>
          (let h = sc_header (wc_checkpoint w); key = header_key h in
           case fmlookup (wt_by_key ws) key of
             Some existing \<Rightarrow>
               if existing \<noteq> hd_root h then Err ConflictingCheckpoint ws else Ok () ws
           | None \<Rightarrow>
               Ok () (ws\<lparr> wt_by_key := fmupd key (hd_root h) (wt_by_key ws),
                          wt_accepted := finsert (fst key, fst (snd key), snd (snd key), hd_root h)
                                           (wt_accepted ws) \<rparr>)))"

text \<open>The set and the index of roots describe the same history: one root per key.\<close>

definition witness_set_ok :: "witness_set \<Rightarrow> bool" where
  "witness_set_ok ws \<longleftrightarrow>
     (\<forall>s e h r. (s, e, h, r) |\<in>| wt_accepted ws \<longleftrightarrow> fmlookup (wt_by_key ws) (s, e, h) = Some r)"

lemma witness_set_new_ok: "witness_set_ok witness_set_new"
  by (simp add: witness_set_ok_def witness_set_new_def)

lemma witness_accept_Ok:
  "witness_accept X w need ws = Ok u ws' \<longleftrightarrow>
     verify_witnessed X w need = Inr () \<and>
     (let h = sc_header (wc_checkpoint w) in
      (fmlookup (wt_by_key ws) (header_key h) = Some (hd_root h) \<and> ws' = ws) \<or>
      (fmlookup (wt_by_key ws) (header_key h) = None \<and>
       ws' = ws\<lparr> wt_by_key := fmupd (header_key h) (hd_root h) (wt_by_key ws),
                 wt_accepted := finsert (shard_str (hd_shard_id h), epoch_num (hd_epoch h), hd_height h, hd_root h)
                                  (wt_accepted ws) \<rparr>))"
  by (auto simp: witness_accept_def Let_def header_key_def split: sum.splits option.splits)

lemma witness_accept_Err: "witness_accept X w need ws = Err e ws' \<Longrightarrow> ws' = ws"
  by (auto simp: witness_accept_def Let_def split: sum.splits option.splits if_splits)

lemma witness_accept_not_Panic [simp]: "witness_accept X w need ws \<noteq> Panic"
  by (auto simp: witness_accept_def Let_def split: sum.splits option.splits)

lemma witness_accept_inv:
  assumes "witness_set_ok ws" and "outcome_state (witness_accept X w need ws) = Some ws'"
  shows "witness_set_ok ws'"
proof (cases "witness_accept X w need ws")
  case (Ok u s)
  let ?h = "sc_header (wc_checkpoint w)"
  consider "s = ws"
    | "fmlookup (wt_by_key ws) (header_key ?h) = None" and
      "s = ws\<lparr> wt_by_key := fmupd (header_key ?h) (hd_root ?h) (wt_by_key ws),
             wt_accepted := finsert (shard_str (hd_shard_id ?h), epoch_num (hd_epoch ?h), hd_height ?h, hd_root ?h)
                              (wt_accepted ws) \<rparr>"
    using Ok unfolding witness_accept_Ok Let_def by auto
  then have "witness_set_ok s"
  proof cases
    case 2
    then have "(shard_str (hd_shard_id ?h), epoch_num (hd_epoch ?h), hd_height ?h, r) |\<notin>| wt_accepted ws" for r
      using assms(1) by (simp add: witness_set_ok_def header_key_def)
    then show ?thesis
      using 2 assms(1) unfolding witness_set_ok_def
      by (intro allI) (simp add: header_key_def, auto)
  qed (use assms in simp)
  with assms Ok show ?thesis by simp
next
  case (Err e s)
  with assms show ?thesis by (auto dest: witness_accept_Err)
qed (use assms in auto)

text \<open>A root once recorded for a key stays.\<close>

lemma witness_accept_keeps:
  assumes "outcome_state (witness_accept X w need ws) = Some ws'"
    and "fmlookup (wt_by_key ws) k = Some r"
  shows "fmlookup (wt_by_key ws') k = Some r"
proof (cases "witness_accept X w need ws")
  case (Ok u s)
  with assms show ?thesis by (auto simp: witness_accept_Ok Let_def)
next
  case (Err e s)
  with assms show ?thesis by (auto dest: witness_accept_Err)
qed (use assms in auto)

lemma witness_accept_records:
  assumes "witness_accept X w need ws = Ok u ws'"
  shows "fmlookup (wt_by_key ws') (header_key (sc_header (wc_checkpoint w))) =
    Some (hd_root (sc_header (wc_checkpoint w)))"
  using assms by (auto simp: witness_accept_Ok Let_def)

text \<open>A sequence of submissions, refused ones included.\<close>

fun witness_run :: "crypto \<Rightarrow> nat \<Rightarrow> witness_set \<Rightarrow> witnessed_checkpoint list \<Rightarrow> witness_set" where
  "witness_run X need ws [] = ws"
| "witness_run X need ws (w # rest) =
     (case outcome_state (witness_accept X w need ws) of
        Some ws' \<Rightarrow> witness_run X need ws' rest
      | None \<Rightarrow> ws)"

lemma witness_run_inv: "witness_set_ok ws \<Longrightarrow> witness_set_ok (witness_run X need ws rest)"
  by (induction rest arbitrary: ws) (auto dest: witness_accept_inv split: option.split)

lemma witness_run_keeps:
  "fmlookup (wt_by_key ws) k = Some r \<Longrightarrow> fmlookup (wt_by_key (witness_run X need ws rest)) k = Some r"
  by (induction rest arbitrary: ws) (auto dest: witness_accept_keeps split: option.split)

end
