(* ===== verification/Attest.thy ===== *)
theory Attest
  imports Checkpoint
begin

text \<open>
  Software attestation of an edge node (\<open>crates/attest/src/lib.rs\<close>): the evidence, the policy it
  is appraised against, and the test platform whose evidence passes. \<open>sign_evidence\<close> panics
  (\<open>None\<close>) when the body does not encode.
\<close>

section \<open>Data\<close>

record attestation_evidence =
  ev_binary_hash :: b32
  ev_config_hash :: b32
  ev_version :: string
  ev_hardware_id :: b32
  ev_platform_pubkey :: b32
  ev_platform_signature :: bytes

record attestation_policy =
  ap_approved_binary_hashes :: "b32 fset"
  ap_approved_config_hashes :: "b32 fset"
  ap_approved_versions :: "string fset"
  ap_approved_hardware_ids :: "b32 fset"
  ap_platform_pubkey :: b32

datatype attest_error =
    AttestBadSignature
  | BinaryRejected
  | ConfigRejected
  | VersionRejected
  | HardwareRejected
  | PlatformMismatch
  | AttestCborEncode

section \<open>Signing and appraising\<close>

definition evidence_body :: "attestation_evidence \<Rightarrow> cval" where
  "evidence_body ev = CMap
     [(''domain'', CText ''ATTESTATION''),
      (''key_domain'', CText ''platform-attest''),
      (''binary_hash'', c_b32 (ev_binary_hash ev)),
      (''config_hash'', c_b32 (ev_config_hash ev)),
      (''version'', CText (ev_version ev)),
      (''hardware_id'', c_b32 (ev_hardware_id ev)),
      (''platform_pubkey'', c_b32 (ev_platform_pubkey ev))]"

definition evidence_bytes :: "crypto \<Rightarrow> attestation_evidence \<Rightarrow> attest_error + bytes" where
  "evidence_bytes X ev =
     (case encode_cbor X (evidence_body ev) of Inl _ \<Rightarrow> Inl AttestCborEncode | Inr b \<Rightarrow> Inr b)"

definition sign_evidence ::
  "crypto \<Rightarrow> keypair \<Rightarrow> attestation_evidence \<Rightarrow> attestation_evidence option" where
  "sign_evidence X platform ev =
     (let ev1 = ev\<lparr> ev_platform_pubkey := verifying_key_bytes X platform \<rparr>
      in case evidence_bytes X ev1 of
           Inl _ \<Rightarrow> None
         | Inr bs \<Rightarrow> Some (ev1\<lparr> ev_platform_signature := ed_sign X (signing_key platform) bs \<rparr>))"

definition verify_evidence ::
  "crypto \<Rightarrow> attestation_policy \<Rightarrow> attestation_evidence \<Rightarrow> attest_error + unit" where
  "verify_evidence X policy ev =
     (if ev_platform_pubkey ev \<noteq> ap_platform_pubkey policy then Inl PlatformMismatch
      else if ev_binary_hash ev |\<notin>| ap_approved_binary_hashes policy then Inl BinaryRejected
      else if ev_config_hash ev |\<notin>| ap_approved_config_hashes policy then Inl ConfigRejected
      else if ev_version ev |\<notin>| ap_approved_versions policy then Inl VersionRejected
      else if ev_hardware_id ev |\<notin>| ap_approved_hardware_ids policy then Inl HardwareRejected
      else if ev_platform_signature ev = [] then Inl AttestBadSignature
      else case evidence_bytes X ev of
        Inl e \<Rightarrow> Inl e
      | Inr bs \<Rightarrow>
          (case verifying_key_from_bytes X (ev_platform_pubkey ev) of
             Inl _ \<Rightarrow> Inl AttestBadSignature
           | Inr vk \<Rightarrow>
               if length (ev_platform_signature ev) \<noteq> 64 then Inl AttestBadSignature
               else if ed_verify X (vkey_bytes vk) bs (ev_platform_signature ev) then Inr ()
               else Inl AttestBadSignature))"

lemma evidence_body_inj:
  "evidence_body a = evidence_body b \<longleftrightarrow> a\<lparr>ev_platform_signature := []\<rparr> = b\<lparr>ev_platform_signature := []\<rparr>"
  by (cases a; cases b) (auto simp: evidence_body_def)

lemma evidence_body_signature [simp]:
  "evidence_body (e\<lparr>ev_platform_signature := s\<rparr>) = evidence_body e"
  by (simp add: evidence_body_def)

text \<open>What the policy asks of the measured fields.\<close>

definition policy_allows :: "attestation_policy \<Rightarrow> attestation_evidence \<Rightarrow> bool" where
  "policy_allows policy ev \<longleftrightarrow>
     ev_binary_hash ev |\<in>| ap_approved_binary_hashes policy \<and>
     ev_config_hash ev |\<in>| ap_approved_config_hashes policy \<and>
     ev_version ev |\<in>| ap_approved_versions policy \<and>
     ev_hardware_id ev |\<in>| ap_approved_hardware_ids policy"

text \<open>Accepted evidence has approved measurements and a signature of the policy's platform key.\<close>

lemma verify_evidence_Inr:
  "verify_evidence X policy ev = Inr () \<longleftrightarrow>
     ev_platform_pubkey ev = ap_platform_pubkey policy \<and> policy_allows policy ev \<and>
     ed_point_ok X (ap_platform_pubkey policy) \<and> length (ev_platform_signature ev) = 64 \<and>
     (\<exists>bs. cbor_write X (evidence_body ev) = Some bs \<and>
        ed_verify X (ap_platform_pubkey policy) bs (ev_platform_signature ev))"
  by (auto simp: verify_evidence_def policy_allows_def evidence_bytes_def encode_cbor_def
      verifying_key_from_bytes_def split: sum.splits option.splits if_splits)

lemma sign_evidence_total: "crypto_ok X \<Longrightarrow> \<exists>e. sign_evidence X kp ev = Some e"
  using encode_cbor_total [of X "evidence_body (ev\<lparr>ev_platform_pubkey := verifying_key_bytes X kp\<rparr>)"]
  by (auto simp: sign_evidence_def evidence_bytes_def Let_def)

lemma sign_evidence_fields:
  assumes "sign_evidence X kp ev = Some e"
  shows "e = ev\<lparr>ev_platform_pubkey := verifying_key_bytes X kp,
    ev_platform_signature := ev_platform_signature e\<rparr>"
  using assms by (auto simp: sign_evidence_def Let_def split: sum.splits)

lemma sign_evidence_accepted:
  assumes "crypto_ok X" and "sign_evidence X kp ev = Some e"
    and "policy_allows policy ev" and "ap_platform_pubkey policy = verifying_key_bytes X kp"
  shows "verify_evidence X policy e = Inr ()"
proof -
  let ?b = "evidence_body (ev\<lparr>ev_platform_pubkey := verifying_key_bytes X kp\<rparr>)"
  obtain bs where "cbor_write X ?b = Some bs"
    and "e = ev\<lparr>ev_platform_pubkey := verifying_key_bytes X kp,
      ev_platform_signature := ed_sign X (signing_key kp) bs\<rparr>"
    using assms(2)
    by (auto simp: sign_evidence_def evidence_bytes_def encode_cbor_def Let_def split: sum.splits option.splits)
  with assms show ?thesis
    by (simp add: verify_evidence_Inr policy_allows_def verifying_key_bytes_def verifying_key_def)
qed

text \<open>The platform's own evidence under any key: verified with the key the policy holds.\<close>

interpretation evidence_key: self_keyed
  "\<lambda>X m. crypto_ok X \<and> policy_allows (fst m) (snd m)"
  "\<lambda>X kp m. sign_evidence X kp (snd m)"
  "\<lambda>X m e. verify_evidence X ((fst m)\<lparr>ap_platform_pubkey := ev_platform_pubkey e\<rparr>) e"
proof unfold_locales
  fix X :: crypto and k and m :: "attestation_policy \<times> attestation_evidence" and s
  assume ok: "crypto_ok X \<and> policy_allows (fst m) (snd m)"
  then show "\<exists>s. sign_evidence X k (snd m) = Some s" by (simp add: sign_evidence_total)
  assume s: "sign_evidence X k (snd m) = Some s"
  have "ev_platform_pubkey s = verifying_key_bytes X k"
    by (subst sign_evidence_fields [OF s]) simp
  then show "verify_evidence X ((fst m)\<lparr>ap_platform_pubkey := ev_platform_pubkey s\<rparr>) s = Inr ()"
    using sign_evidence_accepted [OF _ s, of "(fst m)\<lparr>ap_platform_pubkey := ev_platform_pubkey s\<rparr>"] ok
    by (simp add: policy_allows_def)
qed

section \<open>The test platform\<close>

record test_platform =
  tp_platform :: keypair
  tp_policy :: attestation_policy
  tp_binary_hash :: b32
  tp_config_hash :: b32
  tp_hardware_id :: b32
  tp_version :: string

text \<open>\<open>TestPlatform::new\<close> with the key it generates as an argument.\<close>

definition test_platform_new :: "crypto \<Rightarrow> keypair \<Rightarrow> test_platform" where
  "test_platform_new X platform =
     (let bh = blake3 X (str_bytes ''blockai-edge-bin-v1'');
          ch = blake3 X (str_bytes ''blockai-edge-cfg-v1'');
          hw = blake3 X (str_bytes ''sim-hw-001'');
          version = ''0.1.0-sim''
      in \<lparr> tp_platform = platform,
           tp_policy = \<lparr> ap_approved_binary_hashes = {|bh|}, ap_approved_config_hashes = {|ch|},
             ap_approved_versions = {|version|}, ap_approved_hardware_ids = {|hw|},
             ap_platform_pubkey = verifying_key_bytes X platform \<rparr>,
           tp_binary_hash = bh, tp_config_hash = ch, tp_hardware_id = hw, tp_version = version \<rparr>)"

definition tp_evidence :: "crypto \<Rightarrow> test_platform \<Rightarrow> attestation_evidence option" where
  "tp_evidence X tp =
     sign_evidence X (tp_platform tp)
       \<lparr> ev_binary_hash = tp_binary_hash tp, ev_config_hash = tp_config_hash tp,
         ev_version = tp_version tp, ev_hardware_id = tp_hardware_id tp,
         ev_platform_pubkey = 0, ev_platform_signature = [] \<rparr>"

lemma tp_evidence_accepted:
  assumes "crypto_ok X"
  shows "\<exists>e. tp_evidence X (test_platform_new X kp) = Some e \<and>
    verify_evidence X (tp_policy (test_platform_new X kp)) e = Inr ()"
proof -
  obtain e where e: "tp_evidence X (test_platform_new X kp) = Some e"
    using sign_evidence_total [OF assms] unfolding tp_evidence_def by blast
  then show ?thesis
    using sign_evidence_accepted [OF assms, of kp]
    by (auto simp: tp_evidence_def test_platform_new_def Let_def policy_allows_def)
qed

end
