(* ===== verification/Payment_Theorems.thy ===== *)
theory Payment_Theorems
  imports Wal Checkpoint Witness Attest
begin

text \<open>
  The theorems about the parts a payment goes through: the write-ahead log and the spend ledger
  it rebuilds, Merkle proofs, the payment proof chain, the checkpoint sealer, and the one
  purpose a signature serves.
\<close>

section \<open>The write-ahead log\<close>

text \<open>C34: Replaying a log gives the ledger its records lead to. When the last append was cut short, by
  a crash or a full disk, the replay still gives that ledger as long as less than the length
  prefix reached the file; with the prefix there and the body cut, the replay fails.\<close>

theorem replay_after_torn_append:
  assumes "wal_codec X D" and "wal_file X rs file" and "run_log apply_record rs shard_state_new = Ok () s"
    and "wal_append X (Some (k, err)) r file = Err (Io err) file'" and "wal_frame X r = Inr fr" and "k < length fr"
  shows "wal_replay D None file = Ok () s \<and>
    wal_replay D None file' = (if k < 4 then Ok () s else Err (Io ''failed to fill whole buffer'') s)"
proof -
  have "file' = file @ take k fr" using assms(4,5) by (simp add: wal_append_def)
  then show ?thesis
    using wal_replay_file [OF assms(1,2)] wal_replay_torn [OF assms(1,2,5,6,3)] assms(3) by simp
qed

lemma replay_after_torn_append_witness:
  "wal_replay sample_wal_read None (take 9 (concat (map (\<lambda>r. case wal_frame sample_crypto r of Inl _ \<Rightarrow> [] | Inr fr \<Rightarrow> fr)
     [FenceEpoch (Epoch 1)]))) = Err (Io ''failed to fill whole buffer'') shard_state_new"
proof -
  let ?bs = "enc (ser_wal_record (FenceEpoch (Epoch 1)))"
  let ?fr = "le_bytes 4 (word_of_nat (length ?bs) :: u32) @ ?bs"
  have fr: "wal_frame sample_crypto (FenceEpoch (Epoch 1)) = Inr ?fr"
    by (simp only: wal_frame_def encode_cbor_def sample_cbor_write option.case sum.case)
  have "length ?bs > 5" by (simp add: length_enc_nums)
  then have len: "9 < length ?fr" by (simp del: ser_wal_record.simps enc.simps)
  have run: "run_log apply_record [] shard_state_new = Ok () shard_state_new" by simp
  have app: "wal_append sample_crypto (Some (9, ''full'')) (FenceEpoch (Epoch 1)) [] = Err (Io ''full'') (take 9 ?fr)"
    by (simp only: wal_append_def fr sum.case option.case prod.case append_Nil)
  have "wal_replay sample_wal_read None (take 9 ?fr)
      = (if (9 :: nat) < 4 then Ok () shard_state_new else Err (Io ''failed to fill whole buffer'') shard_state_new)"
    by (rule replay_after_torn_append [OF sample_wal_codec wal_file_Nil run app fr len, THEN conjunct2])
  then have "wal_replay sample_wal_read None (take 9 ?fr) = Err (Io ''failed to fill whole buffer'') shard_state_new"
    by (simp only: refl rel_simps if_False)
  then show ?thesis by (simp only: list.map concat.simps fr sum.case append_Nil2)
qed

text \<open>C19: Whatever records a ledger was built from, what was spent of a capability and what is left of
  it never exceed what was granted; no payment key was consumed twice; the consumed keys are
  exactly those of the log; and the commit index counts them.\<close>

theorem log_bounds_spending:
  assumes "run_log apply_record rs shard_state_new = Ok () s"
  shows "spent c rs + left s c \<le> granted c rs \<and> distinct (consumed_keys rs) \<and>
    fset (ss_consumed s) = set (consumed_keys rs) \<and> unat (ss_commit_index s) = length (consumed_keys rs)"
  using ledger.hist_run [OF assms] by (simp add: ledger_hist_def)

definition sample_log :: "wal_record list" where
  "sample_log =
     [ActivateCapability (CapabilityId 1) (Epoch 1) (AmountMicros 100) (Sequence 1) (Sequence 9),
      ConsumePay 5 (CapabilityId 1) (Epoch 1) (Sequence 2) (AmountMicros 30),
      ConsumePay 6 (CapabilityId 1) (Epoch 1) (Sequence 3) (AmountMicros 60)]"

lemma sample_log_runs: "\<exists>s. run_log apply_record sample_log shard_state_new = Ok () s"
  by (simp add: sample_log_def shard_state_new_def activate_capability_def consume_pay_def epoch_state_of_def
      is_consumed_def consume_key_of_def chk_add_def word_less_nat_alt)

lemma log_bounds_spending_witness:
  "\<exists>s. spent (CapabilityId 1) sample_log + left s (CapabilityId 1) \<le> granted (CapabilityId 1) sample_log
     \<and> unat (ss_commit_index s) = 2"
proof -
  obtain s where s: "run_log apply_record sample_log shard_state_new = Ok () s" using sample_log_runs by blast
  have "length (consumed_keys sample_log) = 2" by (simp add: sample_log_def)
  then show ?thesis using log_bounds_spending [OF s, of "CapabilityId 1"] by (intro exI [of _ s]) simp
qed

section \<open>Merkle proofs\<close>

text \<open>C25: Every leaf has a proof, every other position has none, and the proof of a leaf verifies
  against the root, for any number of leaves.\<close>

theorem merkle_proofs_complete:
  "case merkle_proof_of X leaves i of
     None \<Rightarrow> length leaves \<le> i
   | Some p \<Rightarrow> i < length leaves \<and> mp_index p = i \<and> verify_merkle_proof X (leaves ! i) p (merkle_root X leaves)"
  using climb_proof_loop [of i leaves X]
  by (auto simp: merkle_proof_of_def verify_merkle_proof_def merkle_root_def)

text \<open>C30: A proof binds its leaf: where the inputs that are hashed do not collide, a proof for the same
  position and of the same length verifies only the leaf that is there, and with the same
  siblings.\<close>

theorem merkle_proof_binds_leaf:
  assumes "merkle_proof_of X leaves i = Some p" and "mp_index q = i"
    and "length (mp_siblings q) = length (mp_siblings p)" and "verify_merkle_proof X leaf q (merkle_root X leaves)"
    and "inj_on (blake3 X) (set (climb_inputs X (leaves ! i) i (mp_siblings p)) \<union> set (climb_inputs X leaf i (mp_siblings q)))"
  shows "leaf = leaves ! i \<and> q = p"
proof -
  have i: "i < length leaves" and p: "mp_index p = i" "mp_siblings p = proof_loop X leaves i"
    using assms(1) by (auto simp: merkle_proof_of_def split: if_splits)
  have "climb X (leaves ! i) i (mp_siblings p) = climb X leaf i (mp_siblings q)"
    using climb_proof_loop [OF i, of X] assms(2,4) i p(2)
    by (auto simp: verify_merkle_proof_def merkle_root_def)
  then have "leaves ! i = leaf \<and> mp_siblings p = mp_siblings q"
    using climb_inj [OF assms(5), of "mp_siblings p" "mp_siblings q" "leaves ! i" i leaf] assms(3) by simp
  then show ?thesis using p(1) assms(2) by (cases p; cases q) simp
qed

text \<open>With a single leaf nothing is hashed; with two, a fresh instance of the hash tells them apart.\<close>

lemma merkle_proof_binds_leaf_witness:
  "(5 :: b32) = [5, 6] ! 0 \<and>
     \<lparr> mp_index = 0, mp_siblings = [6] \<rparr> = the (merkle_proof_of sample_crypto [5, 6] 0)"
proof -
  let ?p = "\<lparr> mp_index = 0, mp_siblings = [6] \<rparr> :: merkle_proof"
  have p: "merkle_proof_of sample_crypto [5, 6] 0 = Some ?p"
    by (simp add: merkle_proof_of_def proof_loop.simps pad_level_def level_up_def)
  have v: "verify_merkle_proof sample_crypto 5 ?p (merkle_root sample_crypto [5, 6])"
    using merkle_proofs_complete [where X = sample_crypto and leaves = "[5, 6]" and i = 0] p by simp
  have "(5 :: b32) = [5, 6] ! 0 \<and> ?p = ?p"
    by (rule merkle_proof_binds_leaf [OF p _ _ v]) simp_all
  then show ?thesis using p by simp
qed

section \<open>Payment proofs and checkpoints\<close>

text \<open>C31: A completed payment has a complete chain of proofs: the agent part hashes the payment, the
  edge part hashes the agent part and carries the commit index and transaction id, the
  service part hashes the signed edge part, and the edge's and the service's signatures verify
  (the agent's is copied and was verified, if at all, when the payment was authorised). The cost
  is within what the payment allows, and the log grows by this proof, its leaf and its cost.\<close>

theorem completed_payment_is_proved:
  assumes "crypto_ok X" and "complete_payment_proof X p acc ek h a sk log = Ok pr log'"
  shows "proof_chain X p acc (verifying_key X ek) (verifying_key X sk) pr \<and>
    amt a \<le> amt (pay_max_amount p) \<and> sr_actual_amount (pp_service pr) = a \<and>
    rl_proofs log' = rl_proofs log @ [pr] \<and> amt (rl_exposure log') = amt (rl_exposure log) + amt a \<and>
    (\<exists>leaf. receipt_leaf_hash X pr = Inr leaf \<and> rl_leaves log' = rl_leaves log @ [leaf])"
proof -
  have a: "sr_actual_amount (pp_service pr) = a"
    using assms(2) by (auto simp: complete_payment_proof_Ok)
  have le: "amt a \<le> amt (pay_max_amount p)" and l: "log_append X pr log = Ok () log'"
    using assms(2) by (auto simp: complete_payment_proof_Ok)
  have "amt (rl_exposure log') = amt (rl_exposure log) + actual_cost pr"
    by (rule rlog.append_exposure [OF l])
  then have "amt (rl_exposure log') = amt (rl_exposure log) + amt a" by (simp add: actual_cost_def a)
  then show ?thesis using l le a complete_payment_proof_chain [OF assms] by (auto simp: log_append_Ok)
qed

definition sample_accept :: edge_accept where
  "sample_accept = \<lparr> ed_commit_index = 1, ed_tx_id = 4, ed_edge_signature = [] \<rparr>"

definition sample_bill :: pay where
  "sample_bill = \<lparr> pay_capability_id = CapabilityId 1, pay_epoch = Epoch 1, pay_sequence = Sequence 1,
     pay_agent_id = AgentId 2, pay_service_id = ''svc'', pay_amount = AmountMicros 8, pay_currency = ''EURC'',
     pay_request_hash = 3, pay_price_quote_hash = 4, pay_max_amount = AmountMicros 9,
     pay_pricing_schedule_version = 1, pay_expiry_unix_ms = 100, pay_agent_signature = [] \<rparr>"

lemma sample_payment_completes:
  "\<exists>pr log'. complete_payment_proof sample_crypto sample_bill sample_accept (Keypair 1) 7 (AmountMicros 8) (Keypair 2)
     receipt_log_new = Ok pr log'"
  by (rule complete_payment_proof_total [OF sample_crypto_ok])
    (simp_all add: sample_bill_def receipt_log_new_def amt_def)

lemma completed_payment_is_proved_witness:
  "\<exists>pr (log' :: receipt_log). rl_proofs log' = [pr] \<and> amt (rl_exposure log') = 8"
proof -
  obtain pr log' where r: "complete_payment_proof sample_crypto sample_bill sample_accept (Keypair 1) 7
      (AmountMicros 8) (Keypair 2) receipt_log_new = Ok pr log'"
    using sample_payment_completes by blast
  have "rl_proofs log' = [] @ [pr] \<and> amt (rl_exposure log') = 0 + 8"
    using completed_payment_is_proved [OF sample_crypto_ok r] by (simp add: receipt_log_new_def amt_def)
  then show ?thesis by auto
qed

text \<open>C23: Sealing a receipt log gives a checkpoint that verifies, at the sealer's next height, with the
  log's root, count and exposure; every receipt of the log is provably included under that
  root; and the log is emptied and the height advanced.\<close>

theorem sealed_receipts_are_included:
  assumes "crypto_ok X" and "rlog.accounts X log" and "force_seal X kp shard ep now (s, log) = Ok cp (s', log')"
  shows "verify_signed_checkpoint X cp = Inr () \<and> seals X log cp \<and> hd_height (sc_header cp) = cs_next_height s
    \<and> unat (cs_next_height s') = unat (cs_next_height s) + 1 \<and> rl_proofs log' = [] \<and> rlog.accounts X log'
    \<and> list_all (\<lambda>i. \<exists>leaf p. leaf_of X (rl_proofs log ! i) = Some leaf \<and>
        merkle_proof_of X (rl_leaves log) i = Some p \<and> verify_merkle_proof X leaf p (hd_root (sc_header cp)))
        [0..<length (rl_proofs log)]"
proof -
  have "s' = s\<lparr> cs_next_height := cs_next_height s + 1 \<rparr>" "unat (cs_next_height s) + 1 < 2 ^ 64"
    and l: "log' = clear_sealed log"
    using assms(3) by (auto simp: force_seal_Ok)
  then have "unat (cs_next_height s') = unat (cs_next_height s) + 1" by (simp add: unat_plus_fits)
  moreover have "rl_proofs log' = []" by (simp add: l clear_sealed_def)
  moreover have "rlog.accounts X log'" unfolding l by (rule rlog.accounts_clear)
  ultimately show ?thesis
    using force_seal_verifies [OF assms(1,3)] force_seal_seals(1,2) [OF assms(3)] sealed_inclusion [OF assms(2,3)]
    by (simp add: list_all_iff)
qed

lemma sealed_receipts_are_included_witness:
  "\<exists>cp. verify_signed_checkpoint sample_crypto cp = Inr () \<and> hd_height (sc_header cp) = 1"
proof -
  obtain pr log where r: "complete_payment_proof sample_crypto sample_bill sample_accept (Keypair 1) 7
      (AmountMicros 8) (Keypair 2) receipt_log_new = Ok pr log"
    using sample_payment_completes by blast
  then have l: "log_append sample_crypto pr receipt_log_new = Ok () log" by (simp add: complete_payment_proof_Ok)
  have acc: "rlog.accounts sample_crypto log" by (rule rlog.accounts_append [OF rlog.accounts_new l])
  have ne: "\<not> log_is_empty log" using l by (auto simp: log_append_Ok log_is_empty_def)
  let ?s = "sealer_new 10 (AmountMicros 100)"
  obtain sig where "sign_checkpoint sample_crypto (Keypair 3) (sealed_header sample_crypto ?s log (ShardId ''S'') (Epoch 1) 50) = Inr sig"
    using sign_checkpoint_total [OF sample_crypto_ok] by blast
  then have f: "force_seal sample_crypto (Keypair 3) (ShardId ''S'') (Epoch 1) 50 (?s, log) =
      Ok (make_checkpoint sample_crypto (Keypair 3) (sealed_header sample_crypto ?s log (ShardId ''S'') (Epoch 1) 50) sig)
        (?s\<lparr> cs_next_height := cs_next_height ?s + 1 \<rparr>, clear_sealed log)"
    using ne by (simp add: force_seal_Ok sealer_new_def)
  have "cs_next_height ?s = 1" by (simp add: sealer_new_def)
  then show ?thesis using sealed_receipts_are_included [OF sample_crypto_ok acc f] by auto
qed

section \<open>Domain separation\<close>

text \<open>The domain tag a signed body carries.\<close>

fun domain_of :: "cval \<Rightarrow> string option" where
  "domain_of (CMap fs) = (case map_of fs ''domain'' of Some (CText t) \<Rightarrow> Some t | _ \<Rightarrow> None)"
| "domain_of _ = None"

text \<open>A signature on a body is not forged: if it verifies for the body's bytes, the holder of the key
  signed that body.\<close>

definition unforged :: "crypto \<Rightarrow> (bytes \<Rightarrow> bytes \<Rightarrow> bool) \<Rightarrow> cval set \<Rightarrow> cval \<times> bytes \<Rightarrow> bool" where
  "unforged X verifies made = (\<lambda>(b, sig). \<forall>bs. encode_cbor X b = Inr bs \<and> verifies bs sig \<longrightarrow> b \<in> made)"

lemma unforged_domain:
  assumes "unforged X verifies made (b, sig)" and "\<forall>b \<in> made. \<exists>D \<in> Ds. domain_of b = Some D"
    and "domain_of b = Some D" and "encode_cbor X b = Inr bs" and "verifies bs sig"
  shows "D \<in> Ds"
  using assms by (auto simp: unforged_def)

lemma verify_item_domain:
  assumes "unforged X (ed_verify X (vkey_bytes vk)) made (b, sig)"
    and "\<forall>b \<in> made. \<exists>D \<in> Ds. domain_of b = Some D"
    and "domain_of b = Some D" and "verify_item X vk b sig = Inr ()"
  shows "D \<in> Ds"
  using assms unforged_domain [OF assms(1,2,3)] by (auto simp: verify_item_Inr)

lemma body_domains:
  "domain_of (pay_body p) = Some ''PAY''" "domain_of (capability_body c) = Some ''CAPABILITY''"
  "domain_of (hybrid_body c) = Some ''CAPABILITY_HYBRID''" "domain_of (edge_body e) = Some ''EDGE_ACCEPT''"
  "domain_of (service_body r) = Some ''SERVICE_RECEIPT''" "domain_of (checkpoint_body h) = Some ''CHECKPOINT''"
  "domain_of (witness_body cp) = Some ''WITNESS_CHECKPOINT''" "domain_of (evidence_body v) = Some ''ATTESTATION''"
  by (simp_all add: pay_body_cbor capability_body_cbor hybrid_body_cbor edge_body_cbor service_body_cbor
      checkpoint_body_def witness_body_def evidence_body_def Let_def)

text \<open>A service receipt under the key of \<open>Keypair 2\<close>, and an edge acceptance with its signature.\<close>

definition sample_receipt :: service_receipt where
  "sample_receipt = \<lparr> sr_edge_accept_hash = 1, sr_execution_hash = 2, sr_actual_amount = AmountMicros 3,
     sr_service_pubkey = verifying_key_bytes sample_crypto (Keypair 2), sr_service_signature = [] \<rparr>"

definition replayed_acceptance :: "u64 \<Rightarrow> bytes \<Rightarrow> edge_acceptance" where
  "replayed_acceptance n sig = \<lparr> ea_agent_auth_hash = 1, ea_commit_index = n, ea_tx_id = 2,
     ea_edge_pubkey = verifying_key_bytes sample_crypto (Keypair 2), ea_edge_signature = sig \<rparr>"

lemma replayed_hashes_differ:
  "sample_hash (enc (edge_body (replayed_acceptance 0 s))) \<noteq> sample_hash (enc (edge_body (replayed_acceptance 1 s)))"
proof -
  have "le_bytes 16 (0 :: u128) = replicate 16 0" "le_bytes 16 (1 :: u128) = 1 # replicate 15 0"
    by (simp_all add: eval_nat_numeral)
  then have "even (sample_hash (enc (edge_body (replayed_acceptance 0 s)))) \<noteq> even (sample_hash (enc (edge_body (replayed_acceptance 1 s))))"
    by (simp add: sample_hash_parity edge_body_cbor replayed_acceptance_def c_u64_def)
  then show ?thesis by metis
qed

text \<open>The other objects, without a signature.\<close>

definition blank_capability :: spend_capability where
  "blank_capability =
     \<lparr> cap_capability_id = CapabilityId 1, cap_account_id = AccountId 1, cap_agent_id = AgentId 2,
       cap_shard_id = ShardId ''S'', cap_epoch = Epoch 1, cap_currency = ''EURC'',
       cap_maximum_total = AmountMicros 9, cap_maximum_per_call = AmountMicros 9,
       cap_service_scope = [''svc''], cap_policy_hash = 0, cap_sequence_start = Sequence 1,
       cap_sequence_end = Sequence 9, cap_valid_from_unix_ms = 0, cap_valid_until_unix_ms = 100,
       cap_region = ''eu'', cap_issuer_alg = 1, cap_issuer_pubkey = 5, cap_issuer_signature = [],
       cap_issuer_pq_pubkey = [], cap_issuer_pq_signature = [] \<rparr>"

definition blank_checkpoint :: signed_checkpoint where
  "blank_checkpoint =
     \<lparr> sc_header = \<lparr> hd_shard_id = ShardId ''S'', hd_epoch = Epoch 1, hd_root = 0, hd_height = 1, hd_tx_count = 1,
         hd_exposure = AmountMicros 4, hd_sealed_at_unix_ms = 0 \<rparr>,
       sc_shard_signer_pubkey = 5, sc_shard_signature = [] \<rparr>"

definition blank_evidence :: attestation_evidence where
  "blank_evidence = \<lparr> ev_binary_hash = 1, ev_config_hash = 2, ev_version = ''1'', ev_hardware_id = 3,
     ev_platform_pubkey = 5, ev_platform_signature = [] \<rparr>"

lemma unsigned_unforged [simp]:
  "unforged sample_crypto (ed_verify sample_crypto k) made (b, [])"
  "unforged sample_crypto (pq_verify sample_crypto q) made (b, [])"
proof -
  have "b32_bytes h \<noteq> []" for h by (simp add: b32_bytes_def numeral_eq_Suc)
  then show "unforged sample_crypto (ed_verify sample_crypto k) made (b, [])"
    "unforged sample_crypto (pq_verify sample_crypto q) made (b, [])"
    by (simp_all add: unforged_def sample_crypto_def)
qed

lemma blank_signatures [simp]:
  "pay_agent_signature sample_bill = []" "cap_issuer_signature blank_capability = []"
  "cap_issuer_pq_signature blank_capability = []" "sc_shard_signature blank_checkpoint = []"
  "ev_platform_signature blank_evidence = []" "ea_edge_signature (replayed_acceptance n s) = s"
  "sr_service_signature (attach_service s r) = s"
  by (simp_all add: sample_bill_def blank_capability_def blank_checkpoint_def blank_evidence_def
      replayed_acceptance_def attach_service_def)

lemma made_unforged [simp]: "unforged X verifies (insert b made) (b, sig)"
  by (simp add: unforged_def)

text \<open>C32: A signature serves only the purpose it was made for: if everything a key has signed carries a
  domain tag of \<open>Ds\<close> and the signatures on the objects at hand are not forged, then under that key
  a payment verifies only if \<open>PAY\<close> is in \<open>Ds\<close>, a capability only if \<open>CAPABILITY\<close> is, the
  post-quantum half of a capability only with \<open>CAPABILITY_HYBRID\<close>, an edge acceptance only with
  \<open>EDGE_ACCEPT\<close>, a service receipt only with \<open>SERVICE_RECEIPT\<close>, a checkpoint only with \<open>CHECKPOINT\<close>,
  a witness signature only with \<open>WITNESS_CHECKPOINT\<close> and an attestation only with \<open>ATTESTATION\<close>.\<close>

theorem signatures_keep_their_purpose:
  assumes "\<forall>b \<in> made. \<exists>D \<in> Ds. domain_of b = Some D"
    and "list_all (unforged X (ed_verify X (vkey_bytes vk)) made)
      [(pay_body p, pay_agent_signature p), (capability_body c, cap_issuer_signature c), (edge_body e, ea_edge_signature e),
       (service_body r, sr_service_signature r), (checkpoint_body (sc_header h), sc_shard_signature h),
       (witness_body h, ws_signature w), (evidence_body v, ev_platform_signature v)]"
    and "unforged X (pq_verify X pk) made (hybrid_body d, cap_issuer_pq_signature d)"
  shows "(verify_pay X vk p = Inr () \<longrightarrow> ''PAY'' \<in> Ds)
    \<and> (verify_capability X vk c = Inr () \<longrightarrow> ''CAPABILITY'' \<in> Ds)
    \<and> (verify_capability_hybrid X d = Inr () \<and> cap_issuer_pq_pubkey d = pk \<longrightarrow> ''CAPABILITY_HYBRID'' \<in> Ds)
    \<and> (verify_edge_acceptance X vk e = Inr () \<longrightarrow> ''EDGE_ACCEPT'' \<in> Ds)
    \<and> (verify_service_receipt X vk r = Inr () \<longrightarrow> ''SERVICE_RECEIPT'' \<in> Ds)
    \<and> (verify_signed_checkpoint X h = Inr () \<and> sc_shard_signer_pubkey h = vkey_bytes vk \<longrightarrow> ''CHECKPOINT'' \<in> Ds)
    \<and> (verify_witness_sig X h w = Inr () \<and> ws_witness_pubkey w = vkey_bytes vk \<longrightarrow> ''WITNESS_CHECKPOINT'' \<in> Ds)
    \<and> (verify_evidence X policy v = Inr () \<and> ev_platform_pubkey v = vkey_bytes vk \<longrightarrow> ''ATTESTATION'' \<in> Ds)"
proof -
  note un = assms(2) [unfolded list.pred_inject, simplified]
  note item = verify_item_domain [OF _ assms(1)]
  have "''CAPABILITY_HYBRID'' \<in> Ds" if "verify_capability_hybrid X d = Inr ()" "cap_issuer_pq_pubkey d = pk"
    using that unforged_domain [OF assms(3,1) body_domains(3)]
    by (auto simp: verify_capability_hybrid_def verify_pq_def split: sum.splits if_splits)
  moreover have "''CHECKPOINT'' \<in> Ds" if "verify_signed_checkpoint X h = Inr ()" "sc_shard_signer_pubkey h = vkey_bytes vk"
    using that un unforged_domain [OF _ assms(1) body_domains(6)]
    by (auto simp: verify_signed_checkpoint_def split: sum.splits if_splits)
  moreover have "''WITNESS_CHECKPOINT'' \<in> Ds" if "verify_witness_sig X h w = Inr ()" "ws_witness_pubkey w = vkey_bytes vk"
    using that un unforged_domain [OF _ assms(1) body_domains(7)]
    by (auto simp: verify_witness_sig_def split: sum.splits if_splits)
  moreover have "''ATTESTATION'' \<in> Ds" if "verify_evidence X policy v = Inr ()" "ev_platform_pubkey v = vkey_bytes vk"
    using that un unforged_domain [OF _ assms(1) body_domains(8)]
    by (auto simp: verify_evidence_Inr encode_cbor_def)
  ultimately show ?thesis
    using un item [OF _ body_domains(1)] item [OF _ body_domains(2)] item [OF _ body_domains(4)]
      item [OF _ body_domains(5)]
    unfolding verify_pay_def verify_capability_def verify_edge_acceptance_def verify_service_receipt_def by blast
qed

text \<open>An edge acceptance with the signature of a service receipt is refused.\<close>

lemma signatures_keep_their_purpose_witness:
  "\<exists>r e. verify_service_receipt sample_crypto (verifying_key sample_crypto (Keypair 2)) r = Inr () \<and>
     ea_edge_signature e = sr_service_signature r \<and>
     verify_edge_acceptance sample_crypto (verifying_key sample_crypto (Keypair 2)) e \<noteq> Inr ()"
proof -
  let ?vk = "verifying_key sample_crypto (Keypair 2)"
  obtain s where s: "sign_service_receipt sample_crypto (Keypair 2) sample_receipt = Some s"
    using service_sig.sign_total [OF sample_crypto_ok] by blast
  let ?r = "attach_service s sample_receipt"
  have ok: "verify_service_receipt sample_crypto ?vk ?r = Inr ()"
    by (rule service_sig.verify_attached [OF sample_crypto_ok s])
  have sig: "s = b32_bytes (vkey_bytes ?vk) @ b32_bytes (sample_hash (enc (service_body sample_receipt)))"
    using s by (simp add: sign_service_receipt_def sign_item_def sample_crypto_def encode_cbor_def verifying_key_def)
  obtain n where n: "sample_hash (enc (edge_body (replayed_acceptance n s))) \<noteq> sample_hash (enc (service_body sample_receipt))"
    using replayed_hashes_differ [of s] by metis
  let ?e = "replayed_acceptance n s"
  have e: "unforged sample_crypto (ed_verify sample_crypto (vkey_bytes ?vk)) {service_body ?r} (edge_body ?e, s)"
    using n by (auto simp: unforged_def sig encode_cbor_def sample_crypto_def)
  have "verify_edge_acceptance sample_crypto ?vk ?e = Inr () \<longrightarrow> ''EDGE_ACCEPT'' \<in> {''SERVICE_RECEIPT''}"
    by (rule signatures_keep_their_purpose [where made = "{service_body ?r}" and p = sample_bill and c = blank_capability
        and r = ?r and h = blank_checkpoint and w = "\<lparr> ws_witness_pubkey = 5, ws_signature = [] \<rparr>" and v = blank_evidence
        and d = blank_capability and pk = "[]", THEN conjunct2, THEN conjunct2, THEN conjunct2, THEN conjunct1])
      (use e in \<open>simp_all add: body_domains\<close>)
  then have "verify_edge_acceptance sample_crypto ?vk ?e \<noteq> Inr ()" by simp
  then show ?thesis
    using ok by (intro exI [of _ ?r] exI [of _ ?e]) simp
qed

end
