(* ===== verification/Authority.thy ===== *)
theory Authority
  imports Attest
begin

text \<open>
  The authority that holds the accounts' floats and issues capabilities against attested edge
  nodes (\<open>crates/authority/src/issuer.rs\<close>): funding, allocation of a float to shards, issuance,
  epoch fencing, and the bookkeeping that every unit of a float is in reserve, allocated to a
  shard, or issued.
\<close>

section \<open>Data\<close>

datatype authority_error =
    AuthUnknownAccount
  | InsufficientReserve
  | InsufficientShardAllowance
  | UnknownShardAllocation
  | AttestationFailed
  | HybridSealFailed

record account_float =
  af_total :: amount_micros
  af_reserve :: amount_micros
  af_shard_allowances :: "(shard_id, amount_micros) fmap"

record authority =
  au_issuer :: keypair
  au_issuer_pq :: pq_keypair
  au_accounts :: "(account_id, account_float) fmap"
  au_outstanding :: "(capability_id, amount_micros) fmap"
  au_fenced_epochs :: "(shard_id, epoch) fmap"
  au_next_cap_counter :: u64
  au_attest_policy :: attestation_policy
  au_test_platform :: "test_platform option"
  au_hybrid_issue :: bool

record issue_request =
  ir_account_id :: account_id
  ir_agent_id :: agent_id
  ir_shard_id :: shard_id
  ir_epoch :: epoch
  ir_maximum_total :: amount_micros
  ir_maximum_per_call :: amount_micros
  ir_service_scope :: "string list"
  ir_policy_hash :: b32
  ir_sequence_start :: sequence_no
  ir_sequence_end :: sequence_no
  ir_ttl_ms :: u64
  ir_region :: string
  ir_now_unix_ms :: u64

section \<open>Operations\<close>

text \<open>\<open>new_for_tests\<close> with the keys it generates as arguments.\<close>

definition authority_new :: "crypto \<Rightarrow> keypair \<Rightarrow> keypair \<Rightarrow> pq_keypair \<Rightarrow> authority" where
  "authority_new X platform issuer issuer_pq =
     (let tp = test_platform_new X platform in
      \<lparr> au_issuer = issuer, au_issuer_pq = issuer_pq, au_accounts = fmempty,
        au_outstanding = fmempty, au_fenced_epochs = fmempty, au_next_cap_counter = 1,
        au_attest_policy = tp_policy tp, au_test_platform = Some tp, au_hybrid_issue = True \<rparr>)"

definition passing_attestation :: "crypto \<Rightarrow> authority \<Rightarrow> attestation_evidence option" where
  "passing_attestation X a =
     (case au_test_platform a of None \<Rightarrow> None | Some tp \<Rightarrow> tp_evidence X tp)"

definition issuer_verifying_key_bytes :: "crypto \<Rightarrow> authority \<Rightarrow> b32" where
  "issuer_verifying_key_bytes X a = verifying_key_bytes X (au_issuer a)"

definition issuer_signing_bytes_for_tests :: "authority \<Rightarrow> b32" where
  "issuer_signing_bytes_for_tests a = signing_key (au_issuer a)"

definition fund :: "account_id \<Rightarrow> amount_micros \<Rightarrow> authority \<Rightarrow> (authority, authority_error, unit) outcome" where
  "fund acct funds_total a =
     Ok () (a\<lparr> au_accounts := fmupd acct
       \<lparr> af_total = funds_total, af_reserve = funds_total, af_shard_allowances = fmempty \<rparr> (au_accounts a) \<rparr>)"

definition allocate ::
  "account_id \<Rightarrow> shard_id \<Rightarrow> amount_micros \<Rightarrow> authority \<Rightarrow> (authority, authority_error, unit) outcome" where
  "allocate acct shard amount a =
     (case fmlookup (au_accounts a) acct of
        None \<Rightarrow> Err AuthUnknownAccount a
      | Some f \<Rightarrow>
          if micros (af_reserve f) < micros amount then Err InsufficientReserve a
          else
            (let cur = (case fmlookup (af_shard_allowances f) shard of
                          None \<Rightarrow> AmountMicros 0 | Some x \<Rightarrow> x)
             in ret_or_panic (chk_add (micros cur) (micros amount)) (\<lambda>n.
                Ok () (a\<lparr> au_accounts := fmupd acct
                  (f\<lparr> af_reserve := AmountMicros (micros (af_reserve f) - micros amount),
                      af_shard_allowances := fmupd shard (AmountMicros n) (af_shard_allowances f) \<rparr>)
                  (au_accounts a) \<rparr>))))"

definition capability_id_input :: "issue_request \<Rightarrow> u64 \<Rightarrow> bytes" where
  "capability_id_input req counter =
     b32_bytes (account_bytes (ir_account_id req)) @ b32_bytes (agent_bytes (ir_agent_id req))
     @ str_bytes (shard_str (ir_shard_id req)) @ le_bytes 8 (epoch_num (ir_epoch req))
     @ le_bytes 8 counter"

definition unsigned_capability :: "crypto \<Rightarrow> authority \<Rightarrow> issue_request \<Rightarrow> spend_capability" where
  "unsigned_capability X a req =
     \<lparr> cap_capability_id = CapabilityId (blake3 X (capability_id_input req (au_next_cap_counter a))),
       cap_account_id = ir_account_id req, cap_agent_id = ir_agent_id req,
       cap_shard_id = ir_shard_id req, cap_epoch = ir_epoch req, cap_currency = ''EURC'',
       cap_maximum_total = ir_maximum_total req, cap_maximum_per_call = ir_maximum_per_call req,
       cap_service_scope = ir_service_scope req, cap_policy_hash = ir_policy_hash req,
       cap_sequence_start = ir_sequence_start req, cap_sequence_end = ir_sequence_end req,
       cap_valid_from_unix_ms = ir_now_unix_ms req,
       cap_valid_until_unix_ms = sat_add (ir_now_unix_ms req) (ir_ttl_ms req),
       cap_region = ir_region req, cap_issuer_alg = alg_as_u16 Ed25519,
       cap_issuer_pubkey = verifying_key_bytes X (au_issuer a), cap_issuer_signature = [],
       cap_issuer_pq_pubkey = [], cap_issuer_pq_signature = [] \<rparr>"

text \<open>The sealing step: the hybrid seal, or the classical signature alone.\<close>

definition seal_issued ::
  "crypto \<Rightarrow> authority \<Rightarrow> spend_capability \<Rightarrow> (spend_capability, authority_error, unit) outcome" where
  "seal_issued X a cap =
     (if au_hybrid_issue a then
        (case seal_capability_hybrid X (au_issuer a) (au_issuer_pq a) cap of
           Ok _ c \<Rightarrow> Ok () c | Err _ c \<Rightarrow> Err HybridSealFailed c | Panic \<Rightarrow> Panic)
      else ret_or_panic (sign_capability X (au_issuer a) cap)
             (\<lambda>s. Ok () (cap\<lparr> cap_issuer_signature := s \<rparr>)))"

definition issue_capability ::
  "crypto \<Rightarrow> issue_request \<Rightarrow> attestation_evidence \<Rightarrow> authority \<Rightarrow> (authority, authority_error, spend_capability) outcome" where
  "issue_capability X req evidence a =
     or_err (verify_evidence X (au_attest_policy a) evidence) (Err AttestationFailed a) (\<lambda>_.
     case fmlookup (au_accounts a) (ir_account_id req) of
       None \<Rightarrow> Err AuthUnknownAccount a
     | Some f \<Rightarrow>
         (case fmlookup (af_shard_allowances f) (ir_shard_id req) of
            None \<Rightarrow> Err UnknownShardAllocation a
          | Some allowance \<Rightarrow>
              if micros allowance < micros (ir_maximum_total req) then Err InsufficientShardAllowance a
              else
                (let f' = f\<lparr> af_shard_allowances := fmupd (ir_shard_id req)
                        (AmountMicros (micros allowance - micros (ir_maximum_total req)))
                        (af_shard_allowances f) \<rparr>;
                     a1 = a\<lparr> au_accounts := fmupd (ir_account_id req) f' (au_accounts a) \<rparr>
                 in ret_or_panic (chk_add (au_next_cap_counter a) 1) (\<lambda>c.
                    let a2 = a1\<lparr> au_next_cap_counter := c \<rparr>;
                        cap = unsigned_capability X a req
                    in case seal_issued X a cap of
                         Ok _ cap' \<Rightarrow> Ok cap' (a2\<lparr> au_outstanding :=
                           fmupd (cap_capability_id cap) (ir_maximum_total req) (au_outstanding a2) \<rparr>)
                       | Err e _ \<Rightarrow> Err e a2
                       | Panic \<Rightarrow> Panic))))"

definition auth_fence_epoch :: "shard_id \<Rightarrow> epoch \<Rightarrow> authority \<Rightarrow> authority" where
  "auth_fence_epoch shard ep a = a\<lparr> au_fenced_epochs := fmupd shard ep (au_fenced_epochs a) \<rparr>"

definition is_epoch_fenced :: "authority \<Rightarrow> shard_id \<Rightarrow> epoch \<Rightarrow> bool" where
  "is_epoch_fenced a shard ep =
     (case fmlookup (au_fenced_epochs a) shard of
        None \<Rightarrow> False | Some e \<Rightarrow> epoch_num ep \<le> epoch_num e)"

section \<open>Every unit of a float has a place\<close>

text \<open>What of a float is not issued: its reserve and its shard allowances.\<close>

definition unissued :: "account_float \<Rightarrow> nat" where
  "unissued f = amt (af_reserve f) + fm_sum (\<lambda>_. amt) (af_shard_allowances f)"

definition float_of :: "authority \<Rightarrow> account_id \<Rightarrow> nat" where
  "float_of a acct = (case fmlookup (au_accounts a) acct of None \<Rightarrow> 0 | Some f \<Rightarrow> unissued f)"

definition total_of :: "authority \<Rightarrow> account_id \<Rightarrow> nat" where
  "total_of a acct = (case fmlookup (au_accounts a) acct of None \<Rightarrow> 0 | Some f \<Rightarrow> amt (af_total f))"

definition reserve_of :: "authority \<Rightarrow> account_id \<Rightarrow> nat" where
  "reserve_of a acct = (case fmlookup (au_accounts a) acct of None \<Rightarrow> 0 | Some f \<Rightarrow> amt (af_reserve f))"

text \<open>What of an account's float one shard may still be issued.\<close>

definition allowance_of :: "authority \<Rightarrow> account_id \<Rightarrow> shard_id \<Rightarrow> nat" where
  "allowance_of a acct shard =
     (case fmlookup (au_accounts a) acct of None \<Rightarrow> 0
      | Some f \<Rightarrow> (case fmlookup (af_shard_allowances f) shard of None \<Rightarrow> 0 | Some x \<Rightarrow> amt x))"

definition floats_ok :: "authority \<Rightarrow> bool" where
  "floats_ok a \<longleftrightarrow> (\<forall>acct. float_of a acct \<le> total_of a acct)"

lemma floats_ok_new [simp]: "floats_ok (authority_new X p i q)"
  by (simp add: floats_ok_def float_of_def authority_new_def Let_def)

lemma floats_ok_bound:
  assumes "floats_ok a" "fmlookup (au_accounts a) acct = Some f"
  shows "unissued f \<le> amt (af_total f)"
  using assms by (auto simp: floats_ok_def float_of_def total_of_def dest: spec [of _ acct])

text \<open>Moving \<open>n\<close> into one entry of an amount map adds \<open>n\<close> to its sum.\<close>

lemma amount_entry_sum:
  "fm_sum (\<lambda>_. amt) (fmupd k v m) +
     (case fmlookup m k of None \<Rightarrow> 0 | Some x \<Rightarrow> amt x) = fm_sum (\<lambda>_. amt) m + amt v"
  using fm_sum_new [of m k "\<lambda>_. amt" v] fm_sum_upd [of m k _ "\<lambda>_. amt" v]
  by (cases "fmlookup m k") simp_all

lemma fund_float:
  assumes "fund acct funds_total a = Ok u a'"
  shows "float_of a' = (float_of a)(acct := amt funds_total)" and "total_of a' = (total_of a)(acct := amt funds_total)"
  using assms by (auto simp: fund_def float_of_def total_of_def unissued_def fun_eq_iff)

lemma allocate_Ok:
  "allocate acct shard amount a = Ok u a' \<longleftrightarrow>
     (\<exists>f n. fmlookup (au_accounts a) acct = Some f \<and> amt amount \<le> amt (af_reserve f) \<and>
        chk_add (micros (case fmlookup (af_shard_allowances f) shard of None \<Rightarrow> AmountMicros 0 | Some x \<Rightarrow> x))
          (micros amount) = Some n \<and>
        a' = a\<lparr> au_accounts := fmupd acct
          (f\<lparr> af_reserve := AmountMicros (micros (af_reserve f) - micros amount),
              af_shard_allowances := fmupd shard (AmountMicros n) (af_shard_allowances f) \<rparr>)
          (au_accounts a) \<rparr>)"
  by (auto simp: allocate_def Let_def outcome_iff arith_simps split: option.splits)

lemma allocate_unissued:
  assumes "amt amount \<le> amt (af_reserve f)"
    and "chk_add (micros (case fmlookup m shard of None \<Rightarrow> AmountMicros 0 | Some x \<Rightarrow> x))
          (micros amount) = Some n"
    and "m = af_shard_allowances f"
  shows "unissued (f\<lparr> af_reserve := AmountMicros (micros (af_reserve f) - micros amount),
              af_shard_allowances := fmupd shard (AmountMicros n) m \<rparr>) = unissued f"
proof -
  let ?old = "case fmlookup m shard of None \<Rightarrow> 0 | Some x \<Rightarrow> amt x"
  have "unat n = ?old + amt amount"
    using chk_add_Some [OF assms(2)] by (simp add: amt_def split: option.splits)
  then have "fm_sum (\<lambda>_. amt) (fmupd shard (AmountMicros n) m) = fm_sum (\<lambda>_. amt) m + amt amount"
    using amount_entry_sum [of shard "AmountMicros n" m] by simp
  moreover have "micros amount \<le> micros (af_reserve f)" using assms(1) by (simp add: micros_le_amt)
  ultimately show ?thesis
    using assms(1,3) by (simp add: unissued_def amt_def unat_minus_fits)
qed

text \<open>Allocating moves money, it makes none.\<close>

lemma allocate_float:
  assumes "allocate acct shard amount a = Ok u a'"
  shows "float_of a' = float_of a" and "total_of a' = total_of a"
  using assms allocate_unissued
  by (auto simp: allocate_Ok float_of_def total_of_def fun_eq_iff)

lemma allocate_no_panic:
  assumes "floats_ok a"
  shows "allocate acct shard amount a \<noteq> Panic"
proof
  assume "allocate acct shard amount a = Panic"
  then obtain f where f: "fmlookup (au_accounts a) acct = Some f"
    and r: "amt amount \<le> amt (af_reserve f)"
    and o: "chk_add (micros (case fmlookup (af_shard_allowances f) shard of None \<Rightarrow> AmountMicros 0 | Some x \<Rightarrow> x))
      (micros amount) = None"
    by (auto simp: allocate_def Let_def outcome_iff arith_simps split: option.splits if_splits)
  have "amt (case fmlookup (af_shard_allowances f) shard of None \<Rightarrow> AmountMicros 0 | Some x \<Rightarrow> x)
      \<le> fm_sum (\<lambda>_. amt) (af_shard_allowances f)"
    using fm_sum_ge [of "af_shard_allowances f" shard _ "\<lambda>_. amt"] by (auto split: option.split)
  then have "amt (case fmlookup (af_shard_allowances f) shard of None \<Rightarrow> AmountMicros 0 | Some x \<Rightarrow> x)
      + amt amount \<le> amt (af_total f)"
    using r floats_ok_bound [OF assms f] by (simp add: unissued_def)
  moreover have "amt (af_total f) < 2 ^ 128" by (rule amt_less_pow)
  ultimately show False using o by (simp add: chk_add_overflow amt_def)
qed

section \<open>Issuance\<close>

lemma seal_issued_Ok:
  assumes "crypto_ok X"
  shows "\<exists>c'. seal_issued X a cap = Ok () c'"
proof (cases "au_hybrid_issue a")
  case True
  then show ?thesis
    using seal_capability_hybrid_verifies [OF assms, of "au_issuer a" "au_issuer_pq a" cap]
    by (auto simp: seal_issued_def)
next
  case False
  then show ?thesis
    using capability_sig.sign_total [OF assms, of "au_issuer a" cap] by (auto simp: seal_issued_def)
qed

definition after_issue :: "issue_request \<Rightarrow> authority \<Rightarrow> account_float \<Rightarrow> amount_micros \<Rightarrow> authority" where
  "after_issue req a f allowance =
     a\<lparr> au_accounts := fmupd (ir_account_id req)
          (f\<lparr> af_shard_allowances := fmupd (ir_shard_id req)
                (AmountMicros (micros allowance - micros (ir_maximum_total req)))
                (af_shard_allowances f) \<rparr>) (au_accounts a),
        au_next_cap_counter := au_next_cap_counter a + 1 \<rparr>"

lemma issue_capability_Ok:
  "issue_capability X req ev a = Ok cap a' \<longleftrightarrow>
     verify_evidence X (au_attest_policy a) ev = Inr () \<and>
     (\<exists>f allowance. fmlookup (au_accounts a) (ir_account_id req) = Some f \<and>
        fmlookup (af_shard_allowances f) (ir_shard_id req) = Some allowance \<and>
        amt (ir_maximum_total req) \<le> amt allowance \<and>
        unat (au_next_cap_counter a) + 1 < 2 ^ 64 \<and>
        seal_issued X a (unsigned_capability X a req) = Ok () cap \<and>
        a' = (after_issue req a f allowance)\<lparr> au_outstanding :=
          fmupd (cap_capability_id (unsigned_capability X a req)) (ir_maximum_total req) (au_outstanding a) \<rparr>)"
proof (cases "\<exists>f allowance. fmlookup (au_accounts a) (ir_account_id req) = Some f \<and>
    fmlookup (af_shard_allowances f) (ir_shard_id req) = Some allowance")
  case True
  then obtain f allowance where f: "fmlookup (au_accounts a) (ir_account_id req) = Some f"
    "fmlookup (af_shard_allowances f) (ir_shard_id req) = Some allowance" by blast
  show ?thesis
    by (cases "verify_evidence X (au_attest_policy a) ev";
        cases "seal_issued X a (unsigned_capability X a req)")
      (auto simp: issue_capability_def f Let_def micros_less_amt chk_add_def after_issue_def)
next
  case False
  then show ?thesis
    by (auto simp: issue_capability_def outcome_iff split: option.splits)
qed

text \<open>With a total encoder an error of issuance leaves the authority as it was.\<close>

lemma issue_capability_Err:
  assumes "crypto_ok X" and "issue_capability X req ev a = Err e a'"
  shows "a' = a"
  using assms(2) seal_issued_Ok [OF assms(1), of a "unsigned_capability X a req"]
  by (auto simp: issue_capability_def Let_def outcome_iff chk_add_def split: option.splits if_splits)

lemma issue_unissued:
  assumes "fmlookup (af_shard_allowances f) k = Some allowance" and "amt n \<le> amt allowance"
  shows "unissued (f\<lparr> af_shard_allowances := fmupd k (AmountMicros (micros allowance - micros n))
    (af_shard_allowances f) \<rparr>) + amt n = unissued f"
proof -
  have "micros n \<le> micros allowance" using assms(2) by (simp add: micros_le_amt)
  then have "unat (micros allowance - micros n) = amt allowance - amt n"
    by (simp add: amt_def unat_minus_fits)
  then show ?thesis
    using assms fm_sum_upd [OF assms(1), of "\<lambda>_. amt" "AmountMicros (micros allowance - micros n)"]
    by (simp add: unissued_def)
qed

text \<open>Issuing takes the capability's maximum out of the account's float, and only there.\<close>

lemma issue_float:
  assumes "issue_capability X req ev a = Ok cap a'"
  shows "float_of a' acct + (if acct = ir_account_id req then amt (ir_maximum_total req) else 0) = float_of a acct"
    and "total_of a' = total_of a"
  using assms issue_unissued
  by (auto simp: issue_capability_Ok float_of_def total_of_def after_issue_def fun_eq_iff)

lemma seal_issued_fields:
  assumes "seal_issued X a cap = Ok () c"
  shows "cap_capability_id c = cap_capability_id cap" "cap_account_id c = cap_account_id cap"
    "cap_agent_id c = cap_agent_id cap" "cap_shard_id c = cap_shard_id cap" "cap_epoch c = cap_epoch cap"
    "cap_maximum_total c = cap_maximum_total cap" "cap_maximum_per_call c = cap_maximum_per_call cap"
    "cap_currency c = cap_currency cap" "cap_service_scope c = cap_service_scope cap"
    "cap_sequence_start c = cap_sequence_start cap" "cap_sequence_end c = cap_sequence_end cap"
    "cap_valid_from_unix_ms c = cap_valid_from_unix_ms cap" "cap_valid_until_unix_ms c = cap_valid_until_unix_ms cap"
  using assms
  by (auto simp: seal_issued_def seal_capability_hybrid_def Let_def outcome_iff
      split: outcome.splits option.splits sum.splits if_splits)

lemma issue_capability_fields:
  assumes "issue_capability X req ev a = Ok cap a'"
  shows "cap_account_id cap = ir_account_id req" "cap_maximum_total cap = ir_maximum_total req"
    "cap_shard_id cap = ir_shard_id req" "cap_epoch cap = ir_epoch req"
  using assms by (auto simp: issue_capability_Ok unsigned_capability_def dest: seal_issued_fields)

text \<open>It takes it out of the allowance of the shard that was asked for; the reserve and the allowances
  of every other shard stay.\<close>

lemma issue_allowance:
  assumes "issue_capability X req ev a = Ok cap a'"
  shows "amt (ir_maximum_total req) \<le> allowance_of a (ir_account_id req) (ir_shard_id req)"
    and "allowance_of a' k s = allowance_of a k s
      - (if k = ir_account_id req \<and> s = ir_shard_id req then amt (ir_maximum_total req) else 0)"
    and "reserve_of a' = reserve_of a"
    and "fmlookup (au_outstanding a') (cap_capability_id cap) = Some (ir_maximum_total req)"
proof -
  have minus: "unat (micros x - micros n) = amt x - amt n" if "amt n \<le> amt x" for x n
    using that by (simp add: amt_def unat_minus_fits word_le_nat_alt)
  show "amt (ir_maximum_total req) \<le> allowance_of a (ir_account_id req) (ir_shard_id req)"
    using assms by (auto simp: issue_capability_Ok allowance_of_def)
  show "allowance_of a' k s = allowance_of a k s
      - (if k = ir_account_id req \<and> s = ir_shard_id req then amt (ir_maximum_total req) else 0)"
    using assms by (auto simp: issue_capability_Ok allowance_of_def after_issue_def minus)
  show "reserve_of a' = reserve_of a"
    using assms by (auto simp: issue_capability_Ok reserve_of_def after_issue_def fun_eq_iff)
  show "fmlookup (au_outstanding a') (cap_capability_id cap) = Some (ir_maximum_total req)"
    using assms by (auto simp: issue_capability_Ok dest!: seal_issued_fields(1))
qed

text \<open>Whatever the authority seals verifies under its classical key.\<close>

lemma issue_capability_signed:
  assumes "crypto_ok X" and "issue_capability X req ev a = Ok cap a'"
  shows "verify_capability X (verifying_key X (au_issuer a)) cap = Inr ()"
proof (cases "au_hybrid_issue a")
  case True
  then show ?thesis
    using assms(2) seal_capability_hybrid_verifies
        [OF assms(1), of "au_issuer a" "au_issuer_pq a" "unsigned_capability X a req"]
    by (auto simp: issue_capability_Ok seal_issued_def)
next
  case False
  then show ?thesis
    using assms(2) capability_sig.verify_attached [OF assms(1)]
    by (auto simp: issue_capability_Ok seal_issued_def outcome_iff attach_capability_def split: option.splits)
qed

text \<open>A hybrid authority issues capabilities whose both signatures verify.\<close>

lemma issue_capability_verifies:
  assumes "crypto_ok X" and "au_hybrid_issue a" and "issue_capability X req ev a = Ok cap a'"
  shows "verify_capability_hybrid X cap = Inr ()"
    and "verify_capability X (verifying_key X (au_issuer a)) cap = Inr ()"
  using assms(2,3) seal_capability_hybrid_verifies
      [OF assms(1), of "au_issuer a" "au_issuer_pq a" "unsigned_capability X a req"]
  by (auto simp: issue_capability_Ok seal_issued_def)

section \<open>Runs\<close>

datatype authority_op =
    Fund account_id amount_micros
  | Allocate account_id shard_id amount_micros
  | Issue issue_request attestation_evidence
  | FenceEpoch shard_id epoch

text \<open>One call, with the capability it issued, if any.\<close>

fun authority_step ::
  "crypto \<Rightarrow> authority_op \<Rightarrow> authority \<Rightarrow> (authority, authority_error, spend_capability option) outcome" where
  "authority_step X (Fund acct funds_total) a = and_then (fund acct funds_total a) (\<lambda>_ s. Ok None s)"
| "authority_step X (Allocate acct shard n) a = and_then (allocate acct shard n a) (\<lambda>_ s. Ok None s)"
| "authority_step X (Issue req ev) a = and_then (issue_capability X req ev a) (\<lambda>c s. Ok (Some c) s)"
| "authority_step X (FenceEpoch shard ep) a = Ok None (auth_fence_epoch shard ep a)"

text \<open>A caller that carries on after errors; a panic ends the run. The issued capabilities in order.\<close>

fun authority_run ::
  "crypto \<Rightarrow> authority \<Rightarrow> authority_op list \<Rightarrow> (authority \<times> spend_capability list) option" where
  "authority_run X a [] = Some (a, [])"
| "authority_run X a (op # ops) =
     (case authority_step X op a of
        Ok c s \<Rightarrow>
          (case authority_run X s ops of
             None \<Rightarrow> None
           | Some (t, caps) \<Rightarrow> Some (t, (case c of None \<Rightarrow> caps | Some x \<Rightarrow> x # caps)))
      | Err _ s \<Rightarrow> authority_run X s ops
      | Panic \<Rightarrow> None)"

definition issued_to :: "account_id \<Rightarrow> spend_capability list \<Rightarrow> nat" where
  "issued_to acct caps =
     (\<Sum>c \<leftarrow> filter (\<lambda>c. cap_account_id c = acct) caps. amt (cap_maximum_total c))"

lemma issued_to_simps [simp]:
  "issued_to acct [] = 0"
  "issued_to acct (c # cs) =
     (if cap_account_id c = acct then amt (cap_maximum_total c) else 0) + issued_to acct cs"
  by (simp_all add: issued_to_def)

fun funds :: "account_id \<Rightarrow> authority_op \<Rightarrow> bool" where
  "funds acct (Fund b _) = (b = acct)"
| "funds acct _ = False"

lemma authority_step_float:
  assumes "authority_step X op a = Ok c s" and "\<not> funds acct op"
  shows "float_of s acct + issued_to acct (case c of None \<Rightarrow> [] | Some x \<Rightarrow> [x]) = float_of a acct"
    and "total_of s acct = total_of a acct"
proof -
  have "float_of s acct + issued_to acct (case c of None \<Rightarrow> [] | Some x \<Rightarrow> [x]) = float_of a acct
    \<and> total_of s acct = total_of a acct"
  proof (cases op)
    case (Fund b n)
    then show ?thesis using assms by (auto simp: outcome_iff dest: fund_float)
  next
    case (Allocate b sh n)
    then show ?thesis using assms by (auto simp: outcome_iff dest: allocate_float)
  next
    case (Issue req ev)
    then obtain cap where i: "issue_capability X req ev a = Ok cap s" and c: "c = Some cap"
      using assms by (auto simp: outcome_iff)
    show ?thesis using issue_float(1) [OF i, of acct] issue_float(2) [OF i] issue_capability_fields [OF i] c by auto
  next
    case (FenceEpoch sh e)
    then show ?thesis using assms by (auto simp: auth_fence_epoch_def float_of_def total_of_def)
  qed
  then show "float_of s acct + issued_to acct (case c of None \<Rightarrow> [] | Some x \<Rightarrow> [x]) = float_of a acct"
    and "total_of s acct = total_of a acct" by auto
qed

lemma authority_step_Err:
  assumes "crypto_ok X" and "authority_step X op a = Err e s"
  shows "s = a"
  using assms by (cases op)
    (auto simp: outcome_iff fund_def allocate_def Let_def dest: issue_capability_Err
      split: option.splits if_splits)

lemma authority_run_float:
  assumes "crypto_ok X" and "authority_run X a ops = Some (s, caps)"
    and "\<forall>op \<in> set ops. \<not> funds acct op"
  shows "float_of s acct + issued_to acct caps = float_of a acct \<and> total_of s acct = total_of a acct"
  using assms(2,3)
proof (induction ops arbitrary: a caps)
  case (Cons op ops)
  show ?case
  proof (cases "authority_step X op a")
    case (Ok c t)
    with Cons.prems(1) obtain rest where run: "authority_run X t ops = Some (s, rest)"
      and caps: "caps = (case c of None \<Rightarrow> rest | Some x \<Rightarrow> x # rest)"
      by (auto split: option.splits)
    show ?thesis
      using Cons.IH [OF run] Cons.prems(2) authority_step_float [OF Ok, of acct] caps
      by (cases c) auto
  next
    case (Err e t)
    then show ?thesis using Cons authority_step_Err [OF assms(1) Err] by auto
  next
    case Panic
    then show ?thesis using Cons.prems by simp
  qed
qed simp

end
