(* ===== verification/Trust_Theorems.thy ===== *)
theory Trust_Theorems
  imports Witness Authority
begin

text \<open>
  The theorems about whom the program trusts with what: witnesses of checkpoints, attested edges,
  and the authority that issues capabilities out of an account's float.
\<close>

section \<open>Witnesses\<close>

text \<open>A checkpoint of any root, countersigned by one witness.\<close>

lemma sample_bundle:
  "\<exists>w. verify_witnessed sample_crypto w 1 = Inr () \<and> sc_header (wc_checkpoint w) = h"
proof -
  obtain sig where g: "sign_checkpoint sample_crypto (Keypair 5) h = Inr sig"
    using sign_checkpoint_total [OF sample_crypto_ok] by blast
  let ?cp = "make_checkpoint sample_crypto (Keypair 5) h sig"
  have v: "verify_signed_checkpoint sample_crypto ?cp = Inr ()" by (rule verify_make_checkpoint [OF sample_crypto_ok g])
  obtain s where "countersign sample_crypto (Keypair 6) ?cp = Inr s"
    using countersign_total [OF sample_crypto_ok v] by blast
  then have "verify_witness_sig sample_crypto ?cp s = Inr ()" by (rule countersign_verifies [OF sample_crypto_ok])
  then have "verify_witnessed sample_crypto \<lparr> wc_checkpoint = ?cp, wc_witness_sigs = [s] \<rparr> 1 = Inr ()"
    using v by (simp add: verify_witnessed_Inr)
  then show ?thesis by (intro exI [of _ "\<lparr> wc_checkpoint = ?cp, wc_witness_sigs = [s] \<rparr>"]) (simp add: make_checkpoint_def)
qed

definition sample_header :: "b32 \<Rightarrow> checkpoint_header" where
  "sample_header r = \<lparr> hd_shard_id = ShardId ''S'', hd_epoch = Epoch 1, hd_root = r, hd_height = 1, hd_tx_count = 1,
     hd_exposure = AmountMicros 4, hd_sealed_at_unix_ms = 0 \<rparr>"

text \<open>C27: A witness set never holds two roots for one position: whatever was submitted to a new set,
  accepted or refused, its two indices agree and give every position at most one root; and
  once a checkpoint was accepted, every verified bundle with another root for the same
  position is refused without effect.\<close>

theorem witness_set_one_root:
  assumes "witness_accept X w need (witness_run X need witness_set_new before) = Ok u ws"
    and "verify_witnessed X v need = Inr ()"
    and "header_key (sc_header (wc_checkpoint v)) = header_key (sc_header (wc_checkpoint w))"
    and "hd_root (sc_header (wc_checkpoint v)) \<noteq> hd_root (sc_header (wc_checkpoint w))"
  shows "witness_set_ok (witness_run X need ws between) \<and>
    witness_accept X v need (witness_run X need ws between) = Err ConflictingCheckpoint (witness_run X need ws between)"
proof -
  have "witness_set_ok (witness_run X need witness_set_new before)"
    by (rule witness_run_inv [OF witness_set_new_ok])
  then have "witness_set_ok ws" by (rule witness_accept_inv [where X = X and w = w and need = need]) (simp add: assms(1))
  then have ok: "witness_set_ok (witness_run X need ws between)" by (rule witness_run_inv)
  have "fmlookup (wt_by_key (witness_run X need ws between)) (header_key (sc_header (wc_checkpoint w)))
      = Some (hd_root (sc_header (wc_checkpoint w)))"
    by (rule witness_run_keeps [OF witness_accept_records [OF assms(1)]])
  then show ?thesis using ok assms(2,3,4) by (simp add: witness_accept_def)
qed

lemma witness_set_one_root_witness:
  "\<exists>w ws. verify_witnessed sample_crypto w 1 = Inr () \<and>
     witness_accept sample_crypto w 1 ws = Err ConflictingCheckpoint ws"
proof -
  obtain w v where w: "verify_witnessed sample_crypto w 1 = Inr ()" "sc_header (wc_checkpoint w) = sample_header 7"
    and v: "verify_witnessed sample_crypto v 1 = Inr ()" "sc_header (wc_checkpoint v) = sample_header 8"
    using sample_bundle by metis
  obtain ws where a: "witness_accept sample_crypto w 1 witness_set_new = Ok () ws"
    using w(1) by (auto simp: witness_accept_Ok witness_set_new_def Let_def)
  have "witness_accept sample_crypto v 1 (witness_run sample_crypto 1 ws []) =
      Err ConflictingCheckpoint (witness_run sample_crypto 1 ws [])"
    by (rule witness_set_one_root [where before = "[]" and w = w, THEN conjunct2])
      (use a v w in \<open>simp_all add: header_key_def sample_header_def\<close>)
  then show ?thesis using v(1) by auto
qed

section \<open>The authority\<close>

definition sample_authority :: authority where
  "sample_authority = authority_new sample_crypto (Keypair 1) (Keypair 2) (PqKeypair [1])"

definition sample_request :: issue_request where
  "sample_request = \<lparr> ir_account_id = AccountId 1, ir_agent_id = AgentId 2, ir_shard_id = ShardId ''S'', ir_epoch = Epoch 1,
     ir_maximum_total = AmountMicros 40, ir_maximum_per_call = AmountMicros 5, ir_service_scope = [''svc/*''],
     ir_policy_hash = 0, ir_sequence_start = Sequence 1, ir_sequence_end = Sequence 9, ir_ttl_ms = 1000,
     ir_region = ''eu'', ir_now_unix_ms = 10 \<rparr>"

definition sample_funded :: authority where
  "sample_funded = sample_authority\<lparr> au_accounts := fmupd (AccountId 1)
     \<lparr> af_total = AmountMicros 100, af_reserve = AmountMicros 50,
       af_shard_allowances = fmupd (ShardId ''S'') (AmountMicros 50) fmempty \<rparr> fmempty \<rparr>"

lemma sample_issue:
  "\<exists>ev cap a. issue_capability sample_crypto sample_request ev sample_funded = Ok cap a"
proof -
  obtain ev where ev: "verify_evidence sample_crypto (au_attest_policy sample_funded) ev = Inr ()"
    using tp_evidence_accepted [OF sample_crypto_ok, of "Keypair 1"]
    by (auto simp: sample_funded_def sample_authority_def authority_new_def Let_def)
  obtain cap where "seal_issued sample_crypto sample_funded (unsigned_capability sample_crypto sample_funded sample_request) = Ok () cap"
    using seal_issued_Ok [OF sample_crypto_ok] by blast
  moreover have "au_next_cap_counter sample_funded = 1"
    by (simp add: sample_funded_def sample_authority_def authority_new_def Let_def)
  moreover have "fmlookup (au_accounts sample_funded) (AccountId 1) = Some \<lparr> af_total = AmountMicros 100,
      af_reserve = AmountMicros 50, af_shard_allowances = fmupd (ShardId ''S'') (AmountMicros 50) fmempty \<rparr>"
    by (simp add: sample_funded_def)
  ultimately have "\<exists>cap a. issue_capability sample_crypto sample_request ev sample_funded = Ok cap a"
    using ev by (simp add: issue_capability_Ok sample_request_def amt_def)
  then show ?thesis by blast
qed

lemma sample_funded_fields:
  "au_hybrid_issue sample_funded" "float_of sample_funded (AccountId 1) = 100"
  "reserve_of sample_funded (AccountId 1) = 50" "allowance_of sample_funded (AccountId 1) (ShardId ''S'') = 50"
  by (simp_all add: sample_funded_def sample_authority_def authority_new_def Let_def float_of_def unissued_def
      reserve_of_def allowance_of_def fm_sum_new amt_def)

text \<open>C29: A capability is issued only on attested evidence and out of the account's allowance for the
  shard it is for: the evidence satisfies the policy and carries the platform's signature, the
  maximum is at most that allowance and is deducted from it, the reserve, the totals and the
  allowances of every other account and shard stay as they are, the maximum is recorded as
  outstanding under the capability's id, and the capability is for the account, shard, epoch and
  maximum that were asked for. Its classical signature verifies under the issuer's key; a hybrid
  authority's capability verifies in both its halves.\<close>

theorem issuance_is_attested_and_funded:
  assumes "crypto_ok X" and "issue_capability X req ev a = Ok cap a'"
  shows "policy_allows (au_attest_policy a) ev \<and> ev_platform_pubkey ev = ap_platform_pubkey (au_attest_policy a)
    \<and> (\<exists>bs. encode_cbor X (evidence_body ev) = Inr bs \<and>
         ed_verify X (ap_platform_pubkey (au_attest_policy a)) bs (ev_platform_signature ev))
    \<and> amt (ir_maximum_total req) \<le> allowance_of a (ir_account_id req) (ir_shard_id req)
    \<and> (\<forall>acct shard. allowance_of a' acct shard = allowance_of a acct shard
         - (if acct = ir_account_id req \<and> shard = ir_shard_id req then amt (ir_maximum_total req) else 0))
    \<and> reserve_of a' = reserve_of a \<and> total_of a' = total_of a
    \<and> fmlookup (au_outstanding a') (cap_capability_id cap) = Some (ir_maximum_total req)
    \<and> cap_account_id cap = ir_account_id req \<and> cap_shard_id cap = ir_shard_id req \<and> cap_epoch cap = ir_epoch req
    \<and> cap_maximum_total cap = ir_maximum_total req
    \<and> verify_capability X (verifying_key X (au_issuer a)) cap = Inr ()
    \<and> (au_hybrid_issue a \<longrightarrow> verify_capability_hybrid X cap = Inr ())"
proof -
  have e: "verify_evidence X (au_attest_policy a) ev = Inr ()" using assms(2) by (simp add: issue_capability_Ok)
  moreover have "\<exists>bs. encode_cbor X (evidence_body ev) = Inr bs \<and>
      ed_verify X (ap_platform_pubkey (au_attest_policy a)) bs (ev_platform_signature ev)"
    using e by (auto simp: verify_evidence_Inr encode_cbor_def)
  moreover have "au_hybrid_issue a \<longrightarrow> verify_capability_hybrid X cap = Inr ()"
    using issue_capability_verifies(1) [OF assms(1) _ assms(2)] by blast
  ultimately show ?thesis
    using issue_capability_fields [OF assms(2)] issue_capability_signed [OF assms] issue_float(2) [OF assms(2)]
      issue_allowance [OF assms(2)] by (simp add: verify_evidence_Inr)
qed

lemma issuance_is_attested_and_funded_witness:
  "\<exists>cap a. verify_capability_hybrid sample_crypto cap = Inr () \<and>
     allowance_of a (AccountId 1) (ShardId ''S'') = 10 \<and> reserve_of a (AccountId 1) = 50 \<and>
     fmlookup (au_outstanding a) (cap_capability_id cap) = Some (AmountMicros 40)"
proof -
  obtain ev cap a where "issue_capability sample_crypto sample_request ev sample_funded = Ok cap a"
    using sample_issue by blast
  from issuance_is_attested_and_funded [OF sample_crypto_ok this] sample_funded_fields
  have "verify_capability_hybrid sample_crypto cap = Inr ()" "allowance_of a (AccountId 1) (ShardId ''S'') = 10"
    "reserve_of a (AccountId 1) = 50" "fmlookup (au_outstanding a) (cap_capability_id cap) = Some (AmountMicros 40)"
    by (simp_all add: sample_request_def amt_def)
  then show ?thesis by blast
qed

text \<open>C28: The authority never issues more than an account's float: over any run of its operations that
  does not fund the account again, errors included, what is left of the float plus the maxima
  of the capabilities issued to the account is what the float was at the start, and the
  account's total does not change.\<close>

theorem float_bounds_issuance:
  assumes "crypto_ok X" and "authority_run X a ops = Some (s, caps)" and "list_all (\<lambda>op. \<not> funds acct op) ops"
  shows "float_of s acct + issued_to acct caps = float_of a acct \<and> total_of s acct = total_of a acct"
  using authority_run_float [OF assms(1,2)] assms(3) by (simp add: list_all_iff)

lemma float_bounds_issuance_witness:
  "\<exists>ev s caps. authority_run sample_crypto sample_funded [Issue sample_request ev] = Some (s, caps) \<and>
     float_of s (AccountId 1) + issued_to (AccountId 1) caps = 100 \<and> length caps = 1"
proof -
  obtain ev cap a where i: "issue_capability sample_crypto sample_request ev sample_funded = Ok cap a"
    using sample_issue by blast
  then have r: "authority_run sample_crypto sample_funded [Issue sample_request ev] = Some (a, [cap])" by simp
  have "float_of a (AccountId 1) + issued_to (AccountId 1) [cap] = float_of sample_funded (AccountId 1)"
    by (rule float_bounds_issuance [OF sample_crypto_ok r, THEN conjunct1]) simp
  then show ?thesis
    using r sample_funded_fields(2) by (intro exI [of _ ev] exI [of _ a] exI [of _ "[cap]"]) simp
qed

end
