(* ===== verification/Wasm.thy ===== *)
theory Wasm
  imports Types
begin

text \<open>
  The contract runtime (\<open>crates/wasm/src/lib.rs\<close>). The text parser and the engine are third-party
  code and parameters here: \<open>wasm_host\<close> lists the calls the code makes, each a function of the
  bytes, the fuel and the arguments it is given. An error of theirs is its message.
\<close>

section \<open>The engine's interface and the errors\<close>

record wasm_host =
  wh_parse_wat :: "bytes \<Rightarrow> string + bytes"
  wh_module_new :: "bytes \<Rightarrow> string + unit"
  wh_set_fuel :: "u64 \<Rightarrow> string + unit"
  wh_instantiate :: "bytes \<Rightarrow> u64 \<Rightarrow> string + unit"
  wh_has_export :: "bytes \<Rightarrow> string \<Rightarrow> bool"
  wh_call :: "bytes \<Rightarrow> u64 \<Rightarrow> string \<Rightarrow> i32 \<Rightarrow> i32 \<Rightarrow> string + i32"

datatype wasm_error =
    Compile string
  | Instantiate string
  | Call string
  | FuelExhausted
  | ExportNotFound string
  | WasmUnknownContract

text \<open>\<open>Display\<close> of an error.\<close>

fun wasm_error_str :: "wasm_error \<Rightarrow> string" where
  "wasm_error_str (Compile m) = ''compile error: '' @ m"
| "wasm_error_str (Instantiate m) = ''instantiate error: '' @ m"
| "wasm_error_str (Call m) = ''call error: '' @ m"
| "wasm_error_str FuelExhausted = ''fuel exhausted''"
| "wasm_error_str (ExportNotFound m) = ''export not found: '' @ m"
| "wasm_error_str WasmUnknownContract = ''unknown contract''"

section \<open>The runtime\<close>

text \<open>
  \<open>WasmRuntime::new\<close> asks for an engine that meters fuel and panics when there is none. What
  \<open>Engine::new\<close> makes of a configuration, an engine's operations or the message of its refusal,
  is the argument.
\<close>

record engine_config =
  ec_consume_fuel :: bool

definition wasm_runtime_new :: "(engine_config \<Rightarrow> string + wasm_host) \<Rightarrow> wasm_host option" where
  "wasm_runtime_new engine_new =
     (case engine_new \<lparr> ec_consume_fuel = True \<rparr> of Inl _ \<Rightarrow> None | Inr H \<Rightarrow> Some H)"

definition wasm_runtime_default :: "(engine_config \<Rightarrow> string + wasm_host) \<Rightarrow> wasm_host option" where
  "wasm_runtime_default engine_new = wasm_runtime_new engine_new"

section \<open>Compiling and calling\<close>

definition looks_like_wasm :: "bytes \<Rightarrow> bool" where
  "looks_like_wasm bs \<longleftrightarrow> 4 \<le> length bs \<and> take 4 bs = [0x00, 0x61, 0x73, 0x6d]"

definition wasm_compile :: "wasm_host \<Rightarrow> bytes \<Rightarrow> wasm_error + bytes" where
  "wasm_compile H src =
     (case (if looks_like_wasm src then Inr src else wh_parse_wat H src) of
        Inl m \<Rightarrow> Inl (Compile m)
      | Inr wasm \<Rightarrow> (case wh_module_new H wasm of Inl m \<Rightarrow> Inl (Compile m) | Inr _ \<Rightarrow> Inr wasm))"

fun has_prefix :: "string \<Rightarrow> string \<Rightarrow> bool" where
  "has_prefix [] s = True"
| "has_prefix (p # ps) [] = False"
| "has_prefix (p # ps) (c # cs) = (p = c \<and> has_prefix ps cs)"

fun contains_str :: "string \<Rightarrow> string \<Rightarrow> bool" where
  "contains_str [] pat = has_prefix pat []"
| "contains_str (c # cs) pat = (has_prefix pat (c # cs) \<or> contains_str cs pat)"

text \<open>
  Lowering the ASCII letters is enough here: no other character lowers to a letter of the
  pattern searched for.
\<close>

definition to_lower_char :: "char \<Rightarrow> char" where
  "to_lower_char c =
     (let n = of_char c :: nat in if 65 \<le> n \<and> n \<le> 90 then char_of (n + 32) else c)"

definition to_upper_char :: "char \<Rightarrow> char" where
  "to_upper_char c =
     (let n = of_char c :: nat in if 97 \<le> n \<and> n \<le> 122 then char_of (n - 32) else c)"

definition to_ascii_uppercase :: "string \<Rightarrow> string" where
  "to_ascii_uppercase s = map to_upper_char s"

definition call_error :: "string \<Rightarrow> wasm_error" where
  "call_error msg =
     (if contains_str msg ''fuel'' \<or> contains_str (map to_lower_char msg) ''exhaust''
      then FuelExhausted else Call msg)"

definition call_i32_i32 :: "wasm_host \<Rightarrow> bytes \<Rightarrow> string \<Rightarrow> i32 \<Rightarrow> i32 \<Rightarrow> u64 \<Rightarrow> wasm_error + i32" where
  "call_i32_i32 H module_bytes export a b fuel =
     (case wh_module_new H module_bytes of
        Inl m \<Rightarrow> Inl (Compile m)
      | Inr _ \<Rightarrow>
          (case wh_set_fuel H fuel of
             Inl m \<Rightarrow> Inl (Call m)
           | Inr _ \<Rightarrow>
               (case wh_instantiate H module_bytes fuel of
                  Inl m \<Rightarrow> Inl (Instantiate m)
                | Inr _ \<Rightarrow>
                    if \<not> wh_has_export H module_bytes export then Inl (ExportNotFound export)
                    else (case wh_call H module_bytes fuel export a b of
                            Inl m \<Rightarrow> Inl (call_error m)
                          | Inr v \<Rightarrow> Inr v))))"

definition code_hash :: "crypto \<Rightarrow> bytes \<Rightarrow> b32" where
  "code_hash X bs = blake3 X bs"

section \<open>The contract store\<close>

type_synonym contract_store = "(b32, bytes) fmap"

definition store_insert :: "b32 \<Rightarrow> bytes \<Rightarrow> contract_store \<Rightarrow> contract_store" where
  "store_insert h bs s = fmupd h bs s"

definition store_get :: "contract_store \<Rightarrow> b32 \<Rightarrow> bytes option" where
  "store_get s h = fmlookup s h"

lemma store_get_insert [simp]:
  "store_get (store_insert h bs s) k = (if k = h then Some bs else store_get s k)"
  by (simp add: store_get_def store_insert_def)

section \<open>Facts\<close>

lemma has_prefix_append: "has_prefix p s \<longleftrightarrow> (\<exists>t. s = p @ t)"
  by (induction p s rule: has_prefix.induct) auto

lemma contains_str_iff: "contains_str s pat \<longleftrightarrow> (\<exists>u v. s = u @ pat @ v)"
proof (induction s)
  case Nil
  then show ?case by (auto simp: has_prefix_append)
next
  case (Cons c s)
  have "(\<exists>u v. c # s = u @ pat @ v) \<longleftrightarrow> (\<exists>v. c # s = pat @ v) \<or> (\<exists>u v. s = u @ pat @ v)"
    by (metis append_Nil append_eq_Cons_conv)
  then show ?case using Cons by (simp add: has_prefix_append)
qed

text \<open>What is stored has passed the engine's validation, and binary code is stored unchanged.\<close>

lemma wasm_compile_Inr:
  "wasm_compile H src = Inr w \<longleftrightarrow>
     wh_module_new H w = Inr () \<and>
     (if looks_like_wasm src then w = src else wh_parse_wat H src = Inr w)"
  by (auto simp: wasm_compile_def split: sum.splits if_splits)

lemma call_error_str:
  "wasm_error_str (call_error m) = ''fuel exhausted'' \<longleftrightarrow> call_error m = FuelExhausted"
  by (auto simp: call_error_def)

lemma to_upper_idem: "to_upper_char (to_upper_char c) = to_upper_char c"
proof (cases "97 \<le> (of_char c :: nat) \<and> (of_char c :: nat) \<le> 122")
  case True
  then have "(of_char c :: nat) - 32 < 256" by linarith
  then have "of_char (to_upper_char c) = (of_char c - 32 :: nat)"
    using True by (simp add: to_upper_char_def Let_def)
  moreover have "\<not> 97 \<le> (of_char c :: nat) - 32" using True by linarith
  ultimately show ?thesis by (simp add: to_upper_char_def [of "to_upper_char c"] Let_def)
next
  case False
  then have "to_upper_char c = c" unfolding to_upper_char_def Let_def by (rule if_not_P)
  then show ?thesis by simp
qed

text \<open>An upper-case symbol: not empty and without lower-case letter.\<close>

definition lower_letter :: "char \<Rightarrow> bool" where
  "lower_letter c \<longleftrightarrow> (of_char c :: nat) \<in> {97..122}"

definition upper_symbol :: "string \<Rightarrow> bool" where
  "upper_symbol s \<longleftrightarrow> s \<noteq> [] \<and> list_all (\<lambda>c. \<not> lower_letter c) s"

text \<open>Two strings that agree but for the case of their letters.\<close>

definition same_but_case :: "string \<Rightarrow> string \<Rightarrow> bool" where
  "same_but_case s t \<longleftrightarrow> map to_lower_char s = map to_lower_char t"

lemma of_char_lower: "(of_char (to_lower_char c) :: nat) =
    (if of_char c \<in> {65..90 :: nat} then of_char c + 32 else of_char c)"
  by (simp add: to_lower_char_def Let_def)

lemma of_char_upper: "(of_char (to_upper_char c) :: nat) =
    (if of_char c \<in> {97..122 :: nat} then of_char c - 32 else of_char c)"
proof -
  have "(of_char c :: nat) < 256" by (rule nat_of_char_less_256)
  then have "((of_char c :: nat) - 32) mod 256 = of_char c - 32" by (intro mod_less) linarith
  then show ?thesis by (simp add: to_upper_char_def Let_def)
qed

lemma upper_not_lower: "\<not> lower_letter (to_upper_char c)"
  by (auto simp: lower_letter_def of_char_upper)

lemma lower_upper_char: "to_lower_char (to_upper_char c) = to_lower_char c"
proof -
  have "(of_char (to_lower_char (to_upper_char c)) :: nat) = of_char (to_lower_char c)"
    by (auto simp: of_char_lower of_char_upper)
  then show ?thesis by simp
qed

lemma lower_char_inj:
  assumes "to_lower_char c = to_lower_char d" and "\<not> lower_letter c" and "\<not> lower_letter d"
  shows "c = d"
proof -
  have "(of_char (to_lower_char c) :: nat) = of_char (to_lower_char d)" using assms(1) by simp
  then have "(of_char c :: nat) = of_char d"
    using assms(2,3) by (auto simp: of_char_lower lower_letter_def split: if_splits)
  then show ?thesis by simp
qed

lemma upper_symbols_agree:
  assumes "same_but_case s t" and "upper_symbol s" and "upper_symbol t"
  shows "s = t"
proof -
  have "list_all2 (\<lambda>c d. to_lower_char c = to_lower_char d) s t"
    using assms(1) by (simp add: same_but_case_def list_eq_iff_nth_eq list_all2_conv_all_nth)
  then have "list_all2 (=) s t"
    using assms(2,3) lower_char_inj
    by (auto simp: upper_symbol_def list_all2_conv_all_nth list_all_length)
  then show ?thesis by (simp add: list.rel_eq)
qed

lemma uppercase_symbol: "s \<noteq> [] \<Longrightarrow> upper_symbol (to_ascii_uppercase s)"
  by (simp add: upper_symbol_def to_ascii_uppercase_def list_all_iff upper_not_lower)

lemma uppercase_same_but_case: "same_but_case (to_ascii_uppercase s) s"
  by (simp add: same_but_case_def to_ascii_uppercase_def lower_upper_char)

text \<open>So an upper-case symbol is what any string that agrees with it but for case becomes.\<close>

lemma uppercase_of_same:
  assumes "same_but_case s t" and "upper_symbol t"
  shows "to_ascii_uppercase s = t"
proof (rule upper_symbols_agree)
  show "same_but_case (to_ascii_uppercase s) t"
    using assms(1) uppercase_same_but_case [of s] by (simp add: same_but_case_def)
  have "s \<noteq> []" using assms by (auto simp: same_but_case_def upper_symbol_def)
  then show "upper_symbol (to_ascii_uppercase s)" by (rule uppercase_symbol)
qed (rule assms(2))

lemma to_ascii_uppercase_idem: "to_ascii_uppercase (to_ascii_uppercase s) = to_ascii_uppercase s"
  by (simp add: to_ascii_uppercase_def to_upper_idem)

end
