(* ===== verification/Execute.thy ===== *)
theory Execute
  imports Witness Wasm
begin

text \<open>
  The global ledger's state machine (\<open>crates/execute/src/lib.rs\<close>): accounts, shard escrow,
  finalised checkpoints, agents, contracts, disputes and tokenised assets, one definition per
  transaction kind, the conservation checks, and \<open>apply\<close>. An early return leaves the mutations
  made so far in the error's state, and an addition that overflows panics.
\<close>

section \<open>Data\<close>

datatype execute_error =
    UnknownAccount
  | InsufficientAvailable
  | InsufficientStake
  | ExecInsufficientShardAllowance
  | ConservationBroken
  | InvalidCheckpoint
  | CheckpointAlreadyFinalized
  | ExecConflictingCheckpoint
  | Suspended
  | AgentExists
  | UnknownAgent
  | UnknownContract
  | CodeHashMismatch
  | WasmErr string
  | UnknownDispute
  | DisputeNotOpen
  | DisputeExists
  | AssetExists
  | UnknownAsset
  | AssetSymbolTaken
  | NotAssetIssuer
  | ExceedsMaxSupply
  | InsufficientAssetUnits
  | ZeroAssetAmount
  | AssetConservationBroken
  | SelfTrade

record agent_record =
  ar_account :: account_id
  ar_agent_id :: agent_id
  ar_metadata_hash :: b32
  ar_suspended :: bool
  ar_reputation :: i64

record global_state =
  gs_accounts :: "(account_id, account) fmap"
  gs_total_supply :: amount_micros
  gs_shard_outstanding :: "(string \<times> account_id, amount_micros) fmap"
  gs_finalized :: "(witness_key, b32) fmap"
  gs_agents :: "(agent_id, agent_record) fmap"
  gs_contracts :: "(b32, bytes) fmap"
  gs_contract_deployers :: "(b32, account_id) fmap"
  gs_disputes :: "(b32, dispute) fmap"
  gs_assets :: "(asset_id, asset) fmap"
  gs_asset_symbols :: "(string, asset_id) fmap"
  gs_holdings :: "(account_id \<times> asset_id, asset_units) fmap"
  gs_last_call_result :: "i32 option"
  gs_min_witnesses :: nat
  gs_default_fuel :: u64
  gs_events :: "string list"

definition global_state_new :: "nat \<Rightarrow> global_state" where
  "global_state_new min_witnesses =
     \<lparr> gs_accounts = fmempty, gs_total_supply = AmountMicros 0, gs_shard_outstanding = fmempty,
       gs_finalized = fmempty, gs_agents = fmempty, gs_contracts = fmempty,
       gs_contract_deployers = fmempty, gs_disputes = fmempty, gs_assets = fmempty,
       gs_asset_symbols = fmempty, gs_holdings = fmempty, gs_last_call_result = None,
       gs_min_witnesses = min_witnesses, gs_default_fuel = 10000, gs_events = [] \<rparr>"

type_synonym 'a exec = "(global_state, execute_error, 'a) outcome"

section \<open>Sums and conservation\<close>

text \<open>
  A sum over the values of a map panics exactly when its total does not fit, see
  \<open>sum_loop_any_order\<close>; a summand that itself overflows makes the total overflow.
\<close>

definition open_bond :: "dispute \<Rightarrow> nat" where
  "open_bond d = (if dis_status d = Open then amt (dis_bond d) else 0)"

definition locked_sum :: "global_state \<Rightarrow> u128 option" where
  "locked_sum gs =
     (case chk_sum (\<lambda>_ a. amt (balance_locked a) + amt (stake a)) (gs_accounts gs) of
        None \<Rightarrow> None
      | Some account_locked \<Rightarrow>
          (case chk_sum (\<lambda>_. open_bond) (gs_disputes gs) of
             None \<Rightarrow> None
           | Some dispute_bonds \<Rightarrow> chk_add account_locked dispute_bonds))"

definition available_sum :: "global_state \<Rightarrow> u128 option" where
  "available_sum gs = chk_sum (\<lambda>_ a. amt (balance_available a)) (gs_accounts gs)"

definition shard_outstanding_sum :: "global_state \<Rightarrow> u128 option" where
  "shard_outstanding_sum gs = chk_sum (\<lambda>_. amt) (gs_shard_outstanding gs)"

definition holding :: "global_state \<Rightarrow> account_id \<Rightarrow> asset_id \<Rightarrow> asset_units" where
  "holding gs acct a = (case fmlookup (gs_holdings gs) (acct, a) of None \<Rightarrow> 0 | Some u \<Rightarrow> u)"

text \<open>Units of one asset, over all holders.\<close>

definition units_of :: "asset_id \<Rightarrow> account_id \<times> asset_id \<Rightarrow> asset_units \<Rightarrow> nat" where
  "units_of a k u = (if snd k = a then unat u else 0)"

text \<open>
  The loop over the registered assets. Its order is the hash map's: where one asset's sum
  overflows and another's does not match, the code panics or errs depending on the order; the
  panic is taken here.
\<close>

definition check_asset_conservation :: "global_state \<Rightarrow> unit exec" where
  "check_asset_conservation gs =
     (if \<not> fmpred (\<lambda>i _. chk_sum (units_of i) (gs_holdings gs) \<noteq> None) (gs_assets gs) then Panic
      else if fmpred (\<lambda>i a. chk_sum (units_of i) (gs_holdings gs) = Some (as_minted a)
                 \<and> \<not> as_max_supply a < as_minted a) (gs_assets gs)
      then Ok () gs
      else Err AssetConservationBroken gs)"

definition check_conservation :: "global_state \<Rightarrow> unit exec" where
  "check_conservation gs =
     ret_or_panic (available_sum gs) (\<lambda>av.
     ret_or_panic (shard_outstanding_sum gs) (\<lambda>os.
     ret_or_panic (chk_add av os) (\<lambda>avos.
     ret_or_panic (locked_sum gs) (\<lambda>lk.
     ret_or_panic (chk_add avos lk) (\<lambda>lhs.
       if lhs \<noteq> micros (gs_total_supply gs) then Err ConservationBroken gs
       else check_asset_conservation gs)))))"

section \<open>Helpers of the transactions\<close>

definition ensure_active :: "account_id \<Rightarrow> global_state \<Rightarrow> execute_error + unit" where
  "ensure_active acct gs =
     (case fmlookup (gs_accounts gs) acct of
        None \<Rightarrow> Inl UnknownAccount
      | Some a \<Rightarrow> if acc_suspended a then Inl Suspended else Inr ())"

definition credit_holding :: "account_id \<Rightarrow> asset_id \<Rightarrow> asset_units \<Rightarrow> global_state \<Rightarrow> global_state" where
  "credit_holding acct a units gs =
     gs\<lparr> gs_holdings := fmupd (acct, a) (sat_add (holding gs acct a) units) (gs_holdings gs) \<rparr>"

definition debit_holding :: "account_id \<Rightarrow> asset_id \<Rightarrow> asset_units \<Rightarrow> global_state \<Rightarrow> unit exec" where
  "debit_holding acct a units gs =
     (let bal = holding gs acct a in
      if bal < units then Err InsufficientAssetUnits gs
      else let n = bal - units in
        Ok () (gs\<lparr> gs_holdings :=
          (if n = 0 then fmdrop (acct, a) (gs_holdings gs)
           else fmupd (acct, a) n (gs_holdings gs)) \<rparr>))"

text \<open>\<open>format!\<close>/\<open>push\<close> on the event list, and writing one account back.\<close>

definition push_event :: "string \<Rightarrow> global_state \<Rightarrow> global_state" where
  "push_event e gs = gs\<lparr> gs_events := gs_events gs @ [e] \<rparr>"

definition set_account :: "account_id \<Rightarrow> account \<Rightarrow> global_state \<Rightarrow> global_state" where
  "set_account k a gs = gs\<lparr> gs_accounts := fmupd k a (gs_accounts gs) \<rparr>"

text \<open>\<open>?\<close> on a check that leaves the state alone: its error is passed on.\<close>

definition check_then :: "(execute_error + 'x) \<Rightarrow> global_state \<Rightarrow> ('x \<Rightarrow> 'a exec) \<Rightarrow> 'a exec" where
  "check_then r gs k = (case r of Inl e \<Rightarrow> Err e gs | Inr x \<Rightarrow> k x)"

definition account_of :: "account_id \<Rightarrow> global_state \<Rightarrow> execute_error + account" where
  "account_of k gs = (case fmlookup (gs_accounts gs) k of None \<Rightarrow> Inl UnknownAccount | Some a \<Rightarrow> Inr a)"

section \<open>Money\<close>

definition genesis_fund :: "account_id \<Rightarrow> amount_micros \<Rightarrow> global_state \<Rightarrow> unit exec" where
  "genesis_fund k amount gs =
     (let a = (case fmlookup (gs_accounts gs) k of None \<Rightarrow> new_human k (AmountMicros 0) | Some a \<Rightarrow> a)
      in ret_or_panic (chk_add (micros (balance_available a)) (micros amount)) (\<lambda>av.
         ret_or_panic (chk_add (micros (gs_total_supply gs)) (micros amount)) (\<lambda>ts.
           Ok () (push_event (''GenesisFund '' @ dec_word (byte0 (account_bytes k)) @ ''/'' @ dec_word (micros amount))
             ((set_account k (a\<lparr> balance_available := AmountMicros av \<rparr>) gs)
                \<lparr> gs_total_supply := AmountMicros ts \<rparr>)))))"

definition stake_tx :: "account_id \<Rightarrow> amount_micros \<Rightarrow> global_state \<Rightarrow> unit exec" where
  "stake_tx k amount gs =
     check_then (account_of k gs) gs (\<lambda>a.
       if acc_suspended a then Err Suspended gs
       else if micros (balance_available a) < micros amount then Err InsufficientAvailable gs
       else ret_or_panic (chk_add (micros (stake a)) (micros amount)) (\<lambda>st.
         Ok () (push_event (''Stake '' @ dec_word (micros amount))
           (set_account k (a\<lparr> balance_available := AmountMicros (micros (balance_available a) - micros amount),
                              stake := AmountMicros st \<rparr>) gs))))"

definition unstake_tx :: "account_id \<Rightarrow> amount_micros \<Rightarrow> global_state \<Rightarrow> unit exec" where
  "unstake_tx k amount gs =
     check_then (account_of k gs) gs (\<lambda>a.
       if micros (stake a) < micros amount then Err InsufficientStake gs
       else ret_or_panic (chk_add (micros (balance_available a)) (micros amount)) (\<lambda>av.
         Ok () (push_event (''Unstake '' @ dec_word (micros amount))
           (set_account k (a\<lparr> stake := AmountMicros (micros (stake a) - micros amount),
                              balance_available := AmountMicros av \<rparr>) gs))))"

definition outstanding_of :: "string \<times> account_id \<Rightarrow> global_state \<Rightarrow> amount_micros" where
  "outstanding_of k gs = (case fmlookup (gs_shard_outstanding gs) k of None \<Rightarrow> AmountMicros 0 | Some x \<Rightarrow> x)"

definition allocate_shard_allowance ::
  "account_id \<Rightarrow> shard_id \<Rightarrow> amount_micros \<Rightarrow> global_state \<Rightarrow> unit exec" where
  "allocate_shard_allowance k shard amount gs =
     check_then (account_of k gs) gs (\<lambda>a.
       if micros (balance_available a) < micros amount then Err InsufficientAvailable gs
       else let key = (shard_str shard, k) in
         ret_or_panic (chk_add (micros (outstanding_of key gs)) (micros amount)) (\<lambda>n.
         Ok () (push_event (''AllocateShardAllowance '' @ shard_str shard @ '' -> '' @ dec_word (micros amount))
           ((set_account k (a\<lparr> balance_available := AmountMicros (micros (balance_available a) - micros amount) \<rparr>) gs)
              \<lparr> gs_shard_outstanding := fmupd key (AmountMicros n) (gs_shard_outstanding gs) \<rparr>))))"

definition apply_checkpoint :: "crypto \<Rightarrow> witnessed_checkpoint \<Rightarrow> account_id \<Rightarrow> global_state \<Rightarrow> unit exec" where
  "apply_checkpoint X checkpoint funding gs =
     or_err (verify_witnessed X checkpoint (gs_min_witnesses gs)) (Err InvalidCheckpoint gs) (\<lambda>_.
     let h = sc_header (wc_checkpoint checkpoint);
         key = header_key h;
         allow_key = (shard_str (hd_shard_id h), funding)
     in case fmlookup (gs_finalized gs) key of
          Some existing \<Rightarrow>
            if existing \<noteq> hd_root h then Err ExecConflictingCheckpoint gs
            else Err CheckpointAlreadyFinalized gs
        | None \<Rightarrow>
            (case fmlookup (gs_shard_outstanding gs) allow_key of
               None \<Rightarrow> Err ExecInsufficientShardAllowance gs
             | Some outstanding \<Rightarrow>
                 if micros outstanding < micros (hd_exposure h) then Err ExecInsufficientShardAllowance gs
                 else let gs1 = gs\<lparr> gs_shard_outstanding := fmupd allow_key
                          (AmountMicros (micros outstanding - micros (hd_exposure h))) (gs_shard_outstanding gs) \<rparr>
                   in check_then (account_of funding gs1) gs1 (\<lambda>a.
                      ret_or_panic (chk_add (micros (balance_locked a)) (micros (hd_exposure h))) (\<lambda>lk.
                      Ok () (push_event
                        (''CheckpointFinalized '' @ shard_str (hd_shard_id h) @ '' h='' @ dec_word (hd_height h)
                          @ '' txs='' @ dec_word (hd_tx_count h) @ '' exposure='' @ dec_word (micros (hd_exposure h)))
                        ((set_account funding (a\<lparr> balance_locked := AmountMicros lk \<rparr>) gs1)
                           \<lparr> gs_finalized := fmupd key (hd_root h) (gs_finalized gs1) \<rparr>))))))"

definition slash_conflict ::
  "shard_id \<Rightarrow> epoch \<Rightarrow> u64 \<Rightarrow> account_id \<Rightarrow> amount_micros \<Rightarrow> global_state \<Rightarrow> unit exec" where
  "slash_conflict shard ep height offender amount gs =
     check_then (account_of offender gs) gs (\<lambda>a.
       let slash = min (micros amount) (micros (stake a)) in
       Ok () (push_event
         (''SlashConflict '' @ shard_str shard @ '' epoch='' @ dec_word (epoch_num ep)
            @ '' height='' @ dec_word height @ '' amount='' @ dec_word slash)
         ((set_account offender (a\<lparr> stake := AmountMicros (micros (stake a) - slash) \<rparr>) gs)
            \<lparr> gs_total_supply := AmountMicros (sat_sub (micros (gs_total_supply gs)) slash) \<rparr>)))"

section \<open>Agents\<close>

definition register_agent :: "account_id \<Rightarrow> agent_id \<Rightarrow> b32 \<Rightarrow> global_state \<Rightarrow> unit exec" where
  "register_agent k agent metadata_hash gs =
     (if agent |\<in>| fmdom (gs_agents gs) then Err AgentExists gs
      else
        let a = (case fmlookup (gs_accounts gs) k of
                   None \<Rightarrow> new_agent k agent (AmountMicros 0) | Some a \<Rightarrow> a);
            rec = \<lparr> ar_account = k, ar_agent_id = agent, ar_metadata_hash = metadata_hash,
                    ar_suspended = False, ar_reputation = 0 \<rparr>
        in Ok () (push_event (''RegisterAgent '' @ dec_word (byte0 (agent_bytes agent)))
             ((set_account k (a\<lparr> acc_agent_id := Some agent \<rparr>) gs)
                \<lparr> gs_agents := fmupd agent rec (gs_agents gs) \<rparr>)))"

text \<open>\<open>if let Some(acc) = self.accounts.get_mut(..)\<close>.\<close>

definition modify_account :: "account_id \<Rightarrow> (account \<Rightarrow> account) \<Rightarrow> global_state \<Rightarrow> global_state" where
  "modify_account k f gs =
     (case fmlookup (gs_accounts gs) k of None \<Rightarrow> gs | Some a \<Rightarrow> set_account k (f a) gs)"

definition suspend_agent :: "agent_id \<Rightarrow> global_state \<Rightarrow> unit exec" where
  "suspend_agent agent gs =
     (case fmlookup (gs_agents gs) agent of
        None \<Rightarrow> Err UnknownAgent gs
      | Some rec \<Rightarrow>
          Ok () (push_event (''SuspendAgent '' @ dec_word (byte0 (agent_bytes agent)))
            (modify_account (ar_account rec) (\<lambda>a. a\<lparr> acc_suspended := True \<rparr>)
              (gs\<lparr> gs_agents := fmupd agent (rec\<lparr> ar_suspended := True \<rparr>) (gs_agents gs) \<rparr>))))"

definition update_reputation :: "agent_id \<Rightarrow> i64 \<Rightarrow> b32 \<Rightarrow> global_state \<Rightarrow> unit exec" where
  "update_reputation agent delta reason_hash gs =
     (case fmlookup (gs_agents gs) agent of
        None \<Rightarrow> Err UnknownAgent gs
      | Some rec \<Rightarrow>
          let r = sat_sadd (ar_reputation rec) delta in
          Ok () (push_event
            (''UpdateReputation '' @ dec_word (byte0 (agent_bytes agent)) @ '' delta='' @ dec_sword delta
               @ '' reason='' @ dec_word (byte0 reason_hash))
            (modify_account (ar_account rec) (\<lambda>a. a\<lparr> acc_reputation := r \<rparr>)
              (gs\<lparr> gs_agents := fmupd agent (rec\<lparr> ar_reputation := r \<rparr>) (gs_agents gs) \<rparr>))))"

section \<open>Contracts\<close>

definition deploy_contract ::
  "crypto \<Rightarrow> wasm_host \<Rightarrow> account_id \<Rightarrow> b32 \<Rightarrow> bytes \<Rightarrow> global_state \<Rightarrow> unit exec" where
  "deploy_contract X H deployer expected code gs =
     (if deployer |\<notin>| fmdom (gs_accounts gs) then Err UnknownAccount gs
      else case wasm_compile H code of
        Inl e \<Rightarrow> Err (WasmErr (wasm_error_str e)) gs
      | Inr compiled \<Rightarrow>
          (let hash = code_hash X compiled in
           if hash \<noteq> expected \<and> expected \<noteq> code_hash X code then Err CodeHashMismatch gs
           else
             let store_hash = (if expected |\<in>| fmdom (gs_contracts gs) then expected else hash) in
             Ok () (push_event (''DeployContract '' @ dec_word (byte0 expected))
               (gs\<lparr> gs_contracts := fmupd expected compiled (fmupd store_hash compiled (gs_contracts gs)),
                   gs_contract_deployers :=
                     fmupd store_hash deployer (fmupd expected deployer (gs_contract_deployers gs)) \<rparr>))))"

definition call_contract ::
  "wasm_host \<Rightarrow> account_id \<Rightarrow> b32 \<Rightarrow> string \<Rightarrow> i32 \<Rightarrow> i32 \<Rightarrow> u64 \<Rightarrow> global_state \<Rightarrow> unit exec" where
  "call_contract H caller hash export a b fuel gs =
     (if caller |\<notin>| fmdom (gs_accounts gs) then Err UnknownAccount gs
      else case fmlookup (gs_contracts gs) hash of
        None \<Rightarrow> Err UnknownContract gs
      | Some code \<Rightarrow>
          (let fuel1 = (if fuel = 0 then gs_default_fuel gs else fuel) in
           case call_i32_i32 H code export a b fuel1 of
             Inl e \<Rightarrow> Err (WasmErr (wasm_error_str e)) gs
           | Inr result \<Rightarrow>
               Ok () (push_event (''CallContract '' @ export @ '' -> '' @ dec_sword result)
                 (gs\<lparr> gs_last_call_result := Some result \<rparr>))))"

section \<open>Disputes\<close>

definition open_dispute ::
  "b32 \<Rightarrow> account_id \<Rightarrow> account_id \<Rightarrow> amount_micros \<Rightarrow> b32 \<Rightarrow> global_state \<Rightarrow> unit exec" where
  "open_dispute i plaintiff defendant bond evidence_hash gs =
     (if i |\<in>| fmdom (gs_disputes gs) then Err DisputeExists gs
      else check_then (account_of plaintiff gs) gs (\<lambda>a.
        if micros (balance_available a) < micros bond then Err InsufficientAvailable gs
        else Ok () (push_event (''OpenDispute '' @ dec_word (byte0 i))
          ((set_account plaintiff
              (a\<lparr> balance_available := AmountMicros (micros (balance_available a) - micros bond) \<rparr>) gs)
             \<lparr> gs_disputes := fmupd i
                 \<lparr> dis_id = i, dis_plaintiff = plaintiff, dis_defendant = defendant, dis_bond = bond,
                   dis_status = Open, dis_evidence_hash = evidence_hash \<rparr> (gs_disputes gs) \<rparr>))))"

text \<open>The reputation nudge of a dispute's winner: its agent's record, if there is one.\<close>

definition nudge_winner :: "account_id \<Rightarrow> account \<Rightarrow> global_state \<Rightarrow> global_state" where
  "nudge_winner k a gs =
     (case acc_agent_id a of
        None \<Rightarrow> set_account k a gs
      | Some agent \<Rightarrow>
          (case fmlookup (gs_agents gs) agent of
             None \<Rightarrow> set_account k a gs
           | Some rec \<Rightarrow>
               let r = sat_sadd (ar_reputation rec) 1 in
               (set_account k (a\<lparr> acc_reputation := r \<rparr>) gs)
                 \<lparr> gs_agents := fmupd agent (rec\<lparr> ar_reputation := r \<rparr>) (gs_agents gs) \<rparr>))"

definition resolve_dispute :: "b32 \<Rightarrow> bool \<Rightarrow> global_state \<Rightarrow> unit exec" where
  "resolve_dispute i for_plaintiff gs =
     (case fmlookup (gs_disputes gs) i of
        None \<Rightarrow> Err UnknownDispute gs
      | Some d \<Rightarrow>
          if dis_status d \<noteq> Open then Err DisputeNotOpen gs
          else
            let winner = (if for_plaintiff then dis_plaintiff d else dis_defendant d);
                status = (if for_plaintiff then ResolvedForPlaintiff else ResolvedForDefendant);
                gs1 = gs\<lparr> gs_disputes := fmupd i (d\<lparr> dis_status := status \<rparr>) (gs_disputes gs) \<rparr>
            in check_then (account_of winner gs1) gs1 (\<lambda>a.
               ret_or_panic (chk_add (micros (balance_available a)) (micros (dis_bond d))) (\<lambda>av.
               Ok () (push_event
                 (''ResolveDispute '' @ dec_word (byte0 i) @ '' for_plaintiff='' @ dec_bool for_plaintiff)
                 (nudge_winner winner (a\<lparr> balance_available := AmountMicros av \<rparr>) gs1)))))"

section \<open>Tokenised assets\<close>

definition register_asset ::
  "asset_id \<Rightarrow> account_id \<Rightarrow> string \<Rightarrow> string \<Rightarrow> u8 \<Rightarrow> asset_units \<Rightarrow> global_state \<Rightarrow> unit exec" where
  "register_asset i issuer symbol name decimals max_supply gs =
     check_then (ensure_active issuer gs) gs (\<lambda>_.
       if i |\<in>| fmdom (gs_assets gs) then Err AssetExists gs
       else let sym = to_ascii_uppercase symbol in
         if sym = [] \<or> sym |\<in>| fmdom (gs_asset_symbols gs) then Err AssetSymbolTaken gs
         else if max_supply = 0 then Err ZeroAssetAmount gs
         else Ok () (push_event (''RegisterAsset '' @ sym @ '' max='' @ dec_word max_supply)
           (gs\<lparr> gs_assets := fmupd i
                 \<lparr> as_asset_id = i, as_symbol = sym, as_name = name, as_issuer = issuer,
                   as_decimals = decimals, as_max_supply = max_supply, as_minted = 0 \<rparr> (gs_assets gs),
               gs_asset_symbols := fmupd sym i (gs_asset_symbols gs) \<rparr>)))"

definition mint_asset :: "asset_id \<Rightarrow> account_id \<Rightarrow> account_id \<Rightarrow> asset_units \<Rightarrow> global_state \<Rightarrow> unit exec" where
  "mint_asset i issuer to units gs =
     (if units = 0 then Err ZeroAssetAmount gs
      else check_then (ensure_active issuer gs) gs (\<lambda>_.
           check_then (ensure_active to gs) gs (\<lambda>_.
           case fmlookup (gs_assets gs) i of
             None \<Rightarrow> Err UnknownAsset gs
           | Some a \<Rightarrow>
               if as_issuer a \<noteq> issuer then Err NotAssetIssuer gs
               else if as_max_supply a < sat_add (as_minted a) units then Err ExceedsMaxSupply gs
               else ret_or_panic (chk_add (as_minted a) units) (\<lambda>m.
                 Ok () (push_event
                   (''MintAsset '' @ as_symbol a @ '' -> '' @ dec_word (byte0 (account_bytes to))
                      @ '' units='' @ dec_word units)
                   (credit_holding to i units
                     (gs\<lparr> gs_assets := fmupd i (a\<lparr> as_minted := m \<rparr>) (gs_assets gs) \<rparr>)))))))"

definition transfer_asset :: "asset_id \<Rightarrow> account_id \<Rightarrow> account_id \<Rightarrow> asset_units \<Rightarrow> global_state \<Rightarrow> unit exec" where
  "transfer_asset i source to units gs =
     (if units = 0 then Err ZeroAssetAmount gs
      else if i |\<notin>| fmdom (gs_assets gs) then Err UnknownAsset gs
      else check_then (ensure_active source gs) gs (\<lambda>_.
           check_then (ensure_active to gs) gs (\<lambda>_.
           and_then (debit_holding source i units gs) (\<lambda>_ gs1.
           Ok () (push_event
             (''TransferAsset '' @ dec_word (byte0 (asset_bytes i)) @ '' units='' @ dec_word units
                @ '' from='' @ dec_word (byte0 (account_bytes source))
                @ '' to='' @ dec_word (byte0 (account_bytes to)))
             (credit_holding to i units gs1))))))"

definition spot_trade ::
  "asset_id \<Rightarrow> account_id \<Rightarrow> account_id \<Rightarrow> asset_units \<Rightarrow> amount_micros \<Rightarrow> global_state \<Rightarrow> unit exec" where
  "spot_trade i buyer seller units price gs =
     (if units = 0 then Err ZeroAssetAmount gs
      else if buyer = seller then Err SelfTrade gs
      else if i |\<notin>| fmdom (gs_assets gs) then Err UnknownAsset gs
      else check_then (ensure_active buyer gs) gs (\<lambda>_.
           check_then (ensure_active seller gs) gs (\<lambda>_.
           ret_or_panic (fmlookup (gs_accounts gs) buyer) (\<lambda>b.
           if micros (balance_available b) < micros price then Err InsufficientAvailable gs
           else if holding gs seller i < units then Err InsufficientAssetUnits gs
           else
             let gs1 = set_account buyer
                   (b\<lparr> balance_available := AmountMicros (micros (balance_available b) - micros price) \<rparr>) gs
             in ret_or_panic (fmlookup (gs_accounts gs1) seller) (\<lambda>s.
                ret_or_panic (chk_add (micros (balance_available s)) (micros price)) (\<lambda>av.
                let gs2 = set_account seller (s\<lparr> balance_available := AmountMicros av \<rparr>) gs1
                in and_then (debit_holding seller i units gs2) (\<lambda>_ gs3.
                   Ok () (push_event
                     (''SpotTrade asset='' @ dec_word (byte0 (asset_bytes i)) @ '' units='' @ dec_word units
                        @ '' price='' @ dec_word (micros price)
                        @ '' buyer='' @ dec_word (byte0 (account_bytes buyer))
                        @ '' seller='' @ dec_word (byte0 (account_bytes seller)))
                     (credit_holding buyer i units gs3)))))))))"

section \<open>Applying a transaction\<close>

fun run_tx :: "crypto \<Rightarrow> wasm_host \<Rightarrow> l1_tx \<Rightarrow> global_state \<Rightarrow> unit exec" where
  "run_tx X H (GenesisFund k n) gs = genesis_fund k n gs"
| "run_tx X H (Stake k n) gs = stake_tx k n gs"
| "run_tx X H (Unstake k n) gs = unstake_tx k n gs"
| "run_tx X H (AllocateShardAllowance k s n) gs = allocate_shard_allowance k s n gs"
| "run_tx X H (CheckpointFinalized c k) gs = apply_checkpoint X c k gs"
| "run_tx X H (SlashConflict s e h k n) gs = slash_conflict s e h k n gs"
| "run_tx X H (RegisterAgent k g m) gs = register_agent k g m gs"
| "run_tx X H (SuspendAgent g) gs = suspend_agent g gs"
| "run_tx X H (UpdateReputation g d r) gs = update_reputation g d r gs"
| "run_tx X H (DeployContract k h c) gs = deploy_contract X H k h c gs"
| "run_tx X H (CallContract k h e a b f) gs = call_contract H k h e a b f gs"
| "run_tx X H (OpenDispute i p d n v) gs = open_dispute i p d n v gs"
| "run_tx X H (ResolveDispute i p) gs = resolve_dispute i p gs"
| "run_tx X H (RegisterAsset i k s n d m) gs = register_asset i k s n d m gs"
| "run_tx X H (MintAsset i k t u) gs = mint_asset i k t u gs"
| "run_tx X H (TransferAsset i f t u) gs = transfer_asset i f t u gs"
| "run_tx X H (SpotTrade i b s u p) gs = spot_trade i b s u p gs"

definition apply_tx :: "crypto \<Rightarrow> wasm_host \<Rightarrow> l1_tx \<Rightarrow> global_state \<Rightarrow> unit exec" where
  "apply_tx X H tx gs = and_then (run_tx X H tx gs) (\<lambda>_ gs'. check_conservation gs')"

definition ensure_agent :: "account_id \<Rightarrow> agent_id \<Rightarrow> global_state \<Rightarrow> global_state" where
  "ensure_agent k agent gs =
     (case fmlookup (gs_accounts gs) k of
        None \<Rightarrow> set_account k (new_agent k agent (AmountMicros 0)) gs
      | Some _ \<Rightarrow> gs)"

end
