(* ===== verification/Conservation.thy ===== *)
theory Conservation
  imports Execute
begin

text \<open>
  Conservation on the global ledger: what each transaction does to the money and to the asset
  units in the state, the invariant of the ledger, and the conservation checks as statements
  about it. Sums are natural numbers, so that nothing wraps in the specification.
\<close>

section \<open>Money and units\<close>

definition acc_value :: "account \<Rightarrow> nat" where
  "acc_value a = amt (balance_available a) + amt (balance_locked a) + amt (stake a)"

definition money :: "global_state \<Rightarrow> nat" where
  "money gs = fm_sum (\<lambda>_. acc_value) (gs_accounts gs)
     + fm_sum (\<lambda>_. amt) (gs_shard_outstanding gs) + fm_sum (\<lambda>_. open_bond) (gs_disputes gs)"

definition supply_of :: "global_state \<Rightarrow> nat" where
  "supply_of gs = amt (gs_total_supply gs)"

definition units_held :: "global_state \<Rightarrow> asset_id \<Rightarrow> nat" where
  "units_held gs i = fm_sum (units_of i) (gs_holdings gs)"

definition minted_of :: "global_state \<Rightarrow> asset_id \<Rightarrow> nat" where
  "minted_of gs i = (case fmlookup (gs_assets gs) i of None \<Rightarrow> 0 | Some a \<Rightarrow> unat (as_minted a))"

text \<open>
  The ledger's invariant: the money adds up to the supply; the units held of every asset add up
  to what was minted, within the asset's maximum; escrow and open disputes belong to accounts.
\<close>

definition units_ok :: "global_state \<Rightarrow> bool" where
  "units_ok gs \<longleftrightarrow> (\<forall>i. units_held gs i = minted_of gs i) \<and>
     (\<forall>i a. fmlookup (gs_assets gs) i = Some a \<longrightarrow> as_minted a \<le> as_max_supply a)"

definition escrow_ok :: "global_state \<Rightarrow> bool" where
  "escrow_ok gs \<longleftrightarrow>
     (\<forall>s k. (s, k) |\<in>| fmdom (gs_shard_outstanding gs) \<longrightarrow> k |\<in>| fmdom (gs_accounts gs)) \<and>
     (\<forall>i d. fmlookup (gs_disputes gs) i = Some d \<longrightarrow> dis_plaintiff d |\<in>| fmdom (gs_accounts gs))"

definition gs_ok :: "global_state \<Rightarrow> bool" where
  "gs_ok gs \<longleftrightarrow> money gs = supply_of gs \<and> units_ok gs \<and> escrow_ok gs"

named_theorems ledger_defs \<open>definitions of the transactions\<close>

lemmas ledger_state_defs = push_event_def set_account_def

lemma check_then_Ok: "check_then r gs k = Ok a s \<longleftrightarrow> (\<exists>x. r = Inr x \<and> k x = Ok a s)"
  by (cases r) (auto simp: check_then_def)

lemma check_then_Err:
  "check_then r gs k = Err e s \<longleftrightarrow> (r = Inl e \<and> s = gs) \<or> (\<exists>x. r = Inr x \<and> k x = Err e s)"
  by (cases r) (auto simp: check_then_def)

lemma check_then_Panic: "check_then r gs k = Panic \<longleftrightarrow> (\<exists>x. r = Inr x \<and> k x = Panic)"
  by (cases r) (auto simp: check_then_def)

lemma account_of_iff [simp]:
  "account_of k gs = Inr a \<longleftrightarrow> fmlookup (gs_accounts gs) k = Some a"
  "account_of k gs = Inl e \<longleftrightarrow> fmlookup (gs_accounts gs) k = None \<and> e = UnknownAccount"
  by (auto simp: account_of_def split: option.splits)

lemma ensure_active_Inr:
  "ensure_active k gs = Inr u \<longleftrightarrow> (\<exists>a. fmlookup (gs_accounts gs) k = Some a \<and> \<not> acc_suspended a)"
  by (auto simp: ensure_active_def split: option.splits)

lemmas exec_iff = outcome_iff check_then_Ok check_then_Err check_then_Panic ensure_active_Inr

section \<open>One account, one escrow entry, one dispute\<close>

definition value_of :: "account_id \<Rightarrow> global_state \<Rightarrow> nat" where
  "value_of k gs = (case fmlookup (gs_accounts gs) k of None \<Rightarrow> 0 | Some a \<Rightarrow> acc_value a)"

lemma fm_sum_write:
  "fm_sum f (fmupd k v m) + (case fmlookup m k of None \<Rightarrow> 0 | Some w \<Rightarrow> f k w) = fm_sum f m + f k v"
  using fm_sum_new [of m k f v] fm_sum_upd [of m k _ f v] by (cases "fmlookup m k") simp_all

lemma fm_sum_write_Some:
  "fmlookup m k = Some w \<Longrightarrow> fm_sum f (fmupd k v m) = fm_sum f m + f k v - f k w"
  using fm_sum_upd [of m k w f v] by simp

lemma money_ge:
  assumes "fmlookup (gs_accounts gs) k = Some a"
  shows "acc_value a \<le> money gs"
  using fm_sum_ge [OF assms, of "\<lambda>_. acc_value"] by (simp add: money_def)

lemma money_set_account:
  "money (set_account k b gs) + value_of k gs = money gs + acc_value b"
  using fm_sum_write [of "\<lambda>_. acc_value" k b "gs_accounts gs"]
  by (simp add: money_def set_account_def value_of_def)

lemma money_simps [simp]:
  "money (gs\<lparr>gs_total_supply := t\<rparr>) = money gs"
  "money (gs\<lparr>gs_finalized := x1\<rparr>) = money gs"
  "money (gs\<lparr>gs_agents := x2\<rparr>) = money gs"
  "money (gs\<lparr>gs_contracts := x3\<rparr>) = money gs"
  "money (gs\<lparr>gs_contract_deployers := x4\<rparr>) = money gs"
  "money (gs\<lparr>gs_assets := x5\<rparr>) = money gs"
  "money (gs\<lparr>gs_asset_symbols := x6\<rparr>) = money gs"
  "money (gs\<lparr>gs_holdings := x7\<rparr>) = money gs"
  "money (gs\<lparr>gs_last_call_result := x8\<rparr>) = money gs"
  "money (push_event e gs) = money gs"
  by (simp_all add: money_def push_event_def)

lemma money_outstanding:
  "money (gs\<lparr>gs_shard_outstanding := fmupd k v (gs_shard_outstanding gs)\<rparr>) + amt (outstanding_of k gs)
   = money gs + amt v"
  using fm_sum_write [of "\<lambda>_. amt" k v "gs_shard_outstanding gs"]
  by (auto simp: money_def outstanding_of_def split: option.splits)

lemma money_dispute:
  "money (gs\<lparr>gs_disputes := fmupd i d (gs_disputes gs)\<rparr>)
     + (case fmlookup (gs_disputes gs) i of None \<Rightarrow> 0 | Some c \<Rightarrow> open_bond c) = money gs + open_bond d"
  using fm_sum_write [of "\<lambda>_. open_bond" i d "gs_disputes gs"] by (simp add: money_def)

lemma supply_simps [simp]:
  "supply_of (gs\<lparr>gs_accounts := x0\<rparr>) = supply_of gs"
  "supply_of (gs\<lparr>gs_shard_outstanding := x1\<rparr>) = supply_of gs"
  "supply_of (gs\<lparr>gs_finalized := x2\<rparr>) = supply_of gs"
  "supply_of (gs\<lparr>gs_agents := x3\<rparr>) = supply_of gs"
  "supply_of (gs\<lparr>gs_contracts := x4\<rparr>) = supply_of gs"
  "supply_of (gs\<lparr>gs_contract_deployers := x5\<rparr>) = supply_of gs"
  "supply_of (gs\<lparr>gs_disputes := x6\<rparr>) = supply_of gs"
  "supply_of (gs\<lparr>gs_assets := x7\<rparr>) = supply_of gs"
  "supply_of (gs\<lparr>gs_asset_symbols := x8\<rparr>) = supply_of gs"
  "supply_of (gs\<lparr>gs_holdings := x9\<rparr>) = supply_of gs"
  "supply_of (gs\<lparr>gs_last_call_result := x10\<rparr>) = supply_of gs"
  "supply_of (push_event e gs) = supply_of gs"
  "supply_of (set_account k a gs) = supply_of gs"
  "supply_of (gs\<lparr>gs_total_supply := t\<rparr>) = amt t"
  by (simp_all add: supply_of_def push_event_def set_account_def)

section \<open>What each transaction does to the money\<close>

text \<open>
  \<open>keeps_money gs s\<close>: the gap between supply and money is the same in \<open>s\<close> as in \<open>gs\<close>.
\<close>

definition keeps_money :: "global_state \<Rightarrow> global_state \<Rightarrow> bool" where
  "keeps_money gs s \<longleftrightarrow> money s + supply_of gs = money gs + supply_of s"

lemma value_of_Some: "fmlookup (gs_accounts gs) k = Some a \<Longrightarrow> value_of k gs = acc_value a"
  by (simp add: value_of_def)

text \<open>Writing an account and an escrow entry or a dispute at once.\<close>

lemma money_account_and:
  "money ((set_account k b gs)\<lparr>gs_total_supply := t\<rparr>) + value_of k gs = money gs + acc_value b"
  "money ((set_account k b gs)\<lparr>gs_shard_outstanding := fmupd j v (gs_shard_outstanding gs)\<rparr>)
     + value_of k gs + amt (outstanding_of j gs) = money gs + acc_value b + amt v"
  "money ((set_account k b gs)\<lparr>gs_disputes := fmupd i d (gs_disputes gs)\<rparr>)
     + value_of k gs + (case fmlookup (gs_disputes gs) i of None \<Rightarrow> 0 | Some c \<Rightarrow> open_bond c)
   = money gs + acc_value b + open_bond d"
  using money_set_account [of k b gs] money_outstanding [where gs = "set_account k b gs" and k = j and v = v]
    money_dispute [where gs = "set_account k b gs" and i = i and d = d]
  by (auto simp: set_account_def outstanding_of_def)

lemma genesis_fund_money:
  assumes "genesis_fund k n gs = Ok u s"
  shows "money s = money gs + amt n" and "supply_of s = supply_of gs + amt n"
proof -
  let ?a = "case fmlookup (gs_accounts gs) k of None \<Rightarrow> new_human k (AmountMicros 0) | Some a \<Rightarrow> a"
  obtain av ts e where av: "chk_add (micros (balance_available ?a)) (micros n) = Some av"
    and ts: "chk_add (micros (gs_total_supply gs)) (micros n) = Some ts"
    and s: "s = push_event e ((set_account k (?a\<lparr> balance_available := AmountMicros av \<rparr>) gs)
      \<lparr> gs_total_supply := AmountMicros ts \<rparr>)"
    using assms by (auto simp: genesis_fund_def Let_def exec_iff)
  have v: "value_of k gs = acc_value ?a"
    by (auto simp: value_of_def acc_value_def new_human_def split: option.split)
  show "money s = money gs + amt n"
    using money_set_account [of k "?a\<lparr> balance_available := AmountMicros av \<rparr>" gs] chk_add_Some [OF av] v
    by (simp add: s acc_value_def amt_def)
  show "supply_of s = supply_of gs + amt n"
    using chk_add_Some [OF ts] by (simp add: s supply_of_def amt_def ledger_state_defs)
qed

lemma stake_money:
  assumes "stake_tx k n gs = Ok u s"
  shows "money s = money gs" and "supply_of s = supply_of gs"
proof -
  obtain a st e where a: "fmlookup (gs_accounts gs) k = Some a"
    and n: "amt n \<le> amt (balance_available a)"
    and st: "chk_add (micros (stake a)) (micros n) = Some st"
    and s: "s = push_event e (set_account k (a\<lparr> balance_available := AmountMicros (micros (balance_available a) - micros n),
      stake := AmountMicros st \<rparr>) gs)"
    using assms by (auto simp: stake_tx_def exec_iff micros_less_amt split: if_splits)
  show "money s = money gs"
    using money_set_account [of k "a\<lparr> balance_available := AmountMicros (micros (balance_available a) - micros n),
      stake := AmountMicros st \<rparr>" gs] chk_add_Some [OF st] n value_of_Some [OF a]
      unat_minus_fits [of "micros n" "micros (balance_available a)"]
    by (simp add: s acc_value_def amt_def word_le_nat_alt)
  show "supply_of s = supply_of gs" by (simp add: s)
qed

lemma unstake_money:
  assumes "unstake_tx k n gs = Ok u s"
  shows "money s = money gs" and "supply_of s = supply_of gs"
proof -
  obtain a av e where a: "fmlookup (gs_accounts gs) k = Some a"
    and n: "amt n \<le> amt (stake a)"
    and av: "chk_add (micros (balance_available a)) (micros n) = Some av"
    and s: "s = push_event e (set_account k (a\<lparr> stake := AmountMicros (micros (stake a) - micros n),
      balance_available := AmountMicros av \<rparr>) gs)"
    using assms by (auto simp: unstake_tx_def exec_iff micros_less_amt split: if_splits)
  show "money s = money gs"
    using money_set_account [of k "a\<lparr> stake := AmountMicros (micros (stake a) - micros n),
      balance_available := AmountMicros av \<rparr>" gs] chk_add_Some [OF av] n value_of_Some [OF a]
      unat_minus_fits [of "micros n" "micros (stake a)"]
    by (simp add: s acc_value_def amt_def word_le_nat_alt)
  show "supply_of s = supply_of gs" by (simp add: s)
qed

lemma allocate_shard_money:
  assumes "allocate_shard_allowance k sh n gs = Ok u s"
  shows "money s = money gs" and "supply_of s = supply_of gs"
proof -
  obtain a m e where a: "fmlookup (gs_accounts gs) k = Some a"
    and n: "amt n \<le> amt (balance_available a)"
    and m: "chk_add (micros (outstanding_of (shard_str sh, k) gs)) (micros n) = Some m"
    and s: "s = push_event e ((set_account k
        (a\<lparr> balance_available := AmountMicros (micros (balance_available a) - micros n) \<rparr>) gs)
      \<lparr> gs_shard_outstanding := fmupd (shard_str sh, k) (AmountMicros m) (gs_shard_outstanding gs) \<rparr>)"
    using assms by (auto simp: allocate_shard_allowance_def Let_def exec_iff micros_less_amt split: if_splits)
  show "money s = money gs"
    using money_account_and(2) [where k = k and gs = gs and j = "(shard_str sh, k)" and v = "AmountMicros m"
        and b = "a\<lparr> balance_available := AmountMicros (micros (balance_available a) - micros n) \<rparr>"]
      chk_add_Some [OF m] n value_of_Some [OF a] unat_minus_fits [of "micros n" "micros (balance_available a)"]
    by (simp add: s acc_value_def amt_def word_le_nat_alt)
  show "supply_of s = supply_of gs" by (simp add: s)
qed

lemma slash_money:
  assumes "slash_conflict sh ep h k n gs = Ok u s" and "money gs \<le> supply_of gs"
  shows "keeps_money gs s"
proof -
  define w where "w a = min (micros n) (micros (stake a))" for a :: account
  obtain a e where a: "fmlookup (gs_accounts gs) k = Some a"
    and s: "s = push_event e ((set_account k (a\<lparr> stake := AmountMicros (micros (stake a) - w a) \<rparr>) gs)
        \<lparr> gs_total_supply := AmountMicros (sat_sub (micros (gs_total_supply gs)) (w a)) \<rparr>)"
    using assms(1) by (auto simp: slash_conflict_def Let_def exec_iff w_def)
  have w: "w a \<le> micros (stake a)" by (simp add: w_def)
  then have le: "unat (w a) \<le> amt (stake a)" by (simp add: amt_def word_le_nat_alt)
  have "amt (stake a) \<le> supply_of gs"
    using money_ge [OF a] assms(2) by (simp add: acc_value_def)
  then have "supply_of s + unat (w a) = supply_of gs"
    using le by (simp add: s unat_sat_sub supply_of_def amt_def ledger_state_defs)
  moreover have "money s + unat (w a) = money gs"
    using money_set_account [of k "a\<lparr> stake := AmountMicros (micros (stake a) - w a) \<rparr>" gs]
      value_of_Some [OF a] le unat_minus_fits [OF w]
    by (simp add: s acc_value_def amt_def)
  ultimately show ?thesis by (simp add: keeps_money_def)
qed

lemma checkpoint_money:
  assumes "apply_checkpoint X c k gs = Ok u s"
  shows "money s = money gs" and "supply_of s = supply_of gs"
proof -
  define h where "h = sc_header (wc_checkpoint c)"
  define j where "j = (shard_str (hd_shard_id h), k)"
  define gs1 where "gs1 out = gs\<lparr> gs_shard_outstanding := fmupd j
      (AmountMicros (micros out - micros (hd_exposure h))) (gs_shard_outstanding gs) \<rparr>" for out
  obtain out a lk e where o: "fmlookup (gs_shard_outstanding gs) j = Some out"
    and le: "amt (hd_exposure h) \<le> amt out"
    and a: "fmlookup (gs_accounts gs) k = Some a"
    and lk: "chk_add (micros (balance_locked a)) (micros (hd_exposure h)) = Some lk"
    and s: "s = push_event e ((set_account k (a\<lparr> balance_locked := AmountMicros lk \<rparr>) (gs1 out))
        \<lparr> gs_finalized := fmupd (header_key h) (hd_root h) (gs_finalized gs) \<rparr>)"
    using assms
    by (auto simp: apply_checkpoint_def Let_def exec_iff micros_less_amt h_def [symmetric]
        j_def [symmetric] gs1_def [symmetric] split: option.splits if_splits)
      (auto simp: gs1_def)
  have "money (gs1 out) + amt (hd_exposure h) = money gs"
    using money_outstanding [where gs = gs and k = j and v = "AmountMicros (micros out - micros (hd_exposure h))"] o le
      unat_minus_fits [of "micros (hd_exposure h)" "micros out"]
    by (simp add: gs1_def outstanding_of_def amt_def word_le_nat_alt)
  moreover have "money s = money (gs1 out) + amt (hd_exposure h)"
    using money_set_account [of k "a\<lparr> balance_locked := AmountMicros lk \<rparr>" "gs1 out"] a chk_add_Some [OF lk]
    by (simp add: s value_of_def gs1_def acc_value_def amt_def)
  ultimately show "money s = money gs" by simp
  show "supply_of s = supply_of gs" by (simp add: s gs1_def)
qed

lemma open_dispute_money:
  assumes "open_dispute i p d n ev gs = Ok u s"
  shows "money s = money gs" and "supply_of s = supply_of gs"
proof -
  obtain a e where a: "fmlookup (gs_accounts gs) p = Some a"
    and n: "amt n \<le> amt (balance_available a)" and i: "i |\<notin>| fmdom (gs_disputes gs)"
    and s: "s = push_event e ((set_account p
        (a\<lparr> balance_available := AmountMicros (micros (balance_available a) - micros n) \<rparr>) gs)
      \<lparr> gs_disputes := fmupd i
         \<lparr> dis_id = i, dis_plaintiff = p, dis_defendant = d, dis_bond = n,
           dis_status = Open, dis_evidence_hash = ev \<rparr> (gs_disputes gs) \<rparr>)"
    using assms by (auto simp: open_dispute_def exec_iff micros_less_amt split: if_splits)
  have "fmlookup (gs_disputes gs) i = None" using i by (simp add: fmdom_notD)
  then show "money s = money gs"
    using money_account_and(3) [where k = p and gs = gs and i = i
        and b = "a\<lparr> balance_available := AmountMicros (micros (balance_available a) - micros n) \<rparr>"
        and d = "\<lparr> dis_id = i, dis_plaintiff = p, dis_defendant = d, dis_bond = n,
           dis_status = Open, dis_evidence_hash = ev \<rparr>"]
      n value_of_Some [OF a] unat_minus_fits [of "micros n" "micros (balance_available a)"]
    by (simp add: s acc_value_def amt_def word_le_nat_alt open_bond_def)
  show "supply_of s = supply_of gs" by (simp add: s)
qed

lemma money_nudge_winner:
  "money (nudge_winner k a gs) + value_of k gs = money gs + acc_value a"
  "supply_of (nudge_winner k a gs) = supply_of gs"
  using money_set_account [of k a gs] money_set_account [of k "a\<lparr>acc_reputation := r\<rparr>" gs for r]
  by (auto simp: nudge_winner_def Let_def acc_value_def split: option.split)

text \<open>The state after a dispute was closed and before its winner is paid.\<close>

definition dispute_closed :: "b32 \<Rightarrow> dispute \<Rightarrow> bool \<Rightarrow> global_state \<Rightarrow> global_state" where
  "dispute_closed i d fp gs =
     gs\<lparr> gs_disputes := fmupd i (d\<lparr> dis_status := if fp then ResolvedForPlaintiff else ResolvedForDefendant \<rparr>)
           (gs_disputes gs) \<rparr>"

definition dispute_winner :: "dispute \<Rightarrow> bool \<Rightarrow> account_id" where
  "dispute_winner d fp = (if fp then dis_plaintiff d else dis_defendant d)"

lemma dispute_closed_money:
  assumes "fmlookup (gs_disputes gs) i = Some d" and "dis_status d = Open"
  shows "money (dispute_closed i d fp gs) + amt (dis_bond d) = money gs"
  using assms money_dispute [where gs = gs and i = i
      and d = "d\<lparr> dis_status := if fp then ResolvedForPlaintiff else ResolvedForDefendant \<rparr>"]
  by (simp add: dispute_closed_def open_bond_def)

lemma resolve_dispute_eq:
  "resolve_dispute i fp gs =
     (case fmlookup (gs_disputes gs) i of
        None \<Rightarrow> Err UnknownDispute gs
      | Some d \<Rightarrow>
          if dis_status d \<noteq> Open then Err DisputeNotOpen gs
          else check_then (account_of (dispute_winner d fp) gs) (dispute_closed i d fp gs) (\<lambda>a.
               ret_or_panic (chk_add (micros (balance_available a)) (micros (dis_bond d))) (\<lambda>av.
               Ok () (push_event
                 (''ResolveDispute '' @ dec_word (byte0 i) @ '' for_plaintiff='' @ dec_bool fp)
                 (nudge_winner (dispute_winner d fp) (a\<lparr> balance_available := AmountMicros av \<rparr>)
                   (dispute_closed i d fp gs))))))"
  by (cases "fmlookup (gs_disputes gs) i")
    (simp_all add: resolve_dispute_def Let_def dispute_closed_def dispute_winner_def account_of_def)

lemma resolve_dispute_money:
  assumes "resolve_dispute i fp gs = Ok u s"
  shows "money s = money gs" and "supply_of s = supply_of gs"
proof -
  obtain d a av e where d: "fmlookup (gs_disputes gs) i = Some d" "dis_status d = Open"
    and a: "fmlookup (gs_accounts gs) (dispute_winner d fp) = Some a"
    and av: "chk_add (micros (balance_available a)) (micros (dis_bond d)) = Some av"
    and s: "s = push_event e (nudge_winner (dispute_winner d fp) (a\<lparr> balance_available := AmountMicros av \<rparr>)
      (dispute_closed i d fp gs))"
    using assms by (auto simp: resolve_dispute_eq exec_iff split: option.splits if_splits)
  have v: "value_of (dispute_winner d fp) (dispute_closed i d fp gs) = acc_value a"
    using a by (simp add: value_of_def dispute_closed_def)
  show "money s = money gs"
    using money_nudge_winner(1) [of "dispute_winner d fp" "a\<lparr> balance_available := AmountMicros av \<rparr>"
        "dispute_closed i d fp gs"] dispute_closed_money [OF d, of fp] chk_add_Some [OF av] v
    by (simp add: s acc_value_def amt_def)
  show "supply_of s = supply_of gs"
    by (simp add: s money_nudge_winner(2)) (simp add: dispute_closed_def)
qed

lemma modify_account_money:
  assumes "\<And>a. acc_value (f a) = acc_value a"
  shows "money (modify_account k f gs) = money gs" and "supply_of (modify_account k f gs) = supply_of gs"
  using assms money_set_account [of k _ gs]
  by (auto simp: modify_account_def value_of_def split: option.split)
    (metis add_right_cancel)

lemma agent_money:
  "register_agent k g m gs = Ok u s \<Longrightarrow> money s = money gs \<and> supply_of s = supply_of gs"
  "suspend_agent g gs = Ok u s \<Longrightarrow> money s = money gs \<and> supply_of s = supply_of gs"
  "update_reputation g d r gs = Ok u s \<Longrightarrow> money s = money gs \<and> supply_of s = supply_of gs"
proof -
  assume r: "register_agent k g m gs = Ok u s"
  let ?a = "case fmlookup (gs_accounts gs) k of None \<Rightarrow> new_agent k g (AmountMicros 0) | Some a \<Rightarrow> a"
  have "acc_value (?a\<lparr>acc_agent_id := Some g\<rparr>) = value_of k gs"
    by (auto simp: value_of_def acc_value_def new_agent_def split: option.split)
  then have "money (set_account k (?a\<lparr>acc_agent_id := Some g\<rparr>) gs) = money gs"
    using money_set_account [of k "?a\<lparr>acc_agent_id := Some g\<rparr>" gs] by simp
  then show "money s = money gs \<and> supply_of s = supply_of gs"
    using r by (auto simp: register_agent_def Let_def split: if_splits)
next
  show "suspend_agent g gs = Ok u s \<Longrightarrow> money s = money gs \<and> supply_of s = supply_of gs"
    by (auto simp: suspend_agent_def modify_account_money acc_value_def split: option.splits)
  show "update_reputation g d r gs = Ok u s \<Longrightarrow> money s = money gs \<and> supply_of s = supply_of gs"
    by (auto simp: update_reputation_def Let_def modify_account_money acc_value_def split: option.splits)
qed

lemma contract_money:
  "deploy_contract X H k h c gs = Ok u s \<Longrightarrow> money s = money gs \<and> supply_of s = supply_of gs"
  "call_contract H k h e a b f gs = Ok u s \<Longrightarrow> money s = money gs \<and> supply_of s = supply_of gs"
  by (auto simp: deploy_contract_def call_contract_def Let_def split: if_splits sum.splits option.splits)

lemma holding_money [simp]:
  "money (credit_holding k i n gs) = money gs"
  "supply_of (credit_holding k i n gs) = supply_of gs"
  by (simp_all add: credit_holding_def)

lemma debit_holding_Ok:
  "debit_holding k i n gs = Ok u s \<longleftrightarrow> n \<le> holding gs k i \<and>
     s = gs\<lparr> gs_holdings := (if holding gs k i = n then fmdrop (k, i) (gs_holdings gs)
           else fmupd (k, i) (holding gs k i - n) (gs_holdings gs)) \<rparr>"
  by (auto simp: debit_holding_def Let_def)

lemma debit_holding_money:
  "debit_holding k i n gs = Ok u s \<Longrightarrow> money s = money gs \<and> supply_of s = supply_of gs"
  by (auto simp: debit_holding_Ok)

lemma asset_money:
  "register_asset i k sy nm d m gs = Ok u s \<Longrightarrow> money s = money gs \<and> supply_of s = supply_of gs"
  "mint_asset i k t n gs = Ok u s \<Longrightarrow> money s = money gs \<and> supply_of s = supply_of gs"
  "transfer_asset i k t n gs = Ok u s \<Longrightarrow> money s = money gs \<and> supply_of s = supply_of gs"
  by (auto simp: register_asset_def mint_asset_def transfer_asset_def Let_def exec_iff
      debit_holding_Ok split: if_splits option.splits)

text \<open>The two account writes of a spot trade.\<close>

definition paid :: "account_id \<Rightarrow> account_id \<Rightarrow> account \<Rightarrow> account \<Rightarrow> amount_micros \<Rightarrow> global_state \<Rightarrow> global_state" where
  "paid buyer seller b s price gs =
     set_account seller (s\<lparr> balance_available := AmountMicros (micros (balance_available s) + micros price) \<rparr>)
       (set_account buyer (b\<lparr> balance_available := AmountMicros (micros (balance_available b) - micros price) \<rparr>) gs)"

lemma spot_trade_Ok:
  "spot_trade i buyer seller n price gs = Ok u t \<Longrightarrow>
   \<exists>b s e gs3. n \<noteq> 0 \<and> buyer \<noteq> seller \<and> i |\<in>| fmdom (gs_assets gs) \<and>
     fmlookup (gs_accounts gs) buyer = Some b \<and> \<not> acc_suspended b \<and>
     fmlookup (gs_accounts gs) seller = Some s \<and> \<not> acc_suspended s \<and>
     amt price \<le> amt (balance_available b) \<and> n \<le> holding gs seller i \<and>
     amt (balance_available s) + amt price < 2 ^ 128 \<and>
     debit_holding seller i n (paid buyer seller b s price gs) = Ok () gs3 \<and>
     t = push_event e (credit_holding buyer i n gs3)"
  by (auto simp: spot_trade_def Let_def exec_iff micros_less_amt chk_add_def paid_def amt_def
      set_account_def split: if_splits)

lemma paid_money:
  assumes "fmlookup (gs_accounts gs) buyer = Some b" "fmlookup (gs_accounts gs) seller = Some s"
    and "buyer \<noteq> seller" "amt price \<le> amt (balance_available b)"
    and "amt (balance_available s) + amt price < 2 ^ 128"
  shows "money (paid buyer seller b s price gs) = money gs"
proof -
  let ?b = "b\<lparr> balance_available := AmountMicros (micros (balance_available b) - micros price) \<rparr>"
  let ?s = "s\<lparr> balance_available := AmountMicros (micros (balance_available s) + micros price) \<rparr>"
  have "acc_value ?b + amt price = acc_value b"
    using assms(4) unat_minus_fits [of "micros price" "micros (balance_available b)"]
    by (simp add: acc_value_def amt_def word_le_nat_alt)
  moreover have "acc_value ?s = acc_value s + amt price"
    using assms(5) unat_plus_fits [of "micros (balance_available s)" "micros price"]
    by (simp add: acc_value_def amt_def)
  moreover have "value_of seller (set_account buyer ?b gs) = acc_value s"
    using assms(2,3) by (simp add: value_of_def set_account_def)
  ultimately show ?thesis
    using money_set_account [of buyer ?b gs] money_set_account [of seller ?s "set_account buyer ?b gs"]
      value_of_Some [OF assms(1)]
    by (simp add: paid_def)
qed

lemma spot_trade_money:
  assumes "spot_trade i buyer seller n price gs = Ok u t"
  shows "money t = money gs" and "supply_of t = supply_of gs"
  using spot_trade_Ok [OF assms] paid_money
  by (auto simp: debit_holding_Ok) (auto simp: paid_def)

text \<open>Every transaction that goes through leaves the gap between supply and money as it was.\<close>

lemma run_tx_money:
  assumes "run_tx X H tx gs = Ok u s" and "money gs \<le> supply_of gs"
  shows "keeps_money gs s"
proof (cases tx)
  case (GenesisFund k n)
  then show ?thesis using assms genesis_fund_money [of k n gs u s] by (simp add: keeps_money_def)
next
  case (SlashConflict sh e h k n)
  then show ?thesis using assms slash_money [of sh e h k n gs u s] by simp
qed (use assms in \<open>auto simp: keeps_money_def stake_money unstake_money allocate_shard_money
    checkpoint_money agent_money contract_money open_dispute_money resolve_dispute_money asset_money
    spot_trade_money\<close>)

end
