(* ===== verification/Ledger.thy ===== *)
theory Ledger
  imports Conservation
begin

text \<open>
  The invariant of the global ledger is kept by every transaction, its conservation check never
  fires, an error leaves the state alone but for one named case, and nothing panics while there
  is headroom. Built on what \<open>Conservation\<close> shows of the money; here the asset units, the
  escrow and the errors.
\<close>

section \<open>Asset units\<close>

definition held :: "global_state \<Rightarrow> account_id \<Rightarrow> asset_id \<Rightarrow> nat" where
  "held gs k i = unat (holding gs k i)"

lemma units_write:
  "fm_sum (units_of j) (fmupd (k, i) v (gs_holdings gs)) + (if i = j then held gs k i else 0)
   = units_held gs j + (if i = j then unat v else 0)"
  using fm_sum_write [of "units_of j" "(k, i)" v "gs_holdings gs"]
  by (auto simp: units_held_def held_def holding_def units_of_def split: option.splits)

lemma held_le: "held gs k i \<le> units_held gs i"
  using fm_sum_ge [of "gs_holdings gs" "(k, i)" _ "units_of i"]
  by (auto simp: held_def holding_def units_held_def units_of_def split: option.split)

lemma units_held_credit:
  assumes "held gs k i + unat n < 2 ^ 128"
  shows "units_held (credit_holding k i n gs) j = units_held gs j + (if i = j then unat n else 0)"
  using units_write [of j k i "sat_add (holding gs k i) n" gs] assms
  by (auto simp: credit_holding_def units_held_def [of "gs\<lparr>gs_holdings := x\<rparr>" for x] held_def
      unat_sat_add split: if_splits)

lemma units_held_debit:
  assumes "debit_holding k i n gs = Ok u s"
  shows "units_held s j + (if i = j then unat n else 0) = units_held gs j"
proof -
  have n: "n \<le> holding gs k i" using assms by (simp add: debit_holding_Ok)
  then have le: "unat n \<le> held gs k i" by (simp add: held_def word_le_nat_alt)
  show ?thesis
  proof (cases "holding gs k i = n")
    case True
    have s: "gs_holdings s = fmdrop (k, i) (gs_holdings gs)" using assms True by (simp add: debit_holding_Ok)
    show ?thesis
    proof (cases "fmlookup (gs_holdings gs) (k, i)")
      case None
      then have "n = 0" using True by (simp add: holding_def)
      moreover have "fmdrop (k, i) (gs_holdings gs) = gs_holdings gs"
        using None by (intro fmap_ext) auto
      ultimately show ?thesis by (simp add: units_held_def s)
    next
      case (Some w)
      then show ?thesis
        using True fm_sum_drop [OF Some, of "units_of j"]
        by (auto simp: units_held_def s units_of_def holding_def)
    qed
  next
    case False
    have s: "gs_holdings s = fmupd (k, i) (holding gs k i - n) (gs_holdings gs)"
      using assms False by (simp add: debit_holding_Ok)
    show ?thesis
      using units_write [of j k i "holding gs k i - n" gs] le unat_minus_fits [OF n]
      by (auto simp: units_held_def s held_def split: if_splits)
  qed
qed

lemma held_set_account [simp]: "held (set_account k a gs) p i = held gs p i"
  "units_held (set_account k a gs) i = units_held gs i"
  "holding (set_account k a gs) p i = holding gs p i"
  by (simp_all add: held_def holding_def set_account_def units_held_def)

lemma held_paid [simp]: "units_held (paid b s x y n gs) i = units_held gs i"
  "holding (paid b s x y n gs) p i = holding gs p i"
  "gs_assets (paid b s x y n gs) = gs_assets gs"
  by (simp_all add: paid_def) (simp add: set_account_def)

lemma units_push [simp]: "units_held (push_event e gs) i = units_held gs i"
  by (simp add: push_event_def units_held_def)

text \<open>A transfer that succeeds has the units to move, so the receiver's balance does not saturate.\<close>

lemma transfer_fits:
  assumes "debit_holding k i n gs = Ok u s" and "units_held gs i < 2 ^ 128"
  shows "held s p i + unat n < 2 ^ 128"
  using units_held_debit [OF assms(1), of i] held_le [of s p i] assms(2) by simp

lemma units_held_transfer:
  assumes "debit_holding k i n gs = Ok u s" and "units_held gs i < 2 ^ 128"
  shows "units_held (credit_holding p i n s) j = units_held gs j"
  using units_held_credit [OF transfer_fits [OF assms], of p j] units_held_debit [OF assms(1), of j] by simp

lemma minted_lt: "minted_of gs i < 2 ^ 128"
proof (cases "fmlookup (gs_assets gs) i")
  case None
  then show ?thesis by (simp add: minted_of_def)
next
  case (Some a)
  then show ?thesis using unsigned_less [of "as_minted a"] by (simp add: minted_of_def)
qed

lemma units_ok_lt: "units_ok gs \<Longrightarrow> units_held gs i < 2 ^ 128"
  using minted_lt [of gs i] by (simp add: units_ok_def)

section \<open>Each asset transaction keeps the units\<close>

lemma units_ok_cong:
  "gs_assets s = gs_assets gs \<Longrightarrow> gs_holdings s = gs_holdings gs \<Longrightarrow> units_ok s \<longleftrightarrow> units_ok gs"
  by (simp add: units_ok_def units_held_def minted_of_def)

lemma register_asset_units:
  assumes "units_ok gs" and "register_asset i k sy nm d m gs = Ok u s"
  shows "units_ok s"
proof -
  define a where "a = \<lparr> as_asset_id = i, as_symbol = to_ascii_uppercase sy, as_name = nm, as_issuer = k,
    as_decimals = d, as_max_supply = m, as_minted = 0 \<rparr>"
  obtain sym e where new: "fmlookup (gs_assets gs) i = None"
    and s: "s = push_event e (gs\<lparr> gs_assets := fmupd i a (gs_assets gs),
      gs_asset_symbols := fmupd sym i (gs_asset_symbols gs) \<rparr>)"
    using assms(2) by (auto simp: register_asset_def Let_def exec_iff a_def fmdom_notD split: if_splits)
  have m: "as_minted a = 0" by (simp add: a_def)
  have "units_held gs i = 0" using assms(1) new by (simp add: units_ok_def minted_of_def)
  then show ?thesis
    using assms(1) m by (auto simp: s units_ok_def push_event_def units_held_def minted_of_def)
qed

lemma mint_asset_Ok:
  assumes "mint_asset i k t n gs = Ok u s"
  obtains a e where "fmlookup (gs_assets gs) i = Some a" and "as_issuer a = k" and "n \<noteq> 0"
    and "unat (as_minted a) + unat n < 2 ^ 128" and "unat (as_minted a) + unat n \<le> unat (as_max_supply a)"
    and "s = push_event e (credit_holding t i n
          (gs\<lparr> gs_assets := fmupd i (a\<lparr> as_minted := as_minted a + n \<rparr>) (gs_assets gs) \<rparr>))"
  using assms
  by (auto simp: mint_asset_def exec_iff chk_add_def word_less_nat_alt unat_sat_add
      split: option.splits if_splits)

lemma mint_asset_units:
  assumes "units_ok gs" and "mint_asset i k t n gs = Ok u s"
  shows "units_ok s"
proof -
  from mint_asset_Ok [OF assms(2)] obtain a e where a: "fmlookup (gs_assets gs) i = Some a"
    and fits: "unat (as_minted a) + unat n < 2 ^ 128"
    and max: "unat (as_minted a) + unat n \<le> unat (as_max_supply a)"
    and s: "s = push_event e (credit_holding t i n
          (gs\<lparr> gs_assets := fmupd i (a\<lparr> as_minted := as_minted a + n \<rparr>) (gs_assets gs) \<rparr>))"
    by metis
  let ?g = "gs\<lparr> gs_assets := fmupd i (a\<lparr> as_minted := as_minted a + n \<rparr>) (gs_assets gs) \<rparr>"
  have m: "unat (as_minted a + n) = unat (as_minted a) + unat n" using fits by (simp add: unat_plus_fits)
  have h: "units_held ?g j = units_held gs j" for j by (simp add: units_held_def)
  have "held ?g t i \<le> unat (as_minted a)"
    using held_le [of gs t i] assms(1) a by (simp add: units_ok_def minted_of_def held_def holding_def)
  then have "held ?g t i + unat n < 2 ^ 128" using fits by simp
  then have "units_held s j = units_held gs j + (if i = j then unat n else 0)" for j
    by (simp add: s units_held_credit h)
  moreover have "minted_of s j = minted_of gs j + (if i = j then unat n else 0)" for j
    using a m by (auto simp: s push_event_def credit_holding_def minted_of_def)
  moreover have "as_minted b \<le> as_max_supply b" if "fmlookup (gs_assets s) j = Some b" for j b
    using that assms(1) max m
    by (auto simp: s push_event_def credit_holding_def units_ok_def word_le_nat_alt split: if_splits)
  ultimately show ?thesis using assms(1) by (simp add: units_ok_def)
qed

lemma moved_units:
  assumes "units_ok gs" and "debit_holding k i n gs = Ok u g"
  shows "units_ok (push_event e (credit_holding p i n g))"
proof -
  have "gs_assets g = gs_assets gs" using assms(2) by (auto simp: debit_holding_Ok)
  then show ?thesis
    using assms(1) units_held_transfer [OF assms(2) units_ok_lt [OF assms(1)], of p]
    by (simp add: units_ok_def minted_of_def push_event_def credit_holding_def units_held_def)
qed

lemma transfer_asset_units:
  assumes "units_ok gs" and "transfer_asset i k t n gs = Ok u s"
  shows "units_ok s"
  using assms(2) moved_units [OF assms(1)]
  by (auto simp: transfer_asset_def exec_iff split: if_splits)

lemma spot_trade_units:
  assumes "units_ok gs" and "spot_trade i b k n price gs = Ok u s"
  shows "units_ok s"
proof -
  obtain x y e g where g: "debit_holding k i n (paid b k x y price gs) = Ok () g"
    and s: "s = push_event e (credit_holding b i n g)"
    using spot_trade_Ok [OF assms(2)] by blast
  have "units_ok (paid b k x y price gs)"
    using assms(1) units_ok_cong [of "paid b k x y price gs" gs] by (simp add: paid_def set_account_def)
  then show ?thesis using moved_units [OF _ g] s by simp
qed

lemma frame_assets [simp]:
  "gs_assets (push_event e gs) = gs_assets gs" "gs_holdings (push_event e gs) = gs_holdings gs"
  "gs_assets (set_account k a gs) = gs_assets gs" "gs_holdings (set_account k a gs) = gs_holdings gs"
  "gs_assets (modify_account k f gs) = gs_assets gs" "gs_holdings (modify_account k f gs) = gs_holdings gs"
  "gs_assets (nudge_winner k a gs) = gs_assets gs" "gs_holdings (nudge_winner k a gs) = gs_holdings gs"
  by (auto simp: push_event_def set_account_def modify_account_def nudge_winner_def Let_def
      split: option.split)

text \<open>The other transactions touch neither assets nor holdings.\<close>

fun moves_assets :: "l1_tx \<Rightarrow> bool" where
  "moves_assets (RegisterAsset _ _ _ _ _ _) = True"
| "moves_assets (MintAsset _ _ _ _) = True"
| "moves_assets (TransferAsset _ _ _ _) = True"
| "moves_assets (SpotTrade _ _ _ _ _) = True"
| "moves_assets _ = False"

definition same_assets :: "global_state \<Rightarrow> global_state \<Rightarrow> bool" where
  "same_assets gs s \<longleftrightarrow> gs_assets s = gs_assets gs \<and> gs_holdings s = gs_holdings gs"

lemma money_tx_same_assets:
  "genesis_fund k n gs = Ok u s \<Longrightarrow> same_assets gs s"
  "stake_tx k n gs = Ok u s \<Longrightarrow> same_assets gs s"
  "unstake_tx k n gs = Ok u s \<Longrightarrow> same_assets gs s"
  "allocate_shard_allowance k sh n gs = Ok u s \<Longrightarrow> same_assets gs s"
  "slash_conflict sh ep h k n gs = Ok u s \<Longrightarrow> same_assets gs s"
  "open_dispute i p d n ev gs = Ok u s \<Longrightarrow> same_assets gs s"
  by (auto simp: genesis_fund_def stake_tx_def unstake_tx_def allocate_shard_allowance_def
      slash_conflict_def open_dispute_def Let_def exec_iff same_assets_def split: if_splits)

lemma checkpoint_same_assets: "apply_checkpoint X c k gs = Ok u s \<Longrightarrow> same_assets gs s"
  by (auto simp: apply_checkpoint_def Let_def exec_iff same_assets_def split: if_splits option.splits)

lemma agent_same_assets:
  "register_agent k g m gs = Ok u s \<Longrightarrow> same_assets gs s"
  "suspend_agent g gs = Ok u s \<Longrightarrow> same_assets gs s"
  "update_reputation g dl r gs = Ok u s \<Longrightarrow> same_assets gs s"
  by (auto simp: register_agent_def suspend_agent_def update_reputation_def Let_def same_assets_def
      split: if_splits option.splits)

lemma contract_same_assets:
  "deploy_contract X H k h c gs = Ok u s \<Longrightarrow> same_assets gs s"
  "call_contract H k h e a b f gs = Ok u s \<Longrightarrow> same_assets gs s"
  by (auto simp: deploy_contract_def call_contract_def Let_def same_assets_def
      split: if_splits option.splits sum.splits)

lemma resolve_same_assets: "resolve_dispute i fp gs = Ok u s \<Longrightarrow> same_assets gs s"
  by (auto simp: resolve_dispute_eq exec_iff same_assets_def split: if_splits option.splits)
    (simp_all add: dispute_closed_def)

lemma run_tx_same_assets:
  assumes "run_tx X H tx gs = Ok u s" and "\<not> moves_assets tx"
  shows "same_assets gs s"
  using assms
  by (cases tx)
    (auto dest: money_tx_same_assets checkpoint_same_assets agent_same_assets contract_same_assets
      resolve_same_assets)

lemma run_tx_units:
  assumes "units_ok gs" and "run_tx X H tx gs = Ok u s"
  shows "units_ok s"
proof (cases "moves_assets tx")
  case True
  then show ?thesis
    using assms(2) by (cases tx) (auto dest: register_asset_units [OF assms(1)]
        mint_asset_units [OF assms(1)] transfer_asset_units [OF assms(1)] spot_trade_units [OF assms(1)])
next
  case False
  then show ?thesis using run_tx_same_assets [OF assms(2)] assms(1) units_ok_cong [of s gs] by (simp add: same_assets_def)
qed

section \<open>Escrow and disputes belong to accounts\<close>

definition same_escrow :: "global_state \<Rightarrow> global_state \<Rightarrow> bool" where
  "same_escrow gs s \<longleftrightarrow> gs_shard_outstanding s = gs_shard_outstanding gs \<and>
     gs_disputes s = gs_disputes gs \<and> fmdom (gs_accounts gs) |\<subseteq>| fmdom (gs_accounts s)"

lemma escrow_frame [simp]:
  "gs_shard_outstanding (push_event e gs) = gs_shard_outstanding gs"
  "gs_disputes (push_event e gs) = gs_disputes gs"
  "gs_accounts (push_event e gs) = gs_accounts gs"
  "gs_finalized (push_event e gs) = gs_finalized gs"
  "gs_shard_outstanding (set_account k a gs) = gs_shard_outstanding gs"
  "gs_disputes (set_account k a gs) = gs_disputes gs"
  "gs_accounts (set_account k a gs) = fmupd k a (gs_accounts gs)"
  "gs_finalized (set_account k a gs) = gs_finalized gs"
  "gs_shard_outstanding (credit_holding k i n gs) = gs_shard_outstanding gs"
  "gs_disputes (credit_holding k i n gs) = gs_disputes gs"
  "gs_accounts (credit_holding k i n gs) = gs_accounts gs"
  "gs_finalized (credit_holding k i n gs) = gs_finalized gs"
  by (simp_all add: push_event_def set_account_def credit_holding_def)

lemma escrow_ok_same: "escrow_ok gs \<Longrightarrow> same_escrow gs s \<Longrightarrow> escrow_ok s"
  unfolding escrow_ok_def same_escrow_def by (metis fsubsetD)

lemma modify_account_frame [simp]:
  "gs_shard_outstanding (modify_account k f gs) = gs_shard_outstanding gs"
  "gs_disputes (modify_account k f gs) = gs_disputes gs"
  "gs_finalized (modify_account k f gs) = gs_finalized gs"
  "fmdom (gs_accounts (modify_account k f gs)) = fmdom (gs_accounts gs)"
  by (auto simp: modify_account_def fmdomI split: option.split)

lemma money_tx_same_escrow:
  "genesis_fund k n gs = Ok u s \<Longrightarrow> same_escrow gs s"
  "stake_tx k n gs = Ok u s \<Longrightarrow> same_escrow gs s"
  "unstake_tx k n gs = Ok u s \<Longrightarrow> same_escrow gs s"
  "slash_conflict sh ep h k n gs = Ok u s \<Longrightarrow> same_escrow gs s"
  by (auto simp: genesis_fund_def stake_tx_def unstake_tx_def slash_conflict_def Let_def exec_iff
      same_escrow_def split: if_splits)

lemma agent_same_escrow:
  "register_agent k g m gs = Ok u s \<Longrightarrow> same_escrow gs s"
  "suspend_agent g gs = Ok u s \<Longrightarrow> same_escrow gs s"
  "update_reputation g dl r gs = Ok u s \<Longrightarrow> same_escrow gs s"
  by (auto simp: register_agent_def suspend_agent_def update_reputation_def Let_def same_escrow_def
      split: if_splits option.splits)

lemma contract_same_escrow:
  "deploy_contract X H k h c gs = Ok u s \<Longrightarrow> same_escrow gs s"
  "call_contract H k h e a b f gs = Ok u s \<Longrightarrow> same_escrow gs s"
  by (auto simp: deploy_contract_def call_contract_def Let_def same_escrow_def
      split: if_splits option.splits sum.splits)

lemma asset_same_escrow:
  "register_asset i k sy nm d m gs = Ok u s \<Longrightarrow> same_escrow gs s"
  "mint_asset i k t n gs = Ok u s \<Longrightarrow> same_escrow gs s"
  "transfer_asset i k t n gs = Ok u s \<Longrightarrow> same_escrow gs s"
  "spot_trade i b k n p gs = Ok u s \<Longrightarrow> same_escrow gs s"
proof -
  show "spot_trade i b k n p gs = Ok u s \<Longrightarrow> same_escrow gs s"
    by (auto dest!: spot_trade_Ok simp: debit_holding_Ok same_escrow_def paid_def)
qed (auto simp: register_asset_def mint_asset_def transfer_asset_def Let_def exec_iff same_escrow_def
    debit_holding_Ok split: if_splits option.splits)

lemma allocate_escrow:
  "escrow_ok gs \<Longrightarrow> allocate_shard_allowance k sh n gs = Ok u s \<Longrightarrow> escrow_ok s"
  by (auto simp: allocate_shard_allowance_def Let_def exec_iff escrow_ok_def fmdomI split: if_splits)

lemma checkpoint_escrow:
  "escrow_ok gs \<Longrightarrow> apply_checkpoint X c k gs = Ok u s \<Longrightarrow> escrow_ok s"
  by (auto simp: apply_checkpoint_def Let_def exec_iff escrow_ok_def fmdomI
      split: if_splits option.splits)

lemma open_dispute_escrow:
  "escrow_ok gs \<Longrightarrow> open_dispute i p d n ev gs = Ok u s \<Longrightarrow> escrow_ok s"
  by (auto simp: open_dispute_def exec_iff escrow_ok_def fmdomI split: if_splits)

lemma nudge_winner_frame [simp]:
  "gs_shard_outstanding (nudge_winner k a gs) = gs_shard_outstanding gs"
  "gs_disputes (nudge_winner k a gs) = gs_disputes gs"
  "gs_finalized (nudge_winner k a gs) = gs_finalized gs"
  "fmdom (gs_accounts (nudge_winner k a gs)) = finsert k (fmdom (gs_accounts gs))"
  by (auto simp: nudge_winner_def Let_def split: option.split)

lemma resolve_escrow:
  assumes "escrow_ok gs" and "resolve_dispute i fp gs = Ok u s"
  shows "escrow_ok s"
proof -
  obtain d where d: "fmlookup (gs_disputes gs) i = Some d"
    and f: "gs_disputes s = gs_disputes (dispute_closed i d fp gs)"
      "gs_shard_outstanding s = gs_shard_outstanding gs"
      "fmdom (gs_accounts gs) |\<subseteq>| fmdom (gs_accounts s)"
    using assms(2)
    by (auto simp: resolve_dispute_eq exec_iff split: if_splits option.splits)
      (auto simp: dispute_closed_def)
  show ?thesis
    using assms(1) d f(3) unfolding escrow_ok_def f(1,2)
    by (auto simp: dispute_closed_def split: if_splits)
qed

lemma run_tx_escrow:
  assumes "escrow_ok gs" and "run_tx X H tx gs = Ok u s"
  shows "escrow_ok s"
  using assms(2)
  by (cases tx)
    (auto dest: money_tx_same_escrow agent_same_escrow contract_same_escrow asset_same_escrow
      allocate_escrow [OF assms(1)] checkpoint_escrow [OF assms(1)] open_dispute_escrow [OF assms(1)]
      resolve_escrow [OF assms(1)] intro: escrow_ok_same [OF assms(1)])

section \<open>The invariant and the conservation check\<close>

lemma gs_ok_new [simp]: "gs_ok (global_state_new w)"
  by (simp add: gs_ok_def global_state_new_def money_def supply_of_def units_ok_def escrow_ok_def
      units_held_def minted_of_def)

lemma run_tx_ok:
  assumes "gs_ok gs" and "run_tx X H tx gs = Ok u s"
  shows "gs_ok s"
  using assms run_tx_money [OF assms(2)] run_tx_units [OF _ assms(2)] run_tx_escrow [OF _ assms(2)]
  by (simp add: gs_ok_def keeps_money_def)

lemma acc_value_sum:
  "fm_sum (\<lambda>_. acc_value) m = fm_sum (\<lambda>_ a. amt (balance_available a)) m
     + fm_sum (\<lambda>_ a. amt (balance_locked a) + amt (stake a)) m"
  unfolding fm_sum_add [symmetric] by (rule fm_sum_cong) (simp add: acc_value_def)

text \<open>The sums the code computes are these naturals, when they fit.\<close>

lemma check_conservation_eq:
  assumes "money gs < 2 ^ 128"
  shows "check_conservation gs =
     (if money gs \<noteq> supply_of gs then Err ConservationBroken gs else check_asset_conservation gs)"
proof -
  define av where "av = fm_sum (\<lambda>_ a. amt (balance_available a)) (gs_accounts gs)"
  define os where "os = fm_sum (\<lambda>_. amt) (gs_shard_outstanding gs)"
  define lk where "lk = fm_sum (\<lambda>_ a. amt (balance_locked a) + amt (stake a)) (gs_accounts gs)"
  define bo where "bo = fm_sum (\<lambda>_. open_bond) (gs_disputes gs)"
  have m: "money gs = av + lk + os + bo"
    by (simp add: money_def acc_value_sum av_def os_def lk_def bo_def)
  have fits: "av + lk + os + bo < 2 ^ 128" using assms m by simp
  have u: "unat (word_of_nat n :: u128) = n" if "n < 2 ^ 128" for n
    using that by (simp add: unat_of_nat)
  have add: "chk_add (word_of_nat m :: u128) (word_of_nat n) = Some (word_of_nat (m + n))"
    if "m + n < 2 ^ 128" for m n
    using that u [of m] u [of n] by (simp add: chk_add_def)
  have "available_sum gs = Some (word_of_nat av)"
    using fits by (simp add: available_sum_def chk_sum_fits av_def)
  moreover have "shard_outstanding_sum gs = Some (word_of_nat os)"
    using fits by (simp add: shard_outstanding_sum_def chk_sum_fits os_def)
  moreover have "locked_sum gs = Some (word_of_nat (lk + bo))"
    using fits add [of lk bo] by (simp add: locked_sum_def chk_sum_fits lk_def bo_def)
  moreover have "chk_add (word_of_nat av :: u128) (word_of_nat os) = Some (word_of_nat (av + os))"
    using fits by (intro add) simp
  moreover have "chk_add (word_of_nat (av + os) :: u128) (word_of_nat (lk + bo)) = Some (word_of_nat (money gs))"
    using fits by (subst add) (simp_all add: m ac_simps)
  moreover have "(word_of_nat (money gs) :: u128) = micros (gs_total_supply gs) \<longleftrightarrow> money gs = supply_of gs"
    using u [OF assms] by (auto simp: supply_of_def amt_def word_unat_eq_iff)
  ultimately show ?thesis by (simp add: check_conservation_def)
qed

lemma check_asset_conservation_ok:
  assumes "units_ok gs"
  shows "check_asset_conservation gs = Ok () gs"
proof -
  have sum: "chk_sum (units_of i) (gs_holdings gs) = Some (as_minted a)"
    and "\<not> as_max_supply a < as_minted a" if "fmlookup (gs_assets gs) i = Some a" for i a
  proof -
    have "fm_sum (units_of i) (gs_holdings gs) = unat (as_minted a)"
      using assms that by (simp add: units_ok_def units_held_def minted_of_def)
    then show "chk_sum (units_of i) (gs_holdings gs) = Some (as_minted a)"
      using unat_less_pow [of "as_minted a"] by (simp add: chk_sum_fits)
    show "\<not> as_max_supply a < as_minted a" using assms that by (simp add: units_ok_def not_less)
  qed
  then have "fmpred (\<lambda>i a. chk_sum (units_of i) (gs_holdings gs) = Some (as_minted a)
      \<and> \<not> as_max_supply a < as_minted a) (gs_assets gs)"
    by (intro fmpredI) simp
  moreover have "fmpred (\<lambda>i _. chk_sum (units_of i) (gs_holdings gs) \<noteq> None) (gs_assets gs)"
    using sum by (intro fmpredI) simp
  ultimately show ?thesis by (simp add: check_asset_conservation_def)
qed

lemma supply_lt: "supply_of gs < 2 ^ 128"
  unfolding supply_of_def by (rule amt_less_pow)

lemma check_conservation_ok: "gs_ok gs \<Longrightarrow> check_conservation gs = Ok () gs"
  using check_conservation_eq [of gs] supply_lt [of gs]
  by (simp add: gs_ok_def check_asset_conservation_ok)

text \<open>On a good state the check after a transaction never fires.\<close>

lemma apply_tx_run: "gs_ok gs \<Longrightarrow> apply_tx X H tx gs = run_tx X H tx gs"
proof -
  assume "gs_ok gs"
  then show "apply_tx X H tx gs = run_tx X H tx gs"
    using run_tx_ok [of gs X H tx] check_conservation_ok
    by (cases "run_tx X H tx gs") (auto simp: apply_tx_def)
qed

lemma apply_tx_ok: "gs_ok gs \<Longrightarrow> apply_tx X H tx gs = Ok u s \<Longrightarrow> gs_ok s"
  by (simp add: apply_tx_run run_tx_ok)

end
