(* ===== verification/Ledger_Errors.thy ===== *)
theory Ledger_Errors
  imports Ledger
begin

text \<open>
  The failing runs of the global ledger: which errors leave the state alone, when a transaction
  panics, what a half-done dispute leaves behind, and that a finalised checkpoint stays.
\<close>

section \<open>Errors\<close>

lemma debit_holding_Err:
  "debit_holding k i n gs = Err e s \<longleftrightarrow> holding gs k i < n \<and> e = InsufficientAssetUnits \<and> s = gs"
  by (auto simp: debit_holding_def Let_def)

lemma debit_holding_not_Panic [simp]: "debit_holding k i n gs \<noteq> Panic"
  by (simp add: debit_holding_def Let_def)

lemma money_tx_Err:
  "genesis_fund k n gs = Err e s \<Longrightarrow> s = gs"
  "stake_tx k n gs = Err e s \<Longrightarrow> s = gs"
  "unstake_tx k n gs = Err e s \<Longrightarrow> s = gs"
  "allocate_shard_allowance k sh n gs = Err e s \<Longrightarrow> s = gs"
  "slash_conflict sh ep h k n gs = Err e s \<Longrightarrow> s = gs"
  "open_dispute i p d n ev gs = Err e s \<Longrightarrow> s = gs"
  by (auto simp: genesis_fund_def stake_tx_def unstake_tx_def allocate_shard_allowance_def
      slash_conflict_def open_dispute_def Let_def exec_iff split: if_splits)

lemma agent_Err:
  "register_agent k g m gs = Err e s \<Longrightarrow> s = gs"
  "suspend_agent g gs = Err e s \<Longrightarrow> s = gs"
  "update_reputation g dl r gs = Err e s \<Longrightarrow> s = gs"
  by (auto simp: register_agent_def suspend_agent_def update_reputation_def Let_def
      split: if_splits option.splits)

lemma contract_Err:
  "deploy_contract X H k h c gs = Err e s \<Longrightarrow> s = gs"
  "call_contract H k h e' a b f gs = Err e s \<Longrightarrow> s = gs"
  by (auto simp: deploy_contract_def call_contract_def Let_def split: if_splits option.splits sum.splits)

lemma asset_Err:
  "register_asset i k sy nm d m gs = Err e s \<Longrightarrow> s = gs"
  "mint_asset i k t n gs = Err e s \<Longrightarrow> s = gs"
  "transfer_asset i k t n gs = Err e s \<Longrightarrow> s = gs"
  "spot_trade i b k n p gs = Err e s \<Longrightarrow> s = gs"
proof -
  show "spot_trade i b k n p gs = Err e s \<Longrightarrow> s = gs"
    by (auto simp: spot_trade_def Let_def exec_iff debit_holding_Err split: if_splits)
qed (auto simp: register_asset_def mint_asset_def transfer_asset_def Let_def exec_iff debit_holding_Err
    split: if_splits option.splits)

text \<open>The deduction made before the missing account is noticed needs escrow without an account.\<close>

lemma checkpoint_Err:
  assumes "escrow_ok gs" and "apply_checkpoint X c k gs = Err e s"
  shows "s = gs"
proof -
  have "k |\<in>| fmdom (gs_accounts gs)" if "fmlookup (gs_shard_outstanding gs) (sh, k) = Some out" for sh out
    using assms(1) that by (auto simp: escrow_ok_def dest: fmdomI)
  then show ?thesis
    using assms(2)
    by (fastforce simp: apply_checkpoint_def Let_def exec_iff fmlookup_dom_iff split: if_splits option.splits)
qed

lemma resolve_dispute_Err:
  assumes "resolve_dispute i fp gs = Err e s"
  shows "s = gs \<or> (\<exists>d. fmlookup (gs_disputes gs) i = Some d \<and> dis_status d = Open \<and>
    fmlookup (gs_accounts gs) (dispute_winner d fp) = None \<and> e = UnknownAccount \<and>
    s = dispute_closed i d fp gs)"
  using assms by (auto simp: resolve_dispute_eq exec_iff split: if_splits option.splits)

text \<open>A dispute whose resolution for the defendant finds no account.\<close>

definition stranded :: "b32 \<Rightarrow> dispute \<Rightarrow> global_state \<Rightarrow> bool" where
  "stranded i d gs \<longleftrightarrow> fmlookup (gs_disputes gs) i = Some d \<and> dis_status d = Open \<and>
     fmlookup (gs_accounts gs) (dis_defendant d) = None"

lemma run_tx_Err:
  assumes "escrow_ok gs" and "run_tx X H tx gs = Err e s"
  shows "s = gs \<or> (\<exists>i d. tx = ResolveDispute i False \<and> stranded i d gs \<and> e = UnknownAccount \<and>
    s = dispute_closed i d False gs)"
proof (cases tx)
  case (ResolveDispute i fp)
  have "fmlookup (gs_accounts gs) (dis_plaintiff d) \<noteq> None" if "fmlookup (gs_disputes gs) i = Some d" for d
    using assms(1) that unfolding escrow_ok_def by (metis fmdom_notI)
  then show ?thesis
    using resolve_dispute_Err [of i fp gs e s] assms(2) ResolveDispute
    by (cases fp) (auto simp: dispute_winner_def stranded_def)
next
  case (CheckpointFinalized c k)
  then show ?thesis using checkpoint_Err [OF assms(1)] assms(2) by simp
qed (use assms(2) in \<open>auto dest: money_tx_Err agent_Err contract_Err asset_Err\<close>)

lemma resolve_stranded:
  "stranded i d gs \<Longrightarrow> resolve_dispute i False gs = Err UnknownAccount (dispute_closed i d False gs)"
  by (simp add: stranded_def resolve_dispute_eq dispute_winner_def check_then_def account_of_def)

section \<open>A stranded bond stops the ledger\<close>

lemma check_conservation_short:
  assumes "money gs < supply_of gs"
  shows "check_conservation gs = Err ConservationBroken gs"
  using assms check_conservation_eq [of gs] supply_lt [of gs] by simp

lemma apply_tx_short:
  assumes "money gs < supply_of gs" and "run_tx X H tx gs = Ok u s"
  shows "apply_tx X H tx gs = Err ConservationBroken s" and "money s < supply_of s"
proof -
  have "keeps_money gs s" using run_tx_money [OF assms(2)] assms(1) by simp
  then show m: "money s < supply_of s" using assms(1) by (simp add: keeps_money_def)
  show "apply_tx X H tx gs = Err ConservationBroken s"
    using check_conservation_short [OF m] assms(2) by (simp add: apply_tx_def)
qed

section \<open>Panics\<close>

lemma fm_sum_two:
  assumes "fmlookup m j = Some v" "fmlookup m k = Some w" "j \<noteq> k"
  shows "f j v + f k w \<le> fm_sum f m"
  using fm_sum_split [OF assms(1), of f] fm_sum_ge [of "fmdrop j m" k w f] assms(2,3) by simp

lemma money_parts:
  assumes "money gs = supply_of gs"
  shows "fmlookup (gs_accounts gs) k = Some a \<Longrightarrow> acc_value a < 2 ^ 128"
    and "fmlookup (gs_accounts gs) k = Some a \<Longrightarrow> acc_value a + amt (outstanding_of j gs) < 2 ^ 128"
    and "fmlookup (gs_accounts gs) k = Some a \<Longrightarrow> fmlookup (gs_disputes gs) i = Some d \<Longrightarrow>
      acc_value a + open_bond d < 2 ^ 128"
    and "fmlookup (gs_accounts gs) k = Some a \<Longrightarrow> fmlookup (gs_accounts gs) l = Some b \<Longrightarrow> k \<noteq> l \<Longrightarrow>
      acc_value a + acc_value b < 2 ^ 128"
proof -
  have m: "money gs < 2 ^ 128" using assms supply_lt [of gs] by simp
  have o: "amt (outstanding_of j gs) \<le> fm_sum (\<lambda>_. amt) (gs_shard_outstanding gs)"
    using fm_sum_ge [of "gs_shard_outstanding gs" j _ "\<lambda>_. amt"]
    by (auto simp: outstanding_of_def split: option.split)
  show "acc_value a < 2 ^ 128" if "fmlookup (gs_accounts gs) k = Some a"
    using money_ge [OF that] m by simp
  show "acc_value a + amt (outstanding_of j gs) < 2 ^ 128" if "fmlookup (gs_accounts gs) k = Some a"
    using fm_sum_ge [OF that, of "\<lambda>_. acc_value"] o m by (simp add: money_def)
  show "acc_value a + open_bond d < 2 ^ 128"
    if "fmlookup (gs_accounts gs) k = Some a" "fmlookup (gs_disputes gs) i = Some d"
    using fm_sum_ge [OF that(1), of "\<lambda>_. acc_value"] fm_sum_ge [OF that(2), of "\<lambda>_. open_bond"] m
    by (simp add: money_def)
  show "acc_value a + acc_value b < 2 ^ 128"
    if "fmlookup (gs_accounts gs) k = Some a" "fmlookup (gs_accounts gs) l = Some b" "k \<noteq> l"
    using fm_sum_two [OF that, of "\<lambda>_. acc_value"] m by (simp add: money_def)
qed

lemma chk_add_None_u128: "chk_add (micros a) (micros b) = None \<longleftrightarrow> 2 ^ 128 \<le> amt a + amt b"
  by (simp add: chk_add_overflow amt_def)

lemma genesis_fund_Panic:
  assumes "money gs = supply_of gs"
  shows "genesis_fund k n gs = Panic \<longleftrightarrow> 2 ^ 128 \<le> supply_of gs + amt n"
proof -
  have "amt (balance_available (case fmlookup (gs_accounts gs) k of None \<Rightarrow> new_human k (AmountMicros 0) | Some a \<Rightarrow> a))
      \<le> supply_of gs"
    using money_ge [of gs k] assms
    by (auto simp: acc_value_def new_human_def split: option.split)
  then show ?thesis
    by (auto simp: genesis_fund_def Let_def exec_iff chk_add_None_u128 supply_of_def)
      (simp add: chk_add_def amt_def)
qed

lemma money_tx_no_panic:
  assumes "money gs = supply_of gs"
  shows "stake_tx k n gs \<noteq> Panic" "unstake_tx k n gs \<noteq> Panic"
    "allocate_shard_allowance k sh n gs \<noteq> Panic" "slash_conflict sh ep h k n gs \<noteq> Panic"
    "open_dispute i p d n ev gs \<noteq> Panic"
proof -
  note v = money_parts(1) [OF assms] money_parts(2) [OF assms]
  show "stake_tx k n gs \<noteq> Panic" "unstake_tx k n gs \<noteq> Panic"
    by (fastforce simp: stake_tx_def unstake_tx_def exec_iff chk_add_None_u128 micros_less_amt acc_value_def
        dest: v(1) split: if_splits)+
  show "allocate_shard_allowance k sh n gs \<noteq> Panic"
    by (fastforce simp: allocate_shard_allowance_def Let_def exec_iff chk_add_None_u128 micros_less_amt
        acc_value_def dest: v(2) [where j = "(shard_str sh, k)"] split: if_splits)
qed (auto simp: slash_conflict_def open_dispute_def Let_def exec_iff split: if_splits)

lemma checkpoint_no_panic:
  assumes "money gs = supply_of gs"
  shows "apply_checkpoint X c k gs \<noteq> Panic"
proof
  assume "apply_checkpoint X c k gs = Panic"
  moreover define h where "h = sc_header (wc_checkpoint c)"
  moreover define sh where "sh = shard_str (hd_shard_id h)"
  ultimately obtain a out where o: "fmlookup (gs_shard_outstanding gs) (sh, k) = Some out"
    and n: "amt (hd_exposure h) \<le> amt out" and a: "fmlookup (gs_accounts gs) k = Some a"
    and p: "2 ^ 128 \<le> amt (balance_locked a) + amt (hd_exposure h)"
    by (auto simp: apply_checkpoint_def Let_def exec_iff chk_add_None_u128 micros_less_amt
        split: if_splits option.splits)
  have "outstanding_of (sh, k) gs = out" using o by (simp add: outstanding_of_def)
  then show False
    using money_parts(2) [OF assms a, of "(sh, k)"] n p by (simp add: acc_value_def)
qed

lemma resolve_no_panic:
  assumes "money gs = supply_of gs"
  shows "resolve_dispute i fp gs \<noteq> Panic"
proof
  assume "resolve_dispute i fp gs = Panic"
  then obtain d a where d: "fmlookup (gs_disputes gs) i = Some d" "dis_status d = Open"
    and a: "fmlookup (gs_accounts gs) (dispute_winner d fp) = Some a"
    and p: "2 ^ 128 \<le> amt (balance_available a) + amt (dis_bond d)"
    by (auto simp: resolve_dispute_eq exec_iff chk_add_None_u128 split: if_splits option.splits)
  show False
    using money_parts(3) [OF assms a d(1)] d(2) p by (simp add: acc_value_def open_bond_def)
qed

lemma spot_trade_no_panic:
  assumes "money gs = supply_of gs"
  shows "spot_trade i b k n p gs \<noteq> Panic"
proof
  assume "spot_trade i b k n p gs = Panic"
  then obtain x y where x: "fmlookup (gs_accounts gs) b = Some x" and y: "fmlookup (gs_accounts gs) k = Some y"
    and ne: "b \<noteq> k" and le: "amt p \<le> amt (balance_available x)"
    and o: "2 ^ 128 \<le> amt (balance_available y) + amt p"
    by (auto simp: spot_trade_def Let_def exec_iff chk_add_None_u128 micros_less_amt split: if_splits)
  show False using money_parts(4) [OF assms x y ne] le o by (simp add: acc_value_def)
qed

lemma mint_asset_Panic:
  "mint_asset i k t n gs = Panic \<Longrightarrow>
   \<exists>a. fmlookup (gs_assets gs) i = Some a \<and> as_max_supply a = - 1 \<and> 2 ^ 128 \<le> unat (as_minted a) + unat n"
  by (auto simp: mint_asset_def exec_iff chk_add_overflow sat_add_def not_less word_order.extremum_unique
      split: if_splits option.splits)

lemma other_no_panic:
  "register_agent k g m gs \<noteq> Panic" "suspend_agent g gs \<noteq> Panic" "update_reputation g dl r gs \<noteq> Panic"
  "deploy_contract X H k h c gs \<noteq> Panic" "call_contract H k h ex a b f gs \<noteq> Panic"
  "register_asset i k sy nm dc mx gs \<noteq> Panic" "transfer_asset i k t n gs \<noteq> Panic"
  by (auto simp: register_agent_def suspend_agent_def update_reputation_def deploy_contract_def
      call_contract_def register_asset_def transfer_asset_def Let_def exec_iff
      split: if_splits option.splits sum.splits)

text \<open>The headroom a transaction needs: supply for new money, the word for new units.\<close>

fun headroom :: "l1_tx \<Rightarrow> global_state \<Rightarrow> bool" where
  "headroom (GenesisFund k n) gs = (supply_of gs + amt n < 2 ^ 128)"
| "headroom (MintAsset i k t n) gs = (minted_of gs i + unat n < 2 ^ 128)"
| "headroom _ _ = True"

lemma run_tx_no_panic:
  assumes "money gs = supply_of gs" and "headroom tx gs"
  shows "run_tx X H tx gs \<noteq> Panic"
  using assms genesis_fund_Panic [OF assms(1)] money_tx_no_panic [OF assms(1)] checkpoint_no_panic [OF assms(1)]
    resolve_no_panic [OF assms(1)] spot_trade_no_panic [OF assms(1)] other_no_panic mint_asset_Panic
  by (cases tx) (auto simp: minted_of_def dest: mint_asset_Panic)

section \<open>Finalised checkpoints\<close>

lemma apply_checkpoint_Ok:
  assumes "apply_checkpoint X c k gs = Ok u s"
  shows "verify_witnessed X c (gs_min_witnesses gs) = Inr ()"
    and "fmlookup (gs_finalized gs) (header_key (sc_header (wc_checkpoint c))) = None"
    and "gs_finalized s = fmupd (header_key (sc_header (wc_checkpoint c)))
      (hd_root (sc_header (wc_checkpoint c))) (gs_finalized gs)"
  using assms
  by (auto simp: apply_checkpoint_def Let_def exec_iff split: if_splits option.splits)

lemma apply_checkpoint_again:
  assumes "fmlookup (gs_finalized gs) (header_key (sc_header (wc_checkpoint c))) = Some r"
    and "verify_witnessed X c (gs_min_witnesses gs) = Inr ()"
  shows "apply_checkpoint X c k gs =
    Err (if r = hd_root (sc_header (wc_checkpoint c)) then CheckpointAlreadyFinalized else ExecConflictingCheckpoint) gs"
  using assms by (simp add: apply_checkpoint_def)

fun finalises :: "l1_tx \<Rightarrow> bool" where
  "finalises (CheckpointFinalized _ _) = True"
| "finalises _ = False"

definition same_finalized :: "global_state \<Rightarrow> global_state \<Rightarrow> bool" where
  "same_finalized gs s \<longleftrightarrow> gs_finalized s = gs_finalized gs"

lemma tx_same_finalized:
  "genesis_fund k n gs = Ok u s \<Longrightarrow> same_finalized gs s"
  "stake_tx k n gs = Ok u s \<Longrightarrow> same_finalized gs s"
  "unstake_tx k n gs = Ok u s \<Longrightarrow> same_finalized gs s"
  "allocate_shard_allowance k sh n gs = Ok u s \<Longrightarrow> same_finalized gs s"
  "slash_conflict sh ep h k n gs = Ok u s \<Longrightarrow> same_finalized gs s"
  "open_dispute i p d n ev gs = Ok u s \<Longrightarrow> same_finalized gs s"
  "register_agent k g m gs = Ok u s \<Longrightarrow> same_finalized gs s"
  "suspend_agent g gs = Ok u s \<Longrightarrow> same_finalized gs s"
  "update_reputation g dl r gs = Ok u s \<Longrightarrow> same_finalized gs s"
  "deploy_contract X H k h' c gs = Ok u s \<Longrightarrow> same_finalized gs s"
  "call_contract H k h' e a b f gs = Ok u s \<Longrightarrow> same_finalized gs s"
  "register_asset ai k sy nm dc mx gs = Ok u s \<Longrightarrow> same_finalized gs s"
  "mint_asset ai k t w gs = Ok u s \<Longrightarrow> same_finalized gs s"
  "transfer_asset ai k t w gs = Ok u s \<Longrightarrow> same_finalized gs s"
  by (auto simp: same_finalized_def genesis_fund_def stake_tx_def unstake_tx_def
      allocate_shard_allowance_def slash_conflict_def open_dispute_def register_agent_def
      suspend_agent_def update_reputation_def deploy_contract_def call_contract_def
      register_asset_def mint_asset_def transfer_asset_def debit_holding_Ok Let_def exec_iff
      split: if_splits option.splits sum.splits)

lemma trade_same_finalized: "spot_trade ai b k w p gs = Ok u s \<Longrightarrow> same_finalized gs s"
  by (auto dest!: spot_trade_Ok simp: debit_holding_Ok paid_def same_finalized_def)

lemma resolve_same_finalized: "resolve_dispute i fp gs = Ok u s \<Longrightarrow> same_finalized gs s"
  by (auto simp: resolve_dispute_eq exec_iff same_finalized_def split: if_splits option.splits)
    (simp_all add: dispute_closed_def)

lemma run_tx_finalized:
  assumes "run_tx X H tx gs = Ok u s" and "fmlookup (gs_finalized gs) key = Some r"
  shows "fmlookup (gs_finalized s) key = Some r"
proof (cases "finalises tx")
  case True
  then show ?thesis using assms apply_checkpoint_Ok [of X _ _ gs u s] by (cases tx) auto
next
  case False
  then have "same_finalized gs s"
    using assms(1) by (cases tx) (auto dest: tx_same_finalized trade_same_finalized resolve_same_finalized)
  then show ?thesis using assms(2) by (simp add: same_finalized_def)
qed

end
