(* ===== verification/Ledger_Theorems.thy ===== *)
theory Ledger_Theorems
  imports Ledger_Errors Sample_Codec
begin

text \<open>
  The theorems about the global ledger: conservation, error atomicity, absence of panics,
  finality of checkpoints, delivery versus payment, and the symbol index. The sample ledger
  has two funded accounts, an escrow, an asset and an open dispute against a missing account.
\<close>

section \<open>Sequences of transactions\<close>

text \<open>The state after a list of transactions; failed ones leave what they leave, a panic stops.\<close>

fun ledger_after :: "crypto \<Rightarrow> wasm_host \<Rightarrow> global_state \<Rightarrow> l1_tx list \<Rightarrow> global_state" where
  "ledger_after X H gs [] = gs"
| "ledger_after X H gs (tx # txs) =
     (case outcome_state (apply_tx X H tx gs) of None \<Rightarrow> gs | Some s \<Rightarrow> ledger_after X H s txs)"

lemma check_conservation_state: "outcome_state (check_conservation gs) = Some s \<Longrightarrow> s = gs"
  by (cases "check_conservation gs")
    (auto simp: check_conservation_def check_asset_conservation_def exec_iff split: if_splits)

lemma apply_tx_state:
  assumes "outcome_state (apply_tx X H tx gs) = Some s"
  shows "outcome_state (run_tx X H tx gs) = Some s"
proof (cases "run_tx X H tx gs")
  case (Ok a m)
  then show ?thesis using assms check_conservation_state [of m s] by (simp add: apply_tx_def)
qed (use assms in \<open>simp_all add: apply_tx_def\<close>)

lemma run_tx_Err_finalized:
  assumes "run_tx X H tx gs = Err e s"
  shows "gs_finalized s = gs_finalized gs"
proof (cases tx)
  case (ResolveDispute i fp)
  then show ?thesis
    using resolve_dispute_Err [of i fp gs e s] assms by (auto simp: dispute_closed_def)
next
  case (CheckpointFinalized c k)
  then show ?thesis
    using assms by (auto simp: apply_checkpoint_def Let_def exec_iff split: if_splits option.splits)
qed (use assms in \<open>auto dest: money_tx_Err agent_Err contract_Err asset_Err\<close>)

lemma apply_tx_keeps_finalized:
  assumes "outcome_state (apply_tx X H tx gs) = Some s" and "fmlookup (gs_finalized gs) key = Some r"
  shows "fmlookup (gs_finalized s) key = Some r"
proof (cases "run_tx X H tx gs")
  case (Ok a m)
  then show ?thesis
    using apply_tx_state [OF assms(1)] run_tx_finalized [OF Ok assms(2)] by simp
next
  case (Err e m)
  then show ?thesis
    using apply_tx_state [OF assms(1)] run_tx_Err_finalized [OF Err] assms(2) by simp
next
  case Panic
  then show ?thesis using apply_tx_state [OF assms(1)] by simp
qed

lemma ledger_after_keeps_finalized:
  "fmlookup (gs_finalized gs) key = Some r \<Longrightarrow> fmlookup (gs_finalized (ledger_after X H gs txs)) key = Some r"
  by (induction txs arbitrary: gs) (auto dest: apply_tx_keeps_finalized split: option.split)

lemma run_tx_min_witnesses:
  assumes "outcome_state (run_tx X H tx gs) = Some s"
  shows "gs_min_witnesses s = gs_min_witnesses gs"
proof -
  have f: "gs_min_witnesses (push_event e g) = gs_min_witnesses g"
    "gs_min_witnesses (set_account k a g) = gs_min_witnesses g"
    "gs_min_witnesses (credit_holding k i n g) = gs_min_witnesses g"
    "gs_min_witnesses (modify_account k m g) = gs_min_witnesses g"
    "gs_min_witnesses (nudge_winner k a g) = gs_min_witnesses g"
    "gs_min_witnesses (dispute_closed x d fp g) = gs_min_witnesses g"
    "gs_min_witnesses (paid k l a b p g) = gs_min_witnesses g"
    for e k l a b i n m x d fp p g
    by (auto simp: push_event_def set_account_def credit_holding_def modify_account_def
        nudge_winner_def dispute_closed_def paid_def Let_def split: option.split)
  have spot: "gs_min_witnesses t = gs_min_witnesses gs" if "spot_trade i b k n p gs = Ok u t" for i b k n p u t
    using spot_trade_Ok [OF that] by (auto simp: debit_holding_Ok f)
  show ?thesis
  proof (cases "run_tx X H tx gs")
    case (Ok u t)
    then have "gs_min_witnesses t = gs_min_witnesses gs"
      by (cases tx)
        (auto simp: genesis_fund_def stake_tx_def unstake_tx_def
          allocate_shard_allowance_def slash_conflict_def open_dispute_def register_agent_def
          suspend_agent_def update_reputation_def deploy_contract_def call_contract_def
          register_asset_def mint_asset_def transfer_asset_def debit_holding_Ok apply_checkpoint_def
          resolve_dispute_eq Let_def exec_iff f dest: spot
          split: if_splits option.splits sum.splits)
    then show ?thesis using Ok assms by simp
  next
    case (Err e t)
    then have "gs_min_witnesses t = gs_min_witnesses gs"
    proof (cases tx)
      case (ResolveDispute i fp)
      then show ?thesis using resolve_dispute_Err [of i fp gs e t] Err by (auto simp: f)
    next
      case (CheckpointFinalized c k)
      then show ?thesis
        using Err by (auto simp: apply_checkpoint_def Let_def exec_iff split: if_splits option.splits)
    qed (auto dest: money_tx_Err agent_Err contract_Err asset_Err)
    then show ?thesis using Err assms by simp
  qed (use assms in simp)
qed

lemma ledger_after_min_witnesses: "gs_min_witnesses (ledger_after X H gs txs) = gs_min_witnesses gs"
  by (induction txs arbitrary: gs) (auto dest: apply_tx_state run_tx_min_witnesses split: option.split)

section \<open>The symbol index\<close>


lemma symbols_frame [simp]:
  "gs_asset_symbols (push_event e gs) = gs_asset_symbols gs"
  "gs_asset_symbols (set_account k a gs) = gs_asset_symbols gs"
  "gs_asset_symbols (credit_holding k i n gs) = gs_asset_symbols gs"
  "gs_asset_symbols (modify_account k m gs) = gs_asset_symbols gs"
  "gs_asset_symbols (nudge_winner k a gs) = gs_asset_symbols gs"
  "gs_asset_symbols (dispute_closed x d fp gs) = gs_asset_symbols gs"
  "gs_asset_symbols (paid k l a b p gs) = gs_asset_symbols gs"
  by (auto simp: push_event_def set_account_def credit_holding_def modify_account_def
      nudge_winner_def dispute_closed_def paid_def Let_def split: option.split)




lemma apply_tx_Ok_run:
  assumes "apply_tx X H tx gs = Ok u s"
  shows "run_tx X H tx gs = Ok () s"
  using assms check_conservation_state [of _ s] by (force simp: apply_tx_def exec_iff)

section \<open>Balances after a trade and after a checkpoint\<close>

definition avail_of :: "global_state \<Rightarrow> account_id \<Rightarrow> nat" where
  "avail_of gs k = (case fmlookup (gs_accounts gs) k of None \<Rightarrow> 0 | Some a \<Rightarrow> amt (balance_available a))"

definition locked_of :: "global_state \<Rightarrow> account_id \<Rightarrow> nat" where
  "locked_of gs k = (case fmlookup (gs_accounts gs) k of None \<Rightarrow> 0 | Some a \<Rightarrow> amt (balance_locked a))"

lemma held_credit:
  assumes "held gs k i + unat n < 2 ^ 128"
  shows "held (credit_holding k i n gs) p j = held gs p j + (if p = k \<and> j = i then unat n else 0)"
  using assms by (auto simp: held_def holding_def credit_holding_def unat_sat_add)

lemma held_debit:
  assumes "debit_holding k i n gs = Ok u s"
  shows "held s p j + (if p = k \<and> j = i then unat n else 0) = held gs p j"
  using assms unat_minus_fits [of n "holding gs k i"]
  by (auto simp: debit_holding_Ok held_def holding_def word_le_nat_alt)

lemma held_push [simp]: "held (push_event e gs) p j = held gs p j"
  by (simp add: held_def holding_def)

lemma spot_trade_holdings:
  assumes "units_ok gs" and "spot_trade i b k n p gs = Ok u t"
  shows "held t l j + (if l = k \<and> j = i then unat n else 0)
    = held gs l j + (if l = b \<and> j = i then unat n else 0)"
proof -
  obtain x y e g where ne: "b \<noteq> k" and g: "debit_holding k i n (paid b k x y p gs) = Ok () g"
    and t: "t = push_event e (credit_holding b i n g)"
    using spot_trade_Ok [OF assms(2)] by blast
  have "units_held (paid b k x y p gs) i < 2 ^ 128" using units_ok_lt [OF assms(1)] by simp
  then have fits: "held g b i + unat n < 2 ^ 128" using transfer_fits [OF g] by simp
  have "held (paid b k x y p gs) l j = held gs l j" by (simp add: held_def)
  then show ?thesis
    using held_debit [OF g, of l j] held_credit [OF fits, of l j] ne by (auto simp: t)
qed

lemma spot_trade_balances:
  assumes "spot_trade i b k n p gs = Ok u t"
  shows "avail_of t b + amt p = avail_of gs b" and "avail_of t k = avail_of gs k + amt p" and "b \<noteq> k"
    and "l \<noteq> b \<Longrightarrow> l \<noteq> k \<Longrightarrow> fmlookup (gs_accounts t) l = fmlookup (gs_accounts gs) l"
proof -
  obtain x y e g where ne: "b \<noteq> k" and x: "fmlookup (gs_accounts gs) b = Some x"
    and y: "fmlookup (gs_accounts gs) k = Some y" and le: "amt p \<le> amt (balance_available x)"
    and fits: "amt (balance_available y) + amt p < 2 ^ 128"
    and g: "debit_holding k i n (paid b k x y p gs) = Ok () g"
    and t: "t = push_event e (credit_holding b i n g)"
    using spot_trade_Ok [OF assms] by blast
  have acc: "gs_accounts t = gs_accounts (paid b k x y p gs)"
    using g by (auto simp: t debit_holding_Ok)
  have "unat (micros (balance_available x) - micros p) + amt p = amt (balance_available x)"
    using le unat_minus_fits [of "micros p" "micros (balance_available x)"] by (simp add: amt_def word_le_nat_alt)
  moreover have "unat (micros (balance_available y) + micros p) = amt (balance_available y) + amt p"
    using fits unat_plus_fits [of "micros (balance_available y)" "micros p"] by (simp add: amt_def)
  ultimately show "avail_of t b + amt p = avail_of gs b" "avail_of t k = avail_of gs k + amt p" "b \<noteq> k"
    "l \<noteq> b \<Longrightarrow> l \<noteq> k \<Longrightarrow> fmlookup (gs_accounts t) l = fmlookup (gs_accounts gs) l"
    using ne x y by (simp_all add: avail_of_def acc paid_def)
qed

lemma checkpoint_moves:
  assumes "apply_checkpoint X c k gs = Ok u s"
  defines "h \<equiv> sc_header (wc_checkpoint c)"
  shows "amt (outstanding_of (shard_str (hd_shard_id h), k) s) + amt (hd_exposure h)
      = amt (outstanding_of (shard_str (hd_shard_id h), k) gs)"
    and "locked_of s k = locked_of gs k + amt (hd_exposure h)"
    and "avail_of s l = avail_of gs l"
proof -
  have p: "amt (hd_exposure h) \<le> amt out \<Longrightarrow>
      unat (micros out - micros (hd_exposure h)) + amt (hd_exposure h) = amt out" for out
    using unat_minus_fits [of "micros (hd_exposure h)" "micros out"] by (simp add: amt_def word_le_nat_alt)
  show "amt (outstanding_of (shard_str (hd_shard_id h), k) s) + amt (hd_exposure h)
      = amt (outstanding_of (shard_str (hd_shard_id h), k) gs)"
    "locked_of s k = locked_of gs k + amt (hd_exposure h)" "avail_of s l = avail_of gs l"
    using assms(1) p
    by (auto simp: apply_checkpoint_def Let_def exec_iff h_def [symmetric] micros_less_amt
        outstanding_of_def locked_of_def avail_of_def amt_def not_less
        dest!: chk_add_Some split: if_splits option.splits)
qed

section \<open>A sample ledger\<close>

definition sample_wasm :: wasm_host where
  "sample_wasm =
     \<lparr> wh_parse_wat = (\<lambda>bs. Inr ([0x00, 0x61, 0x73, 0x6d] @ bs)), wh_module_new = (\<lambda>bs. Inr ()),
       wh_set_fuel = (\<lambda>f. Inr ()), wh_instantiate = (\<lambda>bs f. Inr ()), wh_has_export = (\<lambda>bs e. True),
       wh_call = (\<lambda>bs f e a b. Inr (a + b)) \<rparr>"

definition sample_dispute :: dispute where
  "sample_dispute = \<lparr> dis_id = 3, dis_plaintiff = AccountId 1, dis_defendant = AccountId 9,
     dis_bond = AmountMicros 5, dis_status = Open, dis_evidence_hash = 0 \<rparr>"

definition sample_asset :: asset where
  "sample_asset = \<lparr> as_asset_id = AssetId 7, as_symbol = ''GOLD'', as_name = ''Gold'',
     as_issuer = AccountId 1, as_decimals = 2, as_max_supply = 100, as_minted = 40 \<rparr>"

definition sample_ledger :: global_state where
  "sample_ledger = (global_state_new 0)
     \<lparr> gs_accounts := fmupd (AccountId 1) (new_human (AccountId 1) (AmountMicros 85))
         (fmupd (AccountId 2) (new_human (AccountId 2) (AmountMicros 50)) fmempty),
       gs_total_supply := AmountMicros 150,
       gs_shard_outstanding := fmupd (''S'', AccountId 1) (AmountMicros 10) fmempty,
       gs_disputes := fmupd 3 sample_dispute fmempty,
       gs_assets := fmupd (AssetId 7) sample_asset fmempty,
       gs_asset_symbols := fmupd ''GOLD'' (AssetId 7) fmempty,
       gs_holdings := fmupd (AccountId 1, AssetId 7) 40 fmempty \<rparr>"

lemma sample_ledger_ok: "gs_ok sample_ledger"
proof -
  have "money sample_ledger = 150"
    by (simp add: money_def sample_ledger_def global_state_new_def fm_sum_new acc_value_def new_human_def
        sample_dispute_def open_bond_def)
  moreover have "supply_of sample_ledger = 150" by (simp add: supply_of_def sample_ledger_def)
  moreover have "units_ok sample_ledger"
    by (auto simp: units_ok_def units_held_def minted_of_def sample_ledger_def global_state_new_def
        fm_sum_new units_of_def sample_asset_def)
  moreover have "escrow_ok sample_ledger"
    by (auto simp: escrow_ok_def sample_ledger_def global_state_new_def sample_dispute_def split: if_splits)
  ultimately show ?thesis by (simp add: gs_ok_def)
qed

lemma sample_ledger_stranded: "stranded 3 sample_dispute sample_ledger"
  by (simp add: stranded_def sample_ledger_def global_state_new_def sample_dispute_def)

definition sample_trade :: l1_tx where
  "sample_trade = SpotTrade (AssetId 7) (AccountId 2) (AccountId 1) 15 (AmountMicros 30)"

text \<open>The trade goes through on the sample ledger.\<close>

lemma sample_trade_run: "\<exists>s. run_tx X H sample_trade sample_ledger = Ok () s"
  by (simp add: sample_trade_def spot_trade_def Let_def ensure_active_def check_then_def sample_ledger_def
      global_state_new_def new_human_def holding_def set_account_def chk_add_def and_then_def
      debit_holding_def)

lemma sample_trade_applies:
  "apply_tx X H sample_trade sample_ledger =
     Ok () (the (outcome_state (apply_tx X H sample_trade sample_ledger)))"
  using sample_trade_run [of X H] by (auto simp: apply_tx_run [OF sample_ledger_ok])

definition sample_checkpoint :: witnessed_checkpoint where
  "sample_checkpoint =
     \<lparr> wc_checkpoint = the (own_checkpoint sample_crypto (Keypair 5)
         \<lparr> hd_shard_id = ShardId ''S'', hd_epoch = Epoch 1, hd_root = 77, hd_height = 1, hd_tx_count = 1,
           hd_exposure = AmountMicros 4, hd_sealed_at_unix_ms = 0 \<rparr>),
       wc_witness_sigs = [] \<rparr>"

lemma sample_checkpoint_header [simp]:
  "sc_header (wc_checkpoint sample_checkpoint) =
     \<lparr> hd_shard_id = ShardId ''S'', hd_epoch = Epoch 1, hd_root = 77, hd_height = 1, hd_tx_count = 1,
       hd_exposure = AmountMicros 4, hd_sealed_at_unix_ms = 0 \<rparr>"
  using sign_checkpoint_total [OF sample_crypto_ok]
  by (auto simp: sample_checkpoint_def own_checkpoint_def make_checkpoint_def split: sum.split)
    (metis Inl_Inr_False)

lemma sample_checkpoint_verifies: "verify_witnessed sample_crypto sample_checkpoint 0 = Inr ()"
proof -
  obtain sig where s: "sign_checkpoint sample_crypto (Keypair 5)
      \<lparr> hd_shard_id = ShardId ''S'', hd_epoch = Epoch 1, hd_root = 77, hd_height = 1, hd_tx_count = 1,
       hd_exposure = AmountMicros 4, hd_sealed_at_unix_ms = 0 \<rparr> = Inr sig"
    using sign_checkpoint_total [OF sample_crypto_ok] by blast
  show ?thesis
    using verify_make_checkpoint [OF sample_crypto_ok s] s
    by (simp add: verify_witnessed_Inr sample_checkpoint_def own_checkpoint_def)
qed

lemma sample_checkpoint_run:
  "\<exists>s. run_tx sample_crypto H (CheckpointFinalized sample_checkpoint (AccountId 1)) sample_ledger = Ok () s"
proof -
  have "verify_witnessed sample_crypto sample_checkpoint (gs_min_witnesses sample_ledger) = Inr ()"
    using sample_checkpoint_verifies by (simp add: sample_ledger_def global_state_new_def)
  then show ?thesis
    by (simp add: apply_checkpoint_def header_key_def)
      (simp add: Let_def account_of_def check_then_def chk_add_def sample_ledger_def global_state_new_def
        new_human_def)
qed

section \<open>Lemmas for the theorems\<close>

lemma run_tx_not_broken:
  "run_tx X H tx gs \<noteq> Err ConservationBroken s" "run_tx X H tx gs \<noteq> Err AssetConservationBroken s"
proof -
  have "run_tx X H tx gs = Err e s \<Longrightarrow> e \<noteq> ConservationBroken \<and> e \<noteq> AssetConservationBroken" for e
    by (cases tx)
      (auto simp: genesis_fund_def stake_tx_def unstake_tx_def
        allocate_shard_allowance_def slash_conflict_def open_dispute_def register_agent_def
        suspend_agent_def update_reputation_def deploy_contract_def call_contract_def
        register_asset_def mint_asset_def transfer_asset_def spot_trade_def debit_holding_Err apply_checkpoint_def
        resolve_dispute_eq Let_def exec_iff ensure_active_def
        split: if_splits option.splits sum.splits)
  then show "run_tx X H tx gs \<noteq> Err ConservationBroken s" "run_tx X H tx gs \<noteq> Err AssetConservationBroken s"
    by blast+
qed

lemma dispute_closed_frame [simp]:
  "supply_of (dispute_closed i d fp gs) = supply_of gs"
  "gs_accounts (dispute_closed i d fp gs) = gs_accounts gs"
  "gs_shard_outstanding (dispute_closed i d fp gs) = gs_shard_outstanding gs"
  "gs_assets (dispute_closed i d fp gs) = gs_assets gs"
  by (simp_all add: dispute_closed_def)

lemma dispute_closed_escrow:
  "escrow_ok gs \<Longrightarrow> fmlookup (gs_disputes gs) i = Some d \<Longrightarrow> escrow_ok (dispute_closed i d fp gs)"
  by (auto simp: escrow_ok_def) (auto simp: dispute_closed_def split: if_splits)

text \<open>Once money is missing, it stays missing, and no transaction goes through.\<close>

lemma short_apply:
  assumes "escrow_ok gs" and "money gs < supply_of gs"
  shows "apply_tx X H tx gs \<noteq> Ok u s"
    and "outcome_state (apply_tx X H tx gs) = Some s \<Longrightarrow> escrow_ok s \<and> money s < supply_of s"
proof -
  show "apply_tx X H tx gs \<noteq> Ok u s"
    using apply_tx_short(1) [OF assms(2), of X H tx u s] apply_tx_Ok_run [of X H tx gs u s]
    by (metis apply_tx_short(1) assms(2) outcome.distinct(1))
  assume st: "outcome_state (apply_tx X H tx gs) = Some s"
  show "escrow_ok s \<and> money s < supply_of s"
  proof (cases "run_tx X H tx gs")
    case (Ok v t)
    then have "s = t" using apply_tx_state [OF st] by simp
    then show ?thesis using apply_tx_short(2) [OF assms(2) Ok] run_tx_escrow [OF assms(1) Ok] by simp
  next
    case (Err e t)
    then have t: "s = t" using apply_tx_state [OF st] by simp
    show ?thesis
    proof (cases "t = gs")
      case False
      then obtain i d where "stranded i d gs" and c: "t = dispute_closed i d False gs"
        using run_tx_Err [OF assms(1) Err] by blast
      then have d: "fmlookup (gs_disputes gs) i = Some d" "dis_status d = Open" by (simp_all add: stranded_def)
      then show ?thesis
        using dispute_closed_money [OF d, of False] dispute_closed_escrow [OF assms(1) d(1)] assms(2) t c by simp
    qed (use t assms in simp)
  next
    case Panic
    then show ?thesis using apply_tx_state [OF st] by simp
  qed
qed

lemma short_ledger:
  assumes "escrow_ok gs" and "money gs < supply_of gs"
  shows "escrow_ok (ledger_after X H gs txs) \<and> money (ledger_after X H gs txs) < supply_of (ledger_after X H gs txs)"
  using assms
proof (induction txs arbitrary: gs)
  case (Cons tx txs)
  then show ?case using short_apply(2) [OF Cons.prems, of X H tx] by (auto split: option.split)
qed simp

lemma check_conservation_fits: "check_conservation gs = Ok () s \<Longrightarrow> money gs < 2 ^ 128"
proof -
  assume "check_conservation gs = Ok () s"
  then obtain av os avos al bo lk lhs where
    "available_sum gs = Some av" "shard_outstanding_sum gs = Some os" "chk_add av os = Some avos"
    "chk_sum (\<lambda>_ a. amt (balance_locked a) + amt (stake a)) (gs_accounts gs) = Some al"
    "chk_sum (\<lambda>_. open_bond) (gs_disputes gs) = Some bo" "chk_add al bo = Some lk"
    "chk_add avos lk = Some lhs"
    by (auto simp: check_conservation_def locked_sum_def exec_iff split: option.splits)
  then have "money gs = unat lhs"
    by (auto simp: money_def acc_value_sum available_sum_def shard_outstanding_sum_def
        dest!: chk_add_Some chk_sum_Some)
  then show "money gs < 2 ^ 128" using unat_less_pow [of lhs] by simp
qed

lemma check_asset_conservation_iff:
  "check_asset_conservation gs = Ok () s \<longleftrightarrow> s = gs \<and>
     fmpred (\<lambda>i a. units_held gs i = unat (as_minted a) \<and> as_minted a \<le> as_max_supply a) (gs_assets gs)"
proof -
  have eq: "chk_sum (units_of i) (gs_holdings gs) = Some m \<longleftrightarrow> units_held gs i = unat m" for i m
    using unat_less_pow [of m] chk_sum_Some [of "units_of i" "gs_holdings gs" m]
    by (auto simp: units_held_def chk_sum_fits)
  have "check_asset_conservation gs = Ok () s \<longleftrightarrow> s = gs \<and>
      fmpred (\<lambda>i a. chk_sum (units_of i) (gs_holdings gs) = Some (as_minted a)
        \<and> \<not> as_max_supply a < as_minted a) (gs_assets gs)"
    unfolding check_asset_conservation_def fmpred_iff by (auto split: if_splits)
  then show ?thesis by (simp add: eq not_less)
qed


text \<open>A transaction that fails touches neither the index nor a symbol.\<close>

lemma run_tx_Err_symbols:
  assumes "run_tx X H tx gs = Err e t"
  shows "gs_asset_symbols t = gs_asset_symbols gs"
    and "map_option as_symbol (fmlookup (gs_assets t) i) = map_option as_symbol (fmlookup (gs_assets gs) i)"
proof -
  have "gs_asset_symbols t = gs_asset_symbols gs \<and> gs_assets t = gs_assets gs"
  proof (cases tx)
    case (ResolveDispute i fp)
    then show ?thesis using resolve_dispute_Err [of i fp gs e t] assms by auto
  next
    case (CheckpointFinalized c k)
    then show ?thesis
      using assms by (auto simp: apply_checkpoint_def Let_def exec_iff split: if_splits option.splits)
  qed (use assms in \<open>auto dest: money_tx_Err agent_Err contract_Err asset_Err\<close>)
  then show "gs_asset_symbols t = gs_asset_symbols gs"
    "map_option as_symbol (fmlookup (gs_assets t) i) = map_option as_symbol (fmlookup (gs_assets gs) i)"
    by simp_all
qed


text \<open>A symbol once registered stays with its asset, whatever is executed.\<close>

lemma run_tx_symbol_kept:
  assumes "run_tx X H tx gs = Ok u s" and "fmlookup (gs_asset_symbols gs) key = Some i"
  shows "fmlookup (gs_asset_symbols s) key = Some i"
proof (cases tx)
  case (RegisterAsset j k sy nm d m)
  then have "to_ascii_uppercase sy |\<notin>| fmdom (gs_asset_symbols gs)"
    and "gs_asset_symbols s = fmupd (to_ascii_uppercase sy) j (gs_asset_symbols gs)"
    using assms(1) by (auto simp: register_asset_def Let_def exec_iff push_event_def split: if_splits)
  moreover have "key |\<in>| fmdom (gs_asset_symbols gs)" using assms(2) by (rule fmdomI)
  ultimately show ?thesis using assms(2) by auto
next
  case (SpotTrade j b k n p)
  then show ?thesis using assms spot_trade_Ok [of j b k n p gs u s] by (auto simp: debit_holding_Ok credit_holding_def)
qed (use assms in \<open>auto simp: genesis_fund_def stake_tx_def unstake_tx_def
          allocate_shard_allowance_def slash_conflict_def open_dispute_def register_agent_def
          suspend_agent_def update_reputation_def deploy_contract_def call_contract_def
          apply_checkpoint_def resolve_dispute_eq mint_asset_def transfer_asset_def debit_holding_Ok Let_def exec_iff
          split: if_splits option.splits sum.splits\<close>)

lemma ledger_after_symbol:
  assumes "fmlookup (gs_asset_symbols gs) key = Some i"
  shows "fmlookup (gs_asset_symbols (ledger_after X H gs txs)) key = Some i"
  using assms
proof (induction txs arbitrary: gs)
  case (Cons tx txs)
  have "fmlookup (gs_asset_symbols s) key = Some i" if "outcome_state (apply_tx X H tx gs) = Some s" for s
  proof (cases "run_tx X H tx gs")
    case (Ok u t)
    then show ?thesis using apply_tx_state [OF that] run_tx_symbol_kept [OF Ok Cons.prems] by simp
  next
    case (Err e t)
    then show ?thesis using apply_tx_state [OF that] run_tx_Err_symbols(1) [OF Err] Cons.prems by simp
  next
    case Panic
    then show ?thesis using apply_tx_state [OF that] by simp
  qed
  then show ?case using Cons by (auto split: option.split)
qed simp

section \<open>Theorems\<close>

text \<open>C1: On a good ledger every transaction leaves a good ledger, whether it succeeds or fails:
  the money adds up to the supply, the units of every asset to what was minted within its
  maximum, and escrow belongs to accounts. The one exception is resolving a dispute for a
  defendant that has no account.\<close>

theorem ledger_conservation:
  assumes "gs_ok gs" and "outcome_state (apply_tx X H tx gs) = Some s"
    and "\<not> (\<exists>i d. tx = ResolveDispute i False \<and> stranded i d gs)"
  shows "gs_ok s"
proof (cases "run_tx X H tx gs")
  case (Ok u t)
  then show ?thesis using run_tx_ok [OF assms(1) Ok] assms(2) by (simp add: apply_tx_run [OF assms(1)])
next
  case (Err e t)
  have "escrow_ok gs" using assms(1) by (simp add: gs_ok_def)
  then have "t = gs" using run_tx_Err [OF _ Err] assms(3) by blast
  then show ?thesis using assms(1,2) Err by (simp add: apply_tx_run [OF assms(1)])
qed (use assms in \<open>simp add: apply_tx_run\<close>)

lemma ledger_conservation_witness:
  "gs_ok (the (outcome_state (apply_tx sample_crypto sample_wasm sample_trade sample_ledger)))"
  by (rule ledger_conservation [OF sample_ledger_ok, of sample_crypto sample_wasm sample_trade])
    (subst sample_trade_applies, simp, simp add: sample_trade_def)

text \<open>From a good ledger the conservation check that ends every transaction never fires: no
  transaction returns either conservation error.\<close>

lemma conservation_check_never_fires:
  assumes "gs_ok gs"
  shows "apply_tx X H tx gs \<noteq> Err ConservationBroken s \<and> apply_tx X H tx gs \<noteq> Err AssetConservationBroken s"
  using run_tx_not_broken [of X H tx gs s] by (simp add: apply_tx_run [OF assms])

lemma conservation_check_never_fires_witness:
  "apply_tx sample_crypto sample_wasm (ResolveDispute 3 True) sample_ledger
     \<noteq> Err ConservationBroken sample_ledger"
  using conservation_check_never_fires [OF sample_ledger_ok] by blast

text \<open>C21: A transaction that fails on a good ledger changes nothing, except that resolving a dispute
  for a defendant without account closes the dispute and then reports the unknown account.\<close>

theorem ledger_error_atomic:
  assumes "gs_ok gs" and "apply_tx X H tx gs = Err e s"
  shows "s = gs \<or> (\<exists>i d. tx = ResolveDispute i False \<and> stranded i d gs \<and> e = UnknownAccount \<and>
    s = dispute_closed i d False gs)"
  using assms run_tx_Err [of gs X H tx e s] by (simp add: apply_tx_run gs_ok_def)

lemma ledger_error_atomic_witness:
  "apply_tx sample_crypto sample_wasm (Stake (AccountId 4) (AmountMicros 1)) sample_ledger
     = Err UnknownAccount sample_ledger \<and>
   (sample_ledger = sample_ledger \<or>
    (\<exists>i d. Stake (AccountId 4) (AmountMicros 1) = ResolveDispute i False \<and> stranded i d sample_ledger \<and>
      UnknownAccount = UnknownAccount \<and> sample_ledger = dispute_closed i d False sample_ledger))"
proof -
  have run: "apply_tx sample_crypto sample_wasm (Stake (AccountId 4) (AmountMicros 1)) sample_ledger
     = Err UnknownAccount sample_ledger"
    by (simp add: apply_tx_def stake_tx_def check_then_def account_of_def sample_ledger_def global_state_new_def)
  show ?thesis by (intro conjI run ledger_error_atomic [OF sample_ledger_ok run])
qed

text \<open>C33: On a good ledger no transaction panics, provided that new money fits the supply and new
  units fit the word; in particular no balance, escrow or conservation sum overflows.\<close>

theorem ledger_no_panic:
  assumes "gs_ok gs" and "headroom tx gs"
  shows "apply_tx X H tx gs \<noteq> Panic"
  using assms run_tx_no_panic [of gs tx X H] by (simp add: apply_tx_run gs_ok_def)

lemma ledger_no_panic_witness:
  "apply_tx sample_crypto sample_wasm (GenesisFund (AccountId 2) (AmountMicros 1000)) sample_ledger \<noteq> Panic"
  by (rule ledger_no_panic [OF sample_ledger_ok]) (simp add: supply_of_def sample_ledger_def)

text \<open>C20: A checkpoint position is finalised at most once: after a checkpoint went through and any
  further transactions ran, every other verified checkpoint for the same shard, epoch and
  height is refused without effect, as already finalised when its root is the same and as
  conflicting when it is not.\<close>

theorem checkpoint_finalised_once:
  assumes "apply_tx X H (CheckpointFinalized c k) gs = Ok u s"
    and "verify_witnessed X c' (gs_min_witnesses gs) = Inr ()"
    and "header_key (sc_header (wc_checkpoint c')) = header_key (sc_header (wc_checkpoint c))"
  shows "apply_tx X H (CheckpointFinalized c' k') (ledger_after X H s txs) =
    Err (if hd_root (sc_header (wc_checkpoint c)) = hd_root (sc_header (wc_checkpoint c'))
         then CheckpointAlreadyFinalized else ExecConflictingCheckpoint) (ledger_after X H s txs)"
proof -
  let ?t = "ledger_after X H s txs"
  have run: "apply_checkpoint X c k gs = Ok () s" using apply_tx_Ok_run [OF assms(1)] by simp
  have "fmlookup (gs_finalized ?t) (header_key (sc_header (wc_checkpoint c')))
      = Some (hd_root (sc_header (wc_checkpoint c)))"
    using apply_checkpoint_Ok(3) [OF run] assms(3) by (intro ledger_after_keeps_finalized) simp
  moreover have "gs_min_witnesses ?t = gs_min_witnesses gs"
    using run_tx_min_witnesses [of X H "CheckpointFinalized c k" gs s] run
    by (simp add: ledger_after_min_witnesses)
  ultimately show ?thesis
    using apply_checkpoint_again [of ?t c'] assms(2) by (simp add: apply_tx_def)
qed

lemma checkpoint_finalised_once_witness:
  "\<exists>s. apply_tx sample_crypto sample_wasm (CheckpointFinalized sample_checkpoint (AccountId 1)) s =
     Err CheckpointAlreadyFinalized s"
proof -
  obtain s where "apply_tx sample_crypto sample_wasm
      (CheckpointFinalized sample_checkpoint (AccountId 1)) sample_ledger = Ok () s"
    using sample_checkpoint_run by (auto simp: apply_tx_run [OF sample_ledger_ok])
  moreover have "verify_witnessed sample_crypto sample_checkpoint (gs_min_witnesses sample_ledger) = Inr ()"
    using sample_checkpoint_verifies by (simp add: sample_ledger_def global_state_new_def)
  ultimately show ?thesis
    using checkpoint_finalised_once [of sample_crypto sample_wasm sample_checkpoint "AccountId 1"
        sample_ledger "()" s sample_checkpoint "AccountId 1" "[]"] by auto
qed

text \<open>A spot trade is delivery versus payment: the price moves from the buyer's available
  balance to the seller's, the units from the seller's holding to the buyer's, and no other
  account, holding or asset changes.\<close>

lemma spot_trade_delivery_versus_payment:
  assumes "gs_ok gs" and "apply_tx X H (SpotTrade i b k n p) gs = Ok u t"
  shows "avail_of t b + amt p = avail_of gs b \<and> avail_of t k = avail_of gs k + amt p
    \<and> (\<forall>l j. held t l j + (if l = k \<and> j = i then unat n else 0)
             = held gs l j + (if l = b \<and> j = i then unat n else 0))
    \<and> fmfilter (\<lambda>l. l \<noteq> b \<and> l \<noteq> k) (gs_accounts t) = fmfilter (\<lambda>l. l \<noteq> b \<and> l \<noteq> k) (gs_accounts gs)
    \<and> b \<noteq> k \<and> n \<noteq> 0 \<and> gs_assets t = gs_assets gs"
proof -
  have r: "spot_trade i b k n p gs = Ok () t" using apply_tx_Ok_run [OF assms(2)] by simp
  have "units_ok gs" using assms(1) by (simp add: gs_ok_def)
  moreover have "fmfilter (\<lambda>l. l \<noteq> b \<and> l \<noteq> k) (gs_accounts t) = fmfilter (\<lambda>l. l \<noteq> b \<and> l \<noteq> k) (gs_accounts gs)"
    using spot_trade_balances(4) [OF r] by (intro fmap_ext) auto
  moreover have "n \<noteq> 0 \<and> gs_assets t = gs_assets gs"
    using spot_trade_Ok [OF r] by (auto simp: debit_holding_Ok credit_holding_def)
  ultimately show ?thesis
    using spot_trade_holdings [OF _ r] spot_trade_balances(1,2,3) [OF r] by blast
qed

lemma spot_trade_delivery_versus_payment_witness:
  "\<exists>t. avail_of t (AccountId 2) = 20 \<and> avail_of t (AccountId 1) = 115
     \<and> held t (AccountId 2) (AssetId 7) = 15 \<and> held t (AccountId 1) (AssetId 7) = 25"
proof -
  obtain t where t: "apply_tx sample_crypto sample_wasm sample_trade sample_ledger = Ok () t"
    using sample_trade_applies by blast
  have "avail_of sample_ledger (AccountId 2) = 50" "avail_of sample_ledger (AccountId 1) = 85"
    "held sample_ledger (AccountId 2) (AssetId 7) = 0" "held sample_ledger (AccountId 1) (AssetId 7) = 40"
    by (simp_all add: avail_of_def held_def holding_def sample_ledger_def global_state_new_def new_human_def)
  moreover note dvp = spot_trade_delivery_versus_payment [OF sample_ledger_ok t [unfolded sample_trade_def]]
  moreover have "held t (AccountId 2) (AssetId 7) = held sample_ledger (AccountId 2) (AssetId 7) + 15"
    and "held t (AccountId 1) (AssetId 7) + 15 = held sample_ledger (AccountId 1) (AssetId 7)"
    using dvp [THEN conjunct2, THEN conjunct2, THEN conjunct1, rule_format, of "AccountId 2" "AssetId 7"]
      dvp [THEN conjunct2, THEN conjunct2, THEN conjunct1, rule_format, of "AccountId 1" "AssetId 7"]
    by simp_all
  ultimately show ?thesis by (intro exI [of _ t]) simp
qed

text \<open>Finalising a checkpoint settles its exposure exactly: the amount leaves the funding
  account's escrow for that shard and enters its locked balance, and no available balance
  changes.\<close>

lemma checkpoint_settles_exposure:
  assumes "apply_tx X H (CheckpointFinalized c k) gs = Ok u s"
  shows "amt (outstanding_of (shard_str (hd_shard_id (sc_header (wc_checkpoint c))), k) s)
      + amt (hd_exposure (sc_header (wc_checkpoint c)))
      = amt (outstanding_of (shard_str (hd_shard_id (sc_header (wc_checkpoint c))), k) gs)
    \<and> locked_of s k = locked_of gs k + amt (hd_exposure (sc_header (wc_checkpoint c)))
    \<and> (\<forall>l. avail_of s l = avail_of gs l)"
proof -
  have r: "apply_checkpoint X c k gs = Ok () s" using apply_tx_Ok_run [OF assms] by simp
  show ?thesis using checkpoint_moves [OF r] by blast
qed

lemma checkpoint_settles_exposure_witness:
  "\<exists>s. amt (outstanding_of (''S'', AccountId 1) s) = 6 \<and> locked_of s (AccountId 1) = 4"
proof -
  obtain s where s: "apply_tx sample_crypto sample_wasm
      (CheckpointFinalized sample_checkpoint (AccountId 1)) sample_ledger = Ok () s"
    using sample_checkpoint_run by (auto simp: apply_tx_run [OF sample_ledger_ok])
  have "amt (outstanding_of (''S'', AccountId 1) sample_ledger) = 10" "locked_of sample_ledger (AccountId 1) = 0"
    by (simp_all add: outstanding_of_def locked_of_def sample_ledger_def global_state_new_def new_human_def)
  then show ?thesis using checkpoint_settles_exposure [OF s] by (intro exI [of _ s]) simp
qed

text \<open>C37: Resolving a dispute for a defendant without account loses its bond and halts the ledger:
  the resolution fails but closes the dispute, and afterwards no transaction ever succeeds.\<close>

theorem stranded_bond_halts_ledger:
  assumes "gs_ok gs" and "stranded i d gs" and "0 < amt (dis_bond d)"
  shows "apply_tx X H (ResolveDispute i False) gs = Err UnknownAccount (dispute_closed i d False gs)
    \<and> apply_tx X H tx (ledger_after X H (dispute_closed i d False gs) txs) \<noteq> Ok u s"
proof -
  have d: "fmlookup (gs_disputes gs) i = Some d" "dis_status d = Open"
    using assms(2) by (simp_all add: stranded_def)
  have e: "escrow_ok (dispute_closed i d False gs)"
    using dispute_closed_escrow [OF _ d(1)] assms(1) by (simp add: gs_ok_def)
  have "money (dispute_closed i d False gs) < supply_of (dispute_closed i d False gs)"
    using dispute_closed_money [OF d, of False] assms(1,3) by (simp add: gs_ok_def)
  then have "apply_tx X H tx (ledger_after X H (dispute_closed i d False gs) txs) \<noteq> Ok u s"
    using short_ledger [OF e] short_apply(1) by blast
  then show ?thesis using resolve_stranded [OF assms(2)] by (simp add: apply_tx_def)
qed

lemma stranded_bond_halts_ledger_witness:
  "apply_tx sample_crypto sample_wasm (GenesisFund (AccountId 1) (AmountMicros 1))
     (ledger_after sample_crypto sample_wasm (dispute_closed 3 sample_dispute False sample_ledger) [])
     \<noteq> Ok () sample_ledger"
  by (rule stranded_bond_halts_ledger [OF sample_ledger_ok sample_ledger_stranded, THEN conjunct2])
    (simp add: sample_dispute_def)

text \<open>The conservation check accepts a state exactly when its money adds up to the supply and the
  units of each registered asset add up to what was minted, within the maximum; it changes
  nothing.\<close>

lemma conservation_check_exact:
  "check_conservation gs = Ok u s \<longleftrightarrow> s = gs \<and> money gs = supply_of gs \<and>
     fmpred (\<lambda>i a. units_held gs i = unat (as_minted a) \<and> as_minted a \<le> as_max_supply a) (gs_assets gs)"
proof (cases "money gs < 2 ^ 128")
  case True
  then show ?thesis using check_asset_conservation_iff [of gs s] by (simp add: check_conservation_eq)
next
  case False
  then show ?thesis using check_conservation_fits [of gs s] supply_lt [of gs] by auto
qed




end
