(* ===== verification/Ledger_Book.thy ===== *)
theory Ledger_Book
  imports Ledger_Theorems
begin

text \<open>
  The global ledger (\<open>crates/execute/src/lib.rs\<close>) as double-entry bookkeeping. The specification
  knows nothing of maps, words or errors: a \<^emph>\<open>book\<close> gives every pot its amount, and a transaction
  is a list of postings from one pot to another, allowed when the pots cover them. The ledger
  refines it: it takes a transaction exactly when its parties are permitted and its postings are
  covered, and then the book changes by these postings and by nothing else.
\<close>

section \<open>The specification\<close>

text \<open>
  \<open>Outside\<close> is where new money and new assets come from and where penalties go. An asset's
  maximum lies in its \<open>Unissued\<close> pot when it is registered, and minting takes it from there.
\<close>

datatype pot =
    Outside
  | Available account_id
  | Locked account_id
  | Staked account_id
  | Escrow string account_id
  | Bond b32
  | Unissued asset_id
  | Held account_id asset_id

type_synonym book = "pot \<Rightarrow> nat"

type_synonym posting = "pot \<times> pot \<times> nat"

fun covered :: "posting \<Rightarrow> book \<Rightarrow> bool" where
  "covered (p, q, n) B \<longleftrightarrow> p = Outside \<or> n \<le> B p"

fun post :: "posting \<Rightarrow> book \<Rightarrow> book" where
  "post (p, q, n) B = (\<lambda>r. if r = Outside then 0 else B r + (if r = q then n else 0) - (if r = p then n else 0))"

fun post_all :: "posting list \<Rightarrow> book \<Rightarrow> book" where
  "post_all [] B = B"
| "post_all (e # es) B = post_all es (post e B)"

section \<open>What a transaction posts and who may make it\<close>

definition bond_winner :: "b32 \<Rightarrow> bool \<Rightarrow> global_state \<Rightarrow> account_id option" where
  "bond_winner i for_plaintiff gs =
     (case fmlookup (gs_disputes gs) i of
        None \<Rightarrow> None
      | Some d \<Rightarrow> if dis_status d = Open then Some (dispute_winner d for_plaintiff) else None)"

fun postings :: "l1_tx \<Rightarrow> global_state \<Rightarrow> book \<Rightarrow> posting list" where
  "postings (GenesisFund k n) gs B = [(Outside, Available k, amt n)]"
| "postings (Stake k n) gs B = [(Available k, Staked k, amt n)]"
| "postings (Unstake k n) gs B = [(Staked k, Available k, amt n)]"
| "postings (AllocateShardAllowance k s n) gs B = [(Available k, Escrow (shard_str s) k, amt n)]"
| "postings (CheckpointFinalized c k) gs B =
     [(Escrow (shard_str (hd_shard_id (sc_header (wc_checkpoint c)))) k, Locked k,
       amt (hd_exposure (sc_header (wc_checkpoint c))))]"
| "postings (SlashConflict s e h k n) gs B = [(Staked k, Outside, min (amt n) (B (Staked k)))]"
| "postings (OpenDispute i p d n v) gs B = [(Available p, Bond i, amt n)]"
| "postings (ResolveDispute i fp) gs B =
     (case bond_winner i fp gs of None \<Rightarrow> [] | Some w \<Rightarrow> [(Bond i, Available w, B (Bond i))])"
| "postings (RegisterAsset i k s n d m) gs B = [(Outside, Unissued i, unat m)]"
| "postings (MintAsset i k t u) gs B = [(Unissued i, Held t i, unat u)]"
| "postings (TransferAsset i f t u) gs B = [(Held f i, Held t i, unat u)]"
| "postings (SpotTrade i b s u p) gs B = [(Available b, Available s, amt p), (Held s i, Held b i, unat u)]"
| "postings _ gs B = []"

definition known :: "account_id \<Rightarrow> global_state \<Rightarrow> bool" where
  "known k gs \<longleftrightarrow> fmlookup (gs_accounts gs) k \<noteq> None"

definition active :: "account_id \<Rightarrow> global_state \<Rightarrow> bool" where
  "active k gs \<longleftrightarrow> (case fmlookup (gs_accounts gs) k of None \<Rightarrow> False | Some a \<Rightarrow> \<not> acc_suspended a)"

text \<open>Everything a transaction needs besides covered postings.\<close>

fun permitted :: "crypto \<Rightarrow> wasm_host \<Rightarrow> l1_tx \<Rightarrow> global_state \<Rightarrow> bool" where
  "permitted X H (GenesisFund k n) gs = True"
| "permitted X H (Stake k n) gs = active k gs"
| "permitted X H (Unstake k n) gs = known k gs"
| "permitted X H (AllocateShardAllowance k s n) gs = known k gs"
| "permitted X H (CheckpointFinalized c k) gs =
     (let h = sc_header (wc_checkpoint c) in
      verify_witnessed X c (gs_min_witnesses gs) = Inr () \<and> fmlookup (gs_finalized gs) (header_key h) = None \<and>
      fmlookup (gs_shard_outstanding gs) (shard_str (hd_shard_id h), k) \<noteq> None)"
| "permitted X H (SlashConflict s e h k n) gs = known k gs"
| "permitted X H (RegisterAgent k g m) gs = (fmlookup (gs_agents gs) g = None)"
| "permitted X H (SuspendAgent g) gs = (fmlookup (gs_agents gs) g \<noteq> None)"
| "permitted X H (UpdateReputation g d r) gs = (fmlookup (gs_agents gs) g \<noteq> None)"
| "permitted X H (DeployContract k h c) gs =
     (known k gs \<and> (case wasm_compile H c of Inl _ \<Rightarrow> False | Inr m \<Rightarrow> h = code_hash X m \<or> h = code_hash X c))"
| "permitted X H (CallContract k h e a b f) gs =
     (known k gs \<and> (case fmlookup (gs_contracts gs) h of None \<Rightarrow> False
        | Some m \<Rightarrow> \<not> isl (call_i32_i32 H m e a b (if f = 0 then gs_default_fuel gs else f))))"
| "permitted X H (OpenDispute i p d n v) gs = (fmlookup (gs_disputes gs) i = None \<and> known p gs)"
| "permitted X H (ResolveDispute i fp) gs =
     (case bond_winner i fp gs of None \<Rightarrow> False | Some w \<Rightarrow> known w gs)"
| "permitted X H (RegisterAsset i k s n d m) gs =
     (active k gs \<and> fmlookup (gs_assets gs) i = None \<and> s \<noteq> [] \<and>
      fmlookup (gs_asset_symbols gs) (to_ascii_uppercase s) = None \<and> m \<noteq> 0)"
| "permitted X H (MintAsset i k t u) gs =
     (u \<noteq> 0 \<and> active k gs \<and> active t gs \<and> map_option as_issuer (fmlookup (gs_assets gs) i) = Some k)"
| "permitted X H (TransferAsset i f t u) gs =
     (u \<noteq> 0 \<and> fmlookup (gs_assets gs) i \<noteq> None \<and> active f gs \<and> active t gs)"
| "permitted X H (SpotTrade i b s u p) gs =
     (u \<noteq> 0 \<and> b \<noteq> s \<and> fmlookup (gs_assets gs) i \<noteq> None \<and> active b gs \<and> active s gs)"

definition may_post :: "crypto \<Rightarrow> wasm_host \<Rightarrow> l1_tx \<Rightarrow> global_state \<Rightarrow> book \<Rightarrow> bool" where
  "may_post X H tx gs B \<longleftrightarrow> permitted X H tx gs \<and> list_all (\<lambda>e. covered e B) (postings tx gs B)"

section \<open>The book of a ledger\<close>

definition staked_of :: "global_state \<Rightarrow> account_id \<Rightarrow> nat" where
  "staked_of gs k = (case fmlookup (gs_accounts gs) k of None \<Rightarrow> 0 | Some a \<Rightarrow> amt (stake a))"

definition bond_of :: "global_state \<Rightarrow> b32 \<Rightarrow> nat" where
  "bond_of gs i = (case fmlookup (gs_disputes gs) i of None \<Rightarrow> 0 | Some d \<Rightarrow> open_bond d)"

definition unissued_of :: "global_state \<Rightarrow> asset_id \<Rightarrow> nat" where
  "unissued_of gs i =
     (case fmlookup (gs_assets gs) i of None \<Rightarrow> 0 | Some a \<Rightarrow> unat (as_max_supply a) - unat (as_minted a))"

fun book_of :: "global_state \<Rightarrow> book" where
  "book_of gs Outside = 0"
| "book_of gs (Available k) = avail_of gs k"
| "book_of gs (Locked k) = locked_of gs k"
| "book_of gs (Staked k) = staked_of gs k"
| "book_of gs (Escrow s k) = amt (outstanding_of (s, k) gs)"
| "book_of gs (Bond i) = bond_of gs i"
| "book_of gs (Unissued i) = unissued_of gs i"
| "book_of gs (Held k i) = held gs k i"

section \<open>A transaction that goes through is permitted, covered and posted\<close>

lemma amt_sub: "amt n \<le> amt a \<Longrightarrow> amt (AmountMicros (micros a - micros n)) = amt a - amt n"
  by (simp add: amt_def unat_minus_fits word_le_nat_alt)

lemma amt_chk: "chk_add (micros a) (micros n) = Some w \<Longrightarrow> amt (AmountMicros w) = amt a + amt n"
  using chk_add_Some [of "micros a" "micros n" w] by (simp add: amt_def)

lemma book_push [simp]: "book_of (push_event e gs) = book_of gs"
proof
  show "book_of (push_event e gs) r = book_of gs r" for r
    by (cases r) (simp_all add: avail_of_def locked_of_def staked_of_def outstanding_of_def bond_of_def
        unissued_of_def held_def holding_def push_event_def)
qed

lemmas book_defs = avail_of_def locked_of_def staked_of_def outstanding_of_def bond_of_def unissued_of_def
  held_def holding_def set_account_def

text \<open>Two books are the same when they agree on every pot.\<close>

lemma genesis_book:
  assumes "genesis_fund k n gs = Ok u t"
  shows "book_of t = post (Outside, Available k, amt n) (book_of gs)"
proof
  let ?a = "case fmlookup (gs_accounts gs) k of None \<Rightarrow> new_human k (AmountMicros 0) | Some a \<Rightarrow> a"
  obtain av ts e where av: "chk_add (micros (balance_available ?a)) (micros n) = Some av"
    and t: "t = push_event e ((set_account k (?a\<lparr> balance_available := AmountMicros av \<rparr>) gs)\<lparr> gs_total_supply := ts \<rparr>)"
    using assms by (auto simp: genesis_fund_def Let_def exec_iff)
  show "book_of t r = post (Outside, Available k, amt n) (book_of gs) r" for r
    using amt_chk [OF av]
    by (cases r) (auto simp: t book_defs new_human_def split: option.split)
qed

lemma stake_book:
  assumes "stake_tx k n gs = Ok u t"
  shows "active k gs \<and> amt n \<le> avail_of gs k \<and> book_of t = post (Available k, Staked k, amt n) (book_of gs)"
proof -
  obtain a st e where a: "fmlookup (gs_accounts gs) k = Some a" "\<not> acc_suspended a"
    and n: "amt n \<le> amt (balance_available a)" and st: "chk_add (micros (stake a)) (micros n) = Some st"
    and t: "t = push_event e (set_account k (a\<lparr> balance_available := AmountMicros (micros (balance_available a) - micros n),
      stake := AmountMicros st \<rparr>) gs)"
    using assms by (auto simp: stake_tx_def exec_iff micros_less_amt split: if_splits)
  have "book_of t r = post (Available k, Staked k, amt n) (book_of gs) r" for r
    using amt_chk [OF st] amt_sub [OF n] a(1) by (cases r) (auto simp: t book_defs)
  then show ?thesis using a n by (auto simp: active_def avail_of_def)
qed

lemma unstake_book:
  assumes "unstake_tx k n gs = Ok u t"
  shows "known k gs \<and> amt n \<le> staked_of gs k \<and> book_of t = post (Staked k, Available k, amt n) (book_of gs)"
proof -
  obtain a av e where a: "fmlookup (gs_accounts gs) k = Some a"
    and n: "amt n \<le> amt (stake a)" and av: "chk_add (micros (balance_available a)) (micros n) = Some av"
    and t: "t = push_event e (set_account k (a\<lparr> stake := AmountMicros (micros (stake a) - micros n),
      balance_available := AmountMicros av \<rparr>) gs)"
    using assms by (auto simp: unstake_tx_def exec_iff micros_less_amt split: if_splits)
  have "book_of t r = post (Staked k, Available k, amt n) (book_of gs) r" for r
    using amt_chk [OF av] amt_sub [OF n] a by (cases r) (auto simp: t book_defs)
  then show ?thesis using a n by (auto simp: known_def staked_of_def)
qed

lemma allocate_book:
  assumes "allocate_shard_allowance k s n gs = Ok u t"
  shows "known k gs \<and> amt n \<le> avail_of gs k \<and> book_of t = post (Available k, Escrow (shard_str s) k, amt n) (book_of gs)"
proof -
  obtain a w e where a: "fmlookup (gs_accounts gs) k = Some a" and n: "amt n \<le> amt (balance_available a)"
    and w: "chk_add (micros (outstanding_of (shard_str s, k) gs)) (micros n) = Some w"
    and t: "t = push_event e ((set_account k (a\<lparr> balance_available := AmountMicros (micros (balance_available a) - micros n) \<rparr>) gs)
      \<lparr> gs_shard_outstanding := fmupd (shard_str s, k) (AmountMicros w) (gs_shard_outstanding gs) \<rparr>)"
    using assms by (auto simp: allocate_shard_allowance_def Let_def exec_iff micros_less_amt split: if_splits)
  have "book_of t r = post (Available k, Escrow (shard_str s) k, amt n) (book_of gs) r" for r
    using amt_chk [OF w] amt_sub [OF n] a by (cases r) (auto simp: t book_defs)
  then show ?thesis using a n by (auto simp: known_def avail_of_def)
qed

lemma slash_book:
  assumes "slash_conflict s ep h k n gs = Ok u t"
  shows "known k gs \<and> book_of t = post (Staked k, Outside, min (amt n) (staked_of gs k)) (book_of gs)"
proof -
  obtain a ts e where a: "fmlookup (gs_accounts gs) k = Some a"
    and t: "t = push_event e ((set_account k (a\<lparr> stake := AmountMicros (micros (stake a) - min (micros n) (micros (stake a))) \<rparr>) gs)
      \<lparr> gs_total_supply := ts \<rparr>)"
    using assms by (auto simp: slash_conflict_def Let_def exec_iff)
  have m: "min (micros n) (micros (stake a)) = micros (AmountMicros (min (micros n) (micros (stake a))))" by simp
  have c: "amt (AmountMicros (min (micros n) (micros (stake a)))) = min (amt n) (amt (stake a))"
    by (auto simp: amt_def min_def word_le_nat_alt)
  have "amt (AmountMicros (micros (stake a) - min (micros n) (micros (stake a)))) = amt (stake a) - min (amt n) (amt (stake a))"
    by (subst m, subst amt_sub) (simp_all only: c min.cobounded2)
  then have "book_of t r = post (Staked k, Outside, min (amt n) (staked_of gs k)) (book_of gs) r" for r
    using a by (cases r) (auto simp: t book_defs)
  then show ?thesis using a by (auto simp: known_def)
qed

lemma checkpoint_book:
  assumes "apply_checkpoint X c k gs = Ok u t"
  defines "h \<equiv> sc_header (wc_checkpoint c)"
  shows "permitted X H (CheckpointFinalized c k) gs \<and>
    amt (hd_exposure h) \<le> amt (outstanding_of (shard_str (hd_shard_id h), k) gs) \<and>
    book_of t = post (Escrow (shard_str (hd_shard_id h)) k, Locked k, amt (hd_exposure h)) (book_of gs)"
proof -
  let ?key = "(shard_str (hd_shard_id h), k)"
  obtain out a lk e where v: "verify_witnessed X c (gs_min_witnesses gs) = Inr ()"
    and f: "fmlookup (gs_finalized gs) (header_key h) = None"
    and out: "fmlookup (gs_shard_outstanding gs) ?key = Some out"
    and n: "amt (hd_exposure h) \<le> amt out" and a: "fmlookup (gs_accounts gs) k = Some a"
    and lk: "chk_add (micros (balance_locked a)) (micros (hd_exposure h)) = Some lk"
    and t: "t = push_event e ((set_account k (a\<lparr> balance_locked := AmountMicros lk \<rparr>)
      (gs\<lparr> gs_shard_outstanding := fmupd ?key (AmountMicros (micros out - micros (hd_exposure h))) (gs_shard_outstanding gs) \<rparr>))
      \<lparr> gs_finalized := fmupd (header_key h) (hd_root h) (gs_finalized gs) \<rparr>)"
    using assms(1) unfolding h_def
    by (auto simp: apply_checkpoint_def Let_def exec_iff micros_less_amt split: if_splits option.splits)
  have "book_of t r = post (Escrow (shard_str (hd_shard_id h)) k, Locked k, amt (hd_exposure h)) (book_of gs) r" for r
    using amt_chk [OF lk] amt_sub [OF n] a out by (cases r) (auto simp: t book_defs)
  then show ?thesis using v f out n by (auto simp: h_def [symmetric] Let_def outstanding_of_def)
qed

text \<open>Agents and contracts touch no pot.\<close>

lemma book_same_money:
  assumes "\<And>k. map_option (\<lambda>a. (balance_available a, balance_locked a, stake a)) (fmlookup (gs_accounts t) k)
      = map_option (\<lambda>a. (balance_available a, balance_locked a, stake a)) (fmlookup (gs_accounts gs) k) \<or>
      (fmlookup (gs_accounts gs) k = None \<and> (\<exists>g. fmlookup (gs_accounts t) k = Some (new_agent k g (AmountMicros 0))))"
    and "gs_shard_outstanding t = gs_shard_outstanding gs" and "gs_disputes t = gs_disputes gs"
    and "gs_assets t = gs_assets gs" and "gs_holdings t = gs_holdings gs"
  shows "book_of t = book_of gs"
proof
  have "avail_of t k = avail_of gs k \<and> locked_of t k = locked_of gs k \<and> staked_of t k = staked_of gs k" for k
    using assms(1) [of k]
    by (cases "fmlookup (gs_accounts t) k"; cases "fmlookup (gs_accounts gs) k")
      (auto simp: avail_of_def locked_of_def staked_of_def new_agent_def)
  then show "book_of t r = book_of gs r" for r
    using assms(2-5) by (cases r) (simp_all add: outstanding_of_def bond_of_def unissued_of_def held_def holding_def)
qed

lemma modify_account_lookup:
  "fmlookup (gs_accounts (modify_account k f gs)) l
    = (if l = k then map_option f (fmlookup (gs_accounts gs) k) else fmlookup (gs_accounts gs) l)"
  by (auto simp: modify_account_def set_account_def split: option.split)

lemma register_agent_book:
  "register_agent k g m gs = Ok u t \<Longrightarrow> fmlookup (gs_agents gs) g = None \<and> book_of t = book_of gs"
  by (auto simp: register_agent_def Let_def set_account_def fmdom_notD new_agent_def
      intro!: book_same_money split: if_splits option.splits)

lemma suspend_agent_book:
  "suspend_agent g gs = Ok u t \<Longrightarrow> fmlookup (gs_agents gs) g \<noteq> None \<and> book_of t = book_of gs"
  by (auto simp: suspend_agent_def modify_account_lookup option.map_comp comp_def
      intro!: book_same_money split: option.splits if_splits)

lemma update_reputation_book:
  "update_reputation g d r gs = Ok u t \<Longrightarrow> fmlookup (gs_agents gs) g \<noteq> None \<and> book_of t = book_of gs"
  by (auto simp: update_reputation_def Let_def modify_account_lookup option.map_comp comp_def
      intro!: book_same_money split: option.splits if_splits)

lemma deploy_book:
  "deploy_contract X H k h c gs = Ok u t \<Longrightarrow> permitted X H (DeployContract k h c) gs \<and> book_of t = book_of gs"
  by (auto simp: deploy_contract_def Let_def known_def intro!: book_same_money split: if_splits sum.splits)

lemma call_book:
  "call_contract H k h e a b f gs = Ok u t \<Longrightarrow> permitted X H (CallContract k h e a b f) gs \<and> book_of t = book_of gs"
  by (auto simp: call_contract_def Let_def known_def intro!: book_same_money
      split: if_splits sum.splits option.splits)

lemma open_dispute_book:
  assumes "open_dispute i p d n v gs = Ok u t"
  shows "fmlookup (gs_disputes gs) i = None \<and> known p gs \<and> amt n \<le> avail_of gs p \<and>
    book_of t = post (Available p, Bond i, amt n) (book_of gs)"
proof -
  obtain a e where i: "fmlookup (gs_disputes gs) i = None" and a: "fmlookup (gs_accounts gs) p = Some a"
    and n: "amt n \<le> amt (balance_available a)"
    and t: "t = push_event e ((set_account p (a\<lparr> balance_available := AmountMicros (micros (balance_available a) - micros n) \<rparr>) gs)
      \<lparr> gs_disputes := fmupd i \<lparr> dis_id = i, dis_plaintiff = p, dis_defendant = d, dis_bond = n,
          dis_status = Open, dis_evidence_hash = v \<rparr> (gs_disputes gs) \<rparr>)"
    using assms by (auto simp: open_dispute_def exec_iff micros_less_amt fmdom_notD split: if_splits)
  have "book_of t r = post (Available p, Bond i, amt n) (book_of gs) r" for r
    using amt_sub [OF n] a i by (cases r) (auto simp: t book_defs open_bond_def)
  then show ?thesis using a i n by (auto simp: known_def avail_of_def)
qed

lemma nudge_book:
  assumes "fmlookup (gs_accounts gs) k = Some b" and "balance_locked a = balance_locked b" and "stake a = stake b"
  shows "book_of (nudge_winner k a gs) = (book_of gs)(Available k := amt (balance_available a))"
proof
  show "book_of (nudge_winner k a gs) r = ((book_of gs)(Available k := amt (balance_available a))) r" for r
    using assms by (cases r) (auto simp: nudge_winner_def Let_def book_defs split: option.split)
qed

lemma resolve_book:
  assumes "resolve_dispute i fp gs = Ok u t"
  obtains w where "bond_winner i fp gs = Some w" and "known w gs"
    and "book_of t = post (Bond i, Available w, bond_of gs i) (book_of gs)"
proof -
  obtain d a av e where d: "fmlookup (gs_disputes gs) i = Some d" "dis_status d = Open"
    and a: "fmlookup (gs_accounts gs) (dispute_winner d fp) = Some a"
    and av: "chk_add (micros (balance_available a)) (micros (dis_bond d)) = Some av"
    and t: "t = push_event e (nudge_winner (dispute_winner d fp) (a\<lparr> balance_available := AmountMicros av \<rparr>) (dispute_closed i d fp gs))"
    using assms by (auto simp: resolve_dispute_eq exec_iff split: if_splits option.splits)
  let ?w = "dispute_winner d fp"
  have "fmlookup (gs_accounts (dispute_closed i d fp gs)) ?w = Some a" using a by (simp add: dispute_closed_def)
  then have t': "book_of t = (book_of (dispute_closed i d fp gs))(Available ?w := amt (AmountMicros av))"
    unfolding t book_push by (subst nudge_book) simp_all
  have "book_of t r = post (Bond i, Available ?w, bond_of gs i) (book_of gs) r" for r
    using amt_chk [OF av] a d unfolding t'
    by (cases r) (auto simp: dispute_closed_def book_defs open_bond_def)
  then show ?thesis using that [of ?w] a d by (auto simp: bond_winner_def known_def)
qed

lemma register_asset_book:
  assumes "register_asset i k s n d m gs = Ok u t"
  shows "permitted X H (RegisterAsset i k s n d m) gs \<and> book_of t = post (Outside, Unissued i, unat m) (book_of gs)"
proof -
  define a where "a = \<lparr> as_asset_id = i, as_symbol = to_ascii_uppercase s, as_name = n, as_issuer = k,
    as_decimals = d, as_max_supply = m, as_minted = 0 \<rparr>"
  have p: "permitted X H (RegisterAsset i k s n d m) gs"
    using assms by (auto simp: register_asset_def Let_def exec_iff active_def fmdom_notD to_ascii_uppercase_def
        split: if_splits)
  obtain sym e where t: "t = push_event e (gs\<lparr> gs_assets := fmupd i a (gs_assets gs),
      gs_asset_symbols := fmupd sym i (gs_asset_symbols gs) \<rparr>)"
    using assms by (auto simp: register_asset_def Let_def exec_iff a_def split: if_splits)
  have "as_max_supply a = m" "as_minted a = 0" by (simp_all add: a_def)
  then have "book_of t r = post (Outside, Unissued i, unat m) (book_of gs) r" for r
    using p by (cases r) (auto simp: t book_defs)
  then show ?thesis using p by auto
qed

text \<open>Asset units: what is debited, credited and minted.\<close>

lemma debit_book:
  assumes "debit_holding k i n gs = Ok u t"
  shows "book_of t = (book_of gs)(Held k i := held gs k i - unat n)"
proof
  show "book_of t r = ((book_of gs)(Held k i := held gs k i - unat n)) r" for r
    using assms by (cases r) (auto simp: debit_holding_Ok book_defs unat_minus_fits)
qed

lemma credit_book:
  assumes "held gs k i + unat n < 2 ^ 128"
  shows "book_of (credit_holding k i n gs) = (book_of gs)(Held k i := held gs k i + unat n)"
proof
  show "book_of (credit_holding k i n gs) r = ((book_of gs)(Held k i := held gs k i + unat n)) r" for r
    using assms by (cases r) (auto simp: credit_holding_def book_defs unat_sat_add)
qed

text \<open>Moving units is one posting, also to oneself.\<close>

lemma move_book:
  assumes "debit_holding k i n gs = Ok u g" and "units_held gs i < 2 ^ 128"
  shows "unat n \<le> held gs k i \<and> book_of (credit_holding p i n g) = post (Held k i, Held p i, unat n) (book_of gs)"
proof -
  have n: "unat n \<le> held gs k i" using assms(1) by (simp add: debit_holding_Ok held_def word_le_nat_alt)
  have "book_of g (Held p i) = held g p i" by simp
  then have h: "held g p i = (if p = k then held gs k i - unat n else held gs p i)"
    unfolding debit_book [OF assms(1)] by auto
  have "book_of (credit_holding p i n g) r = post (Held k i, Held p i, unat n) (book_of gs) r" for r
    unfolding credit_book [OF transfer_fits [OF assms]] debit_book [OF assms(1)] h using n by (cases r) auto
  then show ?thesis using n by auto
qed

lemma transfer_book:
  assumes "gs_ok gs" and "transfer_asset i f k n gs = Ok u t"
  shows "permitted X H (TransferAsset i f k n) gs \<and> unat n \<le> held gs f i \<and>
    book_of t = post (Held f i, Held k i, unat n) (book_of gs)"
proof -
  obtain g e where g: "debit_holding f i n gs = Ok () g" and t: "t = push_event e (credit_holding k i n g)"
    and p: "permitted X H (TransferAsset i f k n) gs"
    using assms(2) by (auto simp: transfer_asset_def exec_iff active_def fmlookup_dom_iff split: if_splits)
  have "units_held gs i < 2 ^ 128" using assms(1) units_ok_lt by (simp add: gs_ok_def)
  then show ?thesis using move_book [OF g] p by (simp add: t del: post.simps permitted.simps)
qed

lemma mint_book:
  assumes "gs_ok gs" and "mint_asset i k t n gs = Ok u s"
  shows "permitted X H (MintAsset i k t n) gs \<and> unat n \<le> unissued_of gs i \<and>
    book_of s = post (Unissued i, Held t i, unat n) (book_of gs)"
proof -
  from mint_asset_Ok [OF assms(2)] obtain a e where a: "fmlookup (gs_assets gs) i = Some a"
    and fits: "unat (as_minted a) + unat n < 2 ^ 128"
    and max: "unat (as_minted a) + unat n \<le> unat (as_max_supply a)"
    and s: "s = push_event e (credit_holding t i n
          (gs\<lparr> gs_assets := fmupd i (a\<lparr> as_minted := as_minted a + n \<rparr>) (gs_assets gs) \<rparr>))"
    by metis
  let ?g = "gs\<lparr> gs_assets := fmupd i (a\<lparr> as_minted := as_minted a + n \<rparr>) (gs_assets gs) \<rparr>"
  have p: "permitted X H (MintAsset i k t n) gs"
    using assms(2) by (auto simp: mint_asset_def exec_iff active_def split: if_splits option.splits)
  have m: "unat (as_minted a + n) = unat (as_minted a) + unat n" using fits by (simp add: unat_plus_fits)
  have "held ?g t i = held gs t i" by (simp add: held_def holding_def)
  moreover have "held gs t i \<le> unat (as_minted a)"
    using held_le [of gs t i] assms(1) a by (simp add: gs_ok_def units_ok_def minted_of_def)
  ultimately have b: "book_of s = (book_of ?g)(Held t i := held gs t i + unat n)"
    using credit_book [of ?g t i n] fits by (simp add: s)
  have "book_of s r = post (Unissued i, Held t i, unat n) (book_of gs) r" for r
    unfolding b using a m max by (cases r) (auto simp: book_defs)
  then show ?thesis using p a max by (auto simp: unissued_of_def simp del: permitted.simps)
qed

lemma paid_book:
  assumes "fmlookup (gs_accounts gs) b = Some x" and "fmlookup (gs_accounts gs) k = Some y" and "b \<noteq> k"
    and "amt p \<le> amt (balance_available x)" and "amt (balance_available y) + amt p < 2 ^ 128"
  shows "book_of (paid b k x y p gs) = post (Available b, Available k, amt p) (book_of gs)"
proof
  have "amt (AmountMicros (micros (balance_available y) + micros p)) = amt (balance_available y) + amt p"
    using assms(5) by (simp add: amt_def unat_plus_fits)
  then show "book_of (paid b k x y p gs) r = post (Available b, Available k, amt p) (book_of gs) r" for r
    using amt_sub [OF assms(4)] assms(1-4) by (cases r) (auto simp: paid_def book_defs)
qed

lemma spot_book:
  assumes "gs_ok gs" and "spot_trade i b k n p gs = Ok u t"
  shows "permitted X H (SpotTrade i b k n p) gs \<and> amt p \<le> avail_of gs b \<and> unat n \<le> held gs k i \<and>
    book_of t = post_all [(Available b, Available k, amt p), (Held k i, Held b i, unat n)] (book_of gs)"
proof -
  obtain x y e g where ne: "n \<noteq> 0" "b \<noteq> k" "i |\<in>| fmdom (gs_assets gs)"
    and x: "fmlookup (gs_accounts gs) b = Some x" "\<not> acc_suspended x"
    and y: "fmlookup (gs_accounts gs) k = Some y" "\<not> acc_suspended y"
    and p: "amt p \<le> amt (balance_available x)" "amt (balance_available y) + amt p < 2 ^ 128"
    and n: "n \<le> holding gs k i"
    and g: "debit_holding k i n (paid b k x y p gs) = Ok () g" and t: "t = push_event e (credit_holding b i n g)"
    using spot_trade_Ok [OF assms(2)] by blast
  have "units_held (paid b k x y p gs) i < 2 ^ 128" using assms(1) units_ok_lt by (simp add: gs_ok_def)
  then have "book_of t = post (Held k i, Held b i, unat n) (book_of (paid b k x y p gs))"
    using move_book [OF g] by (simp add: t del: post.simps)
  then show ?thesis
    using ne x y p n paid_book [OF x(1) y(1) ne(2) p]
    by (auto simp: active_def avail_of_def held_def word_le_nat_alt fmlookup_dom_iff simp del: post.simps)
qed

lemma run_tx_book:
  assumes "gs_ok gs" and "run_tx X H tx gs = Ok u t"
  shows "may_post X H tx gs (book_of gs) \<and> book_of t = post_all (postings tx gs (book_of gs)) (book_of gs)"
proof (cases tx)
  case (ResolveDispute i fp)
  then obtain w where "bond_winner i fp gs = Some w" "known w gs"
    "book_of t = post (Bond i, Available w, bond_of gs i) (book_of gs)"
    using assms(2) by (auto elim: resolve_book)
  then show ?thesis using ResolveDispute by (simp add: may_post_def del: post.simps)
next
  case (CheckpointFinalized c k)
  then show ?thesis using assms(2) checkpoint_book [of X c k gs u t H]
    by (simp add: may_post_def del: post.simps permitted.simps)
next
  case (DeployContract k h c)
  then show ?thesis using assms(2) deploy_book [of X H k h c gs u t] by (simp add: may_post_def del: permitted.simps)
next
  case (CallContract k h e a b f)
  then show ?thesis using assms(2) call_book [of H k h e a b f gs u t X] by (simp add: may_post_def del: permitted.simps)
next
  case (RegisterAsset i k s n d m)
  then show ?thesis using assms(2) register_asset_book [of i k s n d m gs u t X H]
    by (simp add: may_post_def del: post.simps permitted.simps)
next
  case (MintAsset i k b n)
  then show ?thesis using assms(2) mint_book [OF assms(1), of i k b n u t X H]
    by (simp add: may_post_def del: post.simps permitted.simps)
next
  case (TransferAsset i f k n)
  then show ?thesis using assms(2) transfer_book [OF assms(1), of i f k n u t X H]
    by (simp add: may_post_def del: post.simps permitted.simps)
next
  case (SpotTrade i b k n p)
  then show ?thesis using assms(2) spot_book [OF assms(1), of i b k n p u t X H]
    by (simp add: may_post_def del: post.simps permitted.simps)
qed (use assms(2) in \<open>auto simp: may_post_def simp del: post.simps
  dest: genesis_book stake_book unstake_book allocate_book slash_book register_agent_book suspend_agent_book
    update_reputation_book open_dispute_book\<close>)

section \<open>A transaction that fails was not permitted or not covered\<close>

lemma money_tx_refused:
  "stake_tx k n gs = Err e t \<Longrightarrow> \<not> (active k gs \<and> amt n \<le> avail_of gs k)"
  "unstake_tx k n gs = Err e t \<Longrightarrow> \<not> (known k gs \<and> amt n \<le> staked_of gs k)"
  "allocate_shard_allowance k s n gs = Err e t \<Longrightarrow> \<not> (known k gs \<and> amt n \<le> avail_of gs k)"
  "slash_conflict s ep h k n gs = Err e t \<Longrightarrow> \<not> known k gs"
  "open_dispute i k d n v gs = Err e t \<Longrightarrow> \<not> (fmlookup (gs_disputes gs) i = None \<and> known k gs \<and> amt n \<le> avail_of gs k)"
  by (auto simp: stake_tx_def unstake_tx_def allocate_shard_allowance_def slash_conflict_def open_dispute_def Let_def
      exec_iff active_def known_def avail_of_def staked_of_def micros_less_amt fmlookup_dom_iff split: if_splits)

lemma escrow_account:
  "escrow_ok gs \<Longrightarrow> fmlookup (gs_shard_outstanding gs) (s, k) = Some out \<Longrightarrow> fmlookup (gs_accounts gs) k \<noteq> None"
  unfolding escrow_ok_def by (metis fmdomI fmdom_notI)

lemma checkpoint_refused:
  assumes "escrow_ok gs" and "apply_checkpoint X c k gs = Err e t"
  shows "\<not> may_post X H (CheckpointFinalized c k) gs (book_of gs)"
  using assms escrow_account [OF assms(1)]
  by (fastforce simp: apply_checkpoint_def Let_def exec_iff may_post_def outstanding_of_def micros_less_amt
      split: if_splits option.splits)

lemma agent_contract_refused:
  "register_agent k g m gs = Err e t \<Longrightarrow> fmlookup (gs_agents gs) g \<noteq> None"
  "suspend_agent g gs = Err e t \<Longrightarrow> fmlookup (gs_agents gs) g = None"
  "update_reputation g d r gs = Err e t \<Longrightarrow> fmlookup (gs_agents gs) g = None"
  "deploy_contract X H k h c gs = Err e t \<Longrightarrow> \<not> permitted X H (DeployContract k h c) gs"
  "call_contract H k h' x a b f gs = Err e t \<Longrightarrow> \<not> permitted X H (CallContract k h' x a b f) gs"
  by (auto simp: register_agent_def suspend_agent_def update_reputation_def deploy_contract_def call_contract_def
      Let_def known_def fmlookup_dom_iff split: if_splits option.splits sum.splits)

lemma resolve_refused:
  "resolve_dispute i fp gs = Err e t \<Longrightarrow> \<not> permitted X H (ResolveDispute i fp) gs"
  by (auto simp: resolve_dispute_eq exec_iff bond_winner_def known_def split: if_splits option.splits)

lemma ensure_active_Inl: "ensure_active k gs = Inl e \<Longrightarrow> \<not> active k gs"
  by (auto simp: ensure_active_def active_def split: option.splits if_splits)

lemma asset_refused:
  "register_asset i k sy nm d m gs = Err e t \<Longrightarrow> \<not> permitted X H (RegisterAsset i k sy nm d m) gs"
  "transfer_asset i k p n gs = Err e t \<Longrightarrow> \<not> (permitted X H (TransferAsset i k p n) gs \<and> unat n \<le> held gs k i)"
  "spot_trade i b k n a gs = Err e t \<Longrightarrow>
     \<not> (permitted X H (SpotTrade i b k n a) gs \<and> amt a \<le> avail_of gs b \<and> unat n \<le> held gs k i)"
  by (auto simp: register_asset_def transfer_asset_def spot_trade_def Let_def exec_iff fmlookup_dom_iff
      to_ascii_uppercase_def debit_holding_Err held_def word_less_nat_alt avail_of_def amt_def
      dest: ensure_active_Inl split: if_splits option.splits)

lemma mint_refused:
  assumes "mint_asset i k p n gs = Err e t" and "minted_of gs i + unat n < 2 ^ 128" and "units_ok gs"
  shows "\<not> (permitted X H (MintAsset i k p n) gs \<and> unat n \<le> unissued_of gs i)"
proof
  assume ok: "permitted X H (MintAsset i k p n) gs \<and> unat n \<le> unissued_of gs i"
  then obtain a where a: "fmlookup (gs_assets gs) i = Some a" and k: "as_issuer a = k" and n: "n \<noteq> 0"
    and act: "active k gs" "active p gs"
    by auto
  have "as_minted a \<le> as_max_supply a" using assms(3) a by (auto simp: units_ok_def)
  then have "\<not> as_max_supply a < sat_add (as_minted a) n"
    using ok a assms(2) by (simp add: unissued_of_def minted_of_def word_less_nat_alt word_le_nat_alt unat_sat_add) linarith
  then show False
    using assms(1) a k n act ensure_active_Inl by (auto simp: mint_asset_def exec_iff split: if_splits)
qed

lemma run_tx_refused:
  assumes "gs_ok gs" and "headroom tx gs" and "run_tx X H tx gs = Err e t"
  shows "\<not> may_post X H tx gs (book_of gs)"
proof (cases tx)
  case (GenesisFund k n)
  then show ?thesis using assms(3) by (auto simp: genesis_fund_def Let_def exec_iff)
next
  case (CheckpointFinalized c k)
  then show ?thesis using assms(1,3) checkpoint_refused [of gs X c k e t H] by (simp add: gs_ok_def)
next
  case (MintAsset i k p n)
  then show ?thesis
    using assms mint_refused [of i k p n gs e t X H] by (auto simp: may_post_def gs_ok_def simp del: permitted.simps)
next
  case (ResolveDispute i fp)
  then show ?thesis
    using assms(3) resolve_refused [of i fp gs e t X H] by (auto simp: may_post_def simp del: permitted.simps)
next
  case (CallContract k h e a b f)
  then show ?thesis
    using assms(3) agent_contract_refused(5) by (fastforce simp: may_post_def simp del: permitted.simps)
qed (use assms(3) in \<open>auto simp: may_post_def
  dest!: money_tx_refused agent_contract_refused asset_refused\<close>)

section \<open>Refinement\<close>

text \<open>C2: The ledger refines double-entry bookkeeping. On a good ledger with headroom (the supply plus
  newly funded money, and what was minted of an asset plus newly minted units, fit in 128 bits) a
  transaction goes through exactly when its parties are permitted to make it and its pots cover
  its postings; then the book changes by exactly these postings, whatever the transaction, and
  otherwise the transaction is refused. It never panics.\<close>

theorem ledger_refines_book:
  assumes "gs_ok gs" and "headroom tx gs"
  shows "case apply_tx X H tx gs of
      Ok u t \<Rightarrow> may_post X H tx gs (book_of gs) \<and> gs_ok t \<and> book_of t = post_all (postings tx gs (book_of gs)) (book_of gs)
    | Err e t \<Rightarrow> \<not> may_post X H tx gs (book_of gs)
    | Panic \<Rightarrow> False"
  using run_tx_book [OF assms(1), of X H tx] run_tx_refused [OF assms, of X H] run_tx_ok [OF assms(1), of X H tx]
    run_tx_no_panic [OF _ assms(2), of X H] assms(1)
  by (auto simp: apply_tx_run [OF assms(1)] gs_ok_def split: outcome.split)

text \<open>The postings a run made.\<close>

fun journal :: "crypto \<Rightarrow> wasm_host \<Rightarrow> global_state \<Rightarrow> l1_tx list \<Rightarrow> posting list" where
  "journal X H gs [] = []"
| "journal X H gs (tx # txs) =
     (case apply_tx X H tx gs of
        Ok _ t \<Rightarrow> postings tx gs (book_of gs) @ journal X H t txs
      | Err _ t \<Rightarrow> journal X H t txs
      | Panic \<Rightarrow> [])"

lemma post_all_append [simp]: "post_all (es @ fs) B = post_all fs (post_all es B)"
  by (induction es arbitrary: B) simp_all

lemma ledger_journal:
  assumes "gs_ok gs" and "list_all (\<lambda>tx. \<forall>i. tx \<noteq> ResolveDispute i False) txs"
  shows "book_of (ledger_after X H gs txs) = post_all (journal X H gs txs) (book_of gs)"
  using assms
proof (induction txs arbitrary: gs)
  case (Cons tx txs)
  show ?case
  proof (cases "apply_tx X H tx gs")
    case (Ok u t)
    then have r: "run_tx X H tx gs = Ok u t" using apply_tx_run [OF Cons.prems(1)] by simp
    show ?thesis
      using Cons.IH [OF run_tx_ok [OF Cons.prems(1) r]] run_tx_book [OF Cons.prems(1) r] Cons.prems(2) Ok by simp
  next
    case (Err e t)
    then have "run_tx X H tx gs = Err e t" using apply_tx_run [OF Cons.prems(1)] by simp
    then have "t = gs" using run_tx_Err [of gs X H tx e t] Cons.prems by (auto simp: gs_ok_def)
    then show ?thesis using Cons Err by simp
  qed simp
qed simp

text \<open>A witness for the refinement: the sample trade, posting by posting.\<close>

lemma sample_book:
  "book_of sample_ledger (Available (AccountId 1)) = 85" "book_of sample_ledger (Available (AccountId 2)) = 50"
  "book_of sample_ledger (Held (AccountId 1) (AssetId 7)) = 40" "book_of sample_ledger (Held (AccountId 2) (AssetId 7)) = 0"
  by (simp_all add: avail_of_def held_def holding_def sample_ledger_def new_human_def)

lemma ledger_refines_book_witness:
  "case apply_tx sample_crypto sample_wasm sample_trade sample_ledger of
      Ok u t \<Rightarrow> book_of t (Available (AccountId 1)) = 115 \<and> book_of t (Available (AccountId 2)) = 20 \<and>
        book_of t (Held (AccountId 1) (AssetId 7)) = 25 \<and> book_of t (Held (AccountId 2) (AssetId 7)) = 15
    | _ \<Rightarrow> False"
proof -
  have "headroom sample_trade sample_ledger" by (simp add: sample_trade_def)
  from ledger_refines_book [OF sample_ledger_ok this, of sample_crypto sample_wasm]
    sample_trade_applies [of sample_crypto sample_wasm]
  show ?thesis by (cases "apply_tx sample_crypto sample_wasm sample_trade sample_ledger")
      (simp_all add: sample_trade_def sample_book del: book_of.simps)
qed

section \<open>Statements of account\<close>

definition debits :: "pot \<Rightarrow> posting list \<Rightarrow> nat" where
  "debits p es = (\<Sum>(a, b, n) \<leftarrow> es. if a = p then n else 0)"

definition credits :: "pot \<Rightarrow> posting list \<Rightarrow> nat" where
  "credits p es = (\<Sum>(a, b, n) \<leftarrow> es. if b = p then n else 0)"

fun covered_run :: "posting list \<Rightarrow> book \<Rightarrow> bool" where
  "covered_run [] B \<longleftrightarrow> True"
| "covered_run (e # es) B \<longleftrightarrow> covered e B \<and> covered_run es (post e B)"

lemma covered_run_append [simp]: "covered_run (es @ fs) B \<longleftrightarrow> covered_run es B \<and> covered_run fs (post_all es B)"
  by (induction es arbitrary: B) simp_all

lemma covered_run_postings: "may_post X H tx gs B \<Longrightarrow> covered_run (postings tx gs B) B"
  by (cases tx) (auto simp: may_post_def simp del: permitted.simps split: option.split)

lemma covered_run_balance:
  assumes "covered_run es B" and "p \<noteq> Outside"
  shows "post_all es B p + debits p es = B p + credits p es"
  using assms(1)
proof (induction es arbitrary: B)
  case (Cons e es)
  obtain a b n where e: "e = (a, b, n)" by (cases e)
  have "post e B p + (if a = p then n else 0) = B p + (if b = p then n else 0)"
    using Cons.prems assms(2) by (auto simp: e)
  moreover have "post_all es (post e B) p + debits p es = post e B p + credits p es"
    using Cons by simp
  ultimately show ?case by (simp add: e debits_def credits_def del: post.simps)
qed (simp add: debits_def credits_def)

lemma journal_covered:
  assumes "gs_ok gs" and "list_all (\<lambda>tx. \<forall>i. tx \<noteq> ResolveDispute i False) txs"
  shows "covered_run (journal X H gs txs) (book_of gs)"
  using assms
proof (induction txs arbitrary: gs)
  case (Cons tx txs)
  show ?case
  proof (cases "apply_tx X H tx gs")
    case (Ok u t)
    then have r: "run_tx X H tx gs = Ok u t" using apply_tx_run [OF Cons.prems(1)] by simp
    show ?thesis
      using Cons.IH [OF run_tx_ok [OF Cons.prems(1) r]] run_tx_book [OF Cons.prems(1) r] Cons.prems(2) Ok
        covered_run_postings by auto
  next
    case (Err e t)
    then have "run_tx X H tx gs = Err e t" using apply_tx_run [OF Cons.prems(1)] by simp
    then have "t = gs" using run_tx_Err [of gs X H tx e t] Cons.prems by (auto simp: gs_ok_def)
    then show ?thesis using Cons Err by simp
  qed simp
qed simp

lemma book_of_new: "book_of (global_state_new w) p = 0"
  by (cases p) (simp_all add: book_defs global_state_new_def)

text \<open>C14: On a ledger that started empty every balance is accounted for: after any transactions that refuse
  no dispute, failed ones included, what a pot other than the outside world holds and what was
  posted out of it is what was posted into it. (A refused dispute can lose its bond, see
  stranded bonds in the ledger theorems.)\<close>

theorem balances_are_accounted_for:
  assumes "list_all (\<lambda>tx. \<forall>i. tx \<noteq> ResolveDispute i False) txs" and "p \<noteq> Outside"
  shows "book_of (ledger_after X H (global_state_new w) txs) p + debits p (journal X H (global_state_new w) txs)
    = credits p (journal X H (global_state_new w) txs)"
  using covered_run_balance [OF journal_covered [OF gs_ok_new assms(1)] assms(2)]
    ledger_journal [OF gs_ok_new assms(1)] book_of_new by simp

definition sample_txs :: "l1_tx list" where
  "sample_txs = [GenesisFund (AccountId 1) (AmountMicros 9), Stake (AccountId 1) (AmountMicros 4)]"

lemma balances_are_accounted_for_witness:
  "\<exists>es. book_of (ledger_after sample_crypto sample_wasm (global_state_new 0) sample_txs) (Available (AccountId 1))
      + debits (Available (AccountId 1)) es = credits (Available (AccountId 1)) es
    \<and> debits (Available (AccountId 1)) es = 4 \<and> credits (Available (AccountId 1)) es = 9"
proof -
  let ?es = "journal sample_crypto sample_wasm (global_state_new 0) sample_txs" and ?k = "AccountId 1"
  obtain g1 where r1: "run_tx sample_crypto sample_wasm (GenesisFund ?k (AmountMicros 9)) (global_state_new 0) = Ok () g1"
    and a1: "fmlookup (gs_accounts g1) ?k = Some (new_human ?k (AmountMicros 9))"
    by (simp add: genesis_fund_def chk_add_def global_state_new_def new_human_def push_event_def set_account_def)
  obtain g2 where r2: "run_tx sample_crypto sample_wasm (Stake ?k (AmountMicros 4)) g1 = Ok () g2"
    by (simp add: stake_tx_def check_then_def account_of_def a1 new_human_def chk_add_def)
  have "?es = [(Outside, Available ?k, 9), (Available ?k, Staked ?k, 4)]"
    using r1 r2 by (simp add: sample_txs_def apply_tx_run [OF gs_ok_new] apply_tx_run [OF run_tx_ok [OF gs_ok_new r1]] amt_def)
  then have "debits (Available ?k) ?es = 4" "credits (Available ?k) ?es = 9" by (simp_all add: debits_def credits_def)
  moreover have "book_of (ledger_after sample_crypto sample_wasm (global_state_new 0) sample_txs) (Available ?k)
      + debits (Available ?k) ?es = credits (Available ?k) ?es"
    by (rule balances_are_accounted_for) (simp_all add: sample_txs_def)
  ultimately show ?thesis by blast
qed

end
