(* ===== verification/Quorum.thy ===== *)
theory Quorum
  imports Main
begin

text \<open>
  Vote thresholds: \<open>quorum_threshold\<close> of the shard (\<open>crates/shard/src/bft.rs\<close>) and the fixed 3 of 4
  of the global consensus (\<open>crates/consensus/src/bft.rs\<close>), as interpretations of one contract that
  gives quorum intersection.
\<close>

definition quorum_threshold :: "nat \<Rightarrow> nat" where
  "quorum_threshold n = (if n = 4 then 3 else (2 * n) div 3 + 1)"

definition global_need :: "nat \<Rightarrow> nat" where
  "global_need n = 3"

locale quorum_rule =
  fixes sizes :: "nat set" and need :: "nat \<Rightarrow> nat"
  assumes reachable: "n \<in> sizes \<Longrightarrow> need n \<le> n"
    and two_thirds: "n \<in> sizes \<Longrightarrow> 2 * n < 3 * need n"
begin

lemma overlap:
  assumes "card V \<in> sizes" "finite V" "A \<subseteq> V" "B \<subseteq> V" "need (card V) \<le> card A" "need (card V) \<le> card B"
  shows "card V < 3 * card (A \<inter> B)"
proof -
  have fin: "finite A" "finite B" using assms(2-4) finite_subset by blast+
  have "card (A \<union> B) \<le> card V" using assms(2-4) by (intro card_mono) auto
  then have "card A + card B \<le> card V + card (A \<inter> B)" using card_Un_Int [OF fin] by simp
  then show ?thesis using two_thirds [OF assms(1)] assms(5,6) by simp
qed

text \<open>Two quorums share a correct member as long as less than a third is faulty.\<close>

lemma correct_in_both:
  assumes "card V \<in> sizes" "finite V" "A \<subseteq> V" "B \<subseteq> V" "need (card V) \<le> card A" "need (card V) \<le> card B"
    and "F \<subseteq> V" "3 * card F \<le> card V"
  shows "\<exists>v. v \<in> A \<and> v \<in> B \<and> v \<notin> F"
proof (rule ccontr)
  assume "\<nexists>v. v \<in> A \<and> v \<in> B \<and> v \<notin> F"
  then have "A \<inter> B \<subseteq> F" by blast
  then have "card (A \<inter> B) \<le> card F" using assms(2,7) by (intro card_mono) (auto intro: finite_subset)
  then show False using overlap [OF assms(1-6)] assms(8) by simp
qed

text \<open>All members but those a quorum can miss still form one.\<close>

lemma all_is_quorum: "n \<in> sizes \<Longrightarrow> need n \<le> n"
  by (rule reachable)

end

lemma quorum_threshold_le: "0 < n \<Longrightarrow> quorum_threshold n \<le> n"
  unfolding quorum_threshold_def by (cases "n = 4"; simp; presburger)

lemma quorum_threshold_two_thirds: "2 * n < 3 * quorum_threshold n"
  unfolding quorum_threshold_def by (cases "n = 4"; simp; presburger)

interpretation shard_quorum: quorum_rule "{n. 0 < n}" quorum_threshold
  by unfold_locales (auto simp: quorum_threshold_le quorum_threshold_two_thirds)

interpretation global_quorum: quorum_rule "{4}" global_need
  by unfold_locales (auto simp: global_need_def)

end
