(* ===== verification/Engine.thy ===== *)
theory Engine
  imports Wal Signing Receipts Quorum
begin

text \<open>
  One shard validator (\<open>crates/shard/src/engine.rs\<close>, \<open>bft.rs\<close>): its messages, its state behind the
  mutex, and every operation on it. A broadcast appends to \<open>si_sent\<close>, the messages sent to every
  outbox so far; wake-ups carry no data. \<open>si_io\<close> is what the file system does with the appends
  still to come (past its end they succeed). The waits of \<open>fence_epoch\<close> and \<open>handle_pay\<close> take the
  messages that arrive before each wake-up, a list per round; when the rounds are used up the
  deadline has passed.
\<close>

section \<open>Messages (bft.rs)\<close>

record pay_commit_body =
  pb_capability_id :: capability_id
  pb_epoch :: epoch
  pb_sequence :: sequence_no
  pb_amount :: amount_micros
  pb_tx_id :: b32
  pb_request_hash :: b32
  pb_agent_id :: b32
  pb_service_id :: string

definition body_from_pay :: "pay \<Rightarrow> b32 \<Rightarrow> pay_commit_body" where
  "body_from_pay p tid =
     \<lparr> pb_capability_id = pay_capability_id p, pb_epoch = pay_epoch p, pb_sequence = pay_sequence p,
       pb_amount = pay_amount p, pb_tx_id = tid, pb_request_hash = pay_request_hash p,
       pb_agent_id = agent_bytes (pay_agent_id p), pb_service_id = pay_service_id p \<rparr>"

definition ser_body :: "pay_commit_body \<Rightarrow> cval" where
  "ser_body b = CMap
     [(''capability_id'', c_b32 (capability_bytes (pb_capability_id b))),
      (''epoch'', c_epoch (pb_epoch b)),
      (''sequence'', c_seq (pb_sequence b)),
      (''amount'', c_amount (pb_amount b)),
      (''tx_id'', c_b32 (pb_tx_id b)),
      (''request_hash'', c_b32 (pb_request_hash b)),
      (''agent_id'', c_b32 (pb_agent_id b)),
      (''service_id'', CText (pb_service_id b))]"

lemma ser_body_inj: "ser_body b = ser_body c \<longleftrightarrow> b = c"
  by (cases b; cases c) (auto simp: ser_body_def capability_id.expand)

text \<open>The digest; a body that does not encode panics (\<open>None\<close>).\<close>

definition body_digest :: "crypto \<Rightarrow> pay_commit_body \<Rightarrow> b32 option" where
  "body_digest X b = map_option (blake3 X) (cbor_write X (ser_body b))"

datatype bft_message =
    Propose pay_commit_body pay u8 u64
  | Vote b32 u8 bytes
  | Commit pay_commit_body "(u8 \<times> bytes) list"
  | Fence epoch u8
  | FenceVote epoch u8
  | FenceCommit epoch "u8 list"
  | DurableAck b32 u8
  | FenceDurableAck epoch u8

section \<open>State (engine.rs)\<close>

record validator_config =
  vc_id :: u8
  vc_shard_id :: shard_id
  vc_key :: keypair
  vc_peer_keys :: "(u8, vkey) fmap"
  vc_issuer_vk :: vkey

record shard_inner =
  si_cfg :: validator_config
  si_state :: shard_state
  si_wal :: bytes
  si_capabilities :: "(capability_id, spend_capability) fmap"
  si_alive :: bool
  si_inbox :: "bft_message list"
  si_outboxes :: "u8 fset"
  si_sent :: "bft_message list"
  si_io :: "io_fault list"

type_synonym 'a engine = "(shard_inner, shard_error, 'a) outcome"

definition engine_id :: "shard_inner \<Rightarrow> u8" where
  "engine_id s = vc_id (si_cfg s)"

definition broadcast :: "bft_message \<Rightarrow> shard_inner \<Rightarrow> shard_inner" where
  "broadcast m s = s\<lparr> si_sent := si_sent s @ [m] \<rparr>"

definition need_of :: "shard_inner \<Rightarrow> nat" where
  "need_of s = quorum_threshold (fcard (si_outboxes s) + 1)"

section \<open>Signatures over digests\<close>

definition sign_digest :: "crypto \<Rightarrow> keypair \<Rightarrow> b32 \<Rightarrow> bytes" where
  "sign_digest X kp d = ed_sign X (signing_key kp) (b32_bytes d)"

definition verify_digest :: "crypto \<Rightarrow> vkey \<Rightarrow> b32 \<Rightarrow> bytes \<Rightarrow> shard_error + unit" where
  "verify_digest X vk d sig =
     (if length sig \<noteq> 64 then Inl BadSignature
      else if ed_verify X (vkey_bytes vk) (b32_bytes d) sig then Inr () else Inl BadSignature)"

definition sign_edge_accept :: "crypto \<Rightarrow> keypair \<Rightarrow> b32 \<Rightarrow> u64 \<Rightarrow> bytes" where
  "sign_edge_accept X kp d ci = ed_sign X (signing_key kp) (b32_bytes d @ le_bytes 8 ci)"

text \<open>The key a voter is checked with: the validator's own, or the configured peer's.\<close>

definition voter_key :: "crypto \<Rightarrow> shard_inner \<Rightarrow> u8 \<Rightarrow> vkey option" where
  "voter_key X s v =
     (if v = engine_id s then Some (verifying_key X (vc_key (si_cfg s)))
      else fmlookup (vc_peer_keys (si_cfg s)) v)"

definition good_vote :: "crypto \<Rightarrow> shard_inner \<Rightarrow> b32 \<Rightarrow> u8 \<Rightarrow> bytes \<Rightarrow> bool" where
  "good_vote X s d v sig =
     (case voter_key X s v of None \<Rightarrow> False | Some vk \<Rightarrow> verify_digest X vk d sig = Inr ())"

definition count_good :: "crypto \<Rightarrow> shard_inner \<Rightarrow> b32 \<Rightarrow> (u8 \<times> bytes) list \<Rightarrow> nat" where
  "count_good X s d votes = length (filter (\<lambda>(v, sig). good_vote X s d v sig) votes)"

section \<open>Checking a payment\<close>

definition has_suffix :: "string \<Rightarrow> string \<Rightarrow> bool" where
  "has_suffix suf s \<longleftrightarrow> length suf \<le> length s \<and> drop (length s - length suf) s = suf"

definition strip_suffix :: "string \<Rightarrow> string \<Rightarrow> string option" where
  "strip_suffix s suf = (if has_suffix suf s then Some (take (length s - length suf) s) else None)"

definition starts_with :: "string \<Rightarrow> string \<Rightarrow> bool" where
  "starts_with s pre \<longleftrightarrow> take (length pre) s = pre"

definition service_in_scope :: "string \<Rightarrow> string list \<Rightarrow> bool" where
  "service_in_scope service scope \<longleftrightarrow>
     list_ex (\<lambda>pattern. case strip_suffix pattern ''/*'' of
         Some p \<Rightarrow> service = p \<or> starts_with service (p @ ''/'')
       | None \<Rightarrow> service = pattern) scope"

definition validate_pay :: "crypto \<Rightarrow> shard_inner \<Rightarrow> pay \<Rightarrow> u64 \<Rightarrow> shard_error + unit" where
  "validate_pay X s p now =
     (case fmlookup (si_capabilities s) (pay_capability_id p) of
        None \<Rightarrow> Inl UnknownCapability
      | Some cap \<Rightarrow>
          if cap_shard_id cap \<noteq> vc_shard_id (si_cfg s)
          then Inl (WrongShard (shard_str (cap_shard_id cap)) (shard_str (vc_shard_id (si_cfg s))))
          else if verify_capability X (vc_issuer_vk (si_cfg s)) cap \<noteq> Inr () then Inl BadSignature
          else if pay_agent_id p \<noteq> cap_agent_id cap then Inl AgentMismatch
          else (case verifying_key_from_bytes X (agent_bytes (pay_agent_id p)) of
            Inl _ \<Rightarrow> Inl BadSignature
          | Inr agent_vk \<Rightarrow>
              if verify_pay X agent_vk p \<noteq> Inr () then Inl BadSignature
              else (case epoch_state_of (si_state s) (pay_epoch p) of
                Fenced \<Rightarrow> Inl (EpochFenced (pay_epoch p))
              | Expired \<Rightarrow> Inl (EpochExpired (pay_epoch p))
              | Active \<Rightarrow>
                  if now < cap_valid_from_unix_ms cap then Inl NotYetValid
                  else if cap_valid_until_unix_ms cap < now then Inl CapabilityExpired
                  else if pay_expiry_unix_ms p < now then Inl PayExpired
                  else if pay_currency p \<noteq> cap_currency cap then Inl CurrencyMismatch
                  else if micros (cap_maximum_per_call cap) < micros (pay_amount p)
                  then Inl (ExceedsPerCall (pay_amount p) (cap_maximum_per_call cap))
                  else if micros (pay_max_amount p) < micros (pay_amount p) then Inl ExceedsMaxAmount
                  else if \<not> service_in_scope (pay_service_id p) (cap_service_scope cap)
                  then Inl ServiceOutOfScope
                  else if is_consumed (si_state s) (pay_capability_id p) (pay_epoch p) (pay_sequence p)
                  then Inl (Replay (pay_capability_id p) (pay_epoch p) (pay_sequence p))
                  else (case remaining_of (si_state s) (pay_capability_id p) of
                    Inl e \<Rightarrow> Inl e
                  | Inr remaining \<Rightarrow>
                      if micros remaining < micros (pay_amount p)
                      then Inl (InsufficientRemaining remaining (pay_amount p))
                      else Inr ()))))"

section \<open>Durable steps\<close>

text \<open>\<open>wal.append\<close> on the validator's file, and \<open>consume_pay\<close> on its ledger.\<close>

definition append_record :: "crypto \<Rightarrow> wal_record \<Rightarrow> shard_inner \<Rightarrow> unit engine" where
  "append_record X r s =
     (let io = (case si_io s of [] \<Rightarrow> None | f # _ \<Rightarrow> f); s1 = s\<lparr> si_io := tl (si_io s) \<rparr> in
      case wal_append X io r (si_wal s) of
        Ok _ f \<Rightarrow> Ok () (s1\<lparr> si_wal := f \<rparr>)
      | Err e f \<Rightarrow> Err e (s1\<lparr> si_wal := f \<rparr>)
      | Panic \<Rightarrow> Panic)"

definition consume_body :: "pay_commit_body \<Rightarrow> shard_inner \<Rightarrow> unit engine" where
  "consume_body b s =
     (case consume_pay (pb_capability_id b) (pb_epoch b) (pb_sequence b) (pb_amount b) (si_state s) of
        Ok _ t \<Rightarrow> Ok () (s\<lparr> si_state := t \<rparr>)
      | Err e t \<Rightarrow> Err e (s\<lparr> si_state := t \<rparr>)
      | Panic \<Rightarrow> Panic)"

definition pay_record :: "pay_commit_body \<Rightarrow> wal_record" where
  "pay_record b = ConsumePay (pb_tx_id b) (pb_capability_id b) (pb_epoch b) (pb_sequence b) (pb_amount b)"

definition durable_commit :: "crypto \<Rightarrow> pay_commit_body \<Rightarrow> shard_inner \<Rightarrow> unit engine" where
  "durable_commit X b s = and_then (append_record X (pay_record b) s) (\<lambda>_ s1. consume_body b s1)"

definition body_consumed :: "pay_commit_body \<Rightarrow> shard_inner \<Rightarrow> bool" where
  "body_consumed b s \<longleftrightarrow> is_consumed (si_state s) (pb_capability_id b) (pb_epoch b) (pb_sequence b)"

text \<open>\<open>if !is_consumed { durable_commit }\<close>, and \<open>if !Fenced { append; fence }\<close>.\<close>

definition commit_once :: "crypto \<Rightarrow> pay_commit_body \<Rightarrow> shard_inner \<Rightarrow> unit engine" where
  "commit_once X b s = (if body_consumed b s then Ok () s else durable_commit X b s)"

definition fence_once :: "crypto \<Rightarrow> epoch \<Rightarrow> shard_inner \<Rightarrow> unit engine" where
  "fence_once X ep s =
     (if epoch_state_of (si_state s) ep = Fenced then Ok () s
      else and_then (append_record X (FenceEpoch ep) s)
             (\<lambda>_ s1. Ok () (s1\<lparr> si_state := fence_epoch ep (si_state s1) \<rparr>)))"

section \<open>Handling a message\<close>

definition handle_propose :: "crypto \<Rightarrow> pay_commit_body \<Rightarrow> pay \<Rightarrow> u64 \<Rightarrow> shard_inner \<Rightarrow> unit engine" where
  "handle_propose X b p now s =
     (if validate_pay X s p now = Inr () then
        ret_or_panic (body_digest X b) (\<lambda>d.
          Ok () (broadcast (Vote d (engine_id s) (sign_digest X (vc_key (si_cfg s)) d)) s))
      else Ok () s)"

definition handle_commit :: "crypto \<Rightarrow> pay_commit_body \<Rightarrow> (u8 \<times> bytes) list \<Rightarrow> shard_inner \<Rightarrow> unit engine" where
  "handle_commit X b votes s =
     ret_or_panic (body_digest X b) (\<lambda>d.
       if need_of s \<le> count_good X s d votes
       then and_then (commit_once X b s) (\<lambda>_ s1. Ok () (broadcast (DurableAck d (engine_id s1)) s1))
       else Ok () s)"

definition handle_fence_commit :: "crypto \<Rightarrow> epoch \<Rightarrow> shard_inner \<Rightarrow> unit engine" where
  "handle_fence_commit X ep s =
     and_then (fence_once X ep s) (\<lambda>_ s1. Ok () (broadcast (FenceDurableAck ep (engine_id s1)) s1))"

fun dispatch :: "crypto \<Rightarrow> bft_message \<Rightarrow> shard_inner \<Rightarrow> unit engine" where
  "dispatch X (Propose b p leader now) s = handle_propose X b p now s"
| "dispatch X (Commit b votes) s = handle_commit X b votes s"
| "dispatch X (FenceCommit ep voters) s = handle_fence_commit X ep s"
| "dispatch X (Fence ep leader) s = Ok () (broadcast (FenceVote ep (engine_id s)) s)"
| "dispatch X (Vote d v sig) s = Ok () s"
| "dispatch X (DurableAck d v) s = Ok () s"
| "dispatch X (FenceVote ep v) s = Ok () s"
| "dispatch X (FenceDurableAck ep v) s = Ok () s"

definition handle_message :: "crypto \<Rightarrow> bft_message \<Rightarrow> shard_inner \<Rightarrow> unit engine" where
  "handle_message X m s = (if \<not> si_alive s then Ok () s else dispatch X m s)"

text \<open>\<open>while let Ok(msg) = inbox.try_recv()\<close>: the messages are popped one by one.\<close>

fun drain :: "crypto \<Rightarrow> bft_message list \<Rightarrow> shard_inner \<Rightarrow> unit engine" where
  "drain X [] s = Ok () (s\<lparr> si_inbox := [] \<rparr>)"
| "drain X (m # ms) s =
     and_then (handle_message X m (s\<lparr> si_inbox := ms \<rparr>)) (\<lambda>_ s1. drain X ms s1)"

definition pump :: "crypto \<Rightarrow> shard_inner \<Rightarrow> unit engine" where
  "pump X s = (if \<not> si_alive s then Ok () s else drain X (si_inbox s) s)"

definition deliver :: "bft_message list \<Rightarrow> shard_inner \<Rightarrow> shard_inner" where
  "deliver ms s = s\<lparr> si_inbox := si_inbox s @ ms \<rparr>"

definition kill :: "shard_inner \<Rightarrow> shard_inner" where
  "kill s = s\<lparr> si_alive := False \<rparr>"

section \<open>Capabilities and fences\<close>

definition engine_activate :: "crypto \<Rightarrow> spend_capability \<Rightarrow> shard_inner \<Rightarrow> unit engine" where
  "engine_activate X cap s =
     (if \<not> si_alive s then Err ValidatorKilled s
      else or_err (verify_capability X (vc_issuer_vk (si_cfg s)) cap) (Err BadSignature s) (\<lambda>_.
        and_then (append_record X (ActivateCapability (cap_capability_id cap) (cap_epoch cap)
              (cap_maximum_total cap) (cap_sequence_start cap) (cap_sequence_end cap)) s) (\<lambda>_ s1.
          Ok () (s1\<lparr> si_state := activate_capability (cap_capability_id cap) (cap_epoch cap)
                        (cap_maximum_total cap) (cap_sequence_start cap) (cap_sequence_end cap) (si_state s1),
                    si_capabilities := fmupd (cap_capability_id cap) cap (si_capabilities s1) \<rparr>))))"

text \<open>One pass over the inbox while waiting for acknowledgements of a fence, or of a digest.\<close>

definition add_ack :: "u8 \<Rightarrow> u8 list \<Rightarrow> u8 list" where
  "add_ack v acks = (if v \<in> set acks then acks else acks @ [v])"

fun fence_acks :: "crypto \<Rightarrow> epoch \<Rightarrow> bft_message list \<Rightarrow> u8 list \<Rightarrow> shard_inner \<Rightarrow> u8 list engine" where
  "fence_acks X ep [] acks s = Ok acks (s\<lparr> si_inbox := [] \<rparr>)"
| "fence_acks X ep (m # ms) acks s =
     (let s0 = s\<lparr> si_inbox := ms \<rparr>;
          other = and_then (handle_message X m s0) (\<lambda>_ s1. fence_acks X ep ms acks s1)
      in case m of
           FenceDurableAck e v \<Rightarrow> if e = ep then fence_acks X ep ms (add_ack v acks) s0 else other
         | _ \<Rightarrow> other)"

fun fence_wait ::
  "crypto \<Rightarrow> epoch \<Rightarrow> nat \<Rightarrow> bft_message list list \<Rightarrow> u8 list \<Rightarrow> shard_inner \<Rightarrow> u8 list engine" where
  "fence_wait X ep need [] acks s = (if length acks < need then Err BftQuorumFailed s else Ok acks s)"
| "fence_wait X ep need (arrived # rounds) acks s =
     (if length acks < need then
        (let s1 = deliver arrived s in
         and_then (fence_acks X ep (si_inbox s1) acks s1) (\<lambda>acks' s2. fence_wait X ep need rounds acks' s2))
      else Ok acks s)"

definition engine_fence_epoch ::
  "crypto \<Rightarrow> bft_message list list \<Rightarrow> epoch \<Rightarrow> shard_inner \<Rightarrow> unit engine" where
  "engine_fence_epoch X rounds ep s =
     (if \<not> si_alive s then Err ValidatorKilled s
      else
        let s0 = broadcast (FenceCommit ep [engine_id s]) s; need = need_of s in
        and_then (fence_once X ep s0) (\<lambda>_ s1.
        and_then (fence_wait X ep need rounds [engine_id s] (broadcast (FenceDurableAck ep (engine_id s1)) s1))
          (\<lambda>_ s2. Ok () s2)))"

section \<open>Authorising a payment\<close>

text \<open>The first critical section: check, propose, vote.\<close>

definition pay_propose :: "crypto \<Rightarrow> pay \<Rightarrow> u64 \<Rightarrow> shard_inner \<Rightarrow> (pay_commit_body \<times> b32) engine" where
  "pay_propose X p now s =
     (if \<not> si_alive s then Err ValidatorKilled s
      else case validate_pay X s p now of
        Inl e \<Rightarrow> Err e s
      | Inr _ \<Rightarrow>
          (let b = body_from_pay p (tx_id X p);
               s1 = broadcast (Propose b p (engine_id s) now) s
           in ret_or_panic (body_digest X b) (\<lambda>d.
              Ok (b, d) (broadcast (Vote d (engine_id s1) (sign_digest X (vc_key (si_cfg s1)) d)) s1))))"

text \<open>One pass over the inbox while collecting votes: a bad or unknown vote is dropped.\<close>

fun take_votes ::
  "crypto \<Rightarrow> b32 \<Rightarrow> bft_message list \<Rightarrow> (u8, bytes) fmap \<Rightarrow> shard_inner \<Rightarrow> (u8, bytes) fmap engine" where
  "take_votes X d [] votes s = Ok votes (s\<lparr> si_inbox := [] \<rparr>)"
| "take_votes X d (m # ms) votes s =
     (let s0 = s\<lparr> si_inbox := ms \<rparr>;
          other = and_then (handle_message X m s0) (\<lambda>_ s1. take_votes X d ms votes s1)
      in case m of
           Vote e v sig \<Rightarrow>
             if e = d then take_votes X d ms (if good_vote X s0 d v sig then fmupd v sig votes else votes) s0
             else other
         | _ \<Rightarrow> other)"

fun vote_wait ::
  "crypto \<Rightarrow> b32 \<Rightarrow> nat \<Rightarrow> bft_message list list \<Rightarrow> (u8, bytes) fmap \<Rightarrow> shard_inner \<Rightarrow> (u8, bytes) fmap engine" where
  "vote_wait X d need [] votes s =
     (if fcard (fmdom votes) < need then Err BftQuorumFailed s else Ok votes s)"
| "vote_wait X d need (arrived # rounds) votes s =
     (if fcard (fmdom votes) < need then
        (let s1 = deliver arrived s in
         and_then (take_votes X d (si_inbox s1) votes s1) (\<lambda>votes' s2. vote_wait X d need rounds votes' s2))
      else Ok votes s)"

text \<open>The votes in the order of the voters' ids: receivers only count them, so it is not observable.\<close>

definition vote_list :: "(u8, bytes) fmap \<Rightarrow> (u8 \<times> bytes) list" where
  "vote_list votes = sorted_list_of_fmap votes"

definition pay_commit ::
  "crypto \<Rightarrow> pay_commit_body \<Rightarrow> b32 \<Rightarrow> (u8, bytes) fmap \<Rightarrow> shard_inner \<Rightarrow> unit engine" where
  "pay_commit X b d votes s =
     and_then (commit_once X b (broadcast (Commit b (vote_list votes)) s)) (\<lambda>_ s1.
       Ok () (broadcast (DurableAck d (engine_id s1)) s1))"

fun take_acks :: "crypto \<Rightarrow> b32 \<Rightarrow> bft_message list \<Rightarrow> u8 list \<Rightarrow> shard_inner \<Rightarrow> u8 list engine" where
  "take_acks X d [] acks s = Ok acks (s\<lparr> si_inbox := [] \<rparr>)"
| "take_acks X d (m # ms) acks s =
     (let s0 = s\<lparr> si_inbox := ms \<rparr>;
          other = and_then (handle_message X m s0) (\<lambda>_ s1. take_acks X d ms acks s1)
      in case m of
           DurableAck e v \<Rightarrow> if e = d then take_acks X d ms (add_ack v acks) s0 else other
         | _ \<Rightarrow> other)"

fun ack_wait ::
  "crypto \<Rightarrow> b32 \<Rightarrow> nat \<Rightarrow> bft_message list list \<Rightarrow> u8 list \<Rightarrow> shard_inner \<Rightarrow> u8 list engine" where
  "ack_wait X d need [] acks s = (if length acks < need then Err BftQuorumFailed s else Ok acks s)"
| "ack_wait X d need (arrived # rounds) acks s =
     (if length acks < need then
        (let s1 = deliver arrived s in
         and_then (take_acks X d (si_inbox s1) acks s1) (\<lambda>acks' s2. ack_wait X d need rounds acks' s2))
      else Ok acks s)"

definition pay_finish :: "crypto \<Rightarrow> pay_commit_body \<Rightarrow> b32 \<Rightarrow> shard_inner \<Rightarrow> edge_accept" where
  "pay_finish X b d s =
     \<lparr> ed_commit_index = ss_commit_index (si_state s), ed_tx_id = pb_tx_id b,
       ed_edge_signature = sign_edge_accept X (vc_key (si_cfg s)) d (ss_commit_index (si_state s)) \<rparr>"

definition handle_pay ::
  "crypto \<Rightarrow> bft_message list list \<Rightarrow> bft_message list list \<Rightarrow> pay \<Rightarrow> u64 \<Rightarrow> shard_inner \<Rightarrow> edge_accept engine" where
  "handle_pay X vote_rounds ack_rounds p now s =
     and_then (pay_propose X p now s) (\<lambda>(b, d) s1.
     let need = need_of s1;
         own = fmupd (engine_id s1) (sign_digest X (vc_key (si_cfg s1)) d) fmempty
     in and_then (vote_wait X d need vote_rounds own s1) (\<lambda>votes s2.
        and_then (pay_commit X b d votes s2) (\<lambda>_ s3.
        and_then (ack_wait X d need ack_rounds [engine_id s3] s3) (\<lambda>_ s4.
        Ok (pay_finish X b d s4) s4))))"

section \<open>Opening\<close>

text \<open>The faults are those of opening the file for append and of opening it for the replay.\<close>

definition open_engine ::
  "crypto \<Rightarrow> (bytes \<Rightarrow> wal_record option) \<Rightarrow> string option \<Rightarrow> string option \<Rightarrow> validator_config
   \<Rightarrow> bytes option \<Rightarrow> u8 fset \<Rightarrow> (unit, shard_error, shard_inner) outcome" where
  "open_engine X D open_fault read_fault cfg existing outboxes =
     (case wal_open open_fault existing of
        Inl e \<Rightarrow> Err e ()
      | Inr file \<Rightarrow>
          (case wal_replay D read_fault file of
             Ok _ st \<Rightarrow> Ok \<lparr> si_cfg = cfg, si_state = st, si_wal = file, si_capabilities = fmempty,
               si_alive = True, si_inbox = [], si_outboxes = outboxes, si_sent = [], si_io = [] \<rparr> ()
           | Err e _ \<Rightarrow> Err e ()
           | Panic \<Rightarrow> Panic))"

end
