(* ===== verification/Engine_Contract.thy ===== *)
theory Engine_Contract
  imports Engine
begin

text \<open>
  What every operation of a shard validator does to its state. The locale \<open>engine_contract\<close> asks
  for a relation that the primitive steps satisfy (sending, committing once, fencing once,
  activating) and gives it for every operation, the waiting loops included. Four relations
  interpret it: the configuration stays, consumption and fencing only grow, acknowledgements
  are backed by a consumed payment, and the log replays to the ledger.
\<close>

section \<open>The contract\<close>

fun is_ack :: "bft_message \<Rightarrow> bool" where
  "is_ack (DurableAck d v) = True"
| "is_ack _ = False"

locale engine_contract =
  fixes X :: crypto
    and R :: "shard_inner \<Rightarrow> shard_inner \<Rightarrow> bool"
    and E :: "shard_inner \<Rightarrow> shard_inner \<Rightarrow> bool"
  assumes R_refl: "R s s"
    and R_trans: "R s t \<Longrightarrow> R t u \<Longrightarrow> R s u"
    and R_E: "R s t \<Longrightarrow> E s t"
    and R_E_trans: "R s t \<Longrightarrow> E t u \<Longrightarrow> E s u"
    and inbox: "R s (s\<lparr> si_inbox := ms \<rparr>)"
    and say: "\<not> is_ack m \<Longrightarrow> R s (broadcast m s)"
    and ack: "body_digest X b = Some d \<Longrightarrow> body_consumed b s \<Longrightarrow> R s (broadcast (DurableAck d (engine_id s)) s)"
    and commit_Ok: "commit_once X b s = Ok () t \<Longrightarrow> R s t"
    and commit_Err: "commit_once X b s = Err e t \<Longrightarrow> E s t"
    and fence_Ok: "fence_once X ep s = Ok () t \<Longrightarrow> R s t"
    and fence_Err: "fence_once X ep s = Err e t \<Longrightarrow> E s t"
    and activate_Ok: "engine_activate X c s = Ok () t \<Longrightarrow> R s t"
    and activate_Err: "engine_activate X c s = Err e t \<Longrightarrow> E s t"
begin

definition holds :: "shard_inner \<Rightarrow> 'a engine \<Rightarrow> bool" where
  "holds s r \<longleftrightarrow> (case r of Ok _ t \<Rightarrow> R s t | Err _ t \<Rightarrow> E s t | Panic \<Rightarrow> True)"

lemma holds_simps [simp]:
  "holds s (Ok a t) = R s t" "holds s (Err e t) = E s t" "holds s Panic"
  by (simp_all add: holds_def)

lemma holds_Ok: "R s t \<Longrightarrow> holds s (Ok a t)"
  by simp

lemma holds_Err: "R s t \<Longrightarrow> holds s (Err e t)"
  by (simp add: R_E)

lemma holds_after: "R s t \<Longrightarrow> holds t r \<Longrightarrow> holds s r"
  by (cases r) (auto intro: R_trans R_E_trans)

lemma holds_and_then:
  assumes "holds s r" and "\<And>a t. r = Ok a t \<Longrightarrow> R s t \<Longrightarrow> holds t (k a t)"
  shows "holds s (and_then r k)"
  using assms by (cases r) (auto intro: holds_after)

lemma holds_ret_or_panic: "(\<And>a. x = Some a \<Longrightarrow> holds s (k a)) \<Longrightarrow> holds s (ret_or_panic x k)"
  by (cases x) auto

lemma holds_commit_once: "holds s (commit_once X b s)"
  by (cases "commit_once X b s") (auto intro: commit_Ok commit_Err)

lemma holds_fence_once: "holds s (fence_once X ep s)"
  by (cases "fence_once X ep s") (auto intro: fence_Ok fence_Err)

lemma holds_activate: "holds s (engine_activate X c s)"
  by (cases "engine_activate X c s") (auto intro: activate_Ok activate_Err)

lemma commit_consumes: "commit_once X b s = Ok u t \<Longrightarrow> body_consumed b t"
  by (auto simp: commit_once_def durable_commit_def append_record_def consume_body_def Let_def
      and_then_iff consume_pay_Ok_iff body_consumed_def split: if_splits outcome.splits)

lemma holds_dispatch: "holds s (dispatch X m s)"
proof (cases m)
  case (Propose b p l now)
  then show ?thesis
    by (auto simp: handle_propose_def R_refl intro!: holds_ret_or_panic holds_Ok say)
next
  case (Commit b votes)
  have "holds t (Ok () (broadcast (DurableAck d (engine_id t)) t))"
    if "body_digest X b = Some d" "commit_once X b s = Ok u t" for d u t
    using ack [OF that(1) commit_consumes [OF that(2)]] by simp
  then show ?thesis
    using Commit
    by (auto simp: handle_commit_def R_refl intro!: holds_ret_or_panic holds_and_then holds_commit_once)
next
  case (FenceCommit ep vs)
  then show ?thesis
    by (auto simp: handle_fence_commit_def intro!: holds_and_then holds_fence_once say)
qed (auto simp: R_refl intro: say)

lemma holds_handle_message: "holds s (handle_message X m s)"
  by (simp add: handle_message_def holds_dispatch R_refl)

lemma holds_message_then:
  assumes "\<And>t. R s t \<Longrightarrow> holds t (k t)"
  shows "holds s (and_then (handle_message X m (s\<lparr> si_inbox := ms \<rparr>)) (\<lambda>_ t. k t))"
proof (rule holds_and_then)
  have i: "R s (s\<lparr> si_inbox := ms \<rparr>)" by (rule inbox)
  show "holds s (handle_message X m (s\<lparr> si_inbox := ms \<rparr>))"
    using holds_after [OF i holds_handle_message] .
  fix a t assume "R s t"
  then show "holds t (k t)" by (rule assms)
qed

lemma holds_drain: "holds s (drain X ms s)"
  by (induction ms arbitrary: s) (auto intro: inbox holds_message_then)

lemma holds_pump: "holds s (pump X s)"
  by (simp add: pump_def holds_drain R_refl)

lemma holds_deliver: "R s (deliver ms s)"
  by (simp add: deliver_def inbox)

text \<open>A loop over the inbox: each message is either taken by the loop or handled.\<close>

lemma holds_fence_acks: "holds s (fence_acks X ep ms acks s)"
proof (induction ms arbitrary: acks s)
  case (Cons m ms)
  have "holds s (and_then (handle_message X m (s\<lparr> si_inbox := ms \<rparr>)) (\<lambda>_ t. fence_acks X ep ms acks t))"
    using Cons.IH by (intro holds_message_then)
  moreover have "holds s (fence_acks X ep ms acks' (s\<lparr> si_inbox := ms \<rparr>))" for acks'
    by (rule holds_after [OF inbox Cons.IH])
  ultimately show ?case by (cases m) (simp_all add: Let_def)
qed (simp add: inbox)

lemma holds_take_votes: "holds s (take_votes X d ms votes s)"
proof (induction ms arbitrary: votes s)
  case (Cons m ms)
  have "holds s (and_then (handle_message X m (s\<lparr> si_inbox := ms \<rparr>)) (\<lambda>_ t. take_votes X d ms votes t))"
    using Cons.IH by (intro holds_message_then)
  moreover have "holds s (take_votes X d ms votes' (s\<lparr> si_inbox := ms \<rparr>))" for votes'
    by (rule holds_after [OF inbox Cons.IH])
  ultimately show ?case by (cases m) (simp_all add: Let_def)
qed (simp add: inbox)

lemma holds_take_acks: "holds s (take_acks X d ms acks s)"
proof (induction ms arbitrary: acks s)
  case (Cons m ms)
  have "holds s (and_then (handle_message X m (s\<lparr> si_inbox := ms \<rparr>)) (\<lambda>_ t. take_acks X d ms acks t))"
    using Cons.IH by (intro holds_message_then)
  moreover have "holds s (take_acks X d ms acks' (s\<lparr> si_inbox := ms \<rparr>))" for acks'
    by (rule holds_after [OF inbox Cons.IH])
  ultimately show ?case by (cases m) (simp_all add: Let_def)
qed (simp add: inbox)

lemma holds_fence_wait: "holds s (fence_wait X ep need rounds acks s)"
proof (induction rounds arbitrary: acks s)
  case (Cons ms rounds)
  let ?s = "deliver ms s"
  have step: "holds ?s (and_then (fence_acks X ep (si_inbox ?s) acks ?s) (\<lambda>a t. fence_wait X ep need rounds a t))"
    by (intro holds_and_then holds_fence_acks Cons.IH)
  show ?case using holds_after [OF holds_deliver step] by (simp add: Let_def R_refl)
qed (simp add: R_refl R_E)

lemma holds_vote_wait: "holds s (vote_wait X d need rounds votes s)"
proof (induction rounds arbitrary: votes s)
  case (Cons ms rounds)
  let ?s = "deliver ms s"
  have step: "holds ?s (and_then (take_votes X d (si_inbox ?s) votes ?s) (\<lambda>a t. vote_wait X d need rounds a t))"
    by (intro holds_and_then holds_take_votes Cons.IH)
  show ?case using holds_after [OF holds_deliver step] by (simp add: Let_def R_refl)
qed (simp add: R_refl R_E)

lemma holds_ack_wait: "holds s (ack_wait X d need rounds acks s)"
proof (induction rounds arbitrary: acks s)
  case (Cons ms rounds)
  let ?s = "deliver ms s"
  have step: "holds ?s (and_then (take_acks X d (si_inbox ?s) acks ?s) (\<lambda>a t. ack_wait X d need rounds a t))"
    by (intro holds_and_then holds_take_acks Cons.IH)
  show ?case using holds_after [OF holds_deliver step] by (simp add: Let_def R_refl)
qed (simp add: R_refl R_E)

lemma holds_fence_epoch: "holds s (engine_fence_epoch X rounds ep s)"
proof (cases "si_alive s")
  case True
  let ?s0 = "broadcast (FenceCommit ep [engine_id s]) s"
  have R0: "R s ?s0" by (rule say) simp
  have "holds ?s0 (and_then (fence_once X ep ?s0) (\<lambda>_ s1.
      and_then (fence_wait X ep (need_of s) rounds [engine_id s] (broadcast (FenceDurableAck ep (engine_id s1)) s1))
        (\<lambda>_ s2. Ok () s2)))"
    by (intro holds_and_then holds_fence_once holds_after [OF say holds_fence_wait]) (simp_all add: R_refl)
  then show ?thesis using True holds_after [OF R0] by (simp add: engine_fence_epoch_def Let_def)
qed (simp add: engine_fence_epoch_def R_refl R_E)

lemma holds_pay_propose: "holds s (pay_propose X p now s)"
proof -
  have "R s (broadcast (Vote d v sig) (broadcast (Propose b p w now) s))" for d v sig b w
    by (rule R_trans [OF say say]) simp_all
  then show ?thesis
    by (auto simp: pay_propose_def Let_def R_refl R_E intro!: holds_ret_or_panic split: sum.split)
qed

lemma holds_pay_commit:
  assumes "body_digest X b = Some d"
  shows "holds s (pay_commit X b d votes s)"
proof -
  let ?s0 = "broadcast (Commit b (vote_list votes)) s"
  have R0: "R s ?s0" by (rule say) simp
  have "holds t (Ok () (broadcast (DurableAck d (engine_id t)) t))"
    if "commit_once X b ?s0 = Ok u t" for u t
    using ack [OF assms commit_consumes [OF that]] by simp
  then have "holds ?s0 (and_then (commit_once X b ?s0)
      (\<lambda>_ s1. Ok () (broadcast (DurableAck d (engine_id s1)) s1)))"
    by (intro holds_and_then holds_commit_once)
  then show ?thesis using holds_after [OF R0] by (simp add: pay_commit_def)
qed

lemma pay_propose_digest: "pay_propose X p now s = Ok (b, d) t \<Longrightarrow> body_digest X b = Some d"
  by (auto simp: pay_propose_def Let_def ret_or_panic_iff split: if_splits sum.splits)

lemma holds_handle_pay: "holds s (handle_pay X vr ar p now s)"
proof -
  have "holds t (let need = need_of t;
         own = fmupd (engine_id t) (sign_digest X (vc_key (si_cfg t)) d) fmempty
     in and_then (vote_wait X d need vr own t) (\<lambda>votes s2.
        and_then (pay_commit X b d votes s2) (\<lambda>_ s3.
        and_then (ack_wait X d need ar [engine_id s3] s3) (\<lambda>_ s4. Ok (pay_finish X b d s4) s4))))"
    if "body_digest X b = Some d" for b d t
    unfolding Let_def
    by (intro holds_and_then holds_vote_wait holds_pay_commit [OF that] holds_ack_wait) (simp add: R_refl)
  then show ?thesis
    unfolding handle_pay_def
    by (intro holds_and_then holds_pay_propose) (auto dest: pay_propose_digest split: prod.split)
qed

end

end
