(* ===== verification/Engine_Safety.thy ===== *)
theory Engine_Safety
  imports Engine_Contract
begin

text \<open>
  The interpretations of the engine's contract and what follows for one validator: nothing
  consumed or fenced is ever undone, acknowledgements are backed, the log replays to the
  ledger, what an accepted payment satisfies, and what a returned edge acceptance stands for.
\<close>

section \<open>The primitive steps\<close>

lemma append_record_Ok:
  "append_record X r s = Ok u t \<longleftrightarrow>
     (\<exists>fr. wal_frame X r = Inr fr \<and> (case si_io s of [] \<Rightarrow> True | f # _ \<Rightarrow> f = None) \<and>
        t = s\<lparr> si_io := tl (si_io s), si_wal := si_wal s @ fr \<rparr>)"
  by (auto simp: append_record_def wal_append_def Let_def split: outcome.splits list.splits option.splits sum.splits)

lemma append_record_Err:
  "append_record X r s = Err e t \<Longrightarrow> \<exists>w. t = s\<lparr> si_io := tl (si_io s), si_wal := w \<rparr>"
  by (auto simp: append_record_def Let_def split: outcome.splits)

definition consumed_state :: "pay_commit_body \<Rightarrow> shard_state \<Rightarrow> shard_state" where
  "consumed_state b st = after_consume st (pb_capability_id b) (pb_epoch b) (pb_sequence b) (pb_amount b)"

definition body_consumable :: "pay_commit_body \<Rightarrow> shard_state \<Rightarrow> bool" where
  "body_consumable b st \<longleftrightarrow> consumable st (pb_capability_id b) (pb_epoch b) (pb_sequence b) (pb_amount b)
     \<and> unat (ss_commit_index st) + 1 < 2 ^ 64"

lemma consume_body_Ok:
  "consume_body b s = Ok u t \<longleftrightarrow>
     body_consumable b (si_state s) \<and> t = s\<lparr> si_state := consumed_state b (si_state s) \<rparr>"
proof -
  let ?r = "consume_pay (pb_capability_id b) (pb_epoch b) (pb_sequence b) (pb_amount b) (si_state s)"
  have eq: "?r = Ok ci st \<longleftrightarrow> body_consumable b (si_state s) \<and> ci = ss_commit_index (si_state s) + 1 \<and>
      st = consumed_state b (si_state s)" for ci st
    unfolding consume_pay_Ok_iff body_consumable_def consumed_state_def by blast
  have "consume_body b s = Ok u t \<longleftrightarrow> (\<exists>ci st. ?r = Ok ci st \<and> t = s\<lparr> si_state := st \<rparr>)"
    by (cases ?r) (auto simp: consume_body_def)
  then show ?thesis unfolding eq by auto
qed

lemma consume_body_Err: "consume_body b s = Err e t \<Longrightarrow> t = s"
  by (auto simp: consume_body_def dest: consume_pay_Err_state split: outcome.splits)

lemma durable_commit_Ok:
  "durable_commit X b s = Ok u t \<longleftrightarrow>
     (\<exists>m. append_record X (pay_record b) s = Ok () m \<and> body_consumable b (si_state s) \<and>
        t = m\<lparr> si_state := consumed_state b (si_state s) \<rparr>)"
proof -
  have "si_state m = si_state s" if "append_record X (pay_record b) s = Ok () m" for m
    using that by (auto simp: append_record_Ok)
  then show ?thesis by (auto simp: durable_commit_def and_then_iff consume_body_Ok)
qed

lemma durable_commit_Err:
  "durable_commit X b s = Err e t \<Longrightarrow> \<exists>io w. t = s\<lparr> si_io := io, si_wal := w \<rparr>"
  by (auto simp: durable_commit_def and_then_iff append_record_Ok dest!: append_record_Err consume_body_Err)

lemma fence_once_Ok:
  "fence_once X ep s = Ok u t \<longleftrightarrow>
     (if epoch_state_of (si_state s) ep = Fenced then t = s
      else (\<exists>m. append_record X (FenceEpoch ep) s = Ok () m \<and>
              t = m\<lparr> si_state := fence_epoch ep (si_state s) \<rparr>))"
proof -
  have "si_state m = si_state s" if "append_record X (FenceEpoch ep) s = Ok () m" for m
    using that by (auto simp: append_record_Ok)
  then show ?thesis by (auto simp: fence_once_def and_then_iff)
qed

lemma fence_once_Err:
  "fence_once X ep s = Err e t \<Longrightarrow> \<exists>io w. t = s\<lparr> si_io := io, si_wal := w \<rparr>"
  by (auto simp: fence_once_def and_then_iff dest!: append_record_Err split: if_splits)

definition activation_record :: "spend_capability \<Rightarrow> wal_record" where
  "activation_record c = ActivateCapability (cap_capability_id c) (cap_epoch c) (cap_maximum_total c)
     (cap_sequence_start c) (cap_sequence_end c)"

definition activated_state :: "spend_capability \<Rightarrow> shard_state \<Rightarrow> shard_state" where
  "activated_state c st = activate_capability (cap_capability_id c) (cap_epoch c) (cap_maximum_total c)
     (cap_sequence_start c) (cap_sequence_end c) st"

lemma engine_activate_Ok:
  "engine_activate X c s = Ok u t \<longleftrightarrow> si_alive s \<and>
     verify_capability X (vc_issuer_vk (si_cfg s)) c = Inr () \<and>
     (\<exists>m. append_record X (activation_record c) s = Ok () m \<and>
        t = m\<lparr> si_state := activated_state c (si_state s),
              si_capabilities := fmupd (cap_capability_id c) c (si_capabilities s) \<rparr>)"
proof -
  have "si_state m = si_state s \<and> si_capabilities m = si_capabilities s"
    if "append_record X (activation_record c) s = Ok () m" for m
    using that by (auto simp: append_record_Ok)
  then show ?thesis
    by (auto simp: engine_activate_def outcome_iff activation_record_def activated_state_def)
qed

lemma engine_activate_Err:
  "engine_activate X c s = Err e t \<Longrightarrow> \<exists>io w. t = s\<lparr> si_io := io, si_wal := w \<rparr>"
proof -
  assume a: "engine_activate X c s = Err e t"
  have "t = s \<or> (\<exists>io w. t = s\<lparr> si_io := io, si_wal := w \<rparr>)"
    using a by (auto simp: engine_activate_def outcome_iff dest!: append_record_Err split: if_splits)
  then show ?thesis by (metis shard_inner.surjective shard_inner.update_convs(3,9))
qed

section \<open>Nothing is undone\<close>

definition grows :: "shard_inner \<Rightarrow> shard_inner \<Rightarrow> bool" where
  "grows s t \<longleftrightarrow> si_cfg t = si_cfg s \<and> si_outboxes t = si_outboxes s \<and>
     (\<forall>b. body_consumed b s \<longrightarrow> body_consumed b t) \<and>
     (\<forall>ep. epoch_state_of (si_state s) ep = Fenced \<longrightarrow> epoch_state_of (si_state t) ep = Fenced)"

lemma append_record_frame:
  "append_record X r s = Ok u t \<Longrightarrow> si_cfg t = si_cfg s \<and> si_outboxes t = si_outboxes s \<and>
     si_state t = si_state s \<and> si_sent t = si_sent s \<and> si_capabilities t = si_capabilities s"
  by (auto simp: append_record_Ok)

lemma consumed_state_grows [simp]:
  "is_consumed st c e q \<Longrightarrow> is_consumed (consumed_state b st) c e q"
  "epoch_state_of (consumed_state b st) ep = epoch_state_of st ep"
  by (auto simp: consumed_state_def)

lemma fenced_known: "epoch_state_of st ep = Fenced \<Longrightarrow> fmlookup (ss_epoch_states st) (epoch_num ep) \<noteq> None"
  by (auto simp: epoch_state_of_def split: option.splits)

lemma engine_id_frame [simp]:
  "engine_id (broadcast m s) = engine_id s" "engine_id (s\<lparr> si_inbox := ms \<rparr>) = engine_id s"
  "engine_id (s\<lparr> si_state := st \<rparr>) = engine_id s"
  by (simp_all add: engine_id_def broadcast_def)

interpretation growing: engine_contract X grows grows for X
proof unfold_locales
  show "grows s t" if "commit_once X b s = Ok () t" for X s t b
    using that
    by (auto simp: commit_once_def durable_commit_Ok grows_def body_consumed_def
        dest: append_record_frame split: if_splits)
  show "grows s t" if "commit_once X b s = Err e t" for X s t b e
    using that by (auto simp: commit_once_def grows_def body_consumed_def dest!: durable_commit_Err split: if_splits)
  show "grows s t" if "fence_once X ep s = Ok () t" for X s t ep
    using that by (auto simp: fence_once_Ok grows_def body_consumed_def dest: append_record_frame split: if_splits)
  show "grows s t" if "fence_once X ep s = Err e t" for X s t ep e
    using fence_once_Err [OF that] by (auto simp: grows_def body_consumed_def)
  show "grows s t" if "engine_activate X c s = Ok () t" for X s t c
    using that
    by (auto simp: engine_activate_Ok grows_def body_consumed_def activated_state_def
        dest: append_record_frame fenced_known)
  show "grows s t" if "engine_activate X c s = Err e t" for X s t c e
    using engine_activate_Err [OF that] by (auto simp: grows_def body_consumed_def)
qed (auto simp: grows_def body_consumed_def broadcast_def)

section \<open>Acknowledgements are backed\<close>

text \<open>Every durable acknowledgement a validator sent is its own, for a payment it has consumed.\<close>

definition acks_backed :: "crypto \<Rightarrow> shard_inner \<Rightarrow> bool" where
  "acks_backed X s \<longleftrightarrow>
     (\<forall>d v. DurableAck d v \<in> set (si_sent s) \<longrightarrow>
        v = engine_id s \<and> (\<exists>b. body_digest X b = Some d \<and> body_consumed b s))"

definition backs :: "crypto \<Rightarrow> shard_inner \<Rightarrow> shard_inner \<Rightarrow> bool" where
  "backs X s t \<longleftrightarrow> grows s t \<and> (acks_backed X s \<longrightarrow> acks_backed X t)"

lemma acks_backed_mono:
  assumes "acks_backed X s" and "grows s t" and "si_sent t = si_sent s"
  shows "acks_backed X t"
  using assms unfolding acks_backed_def grows_def engine_id_def by metis

lemma backs_silent: "grows s t \<Longrightarrow> si_sent t = si_sent s \<Longrightarrow> backs X s t"
  unfolding backs_def using acks_backed_mono by blast

lemma commit_once_silent: "commit_once X b s = Ok u t \<Longrightarrow> si_sent t = si_sent s"
  "commit_once X b s = Err e t \<Longrightarrow> si_sent t = si_sent s"
  by (auto simp: commit_once_def durable_commit_Ok dest: append_record_frame split: if_splits)
    (auto dest!: durable_commit_Err)

lemma fence_once_silent: "fence_once X ep s = Ok u t \<Longrightarrow> si_sent t = si_sent s"
  "fence_once X ep s = Err e t \<Longrightarrow> si_sent t = si_sent s"
  by (auto simp: fence_once_Ok dest: append_record_frame split: if_splits) (auto dest!: fence_once_Err)

lemma engine_activate_silent: "engine_activate X c s = Ok u t \<Longrightarrow> si_sent t = si_sent s"
  "engine_activate X c s = Err e t \<Longrightarrow> si_sent t = si_sent s"
  by (auto simp: engine_activate_Ok dest: append_record_frame) (auto dest!: engine_activate_Err)

interpretation backing: engine_contract X "backs X" "backs X" for X
proof unfold_locales
  show "backs X s (broadcast m s)" if "\<not> is_ack m" for X s m
    using that growing.say [of m s]
    by (cases m) (auto simp: backs_def acks_backed_def body_consumed_def broadcast_def engine_id_def)
  show "backs X s (broadcast (DurableAck d (engine_id s)) s)"
    if "body_digest X b = Some d" "body_consumed b s" for X b d s
    using that growing.ack [OF that]
    by (auto simp: backs_def acks_backed_def body_consumed_def broadcast_def engine_id_def)
  show "backs X s (s\<lparr> si_inbox := ms \<rparr>)" for X s ms
    by (rule backs_silent [OF growing.inbox]) simp
  show "backs X s s" for X s by (rule backs_silent [OF growing.R_refl]) simp
  show "backs X s u" if "backs X s t" "backs X t u" for X s t u
    using that growing.R_trans unfolding backs_def by blast
  show "backs X s t" if "commit_once X b s = Ok () t" for X s t b
    using that by (intro backs_silent growing.commit_Ok commit_once_silent)
  show "backs X s t" if "commit_once X b s = Err e t" for X s t b e
    using that by (intro backs_silent growing.commit_Err commit_once_silent)
  show "backs X s t" if "fence_once X ep s = Ok () t" for X s t ep
    using that by (intro backs_silent growing.fence_Ok fence_once_silent)
  show "backs X s t" if "fence_once X ep s = Err e t" for X s t ep e
    using that by (intro backs_silent growing.fence_Err fence_once_silent)
  show "backs X s t" if "engine_activate X c s = Ok () t" for X s t c
    using that by (intro backs_silent growing.activate_Ok engine_activate_silent)
  show "backs X s t" if "engine_activate X c s = Err e t" for X s t c e
    using that by (intro backs_silent growing.activate_Err engine_activate_silent)
qed auto

section \<open>The log replays to the ledger\<close>

text \<open>The file holds records whose replay ends in the validator's ledger.\<close>

definition journaled :: "crypto \<Rightarrow> shard_inner \<Rightarrow> bool" where
  "journaled X s \<longleftrightarrow>
     (\<exists>rs. wal_file X rs (si_wal s) \<and> run_log apply_record rs shard_state_new = Ok () (si_state s))"

lemma append_record_wal:
  assumes "append_record X r s = Ok u m" and "wal_file X rs (si_wal s)"
  shows "wal_file X (rs @ [r]) (si_wal m)"
proof -
  obtain fr where fr: "wal_frame X r = Inr fr" and w: "si_wal m = si_wal s @ fr"
    using assms(1) by (auto simp: append_record_Ok)
  have "wal_append X None r (si_wal s) = Ok () (si_wal m)" using fr w by (simp add: wal_append_def)
  then show ?thesis by (rule wal_file_append [OF assms(2)])
qed

lemma journaled_append:
  assumes "journaled X s" and "append_record X r s = Ok u m" and "apply_record r (si_state s) = Ok () st"
  shows "journaled X (m\<lparr> si_state := st \<rparr>)"
proof -
  obtain rs where "wal_file X rs (si_wal s)" "run_log apply_record rs shard_state_new = Ok () (si_state s)"
    using assms(1) by (auto simp: journaled_def)
  then have "wal_file X (rs @ [r]) (si_wal m)" "run_log apply_record (rs @ [r]) shard_state_new = Ok () st"
    using append_record_wal [OF assms(2)] assms(3) by (auto simp: run_log_snoc_Ok)
  then show ?thesis unfolding journaled_def by (intro exI [of _ "rs @ [r]"]) simp
qed

lemma journaled_cong:
  "si_wal t = si_wal s \<Longrightarrow> si_state t = si_state s \<Longrightarrow> journaled X t \<longleftrightarrow> journaled X s"
  by (simp add: journaled_def)

definition journals :: "crypto \<Rightarrow> shard_inner \<Rightarrow> shard_inner \<Rightarrow> bool" where
  "journals X s t \<longleftrightarrow> (journaled X s \<longrightarrow> journaled X t)"

lemma durable_commit_journaled:
  "durable_commit X b s = Ok u t \<Longrightarrow> journaled X s \<Longrightarrow> journaled X t"
  by (auto simp: durable_commit_Ok body_consumable_def consumed_state_def pay_record_def
      simp del: apply_record.simps intro!: journaled_append apply_ConsumePay_Ok [THEN iffD2])

interpretation journaling: engine_contract X "journals X" "\<lambda>_ _. True" for X
proof unfold_locales
  show "journals X s t" if "commit_once X b s = Ok () t" for X s t b
    using that by (auto simp: commit_once_def journals_def dest: durable_commit_journaled split: if_splits)
  show "journals X s t" if "fence_once X ep s = Ok () t" for X s t ep
    using that by (auto simp: fence_once_Ok journals_def split: if_splits intro: journaled_append)
  show "journals X s t" if act: "engine_activate X c s = Ok () t" for X s t c
  proof -
    obtain m where m: "append_record X (activation_record c) s = Ok () m"
      and t: "t = m\<lparr> si_state := activated_state c (si_state s),
              si_capabilities := fmupd (cap_capability_id c) c (si_capabilities s) \<rparr>"
      using act by (auto simp: engine_activate_Ok)
    have "journaled X s \<Longrightarrow> journaled X (m\<lparr> si_state := activated_state c (si_state s) \<rparr>)"
      using journaled_append [OF _ m] by (simp add: activation_record_def activated_state_def)
    then show ?thesis by (auto simp: journals_def t journaled_def)
  qed
qed (auto simp: journals_def journaled_def broadcast_def)

text \<open>A validator reopened on a journaled file has the ledger the file was written from.\<close>

lemma open_engine_recovers:
  assumes "wal_codec X D" and "journaled X s"
  shows "\<exists>t. open_engine X D None None cfg (Some (si_wal s)) peers = Ok t () \<and> si_state t = si_state s
    \<and> si_wal t = si_wal s \<and> journaled X t"
proof -
  obtain rs where "wal_file X rs (si_wal s)" and "run_log apply_record rs shard_state_new = Ok () (si_state s)"
    using assms(2) by (auto simp: journaled_def)
  then have "wal_replay D None (si_wal s) = Ok () (si_state s)"
    using wal_replay_file [OF assms(1)] by simp
  then show ?thesis
    using assms(2) by (simp add: open_engine_def wal_open_def journaled_def)
qed

text \<open>What the journal says of the ledger: no key twice, never more spent than granted.\<close>

lemma journaled_history:
  assumes "journaled X s"
  obtains rs where "wal_file X rs (si_wal s)" and "ledger_hist rs (si_state s)"
  using assms ledger.hist_run unfolding journaled_def by blast

end
