(* ===== verification/Engine_Pay.thy ===== *)
theory Engine_Pay
  imports Engine_Safety
begin

text \<open>
  Payments through one validator: what an accepted payment satisfies, what the votes and
  acknowledgements behind an edge acceptance are, and that a consumed payment or a fenced epoch
  is refused from then on.
\<close>

section \<open>What validation checks\<close>

text \<open>The conditions on a payment and its capability, as one predicate.\<close>

definition authorised :: "crypto \<Rightarrow> shard_inner \<Rightarrow> pay \<Rightarrow> u64 \<Rightarrow> spend_capability \<Rightarrow> bool" where
  "authorised X s p now cap \<longleftrightarrow>
     fmlookup (si_capabilities s) (pay_capability_id p) = Some cap \<and>
     cap_shard_id cap = vc_shard_id (si_cfg s) \<and>
     verify_capability X (vc_issuer_vk (si_cfg s)) cap = Inr () \<and>
     pay_agent_id p = cap_agent_id cap \<and>
     ed_point_ok X (agent_bytes (pay_agent_id p)) \<and>
     verify_pay X (VKey (agent_bytes (pay_agent_id p))) p = Inr () \<and>
     epoch_state_of (si_state s) (pay_epoch p) = Active \<and>
     cap_valid_from_unix_ms cap \<le> now \<and> now \<le> cap_valid_until_unix_ms cap \<and> now \<le> pay_expiry_unix_ms p \<and>
     pay_currency p = cap_currency cap \<and>
     amt (pay_amount p) \<le> amt (cap_maximum_per_call cap) \<and> amt (pay_amount p) \<le> amt (pay_max_amount p) \<and>
     service_in_scope (pay_service_id p) (cap_service_scope cap) \<and>
     \<not> is_consumed (si_state s) (pay_capability_id p) (pay_epoch p) (pay_sequence p) \<and>
     (\<exists>r. remaining_of (si_state s) (pay_capability_id p) = Inr r \<and> amt (pay_amount p) \<le> amt r)"

lemma validate_pay_Inr: "validate_pay X s p now = Inr () \<longleftrightarrow> (\<exists>cap. authorised X s p now cap)"
proof (cases "fmlookup (si_capabilities s) (pay_capability_id p)")
  case None
  then show ?thesis by (simp add: validate_pay_def authorised_def)
next
  case (Some cap)
  show ?thesis
  proof (cases "ed_point_ok X (agent_bytes (pay_agent_id p))")
    case True
    show ?thesis
      using Some True
      by (cases "epoch_state_of (si_state s) (pay_epoch p)"; cases "remaining_of (si_state s) (pay_capability_id p)")
        (auto simp: validate_pay_def authorised_def verifying_key_from_bytes_def micros_less_amt)
  next
    case False
    then show ?thesis using Some
      by (auto simp: validate_pay_def authorised_def verifying_key_from_bytes_def)
  qed
qed

text \<open>A wildcard scope covers the service itself and everything below it, nothing else.\<close>

lemma service_in_scope_iff:
  "service_in_scope svc scope \<longleftrightarrow>
     (\<exists>pat \<in> set scope. if has_suffix ''/*'' pat
        then (let p = take (length pat - 2) pat in svc = p \<or> (\<exists>t. svc = p @ ''/'' @ t))
        else svc = pat)"
proof -
  have sw: "starts_with svc q \<longleftrightarrow> (\<exists>t. svc = q @ t)" for q
    unfolding starts_with_def by (metis append_eq_conv_conj)
  show ?thesis
    unfolding service_in_scope_def list_ex_iff
    by (rule bex_cong [OF refl]) (auto simp: strip_suffix_def sw Let_def numeral_2_eq_2)
qed

section \<open>Votes\<close>

lemma good_vote_cfg: "si_cfg t = si_cfg s \<Longrightarrow> good_vote X t d v sig = good_vote X s d v sig"
  by (simp add: good_vote_def voter_key_def engine_id_def)

definition votes_good :: "crypto \<Rightarrow> shard_inner \<Rightarrow> b32 \<Rightarrow> (u8, bytes) fmap \<Rightarrow> bool" where
  "votes_good X s d votes \<longleftrightarrow> fmpred (\<lambda>v sig. good_vote X s d v sig) votes"

lemma votes_good_cfg: "si_cfg t = si_cfg s \<Longrightarrow> votes_good X t d votes = votes_good X s d votes"
  unfolding votes_good_def using good_vote_cfg [of t s X d] by presburger

lemma handle_message_grows: "handle_message X m s = Ok u t \<Longrightarrow> grows s t"
  using growing.holds_handle_message [of s X m] by simp

lemma take_votes_good:
  assumes "take_votes X d ms votes s = Ok votes' t" and "votes_good X s d votes"
  shows "votes_good X s d votes'"
  using assms
proof (induction ms arbitrary: votes s)
  case (Cons m ms)
  let ?s0 = "s\<lparr> si_inbox := ms \<rparr>"
  have c: "si_cfg ?s0 = si_cfg s" by simp
  show ?case
  proof (cases "\<exists>v sig. m = Vote d v sig")
    case True
    then obtain v sig where m: "m = Vote d v sig" by blast
    let ?votes = "if good_vote X ?s0 d v sig then fmupd v sig votes else votes"
    have "take_votes X d ms ?votes ?s0 = Ok votes' t" using Cons.prems(1) m by (simp add: Let_def)
    moreover have "votes_good X ?s0 d ?votes"
      using Cons.prems(2) by (auto simp: votes_good_def good_vote_cfg [OF c] fmpred_iff)
    ultimately show ?thesis using Cons.IH votes_good_cfg [OF c] by blast
  next
    case False
    then obtain r where r: "handle_message X m ?s0 = Ok () r" and k: "take_votes X d ms votes r = Ok votes' t"
      using Cons.prems(1) by (cases m) (auto simp: Let_def and_then_iff split: if_splits)
    have "si_cfg r = si_cfg s" using handle_message_grows [OF r] by (simp add: grows_def)
    then show ?thesis using Cons.IH [OF k] Cons.prems(2) votes_good_cfg by blast
  qed
qed simp

lemma take_votes_cfg: "take_votes X d ms votes s = Ok votes' t \<Longrightarrow> si_cfg t = si_cfg s"
  using growing.holds_take_votes [of s X d ms votes] by (simp add: grows_def)

lemma vote_wait_good:
  assumes "vote_wait X d need rounds votes s = Ok votes' t" and "votes_good X s d votes"
  shows "votes_good X s d votes' \<and> need \<le> fcard (fmdom votes')"
  using assms
proof (induction rounds arbitrary: votes s)
  case Nil
  then show ?case by (auto split: if_splits)
next
  case (Cons ms rounds)
  show ?case
  proof (cases "fcard (fmdom votes) < need")
    case True
    let ?s = "deliver ms s"
    obtain v2 r where r: "take_votes X d (si_inbox ?s) votes ?s = Ok v2 r"
      and k: "vote_wait X d need rounds v2 r = Ok votes' t"
      using Cons.prems(1) True by (auto simp: Let_def and_then_iff)
    have c: "si_cfg ?s = si_cfg s" by (simp add: deliver_def)
    have "votes_good X ?s d v2"
      using take_votes_good [OF r] Cons.prems(2) votes_good_cfg [OF c] by blast
    then show ?thesis
      using Cons.IH [OF k] votes_good_cfg [OF take_votes_cfg [OF r]] votes_good_cfg [OF c] by blast
  next
    case False
    then show ?thesis using Cons.prems by auto
  qed
qed

lemma own_vote_good:
  assumes "crypto_ok X"
  shows "good_vote X s d (engine_id s) (sign_digest X (vc_key (si_cfg s)) d)"
  using assms
  by (simp add: good_vote_def voter_key_def verify_digest_def sign_digest_def verifying_key_def)

section \<open>Acknowledgements\<close>

lemma take_acks_sources:
  assumes "take_acks X d ms acks s = Ok acks' t" and "distinct acks"
  shows "distinct acks' \<and> set acks' \<subseteq> set acks \<union> {v. DurableAck d v \<in> set ms} \<and> si_inbox t = []"
  using assms
proof (induction ms arbitrary: acks s)
  case (Cons m ms)
  let ?s0 = "s\<lparr> si_inbox := ms \<rparr>"
  show ?case
  proof (cases "\<exists>v. m = DurableAck d v")
    case True
    then obtain v where m: "m = DurableAck d v" by blast
    have "take_acks X d ms (add_ack v acks) ?s0 = Ok acks' t" using Cons.prems(1) m by (simp add: Let_def)
    moreover have "distinct (add_ack v acks)" using Cons.prems(2) by (auto simp: add_ack_def)
    ultimately have "distinct acks' \<and> set acks' \<subseteq> set (add_ack v acks) \<union> {v. DurableAck d v \<in> set ms} \<and> si_inbox t = []"
      by (rule Cons.IH)
    then show ?thesis using m by (auto simp: add_ack_def split: if_splits)
  next
    case False
    then obtain r where "take_acks X d ms acks r = Ok acks' t"
      using Cons.prems(1) by (cases m) (auto simp: Let_def and_then_iff split: if_splits)
    then show ?thesis using Cons.IH Cons.prems(2) by fastforce
  qed
qed auto

lemma ack_wait_sources:
  assumes "ack_wait X d need rounds acks s = Ok acks' t" and "distinct acks"
  shows "distinct acks' \<and> need \<le> length acks' \<and>
    set acks' \<subseteq> set acks \<union> {v. DurableAck d v \<in> set (si_inbox s) \<union> set (concat rounds)}"
  using assms
proof (induction rounds arbitrary: acks s)
  case Nil
  then show ?case by (auto split: if_splits)
next
  case (Cons ms rounds)
  show ?case
  proof (cases "length acks < need")
    case True
    let ?s = "deliver ms s"
    obtain a2 r where r: "take_acks X d (si_inbox ?s) acks ?s = Ok a2 r"
      and k: "ack_wait X d need rounds a2 r = Ok acks' t"
      using Cons.prems(1) True by (auto simp: Let_def and_then_iff)
    show ?thesis
      using take_acks_sources [OF r Cons.prems(2)] Cons.IH [OF k] by (auto simp: deliver_def)
  next
    case False
    then show ?thesis using Cons.prems by auto
  qed
qed

lemma take_votes_inbox: "take_votes X d ms votes s = Ok votes' t \<Longrightarrow> si_inbox t = []"
proof (induction ms arbitrary: votes s)
  case (Cons m ms)
  then show ?case by (cases m) (auto simp: Let_def and_then_iff split: if_splits)
qed auto

lemma vote_wait_inbox:
  "vote_wait X d need rounds votes s = Ok votes' t \<Longrightarrow>
     set (si_inbox t) \<subseteq> set (si_inbox s) \<union> set (concat rounds)"
proof (induction rounds arbitrary: votes s)
  case (Cons ms rounds)
  show ?case
  proof (cases "fcard (fmdom votes) < need")
    case True
    then obtain v2 r where "take_votes X d (si_inbox (deliver ms s)) votes (deliver ms s) = Ok v2 r"
      and k: "vote_wait X d need rounds v2 r = Ok votes' t"
      using Cons.prems by (auto simp: Let_def and_then_iff)
    then show ?thesis using Cons.IH [OF k] take_votes_inbox by fastforce
  next
    case False
    then show ?thesis using Cons.prems by auto
  qed
qed (auto split: if_splits)

lemma commit_once_inbox: "commit_once X b s = Ok u t \<Longrightarrow> si_inbox t = si_inbox s"
  by (auto simp: commit_once_def durable_commit_Ok append_record_Ok split: if_splits)

lemma pay_commit_inbox: "pay_commit X b d votes s = Ok u t \<Longrightarrow> si_inbox t = si_inbox s"
  by (auto simp: pay_commit_def and_then_iff broadcast_def dest!: commit_once_inbox)

lemma pay_commit_consumes: "pay_commit X b d votes s = Ok u t \<Longrightarrow> body_consumed b t"
  by (auto simp: pay_commit_def and_then_iff dest!: growing.commit_consumes)
    (simp add: body_consumed_def broadcast_def)

section \<open>What an edge acceptance stands for\<close>

definition pay_body_of :: "crypto \<Rightarrow> pay \<Rightarrow> pay_commit_body" where
  "pay_body_of X p = body_from_pay p (tx_id X p)"

lemma pay_propose_Ok:
  "pay_propose X p now s = Ok (b, d) t \<longleftrightarrow> si_alive s \<and> validate_pay X s p now = Inr () \<and>
     b = pay_body_of X p \<and> body_digest X b = Some d \<and>
     t = broadcast (Vote d (engine_id s) (sign_digest X (vc_key (si_cfg s)) d))
           (broadcast (Propose b p (engine_id s) now) s)"
  by (auto simp: pay_propose_def pay_body_of_def Let_def ret_or_panic_iff broadcast_def engine_id_def
      split: if_splits sum.splits)

definition accepted_with ::
  "crypto \<Rightarrow> bft_message list \<Rightarrow> pay_commit_body \<Rightarrow> shard_inner \<Rightarrow> b32 \<Rightarrow> (u8, bytes) fmap \<Rightarrow> u8 list \<Rightarrow> bool" where
  "accepted_with X received b s d votes acks \<longleftrightarrow>
     body_digest X b = Some d \<and> votes_good X s d votes \<and> need_of s \<le> fcard (fmdom votes) \<and>
     distinct acks \<and> need_of s \<le> length acks \<and>
     set acks \<subseteq> {engine_id s} \<union> {v. DurableAck d v \<in> set received}"

lemma handle_pay_Ok:
  assumes "crypto_ok X" and "handle_pay X vr ar p now s = Ok acc t"
  shows "validate_pay X s p now = Inr ()" and "body_consumed (pay_body_of X p) t"
    and "grows s t" and "ed_tx_id acc = tx_id X p"
    and "ed_commit_index acc = ss_commit_index (si_state t)"
    and "\<exists>d votes acks. accepted_with X (si_inbox s @ concat vr @ concat ar) (pay_body_of X p) s d votes acks \<and>
      ed_edge_signature acc = sign_edge_accept X (vc_key (si_cfg s)) d (ed_commit_index acc)"
proof -
  let ?b = "pay_body_of X p"
  obtain d s1 votes s2 s3 acks where p1: "pay_propose X p now s = Ok (?b, d) s1"
    and vw: "vote_wait X d (need_of s1) vr (fmupd (engine_id s1) (sign_digest X (vc_key (si_cfg s1)) d) fmempty) s1
      = Ok votes s2"
    and pc: "pay_commit X ?b d votes s2 = Ok () s3"
    and aw: "ack_wait X d (need_of s1) ar [engine_id s3] s3 = Ok acks t"
    and acc: "acc = pay_finish X ?b d t"
    using assms(2)
    by (auto simp: handle_pay_def Let_def and_then_iff pay_propose_Ok split: prod.splits)
  note P = p1 [unfolded pay_propose_Ok]
  then show "validate_pay X s p now = Inr ()" by blast
  have s1: "si_cfg s1 = si_cfg s" "si_inbox s1 = si_inbox s" "si_outboxes s1 = si_outboxes s"
    using P by (auto simp: broadcast_def)
  have g: "grows s s1" "grows s1 s2" "grows s2 s3" "grows s3 t"
    using growing.holds_pay_propose [of s X p now] p1 growing.holds_vote_wait [of s1 X] vw
      growing.holds_pay_commit [of X ?b d s2 votes] P pc growing.holds_ack_wait [of s3 X] aw
    by (metis growing.holds_simps(1))+
  then show gt: "grows s t" using growing.R_trans by blast
  show "body_consumed ?b t" using g(4) pay_commit_consumes [OF pc] by (simp add: grows_def)
  show "ed_tx_id acc = tx_id X p"
    by (simp add: acc pay_finish_def pay_body_of_def body_from_pay_def)
  show "ed_commit_index acc = ss_commit_index (si_state t)" by (simp add: acc pay_finish_def)
  have cfg3: "si_cfg s3 = si_cfg s" using g(1-3) by (simp add: grows_def)
  have need: "need_of s1 = need_of s" using s1 by (simp add: need_of_def)
  have "votes_good X s1 d (fmupd (engine_id s1) (sign_digest X (vc_key (si_cfg s1)) d) fmempty)"
    unfolding votes_good_def fmpred_iff using own_vote_good [OF assms(1), of s1 d] by auto
  then have "votes_good X s1 d votes \<and> need_of s \<le> fcard (fmdom votes)"
    using vote_wait_good [OF vw] need by metis
  then have v: "votes_good X s d votes" "need_of s \<le> fcard (fmdom votes)"
    using votes_good_cfg [OF s1(1)] by auto
  have "set (si_inbox s3) \<subseteq> set (si_inbox s) \<union> set (concat vr)"
    using vote_wait_inbox [OF vw] pay_commit_inbox [OF pc] s1(2) by simp
  then have a: "distinct acks" "need_of s \<le> length acks"
    "set acks \<subseteq> {engine_id s} \<union> {v. DurableAck d v \<in> set (si_inbox s @ concat vr @ concat ar)}"
    using ack_wait_sources [OF aw] need cfg3 by (auto simp: engine_id_def)
  have "si_cfg t = si_cfg s" using gt by (simp add: grows_def)
  then have "ed_edge_signature acc = sign_edge_accept X (vc_key (si_cfg s)) d (ed_commit_index acc)"
    by (simp add: acc pay_finish_def)
  then show "\<exists>d votes acks. accepted_with X (si_inbox s @ concat vr @ concat ar) ?b s d votes acks \<and>
      ed_edge_signature acc = sign_edge_accept X (vc_key (si_cfg s)) d (ed_commit_index acc)"
    using v a P unfolding accepted_with_def by blast
qed

section \<open>Refused from then on\<close>

lemma consumed_not_valid:
  assumes "body_consumed (pay_body_of X p) s"
  shows "validate_pay X s p now \<noteq> Inr ()"
  using assms by (auto simp: validate_pay_Inr authorised_def body_consumed_def pay_body_of_def body_from_pay_def)

lemma fenced_not_valid:
  assumes "epoch_state_of (si_state s) (pay_epoch p) = Fenced"
  shows "validate_pay X s p now \<noteq> Inr ()"
  using assms by (auto simp: validate_pay_Inr authorised_def)

lemma handle_pay_invalid:
  assumes "validate_pay X s p now \<noteq> Inr ()"
  shows "\<exists>e. handle_pay X vr ar p now s = Err e s"
  using assms by (cases "validate_pay X s p now") (auto simp: handle_pay_def pay_propose_def)

lemma fence_epoch_Ok:
  assumes "engine_fence_epoch X rounds ep s = Ok u t"
  shows "epoch_state_of (si_state t) ep = Fenced" and "grows s t"
proof -
  show g: "grows s t" using growing.holds_fence_epoch [of s X rounds ep] assms by simp
  let ?s0 = "broadcast (FenceCommit ep [engine_id s]) s"
  obtain s1 a where f: "fence_once X ep ?s0 = Ok () s1"
    and w: "fence_wait X ep (need_of s) rounds [engine_id s] (broadcast (FenceDurableAck ep (engine_id s1)) s1) = Ok a t"
    using assms by (auto simp: engine_fence_epoch_def Let_def and_then_iff split: if_splits)
  have "epoch_state_of (si_state s1) ep = Fenced"
    using f by (auto simp: fence_once_Ok split: if_splits)
  then have "epoch_state_of (si_state (broadcast (FenceDurableAck ep (engine_id s1)) s1)) ep = Fenced"
    by (simp add: broadcast_def)
  then show "epoch_state_of (si_state t) ep = Fenced"
    using growing.holds_fence_wait [of _ X ep "need_of s" rounds "[engine_id s]"] w
    by (metis growing.holds_simps(1) grows_def)
qed

end
