(* ===== verification/Cluster.thy ===== *)
theory Cluster
  imports Engine_Pay
begin

text \<open>
  A shard's validators together (the wiring of \<open>crates/shard/src/testkit.rs\<close> and the interleaving
  of the tasks of \<open>engine.rs\<close>). A node is a validator; a task is a running \<open>handle_pay\<close> on one
  node, between two acquisitions of its mutex. The network may delay, reorder and repeat what a
  validator sent to its peers, but it makes up nothing. Reachability is an inductive relation;
  the invariant says where acknowledgements come from, and from it what an edge acceptance
  means for the whole shard.
\<close>

section \<open>Tasks\<close>

datatype pay_task =
    CollectVotes pay_commit_body b32 nat "(u8, bytes) fmap"
  | CollectAcks pay_commit_body b32 nat "u8 list"
  | Accepted pay_commit_body b32 nat "u8 list" edge_accept

text \<open>\<open>handle_pay\<close> cut at its critical sections; one waiting round per step.\<close>

definition task_begin :: "crypto \<Rightarrow> pay \<Rightarrow> u64 \<Rightarrow> shard_inner \<Rightarrow> pay_task engine" where
  "task_begin X p now s =
     and_then (pay_propose X p now s) (\<lambda>(b, d) s1.
       Ok (CollectVotes b d (need_of s1)
             (fmupd (engine_id s1) (sign_digest X (vc_key (si_cfg s1)) d) fmempty)) s1)"

fun task_step :: "crypto \<Rightarrow> pay_task \<Rightarrow> shard_inner \<Rightarrow> pay_task engine" where
  "task_step X (CollectVotes b d need votes) s =
     (if fcard (fmdom votes) < need
      then and_then (take_votes X d (si_inbox s) votes s) (\<lambda>v s1. Ok (CollectVotes b d need v) s1)
      else and_then (pay_commit X b d votes s) (\<lambda>_ s1. Ok (CollectAcks b d need [engine_id s1]) s1))"
| "task_step X (CollectAcks b d need acks) s =
     (if length acks < need
      then and_then (take_acks X d (si_inbox s) acks s) (\<lambda>a s1. Ok (CollectAcks b d need a) s1)
      else Ok (Accepted b d need acks (pay_finish X b d s)) s)"
| "task_step X (Accepted b d need acks acc) s = Ok (Accepted b d need acks acc) s"

section \<open>The system\<close>

record shard_cluster =
  cl_nodes :: "(u8, shard_inner) fmap"
  cl_tasks :: "(nat, u8 \<times> pay_task) fmap"

definition set_node :: "u8 \<Rightarrow> shard_inner \<Rightarrow> shard_cluster \<Rightarrow> shard_cluster" where
  "set_node i s C = C\<lparr> cl_nodes := fmupd i s (cl_nodes C) \<rparr>"

definition set_task :: "nat \<Rightarrow> u8 \<Rightarrow> pay_task \<Rightarrow> shard_cluster \<Rightarrow> shard_cluster" where
  "set_task k i t C = C\<lparr> cl_tasks := fmupd k (i, t) (cl_tasks C) \<rparr>"

inductive cluster_step :: "crypto \<Rightarrow> shard_cluster \<Rightarrow> shard_cluster \<Rightarrow> bool" for X where
  Deliver: "fmlookup (cl_nodes C) i = Some s \<Longrightarrow> fmlookup (cl_nodes C) j = Some r \<Longrightarrow> i |\<in>| si_outboxes r \<Longrightarrow>
     m \<in> set (si_sent r) \<Longrightarrow> cluster_step X C (set_node i (deliver [m] s) C)"
| Pump: "fmlookup (cl_nodes C) i = Some s \<Longrightarrow> outcome_state (pump X s) = Some t \<Longrightarrow>
     cluster_step X C (set_node i t C)"
| Activate: "fmlookup (cl_nodes C) i = Some s \<Longrightarrow> outcome_state (engine_activate X cap s) = Some t \<Longrightarrow>
     cluster_step X C (set_node i t C)"
| FenceStep: "fmlookup (cl_nodes C) i = Some s \<Longrightarrow> outcome_state (engine_fence_epoch X [] ep s) = Some t \<Longrightarrow>
     cluster_step X C (set_node i t C)"
| Kill: "fmlookup (cl_nodes C) i = Some s \<Longrightarrow> cluster_step X C (set_node i (kill s) C)"
| Begin: "fmlookup (cl_nodes C) i = Some s \<Longrightarrow> task_begin X p now s = Ok task t \<Longrightarrow>
     fmlookup (cl_tasks C) k = None \<Longrightarrow> cluster_step X C (set_task k i task (set_node i t C))"
| Step: "fmlookup (cl_tasks C) k = Some (i, task) \<Longrightarrow> fmlookup (cl_nodes C) i = Some s \<Longrightarrow>
     task_step X task s = Ok task' t \<Longrightarrow> cluster_step X C (set_task k i task' (set_node i t C))"
| Fail: "fmlookup (cl_tasks C) k = Some (i, task) \<Longrightarrow> fmlookup (cl_nodes C) i = Some s \<Longrightarrow>
     task_step X task s = Err e t \<Longrightarrow> cluster_step X C (set_node i t C)"

text \<open>
  A failed fence round leaves its broadcasts and the local fence behind; the acknowledgements it
  would collect change no state. A task whose step fails is not resumed by the code; leaving it
  in place only adds behaviours.
\<close>

text \<open>The wiring: node \<open>i\<close> is validator \<open>i\<close> and sends to every other node.\<close>

definition wired :: "shard_cluster \<Rightarrow> bool" where
  "wired C \<longleftrightarrow>
     (\<forall>i s. fmlookup (cl_nodes C) i = Some s \<longrightarrow>
        engine_id s = i \<and> si_outboxes s = fmdom (cl_nodes C) |-| {|i|})"

definition cluster_start :: "shard_cluster \<Rightarrow> bool" where
  "cluster_start C \<longleftrightarrow> wired C \<and> cl_tasks C = fmempty \<and>
     (\<forall>i s. fmlookup (cl_nodes C) i = Some s \<longrightarrow> si_sent s = [] \<and> si_inbox s = [])"

inductive cluster_reachable :: "crypto \<Rightarrow> shard_cluster \<Rightarrow> bool" for X where
  start: "cluster_start C \<Longrightarrow> cluster_reachable X C"
| step: "cluster_reachable X C \<Longrightarrow> cluster_step X C C' \<Longrightarrow> cluster_reachable X C'"

section \<open>Where acknowledgements come from\<close>

text \<open>Validator \<open>v\<close> of the cluster has the key of some payment with digest \<open>d\<close> consumed.\<close>

definition holds_digest :: "crypto \<Rightarrow> shard_cluster \<Rightarrow> b32 \<Rightarrow> u8 \<Rightarrow> bool" where
  "holds_digest X C d v \<longleftrightarrow>
     (\<exists>s b. fmlookup (cl_nodes C) v = Some s \<and> body_digest X b = Some d \<and> body_consumed b s)"

definition node_ok :: "crypto \<Rightarrow> shard_cluster \<Rightarrow> shard_inner \<Rightarrow> bool" where
  "node_ok X C s \<longleftrightarrow> acks_backed X s \<and> (\<forall>d v. DurableAck d v \<in> set (si_inbox s) \<longrightarrow> holds_digest X C d v)"

fun task_ok :: "crypto \<Rightarrow> shard_cluster \<Rightarrow> pay_task \<Rightarrow> bool" where
  "task_ok X C (CollectVotes b d need votes) =
     (body_digest X b = Some d \<and> need = quorum_threshold (fcard (fmdom (cl_nodes C))))"
| "task_ok X C (CollectAcks b d need acks) =
     (body_digest X b = Some d \<and> need = quorum_threshold (fcard (fmdom (cl_nodes C))) \<and>
      distinct acks \<and> (\<forall>v \<in> set acks. holds_digest X C d v))"
| "task_ok X C (Accepted b d need acks acc) =
     (body_digest X b = Some d \<and> need = quorum_threshold (fcard (fmdom (cl_nodes C))) \<and>
      distinct acks \<and> need \<le> length acks \<and> (\<forall>v \<in> set acks. holds_digest X C d v) \<and>
      ed_tx_id acc = pb_tx_id b)"

definition cluster_ok :: "crypto \<Rightarrow> shard_cluster \<Rightarrow> bool" where
  "cluster_ok X C \<longleftrightarrow> wired C \<and>
     (\<forall>i s. fmlookup (cl_nodes C) i = Some s \<longrightarrow> node_ok X C s) \<and>
     (\<forall>k i t. fmlookup (cl_tasks C) k = Some (i, t) \<longrightarrow> i |\<in>| fmdom (cl_nodes C) \<and> task_ok X C t)"

text \<open>A node's own step keeps what the others and the tasks rely on.\<close>

lemma holds_digest_set_node:
  assumes "fmlookup (cl_nodes C) i = Some s" and "grows s t"
  shows "holds_digest X C d v \<Longrightarrow> holds_digest X (set_node i t C) d v"
  using assms by (auto simp: holds_digest_def set_node_def grows_def)

lemma fmdom_set_node [simp]:
  "fmlookup (cl_nodes C) i = Some s \<Longrightarrow> fmdom (cl_nodes (set_node i t C)) = fmdom (cl_nodes C)"
  by (auto simp: set_node_def fmdomI)

lemma task_ok_set_node:
  assumes "fmlookup (cl_nodes C) i = Some s" and "grows s t" and "task_ok X C task"
  shows "task_ok X (set_node i t C) task"
  using assms holds_digest_set_node [OF assms(1,2)] by (cases task) auto

lemma wired_set_node:
  assumes "wired C" and "fmlookup (cl_nodes C) i = Some s" and "grows s t"
  shows "wired (set_node i t C)"
proof -
  have "engine_id t = engine_id s" "si_outboxes t = si_outboxes s"
    using assms(3) by (simp_all add: grows_def engine_id_def)
  then show ?thesis
    using assms(1,2) unfolding wired_def fmdom_set_node [OF assms(2)] by (simp add: set_node_def)
qed

lemma cluster_ok_set_node:
  assumes ok: "cluster_ok X C" and s: "fmlookup (cl_nodes C) i = Some s" and b: "backs X s t"
    and inbox: "\<forall>d v. DurableAck d v \<in> set (si_inbox t) \<longrightarrow> holds_digest X C d v"
  shows "cluster_ok X (set_node i t C)"
proof -
  have g: "grows s t" using b by (simp add: backs_def)
  have t: "acks_backed X t" using ok s b by (auto simp: cluster_ok_def node_ok_def backs_def)
  have "node_ok X (set_node i t C) u" if "fmlookup (cl_nodes (set_node i t C)) j = Some u" for j u
  proof (cases "j = i")
    case True
    then show ?thesis
      using that t inbox holds_digest_set_node [OF s g] by (auto simp: node_ok_def set_node_def)
  next
    case False
    then have "node_ok X C u" using that ok by (auto simp: cluster_ok_def set_node_def)
    then show ?thesis using holds_digest_set_node [OF s g] by (auto simp: node_ok_def)
  qed
  moreover have "j |\<in>| fmdom (cl_nodes (set_node i t C)) \<and> task_ok X (set_node i t C) task"
    if "fmlookup (cl_tasks (set_node i t C)) k = Some (j, task)" for k j task
    using that ok task_ok_set_node [OF s g] fmdom_set_node [OF s]
    by (auto simp: cluster_ok_def) (auto simp: set_node_def)
  ultimately show ?thesis
    using wired_set_node [OF _ s g] ok by (auto simp: cluster_ok_def)
qed

lemma cluster_ok_set_task:
  assumes "cluster_ok X C" and "task_ok X C task" and "i |\<in>| fmdom (cl_nodes C)"
  shows "cluster_ok X (set_task k i task C)"
proof -
  have n: "cl_nodes (set_task k i task C) = cl_nodes C" by (simp add: set_task_def)
  have "holds_digest X (set_task k i task C) = holds_digest X C" by (simp add: holds_digest_def n fun_eq_iff)
  then have "node_ok X (set_task k i task C) s = node_ok X C s"
    and t: "task_ok X (set_task k i task C) t = task_ok X C t" for s t
    by (auto simp: node_ok_def n) (cases t; simp add: n)+
  then show ?thesis
    using assms by (auto simp: cluster_ok_def wired_def n) (auto simp: set_task_def split: if_splits)
qed

section \<open>What a step leaves in the inbox\<close>

lemma and_then_state:
  "outcome_state (and_then r k) = Some t \<longleftrightarrow>
     (\<exists>e. r = Err e t) \<or> (\<exists>a m. r = Ok a m \<and> outcome_state (k a m) = Some t)"
  by (cases r) auto

lemma ret_or_panic_state:
  "outcome_state (ret_or_panic x k) = Some t \<longleftrightarrow> (\<exists>v. x = Some v \<and> outcome_state (k v) = Some t)"
  by (cases x) auto

lemma outcome_state_cases:
  assumes "outcome_state r = Some t"
  obtains a where "r = Ok a t" | e where "r = Err e t"
  using assms by (cases r) auto

lemma once_inbox:
  "commit_once X b s = Ok u t \<Longrightarrow> si_inbox t = si_inbox s"
  "commit_once X b s = Err e t \<Longrightarrow> si_inbox t = si_inbox s"
  "fence_once X ep s = Ok u t \<Longrightarrow> si_inbox t = si_inbox s"
  "fence_once X ep s = Err e t \<Longrightarrow> si_inbox t = si_inbox s"
proof -
  show "commit_once X b s = Ok u t \<Longrightarrow> si_inbox t = si_inbox s" by (rule commit_once_inbox)
  show "commit_once X b s = Err e t \<Longrightarrow> si_inbox t = si_inbox s"
    by (auto simp: commit_once_def dest!: durable_commit_Err split: if_splits)
  show "fence_once X ep s = Ok u t \<Longrightarrow> si_inbox t = si_inbox s"
    by (auto simp: fence_once_Ok append_record_Ok split: if_splits)
  show "fence_once X ep s = Err e t \<Longrightarrow> si_inbox t = si_inbox s"
    by (auto dest!: fence_once_Err)
qed

lemma broadcast_inbox [simp]: "si_inbox (broadcast m s) = si_inbox s"
  by (simp add: broadcast_def)

lemma handle_message_inbox:
  assumes "outcome_state (handle_message X m s) = Some t"
  shows "si_inbox t = si_inbox s"
  using assms
  by (cases m)
    (auto simp: handle_message_def handle_propose_def handle_commit_def handle_fence_commit_def
      and_then_state ret_or_panic_state split: if_splits dest!: once_inbox)

lemma drain_inbox: "outcome_state (drain X ms s) = Some t \<Longrightarrow> set (si_inbox t) \<subseteq> set ms"
proof (induction ms arbitrary: s)
  case (Cons m ms)
  consider e where "handle_message X m (s\<lparr> si_inbox := ms \<rparr>) = Err e t"
    | r where "outcome_state (drain X ms r) = Some t"
    using Cons.prems by (auto simp: and_then_state)
  then show ?case
  proof cases
    case 1
    then show ?thesis using handle_message_inbox [of X m "s\<lparr> si_inbox := ms \<rparr>" t] by auto
  next
    case 2
    then show ?thesis using Cons.IH by auto
  qed
qed auto

lemma pump_inbox: "outcome_state (pump X s) = Some t \<Longrightarrow> set (si_inbox t) \<subseteq> set (si_inbox s)"
  using drain_inbox [of X "si_inbox s" s t] by (auto simp: pump_def split: if_splits)

lemma take_votes_state_inbox:
  "outcome_state (take_votes X d ms votes s) = Some t \<Longrightarrow> set (si_inbox t) \<subseteq> set ms"
proof (induction ms arbitrary: votes s)
  case (Cons m ms)
  consider e where "handle_message X m (s\<lparr> si_inbox := ms \<rparr>) = Err e t"
    | r v where "outcome_state (take_votes X d ms v r) = Some t"
    using Cons.prems by (cases m) (auto simp: Let_def and_then_state split: if_splits)
  then show ?case
  proof cases
    case 1
    then show ?thesis using handle_message_inbox [of X m "s\<lparr> si_inbox := ms \<rparr>" t] by auto
  next
    case 2
    then show ?thesis using Cons.IH by auto
  qed
qed auto

lemma take_acks_state_inbox:
  "outcome_state (take_acks X d ms acks s) = Some t \<Longrightarrow> set (si_inbox t) \<subseteq> set ms"
proof (induction ms arbitrary: acks s)
  case (Cons m ms)
  consider e where "handle_message X m (s\<lparr> si_inbox := ms \<rparr>) = Err e t"
    | r a where "outcome_state (take_acks X d ms a r) = Some t"
    using Cons.prems by (cases m) (auto simp: Let_def and_then_state split: if_splits)
  then show ?case
  proof cases
    case 1
    then show ?thesis using handle_message_inbox [of X m "s\<lparr> si_inbox := ms \<rparr>" t] by auto
  next
    case 2
    then show ?thesis using Cons.IH by auto
  qed
qed auto

lemma activate_inbox: "outcome_state (engine_activate X cap s) = Some t \<Longrightarrow> si_inbox t = si_inbox s"
  by (auto elim!: outcome_state_cases simp: engine_activate_Ok append_record_Ok dest!: engine_activate_Err)

lemma fence_epoch_inbox:
  "outcome_state (engine_fence_epoch X [] ep s) = Some t \<Longrightarrow> si_inbox t = si_inbox s"
  by (auto simp: engine_fence_epoch_def Let_def and_then_state dest!: once_inbox split: if_splits)

lemma pay_commit_state_inbox:
  "outcome_state (pay_commit X b d votes s) = Some t \<Longrightarrow> si_inbox t = si_inbox s"
  by (auto simp: pay_commit_def and_then_state dest!: once_inbox)

section \<open>The invariant\<close>

lemma task_begin_Ok:
  assumes "task_begin X p now s = Ok task t"
  obtains b d own where "task = CollectVotes b d (need_of s) own" and "body_digest X b = Some d"
    and "backs X s t" and "si_inbox t = si_inbox s"
proof -
  obtain b d where p: "pay_propose X p now s = Ok (b, d) t"
    and task: "task = CollectVotes b d (need_of t)
      (fmupd (engine_id t) (sign_digest X (vc_key (si_cfg t)) d) fmempty)"
    using assms by (auto simp: task_begin_def and_then_iff split: prod.splits)
  have "backs X s t" using backing.holds_pay_propose [of X s p now] p by simp
  moreover have "body_digest X b = Some d" using p by (auto simp: pay_propose_Ok)
  moreover have "need_of t = need_of s" using p by (auto simp: pay_propose_Ok need_of_def broadcast_def)
  moreover have "si_inbox t = si_inbox s" using p by (auto simp: pay_propose_Ok)
  ultimately show ?thesis using that task by simp
qed

lemma task_step_Ok:
  assumes "task_step X task s = Ok task' t" and "body_digest X b = Some d"
    and "task = CollectVotes b d need votes"
  shows "(\<exists>v. task' = CollectVotes b d need v \<and> backs X s t \<and> set (si_inbox t) \<subseteq> set (si_inbox s)) \<or>
    (task' = CollectAcks b d need [engine_id s] \<and> backs X s t \<and> si_inbox t = si_inbox s \<and> body_consumed b t)"
proof (cases "fcard (fmdom votes) < need")
  case True
  then obtain v where v: "take_votes X d (si_inbox s) votes s = Ok v t" and task': "task' = CollectVotes b d need v"
    using assms by (auto simp: and_then_iff)
  then show ?thesis
    using backing.holds_take_votes [of X s d "si_inbox s" votes] take_votes_inbox [OF v] by auto
next
  case False
  then have c: "pay_commit X b d votes s = Ok () t" and task': "task' = CollectAcks b d need [engine_id t]"
    using assms by (auto simp: and_then_iff)
  have b: "backs X s t" using backing.holds_pay_commit [OF assms(2), of s votes] c by simp
  then have "engine_id t = engine_id s" by (simp add: backs_def grows_def engine_id_def)
  then show ?thesis using b task' pay_commit_inbox [OF c] pay_commit_consumes [OF c] by simp
qed

text \<open>Validator \<open>i\<close> holding \<open>b\<close> consumed is what its own acknowledgement says.\<close>

lemma holds_own:
  assumes "body_digest X b = Some d" "body_consumed b t"
  shows "holds_digest X (set_node i t C) d i"
  using assms by (auto simp: holds_digest_def set_node_def)

lemma cluster_ok_task_step:
  assumes ok: "cluster_ok X C" and k: "fmlookup (cl_tasks C) k = Some (i, task)"
    and s: "fmlookup (cl_nodes C) i = Some s" and r: "task_step X task s = Ok task' t"
  shows "cluster_ok X (set_task k i task' (set_node i t C))"
proof -
  have task: "task_ok X C task" using ok k by (auto simp: cluster_ok_def)
  have id: "engine_id s = i" using ok s by (auto simp: cluster_ok_def wired_def)
  have in_ok: "\<forall>d v. DurableAck d v \<in> set (si_inbox s) \<longrightarrow> holds_digest X C d v"
    using ok s by (auto simp: cluster_ok_def node_ok_def)
  have dom: "i |\<in>| fmdom (cl_nodes (set_node i t C))" by (simp add: set_node_def)
  have "backs X s t \<and> set (si_inbox t) \<subseteq> set (si_inbox s) \<and> task_ok X (set_node i t C) task'"
  proof (cases task)
    case (CollectVotes b d need votes)
    have d: "body_digest X b = Some d" using task CollectVotes by simp
    show ?thesis
      using task_step_Ok [OF r d CollectVotes] task CollectVotes holds_own [OF d, of t i C] id
        fmdom_set_node [OF s, of t] by auto
  next
    case (CollectAcks b d need acks)
    show ?thesis
    proof (cases "length acks < need")
      case True
      then obtain a where a: "take_acks X d (si_inbox s) acks s = Ok a t" and t: "task' = CollectAcks b d need a"
        using r CollectAcks by (auto simp: and_then_iff)
      have b: "backs X s t" using backing.holds_take_acks [of X s d "si_inbox s" acks] a by simp
      then have g: "grows s t" by (simp add: backs_def)
      have "distinct a \<and> (\<forall>v \<in> set a. holds_digest X C d v)"
        using take_acks_sources [OF a] task in_ok unfolding CollectAcks by auto
      then show ?thesis
        using b t task take_acks_sources [OF a] holds_digest_set_node [OF s g] fmdom_set_node [OF s, of t]
        unfolding CollectAcks by auto
    next
      case False
      then have "t = s" "task' = Accepted b d need acks (pay_finish X b d s)"
        using r CollectAcks by auto
      moreover have "set_node i s C = C"
        using s by (auto simp: set_node_def intro!: fmap_ext)
          (metis (no_types, lifting) fmap_ext fmupd_lookup shard_cluster.surjective shard_cluster.update_convs(1))
      ultimately show ?thesis
        using task False backing.R_refl CollectAcks by (simp add: pay_finish_def)
    qed
  next
    case (Accepted b d need acks acc)
    then have "t = s" "task' = task" using r by auto
    moreover have "grows s s" by (rule growing.R_refl)
    ultimately show ?thesis using task task_ok_set_node [OF s] backing.R_refl by blast
  qed
  then show ?thesis
    using cluster_ok_set_task [OF cluster_ok_set_node [OF ok s]] in_ok dom by blast
qed

lemma cluster_ok_step:
  assumes "cluster_step X C C'" and ok: "cluster_ok X C"
  shows "cluster_ok X C'"
proof -
  have in_ok: "DurableAck d v \<in> set (si_inbox s) \<Longrightarrow> holds_digest X C d v"
    if "fmlookup (cl_nodes C) i = Some s" for i s d v
    using ok that by (auto simp: cluster_ok_def node_ok_def)
  have quiet: "cluster_ok X (set_node i t C)"
    if "fmlookup (cl_nodes C) i = Some s" "backs X s t" "set (si_inbox t) \<subseteq> set (si_inbox s)" for i s t
    using cluster_ok_set_node [OF ok that(1,2)] in_ok [OF that(1)] that(3) by blast
  show ?thesis
    using assms(1)
  proof cases
    case (Deliver i s j r m)
    have j: "engine_id r = j" "acks_backed X r" using ok Deliver by (auto simp: cluster_ok_def wired_def node_ok_def)
    have "holds_digest X C d v" if "DurableAck d v = m" for d v
      using that j Deliver by (auto simp: acks_backed_def holds_digest_def)
    then show ?thesis
      using cluster_ok_set_node [OF ok Deliver(2) backing.holds_deliver] in_ok [OF Deliver(2)] Deliver(1)
      by (auto simp: deliver_def)
  next
    case (Pump i s t)
    then have "backs X s t" using backing.holds_pump [of X s] by (auto elim!: outcome_state_cases)
    then show ?thesis using quiet [OF Pump(2)] pump_inbox [OF Pump(3)] Pump(1) by simp
  next
    case (Activate i s cap t)
    then have "backs X s t" using backing.holds_activate [of X s cap] by (auto elim!: outcome_state_cases)
    then show ?thesis using quiet [OF Activate(2)] activate_inbox [OF Activate(3)] Activate(1) by simp
  next
    case (FenceStep i s ep t)
    then have "backs X s t" using backing.holds_fence_epoch [of X s "[]" ep] by (auto elim!: outcome_state_cases)
    then show ?thesis using quiet [OF FenceStep(2)] fence_epoch_inbox [OF FenceStep(3)] FenceStep(1) by simp
  next
    case (Kill i s)
    have "backs X s (kill s)"
      by (rule backs_silent) (simp_all add: grows_def kill_def body_consumed_def)
    then show ?thesis using quiet [OF Kill(2)] Kill(1) by (simp add: kill_def)
  next
    case (Begin i s p now task t k)
    obtain b d own where task: "task = CollectVotes b d (need_of s) own" and d: "body_digest X b = Some d"
      and b: "backs X s t" and i: "si_inbox t = si_inbox s"
      using task_begin_Ok [OF Begin(3)] .
    have "si_outboxes s = fmdom (cl_nodes C) |-| {|i|}"
      using ok Begin(2) by (auto simp: cluster_ok_def wired_def)
    moreover have "i |\<in>| fmdom (cl_nodes C)" using Begin(2) by (rule fmdomI)
    ultimately have "fcard (si_outboxes s) + 1 = fcard (fmdom (cl_nodes C))"
      using card_Suc_Diff1 [of "fset (fmdom (cl_nodes C))" i] by (simp add: fcard.rep_eq)
    then have "task_ok X (set_node i t C) task"
      using task d fmdom_set_node [OF Begin(2), of t] by (simp add: need_of_def)
    moreover have "i |\<in>| fmdom (cl_nodes (set_node i t C))" by (simp add: set_node_def)
    ultimately show ?thesis
      using cluster_ok_set_task [OF quiet [OF Begin(2) b]] i Begin(1) by simp
  next
    case (Step k i task s task' t)
    then show ?thesis using cluster_ok_task_step [OF ok] by blast
  next
    case (Fail k i task s e t)
    have task: "task_ok X C task" using ok Fail(2) by (auto simp: cluster_ok_def)
    have "backs X s t \<and> set (si_inbox t) \<subseteq> set (si_inbox s)"
    proof (cases task)
      case (CollectVotes b d need votes)
      have d: "body_digest X b = Some d" using task CollectVotes by simp
      have "take_votes X d (si_inbox s) votes s = Err e t \<or> pay_commit X b d votes s = Err e t"
        using Fail(4) CollectVotes by (auto simp: and_then_iff split: if_splits)
      then show ?thesis
        using backing.holds_take_votes [of X s d "si_inbox s" votes] take_votes_state_inbox [of X d "si_inbox s" votes s t]
          backing.holds_pay_commit [OF d, of s votes] pay_commit_state_inbox [of X b d votes s t] by auto
    next
      case (CollectAcks b d need acks)
      then have "take_acks X d (si_inbox s) acks s = Err e t"
        using Fail(4) by (auto simp: and_then_iff split: if_splits)
      then show ?thesis
        using backing.holds_take_acks [of X s d "si_inbox s" acks] take_acks_state_inbox [of X d "si_inbox s" acks s t]
        by auto
    qed (use Fail(4) in simp)
    then show ?thesis using quiet [OF Fail(3)] Fail(1) by simp
  qed
qed

lemma cluster_start_ok: "cluster_start C \<Longrightarrow> cluster_ok X C"
  by (auto simp: cluster_start_def cluster_ok_def node_ok_def acks_backed_def)

lemma cluster_reachable_ok: "cluster_reachable X C \<Longrightarrow> cluster_ok X C"
  by (induction rule: cluster_reachable.induct) (auto intro: cluster_start_ok cluster_ok_step)

text \<open>The validators behind an edge acceptance.\<close>

lemma accepted_holders:
  assumes "cluster_reachable X C" and "fmlookup (cl_tasks C) k = Some (i, Accepted b d need acks acc)"
  shows "\<exists>V. V \<subseteq> fset (fmdom (cl_nodes C)) \<and> quorum_threshold (card (fset (fmdom (cl_nodes C)))) \<le> card V \<and>
    (\<forall>v \<in> V. holds_digest X C d v)"
proof -
  have t: "task_ok X C (Accepted b d need acks acc)"
    using cluster_reachable_ok [OF assms(1)] assms(2) unfolding cluster_ok_def by blast
  then have "card (set acks) = length acks" by (simp add: distinct_card)
  moreover have "set acks \<subseteq> fset (fmdom (cl_nodes C))"
    using t by (auto simp: holds_digest_def dest: fmdomI)
  moreover have "fcard (fmdom (cl_nodes C)) = card (fset (fmdom (cl_nodes C)))" by (simp add: fcard.rep_eq)
  ultimately show ?thesis using t by (intro exI [of _ "set acks"]) auto
qed

end
