(* ===== verification/Shard_Theorems.thy ===== *)
theory Shard_Theorems
  imports Cluster
begin

text \<open>
  The theorems about a shard validator and its cluster, with a sample validator that is alone
  in its shard and has one active capability.
\<close>

section \<open>A sample validator\<close>

definition sample_cap :: spend_capability where
  "sample_cap =
     (let c = \<lparr> cap_capability_id = CapabilityId 9, cap_account_id = AccountId 1,
         cap_agent_id = AgentId (ed_public sample_crypto 2), cap_shard_id = ShardId ''S'', cap_epoch = Epoch 1,
         cap_currency = ''EURC'', cap_maximum_total = AmountMicros 100, cap_maximum_per_call = AmountMicros 50,
         cap_service_scope = [''svc/*''], cap_policy_hash = 0, cap_sequence_start = Sequence 1,
         cap_sequence_end = Sequence 10, cap_valid_from_unix_ms = 0, cap_valid_until_unix_ms = 1000,
         cap_region = ''eu'', cap_issuer_alg = 1, cap_issuer_pubkey = ed_public sample_crypto 1,
         cap_issuer_signature = [], cap_issuer_pq_pubkey = [], cap_issuer_pq_signature = [] \<rparr>
      in attach_capability (the (sign_capability sample_crypto (Keypair 1) c)) c)"

definition sample_pay :: "u64 \<Rightarrow> u128 \<Rightarrow> b32 \<Rightarrow> pay" where
  "sample_pay sq amount h =
     (let p = \<lparr> pay_capability_id = CapabilityId 9, pay_epoch = Epoch 1, pay_sequence = Sequence sq,
         pay_agent_id = AgentId (ed_public sample_crypto 2), pay_service_id = ''svc/a'',
         pay_amount = AmountMicros amount, pay_currency = ''EURC'', pay_request_hash = h,
         pay_price_quote_hash = 0, pay_max_amount = AmountMicros 50, pay_pricing_schedule_version = 1,
         pay_expiry_unix_ms = 1000, pay_agent_signature = [] \<rparr>
      in attach_pay (the (sign_pay sample_crypto (Keypair 2) p)) p)"

definition sample_cfg :: validator_config where
  "sample_cfg = \<lparr> vc_id = 0, vc_shard_id = ShardId ''S'', vc_key = Keypair 3, vc_peer_keys = fmempty,
     vc_issuer_vk = verifying_key sample_crypto (Keypair 1) \<rparr>"

definition sample_opened :: shard_inner where
  "sample_opened = \<lparr> si_cfg = sample_cfg, si_state = shard_state_new, si_wal = [], si_capabilities = fmempty,
     si_alive = True, si_inbox = [], si_outboxes = {||}, si_sent = [], si_io = [] \<rparr>"

definition sample_engine :: shard_inner where
  "sample_engine = the (outcome_state (engine_activate sample_crypto sample_cap sample_opened))"

lemma signed_fields:
  "cap_agent_id sample_cap = AgentId (ed_public sample_crypto 2)" "cap_shard_id sample_cap = ShardId ''S''"
  "cap_epoch sample_cap = Epoch 1" "cap_capability_id sample_cap = CapabilityId 9"
  "cap_currency sample_cap = ''EURC''" "cap_maximum_total sample_cap = AmountMicros 100"
  "cap_maximum_per_call sample_cap = AmountMicros 50" "cap_service_scope sample_cap = [''svc/*'']"
  "cap_sequence_start sample_cap = Sequence 1" "cap_sequence_end sample_cap = Sequence 10"
  "cap_valid_from_unix_ms sample_cap = 0" "cap_valid_until_unix_ms sample_cap = 1000"
  "pay_capability_id (sample_pay sq a h) = CapabilityId 9" "pay_epoch (sample_pay sq a h) = Epoch 1"
  "pay_sequence (sample_pay sq a h) = Sequence sq" "pay_agent_id (sample_pay sq a h) = AgentId (ed_public sample_crypto 2)"
  "pay_service_id (sample_pay sq a h) = ''svc/a''" "pay_amount (sample_pay sq a h) = AmountMicros a"
  "pay_currency (sample_pay sq a h) = ''EURC''" "pay_max_amount (sample_pay sq a h) = AmountMicros 50"
  "pay_expiry_unix_ms (sample_pay sq a h) = 1000" "pay_request_hash (sample_pay sq a h) = h"
  by (simp_all add: sample_cap_def sample_pay_def attach_capability_def attach_pay_def Let_def)

lemma sample_cap_verifies:
  "verify_capability sample_crypto (verifying_key sample_crypto (Keypair 1)) sample_cap = Inr ()"
  unfolding sample_cap_def Let_def
  using capability_sig.sign_total [OF sample_crypto_ok] capability_sig.verify_attached [OF sample_crypto_ok]
  by (metis option.sel)

lemma sample_pay_verifies:
  "verify_pay sample_crypto (verifying_key sample_crypto (Keypair 2)) (sample_pay sq a h) = Inr ()"
  unfolding sample_pay_def Let_def
  using pay_sig.sign_total [OF sample_crypto_ok] pay_sig.verify_attached [OF sample_crypto_ok]
  by (metis option.sel)

lemma sample_frame: "\<exists>fr. wal_frame sample_crypto r = Inr fr"
  using encode_cbor_total [OF sample_crypto_ok, of "ser_wal_record r"] by (auto simp: wal_frame_def)

lemma append_no_fault: "crypto_ok X \<Longrightarrow> si_io s = [] \<Longrightarrow> \<exists>m. append_record X r s = Ok () m"
  using encode_cbor_total [of X "ser_wal_record r"] by (auto simp: append_record_Ok wal_frame_def)

lemma sample_activate: "engine_activate sample_crypto sample_cap sample_opened = Ok () sample_engine"
proof -
  obtain m where "append_record sample_crypto (activation_record sample_cap) sample_opened = Ok () m"
    using append_no_fault [OF sample_crypto_ok, of sample_opened] by (auto simp: sample_opened_def)
  then have "\<exists>t. engine_activate sample_crypto sample_cap sample_opened = Ok () t"
    using sample_cap_verifies by (simp add: engine_activate_Ok) (simp add: sample_opened_def sample_cfg_def)
  then show ?thesis by (auto simp: sample_engine_def)
qed

lemma sample_engine_fields:
  "si_cfg sample_engine = sample_cfg" "si_state sample_engine = activated_state sample_cap shard_state_new"
  "si_capabilities sample_engine = fmupd (CapabilityId 9) sample_cap fmempty"
  "si_alive sample_engine" "si_inbox sample_engine = []" "si_outboxes sample_engine = {||}"
  "si_sent sample_engine = []" "si_io sample_engine = []"
proof -
  obtain fr where eq: "sample_engine = sample_opened\<lparr> si_wal := fr,
      si_state := activated_state sample_cap shard_state_new,
      si_capabilities := fmupd (CapabilityId 9) sample_cap fmempty \<rparr>"
    using sample_activate [unfolded engine_activate_Ok]
    by (auto simp: append_record_Ok signed_fields sample_opened_def)
  show "si_cfg sample_engine = sample_cfg"
    "si_state sample_engine = activated_state sample_cap shard_state_new"
    "si_capabilities sample_engine = fmupd (CapabilityId 9) sample_cap fmempty"
    "si_alive sample_engine" "si_inbox sample_engine = []" "si_outboxes sample_engine = {||}"
    "si_sent sample_engine = []" "si_io sample_engine = []"
    unfolding eq by (simp_all add: sample_opened_def)
qed

lemma sample_opened_journaled: "journaled sample_crypto sample_opened"
  unfolding journaled_def by (rule exI [of _ "[]"]) (simp add: sample_opened_def)

lemma sample_engine_journaled: "journaled sample_crypto sample_engine"
  using journaling.activate_Ok [OF sample_activate] sample_opened_journaled by (simp add: journals_def)

lemma sample_need [simp]: "need_of sample_engine = 1"
  by (simp add: need_of_def sample_engine_fields quorum_threshold_def fcard.rep_eq)

lemma sample_scope: "service_in_scope ''svc/a'' [''svc/*'']"
  by (simp add: service_in_scope_def strip_suffix_def has_suffix_def starts_with_def)

text \<open>Every payment within the amounts is accepted by the sample validator, whatever its sequence.\<close>

lemma sample_authorised:
  assumes "unat a \<le> 50"
  shows "authorised sample_crypto sample_engine (sample_pay sq a h) 5 sample_cap"
  using assms sample_cap_verifies sample_pay_verifies [of sq a h]
  by (auto simp: authorised_def sample_engine_fields signed_fields sample_cfg_def sample_scope
      verifying_key_def activated_state_def shard_state_new_def remaining_of_def activate_capability_def
      epoch_state_of_def is_consumed_def)

lemma sample_body_digest: "\<exists>d. body_digest sample_crypto b = Some d"
  by (simp add: body_digest_def)

lemma body_digest_total: "crypto_ok X \<Longrightarrow> \<exists>d. body_digest X b = Some d"
  using encode_cbor_total [of X "ser_body b"]
  by (auto simp: body_digest_def encode_cbor_def split: option.splits)

lemma sample_consumable:
  assumes "unat a \<le> 50" "1 \<le> sq" "sq \<le> 10"
  shows "body_consumable (pay_body_of sample_crypto (sample_pay sq a h)) (si_state sample_engine)"
  using assms
  by (auto simp: body_consumable_def consumable_def pay_body_of_def body_from_pay_def signed_fields
      sample_engine_fields activated_state_def shard_state_new_def activate_capability_def epoch_state_of_def
      is_consumed_def)

section \<open>The sample validator accepts a payment\<close>

lemma durable_commit_total:
  assumes "crypto_ok X" and "si_io s = []" and "body_consumable b (si_state s)"
  shows "\<exists>t. durable_commit X b s = Ok () t"
  using append_no_fault [OF assms(1,2)] assms(3) by (auto simp: durable_commit_Ok)

lemma commit_once_total:
  assumes "crypto_ok X" and "si_io s = []" and "body_consumable b (si_state s) \<or> body_consumed b s"
  shows "\<exists>t. commit_once X b s = Ok () t"
  using durable_commit_total [OF assms(1,2)] assms(3) by (auto simp: commit_once_def)

lemma pay_commit_total:
  assumes "crypto_ok X" and "si_io s = []" and "body_consumable b (si_state s) \<or> body_consumed b s"
  shows "\<exists>t. pay_commit X b d votes s = Ok () t"
proof -
  let ?s = "broadcast (Commit b (vote_list votes)) s"
  have "si_io ?s = []" "body_consumable b (si_state ?s) \<or> body_consumed b ?s"
    using assms(2,3) by (simp_all add: broadcast_def body_consumed_def)
  then show ?thesis using commit_once_total [OF assms(1)] by (fastforce simp: pay_commit_def)
qed

lemma pay_commit_sent:
  "pay_commit X b d votes s = Ok u t \<Longrightarrow>
     si_sent t = si_sent s @ [Commit b (vote_list votes), DurableAck d (engine_id s)] \<and> engine_id t = engine_id s"
  using growing.commit_Ok commit_once_silent(1)
  by (fastforce simp: pay_commit_def and_then_iff broadcast_def grows_def engine_id_def)

abbreviation own_votes :: "crypto \<Rightarrow> b32 \<Rightarrow> shard_inner \<Rightarrow> (u8, bytes) fmap" where
  "own_votes X d s \<equiv> fmupd (engine_id s) (sign_digest X (vc_key (si_cfg s)) d) fmempty"

definition after_propose :: "crypto \<Rightarrow> pay \<Rightarrow> u64 \<Rightarrow> b32 \<Rightarrow> shard_inner \<Rightarrow> shard_inner" where
  "after_propose X p now d s =
     broadcast (Vote d (engine_id s) (sign_digest X (vc_key (si_cfg s)) d))
       (broadcast (Propose (pay_body_of X p) p (engine_id s) now) s)"

lemma after_propose_frame [simp]:
  "si_cfg (after_propose X p now d s) = si_cfg s" "si_state (after_propose X p now d s) = si_state s"
  "si_io (after_propose X p now d s) = si_io s" "si_outboxes (after_propose X p now d s) = si_outboxes s"
  "si_inbox (after_propose X p now d s) = si_inbox s" "need_of (after_propose X p now d s) = need_of s"
  "engine_id (after_propose X p now d s) = engine_id s" "si_alive (after_propose X p now d s) = si_alive s"
  "body_consumed b (after_propose X p now d s) = body_consumed b s"
  "si_wal (after_propose X p now d s) = si_wal s"
  by (simp_all add: after_propose_def broadcast_def need_of_def engine_id_def body_consumed_def)

lemma validate_pay_cong:
  assumes "si_cfg t = si_cfg s" "si_state t = si_state s" "si_capabilities t = si_capabilities s"
  shows "validate_pay X t p now = validate_pay X s p now"
  unfolding validate_pay_def assms ..

lemma validate_pay_after_propose [simp]:
  "validate_pay X (after_propose X p now d s) q now' = validate_pay X s q now'"
  by (rule validate_pay_cong) (simp_all add: after_propose_def broadcast_def)

lemma fcard_one [simp]: "fcard (fmdom (fmupd k v fmempty)) = 1"
  by (simp add: fcard.rep_eq)

text \<open>A validator alone in its shard accepts every payment it validates and can consume.\<close>

lemma handle_pay_alone:
  assumes "crypto_ok X" and "si_alive s" and "need_of s = 1" and "si_io s = []"
    and "validate_pay X s p now = Inr ()" and "body_digest X (pay_body_of X p) = Some d"
    and "body_consumable (pay_body_of X p) (si_state s)"
  shows "\<exists>acc t. handle_pay X [] [] p now s = Ok acc t"
proof -
  let ?s1 = "after_propose X p now d s"
  have p: "pay_propose X p now s = Ok (pay_body_of X p, d) ?s1"
    using assms by (simp add: pay_propose_Ok after_propose_def)
  obtain t where c: "pay_commit X (pay_body_of X p) d (own_votes X d ?s1) ?s1 = Ok () t"
    using pay_commit_total [OF assms(1), of ?s1 "pay_body_of X p" d "own_votes X d ?s1"] assms(4,7) by auto
  show ?thesis
    using assms(3) c by (simp add: handle_pay_def p Let_def)
qed

lemma sample_handle_pay:
  assumes "unat a \<le> 50" "1 \<le> sq" "sq \<le> 10"
  shows "\<exists>acc t. handle_pay sample_crypto [] [] (sample_pay sq a h) 5 sample_engine = Ok acc t"
proof -
  have "validate_pay sample_crypto sample_engine (sample_pay sq a h) 5 = Inr ()"
    unfolding validate_pay_Inr using sample_authorised [OF assms(1)] by blast
  moreover obtain d where "body_digest sample_crypto (pay_body_of sample_crypto (sample_pay sq a h)) = Some d"
    using sample_body_digest by blast
  ultimately show ?thesis
    using handle_pay_alone [OF sample_crypto_ok, of sample_engine] sample_consumable [OF assms, of h]
    by (simp add: sample_engine_fields)
qed

text \<open>The sample validator as a cluster of one.\<close>

definition sample_cluster :: shard_cluster where
  "sample_cluster = \<lparr> cl_nodes = fmupd 0 sample_engine fmempty, cl_tasks = fmempty \<rparr>"

lemma sample_cluster_start: "cluster_start sample_cluster"
  by (auto simp: cluster_start_def wired_def sample_cluster_def sample_engine_fields engine_id_def
      sample_cfg_def split: if_splits)

abbreviation sample_body :: pay_commit_body where
  "sample_body \<equiv> pay_body_of sample_crypto (sample_pay 3 20 0)"

abbreviation sample_proposer :: "b32 \<Rightarrow> shard_inner" where
  "sample_proposer d \<equiv> after_propose sample_crypto (sample_pay 3 20 0) 5 d sample_engine"

abbreviation sample_voting :: "b32 \<Rightarrow> shard_cluster" where
  "sample_voting d \<equiv> set_task 0 0 (CollectVotes sample_body d 1 (own_votes sample_crypto d sample_engine))
     (set_node 0 (sample_proposer d) sample_cluster)"

abbreviation sample_committed :: "b32 \<Rightarrow> shard_inner \<Rightarrow> shard_cluster" where
  "sample_committed d s \<equiv> set_task 0 0 (CollectAcks sample_body d 1 [engine_id s]) (set_node 0 s (sample_voting d))"

abbreviation sample_accepted :: "b32 \<Rightarrow> shard_inner \<Rightarrow> shard_cluster" where
  "sample_accepted d s \<equiv> set_task 0 0 (Accepted sample_body d 1 [engine_id s] (pay_finish sample_crypto sample_body d s))
     (set_node 0 s (sample_committed d s))"

lemma sample_cluster_run:
  obtains d s where "body_digest sample_crypto sample_body = Some d"
    and "pay_commit sample_crypto sample_body d (own_votes sample_crypto d sample_engine) (sample_proposer d) = Ok () s"
    and "cluster_step sample_crypto sample_cluster (sample_voting d)"
    and "cluster_step sample_crypto (sample_voting d) (sample_committed d s)"
    and "cluster_step sample_crypto (sample_committed d s) (sample_accepted d s)"
proof -
  let ?X = sample_crypto and ?p = "sample_pay 3 20 0" and ?s = sample_engine
  have v: "validate_pay ?X ?s ?p 5 = Inr ()"
    unfolding validate_pay_Inr using sample_authorised [of 20] by auto
  obtain d where d: "body_digest ?X sample_body = Some d" using sample_body_digest by blast
  obtain s2 where c: "pay_commit ?X sample_body d (own_votes ?X d ?s) (sample_proposer d) = Ok () s2"
    using pay_commit_total [OF sample_crypto_ok, of "sample_proposer d" sample_body d "own_votes ?X d ?s"] sample_consumable [of 20 3 0]
    by (auto simp: sample_engine_fields)
  have "cluster_step ?X sample_cluster (sample_voting d)"
  proof (rule cluster_step.Begin)
    show "fmlookup (cl_nodes sample_cluster) 0 = Some ?s" by (simp add: sample_cluster_def)
    have "pay_propose ?X ?p 5 ?s = Ok (sample_body, d) (sample_proposer d)"
      using v d by (simp add: pay_propose_Ok after_propose_def sample_engine_fields)
    then show "task_begin ?X ?p 5 ?s = Ok (CollectVotes sample_body d 1 (own_votes ?X d ?s)) (sample_proposer d)"
      by (simp add: task_begin_def)
  qed (simp add: sample_cluster_def)
  moreover have "cluster_step ?X (sample_voting d) (sample_committed d s2)"
    by (rule cluster_step.Step [of _ _ _ "CollectVotes sample_body d 1 (own_votes ?X d ?s)" "sample_proposer d"])
      (simp_all add: set_task_def set_node_def c)
  moreover have "cluster_step ?X (sample_committed d s2) (sample_accepted d s2)"
    by (rule cluster_step.Step [of _ _ _ "CollectAcks sample_body d 1 [engine_id s2]" s2])
      (simp_all add: set_task_def set_node_def)
  ultimately show ?thesis using that d c by blast
qed

lemma sample_cluster_accepts:
  "\<exists>C b d acks acc. cluster_reachable sample_crypto C \<and> fmlookup (cl_tasks C) 0 = Some (0, Accepted b d 1 acks acc)"
proof -
  obtain d s where "cluster_step sample_crypto sample_cluster (sample_voting d)"
    and "cluster_step sample_crypto (sample_voting d) (sample_committed d s)"
    and "cluster_step sample_crypto (sample_committed d s) (sample_accepted d s)"
    by (rule sample_cluster_run)
  then have "cluster_reachable sample_crypto (sample_accepted d s)"
    using cluster_reachable.start [OF sample_cluster_start] cluster_reachable.step by blast
  moreover have "fmlookup (cl_tasks (sample_accepted d s)) 0 =
      Some (0, Accepted sample_body d 1 [engine_id s] (pay_finish sample_crypto sample_body d s))"
    by (simp add: set_task_def)
  ultimately show ?thesis by blast
qed

section \<open>Runs of one validator\<close>

datatype engine_op =
    OpActivate spend_capability
  | OpFence "bft_message list list" epoch
  | OpPay "bft_message list list" "bft_message list list" pay u64
  | OpPump
  | OpDeliver "bft_message list"

fun engine_op_step :: "crypto \<Rightarrow> engine_op \<Rightarrow> shard_inner \<Rightarrow> unit engine" where
  "engine_op_step X (OpActivate c) s = engine_activate X c s"
| "engine_op_step X (OpFence rounds ep) s = engine_fence_epoch X rounds ep s"
| "engine_op_step X (OpPay vr ar p now) s = and_then (handle_pay X vr ar p now s) (\<lambda>_ t. Ok () t)"
| "engine_op_step X OpPump s = pump X s"
| "engine_op_step X (OpDeliver ms) s = Ok () (deliver ms s)"

text \<open>A run that goes on after errors, and one in which every operation succeeds.\<close>

fun engine_after :: "crypto \<Rightarrow> shard_inner \<Rightarrow> engine_op list \<Rightarrow> shard_inner" where
  "engine_after X s [] = s"
| "engine_after X s (op # ops) =
     (case outcome_state (engine_op_step X op s) of None \<Rightarrow> s | Some t \<Rightarrow> engine_after X t ops)"

fun engine_run :: "crypto \<Rightarrow> shard_inner \<Rightarrow> engine_op list \<Rightarrow> shard_inner option" where
  "engine_run X s [] = Some s"
| "engine_run X s (op # ops) =
     (case engine_op_step X op s of Ok _ t \<Rightarrow> engine_run X t ops | _ \<Rightarrow> None)"

lemma op_step_grows: "outcome_state (engine_op_step X op s) = Some t \<Longrightarrow> grows s t"
proof (induction op)
  case (OpPay vr ar p now)
  then show ?case using growing.holds_handle_pay [of s X vr ar p now] by (auto simp: and_then_state)
next
  case (OpActivate c)
  then show ?case using growing.holds_activate [of s X c] by (auto elim!: outcome_state_cases)
next
  case (OpFence r ep)
  then show ?case using growing.holds_fence_epoch [of s X r ep] by (auto elim!: outcome_state_cases)
next
  case OpPump
  then show ?case using growing.holds_pump [of s X] by (auto elim!: outcome_state_cases)
next
  case (OpDeliver ms)
  then show ?case using growing.holds_deliver [of s ms] by simp
qed

lemma engine_after_grows: "grows s (engine_after X s ops)"
proof (induction ops arbitrary: s)
  case (Cons op ops)
  show ?case
    using Cons.IH op_step_grows [of X op s] growing.R_trans by (auto split: option.split simp: growing.R_refl)
qed (simp add: growing.R_refl)

lemma engine_run_journaled:
  "engine_run X s ops = Some t \<Longrightarrow> journaled X s \<Longrightarrow> journaled X t"
proof (induction ops arbitrary: s)
  case (Cons op ops)
  then obtain m where m: "engine_op_step X op s = Ok () m" and r: "engine_run X m ops = Some t"
    by (auto split: outcome.splits)
  have "journals X s m"
  proof (cases op)
    case (OpPay vr ar p now)
    then show ?thesis using m journaling.holds_handle_pay [of X s vr ar p now] by (auto simp: and_then_iff)
  next
    case (OpActivate c)
    then show ?thesis using m journaling.holds_activate [of X s c] by simp
  next
    case (OpFence rs ep)
    then show ?thesis using m journaling.holds_fence_epoch [of X s rs ep] by simp
  next
    case OpPump
    then show ?thesis using m journaling.holds_pump [of X s] by simp
  next
    case (OpDeliver ms)
    then show ?thesis using m journaling.holds_deliver [of X s ms] by simp
  qed
  then show ?case using Cons.IH [OF r] Cons.prems(2) by (simp add: journals_def)
qed simp

section \<open>Lemmas on failures\<close>

lemma not_consumable_Err:
  assumes "\<not> consumable (si_state s) (pb_capability_id b) (pb_epoch b) (pb_sequence b) (pb_amount b)"
  obtains e where "consume_pay (pb_capability_id b) (pb_epoch b) (pb_sequence b) (pb_amount b) (si_state s)
      = Err e (si_state s)" and "consume_body b s = Err e s"
proof -
  obtain e where e: "consume_pay (pb_capability_id b) (pb_epoch b) (pb_sequence b) (pb_amount b) (si_state s)
      = Err e (si_state s)"
    using consume_pay_Err_iff assms by blast
  then show ?thesis using that by (simp add: consume_body_def)
qed

text \<open>A logged payment that cannot be consumed: the operation errs, and so does every replay.\<close>

lemma poisoned_log:
  assumes "crypto_ok X" and "wal_codec X D" and "journaled X s" and "si_io s = []"
    and "\<not> consumable (si_state s) (pb_capability_id b) (pb_epoch b) (pb_sequence b) (pb_amount b)"
  shows "\<exists>e t. durable_commit X b s = Err e t \<and>
    open_engine X D None None cfg (Some (si_wal t)) peers = Err e ()"
proof -
  obtain m where m: "append_record X (pay_record b) s = Ok () m"
    using append_no_fault [OF assms(1,4)] by blast
  have st: "si_state m = si_state s" using append_record_frame [OF m] by simp
  obtain e where e: "consume_pay (pb_capability_id b) (pb_epoch b) (pb_sequence b) (pb_amount b) (si_state m)
      = Err e (si_state m)" and c: "consume_body b m = Err e m"
    using not_consumable_Err [of m b] assms(5) st by auto
  obtain rs where rs: "wal_file X rs (si_wal s)" "run_log apply_record rs shard_state_new = Ok () (si_state s)"
    using assms(3) by (auto simp: journaled_def)
  have "run_log apply_record (rs @ [pay_record b]) shard_state_new = Err e (si_state s)"
    using rs(2) e st by (simp add: run_log_append pay_record_def)
  then have "wal_replay D None (si_wal m) = Err e (si_state s)"
    using wal_replay_file [OF assms(2) append_record_wal [OF m rs(1)]] by simp
  then have "open_engine X D None None cfg (Some (si_wal m)) peers = Err e ()"
    by (simp add: open_engine_def wal_open_def)
  then show ?thesis using m c by (intro exI [of _ e] exI [of _ m]) (simp add: durable_commit_def)
qed

lemma count_good_replicate: "good_vote X s d v sig \<Longrightarrow> count_good X s d (replicate n (v, sig)) = n"
  by (induction n) (simp_all add: count_good_def)

section \<open>Theorems\<close>

text \<open>A commit without disk fault always logs, and changes the state only when it succeeds.\<close>

lemma durable_commit_logs:
  assumes "crypto_ok X" and "si_io s = []" and "unat (ss_commit_index (si_state s)) + 1 < 2 ^ 64"
    and "wal_frame X (pay_record b) = Inr fr"
  shows "if body_consumable b (si_state s)
    then durable_commit X b s = Ok () (s\<lparr> si_wal := si_wal s @ fr, si_state := consumed_state b (si_state s) \<rparr>)
    else \<exists>e. durable_commit X b s = Err e (s\<lparr> si_wal := si_wal s @ fr \<rparr>)"
proof -
  let ?m = "s\<lparr> si_wal := si_wal s @ fr \<rparr>"
  have m: "append_record X (pay_record b) s = Ok () ?m"
    using assms(2,4) by (simp add: append_record_Ok)
  show ?thesis
  proof (cases "body_consumable b (si_state s)")
    case True
    then show ?thesis using m by (simp add: durable_commit_Ok)
  next
    case False
    then have "\<not> consumable (si_state s) (pb_capability_id b) (pb_epoch b) (pb_sequence b) (pb_amount b)"
      using assms(3) by (simp add: body_consumable_def)
    then obtain e where "consume_pay (pb_capability_id b) (pb_epoch b) (pb_sequence b) (pb_amount b) (si_state s) = Err e (si_state s)"
      using consume_pay_Err_iff by blast
    then have "consume_body b ?m = Err e ?m" by (simp add: consume_body_def)
    then show ?thesis using m False by (auto simp: durable_commit_def)
  qed
qed

lemma consumed_state_spends:
  assumes "body_consumable b st" and "fmlookup (ss_capabilities st) (pb_capability_id b) = Some c"
  shows "\<exists>c'. fmlookup (ss_capabilities (consumed_state b st)) (pb_capability_id b) = Some c' \<and>
      amt (ac_remaining c') + amt (pb_amount b) = amt (ac_remaining c)"
    and "k \<noteq> pb_capability_id b \<Longrightarrow> fmlookup (ss_capabilities (consumed_state b st)) k = fmlookup (ss_capabilities st) k"
    and "ss_consumed (consumed_state b st)
      = finsert (consume_key_of (pb_capability_id b) (pb_epoch b) (pb_sequence b)) (ss_consumed st)"
    and "unat (ss_commit_index (consumed_state b st)) = unat (ss_commit_index st) + 1"
proof -
  have "micros (pb_amount b) \<le> micros (ac_remaining c)"
    using assms by (simp add: body_consumable_def consumable_def micros_le_amt)
  then show "\<exists>c'. fmlookup (ss_capabilities (consumed_state b st)) (pb_capability_id b) = Some c' \<and>
      amt (ac_remaining c') + amt (pb_amount b) = amt (ac_remaining c)"
    using assms(2) by (simp add: consumed_state_def after_consume_def amt_def unat_minus_fits word_le_nat_alt)
  have "unat (ss_commit_index st) + 1 < 2 ^ 64" using assms(1) by (simp add: body_consumable_def)
  then show "unat (ss_commit_index (consumed_state b st)) = unat (ss_commit_index st) + 1"
    by (simp add: consumed_state_def after_consume_def unat_word_ariths)
qed (simp_all add: consumed_state_def after_consume_def)

text \<open>C16: A validated payment is within what remains of its capability, within the per-call limit the
  issuer signed and the price limit the agent signed, and on a disk without fault its commit
  appends one record to the log whatever happens next. If its epoch is the capability's and its
  sequence is in the capability's range the commit succeeds: exactly the amount is deducted from
  that capability and no other changes, exactly its key is added to the consumed ones, and the
  commit index moves up by one. Otherwise the commit fails and the ledger stays as it was.\<close>

theorem validated_payment_commits:
  assumes "crypto_ok X" and "si_io s = []" and "unat (ss_commit_index (si_state s)) + 1 < 2 ^ 64"
    and "validate_pay X s p now = Inr ()"
  shows "\<exists>cap c fr. fmlookup (si_capabilities s) (pay_capability_id p) = Some cap
    \<and> verify_capability X (vc_issuer_vk (si_cfg s)) cap = Inr () \<and> amt (pay_amount p) \<le> amt (cap_maximum_per_call cap)
    \<and> verify_pay X (VKey (agent_bytes (cap_agent_id cap))) p = Inr () \<and> amt (pay_amount p) \<le> amt (pay_max_amount p)
    \<and> fmlookup (ss_capabilities (si_state s)) (pay_capability_id p) = Some c
    \<and> amt (pay_amount p) \<le> amt (ac_remaining c)
    \<and> wal_frame X (pay_record (pay_body_of X p)) = Inr fr
    \<and> (if pay_epoch p = ac_epoch c \<and> seq_num (ac_sequence_start c) \<le> seq_num (pay_sequence p)
            \<and> seq_num (pay_sequence p) \<le> seq_num (ac_sequence_end c)
        then \<exists>t c'. durable_commit X (pay_body_of X p) s = Ok () t \<and> si_wal t = si_wal s @ fr
          \<and> fmlookup (ss_capabilities (si_state t)) (pay_capability_id p) = Some c'
          \<and> amt (ac_remaining c') + amt (pay_amount p) = amt (ac_remaining c)
          \<and> (\<forall>k. k \<noteq> pay_capability_id p \<longrightarrow>
               fmlookup (ss_capabilities (si_state t)) k = fmlookup (ss_capabilities (si_state s)) k)
          \<and> ss_consumed (si_state t) = finsert
               (consume_key_of (pay_capability_id p) (pay_epoch p) (pay_sequence p)) (ss_consumed (si_state s))
          \<and> consume_key_of (pay_capability_id p) (pay_epoch p) (pay_sequence p) |\<notin>| ss_consumed (si_state s)
          \<and> unat (ss_commit_index (si_state t)) = unat (ss_commit_index (si_state s)) + 1
        else \<exists>e t. durable_commit X (pay_body_of X p) s = Err e t \<and> si_wal t = si_wal s @ fr \<and> si_state t = si_state s)"
proof -
  let ?b = "pay_body_of X p" and ?st = "si_state s"
  have b: "pb_capability_id ?b = pay_capability_id p" "pb_epoch ?b = pay_epoch p" "pb_sequence ?b = pay_sequence p"
    "pb_amount ?b = pay_amount p"
    by (simp_all add: pay_body_of_def body_from_pay_def)
  obtain cap where auth: "authorised X s p now cap" using assms(4) validate_pay_Inr by blast
  then obtain c where c: "fmlookup (ss_capabilities ?st) (pay_capability_id p) = Some c"
    and fits: "amt (pay_amount p) \<le> amt (ac_remaining c)"
    and fresh: "\<not> is_consumed ?st (pay_capability_id p) (pay_epoch p) (pay_sequence p)"
    and active: "epoch_state_of ?st (pay_epoch p) = Active"
    by (auto simp: authorised_def remaining_of_def split: option.splits)
  obtain fr where fr: "wal_frame X (pay_record ?b) = Inr fr"
    using encode_cbor_total [OF assms(1), of "ser_wal_record (pay_record ?b)"] by (auto simp: wal_frame_def)
  have ok: "body_consumable ?b ?st \<longleftrightarrow> pay_epoch p = ac_epoch c \<and>
      seq_num (ac_sequence_start c) \<le> seq_num (pay_sequence p) \<and> seq_num (pay_sequence p) \<le> seq_num (ac_sequence_end c)"
    using c fits fresh active assms(3) by (simp add: body_consumable_def consumable_def b)
  note commit = durable_commit_logs [OF assms(1-3) fr]
  have "if body_consumable ?b ?st
      then \<exists>t c'. durable_commit X ?b s = Ok () t \<and> si_wal t = si_wal s @ fr
        \<and> fmlookup (ss_capabilities (si_state t)) (pay_capability_id p) = Some c'
        \<and> amt (ac_remaining c') + amt (pay_amount p) = amt (ac_remaining c)
        \<and> (\<forall>k. k \<noteq> pay_capability_id p \<longrightarrow> fmlookup (ss_capabilities (si_state t)) k = fmlookup (ss_capabilities ?st) k)
        \<and> ss_consumed (si_state t) = finsert
             (consume_key_of (pay_capability_id p) (pay_epoch p) (pay_sequence p)) (ss_consumed ?st)
        \<and> consume_key_of (pay_capability_id p) (pay_epoch p) (pay_sequence p) |\<notin>| ss_consumed ?st
        \<and> unat (ss_commit_index (si_state t)) = unat (ss_commit_index ?st) + 1
      else \<exists>e t. durable_commit X ?b s = Err e t \<and> si_wal t = si_wal s @ fr \<and> si_state t = ?st"
  proof (cases "body_consumable ?b ?st")
    case True
    note spent = consumed_state_spends [OF True, unfolded b, OF c]
    show ?thesis
      using commit spent(1,2,3,4) fresh True by (auto simp: is_consumed_def)
  next
    case False
    then show ?thesis using commit by (auto split: if_splits)
  qed
  then show ?thesis
    using auth c fits fr unfolding ok by (auto simp: authorised_def)
qed

lemma validated_payment_commits_witness:
  "\<exists>t c'. durable_commit sample_crypto (pay_body_of sample_crypto (sample_pay 3 20 0)) sample_engine = Ok () t
     \<and> fmlookup (ss_capabilities (si_state t)) (CapabilityId 9) = Some c' \<and> amt (ac_remaining c') = 80
     \<and> unat (ss_commit_index (si_state t)) = 1"
proof -
  have v: "validate_pay sample_crypto sample_engine (sample_pay 3 20 0) 5 = Inr ()"
    unfolding validate_pay_Inr using sample_authorised [of 20] by auto
  have st: "fmlookup (ss_capabilities (si_state sample_engine)) (CapabilityId 9) =
      Some \<lparr> ac_remaining = AmountMicros 100, ac_sequence_start = Sequence 1, ac_sequence_end = Sequence 10,
        ac_epoch = Epoch 1 \<rparr>" "unat (ss_commit_index (si_state sample_engine)) = 0"
    by (simp_all add: sample_engine_fields activated_state_def activate_capability_def signed_fields shard_state_new_def)
  from validated_payment_commits [OF sample_crypto_ok sample_engine_fields(8) _ v] st
  show ?thesis by (auto simp: signed_fields amt_def)
qed

text \<open>C13: A payment accepted once is refused for good: after any further operations, failed ones
  included, every payment with the same capability, epoch and sequence is an error without
  effect.\<close>

theorem accepted_payment_never_again:
  assumes "crypto_ok X" and "handle_pay X vr ar p now s = Ok acc t"
    and "pay_capability_id q = pay_capability_id p" and "pay_epoch q = pay_epoch p"
    and "pay_sequence q = pay_sequence p"
  shows "\<exists>e. handle_pay X vr' ar' q now' (engine_after X t ops) = Err e (engine_after X t ops)"
proof -
  have "body_consumed (pay_body_of X p) (engine_after X t ops)"
    using handle_pay_Ok(2) [OF assms(1,2)] engine_after_grows [of t X ops] by (simp add: grows_def)
  then have "body_consumed (pay_body_of X q) (engine_after X t ops)"
    using assms(3-5) by (simp add: body_consumed_def pay_body_of_def body_from_pay_def)
  then show ?thesis by (intro handle_pay_invalid consumed_not_valid)
qed

lemma accepted_payment_never_again_witness:
  "\<exists>t e. handle_pay sample_crypto [] [] (sample_pay 3 7 99) 6 t = Err e t"
proof -
  obtain acc t where "handle_pay sample_crypto [] [] (sample_pay 3 20 0) 5 sample_engine = Ok acc t"
    using sample_handle_pay [of 20 3 0] by auto
  from accepted_payment_never_again [OF sample_crypto_ok this, of "sample_pay 3 7 99" "[]" "[]" 6 "[]"]
  show ?thesis by (auto simp: signed_fields)
qed

text \<open>C22: A fence that was acknowledged is final: after any further operations no payment of that
  epoch is accepted by the validator.\<close>

theorem fence_is_final:
  assumes "engine_fence_epoch X rounds ep s = Ok u t" and "pay_epoch p = ep"
  shows "\<exists>e. handle_pay X vr ar p now (engine_after X t ops) = Err e (engine_after X t ops)"
proof -
  have "epoch_state_of (si_state (engine_after X t ops)) (pay_epoch p) = Fenced"
    using fence_epoch_Ok(1) [OF assms(1)] engine_after_grows [of t X ops] assms(2) by (simp add: grows_def)
  then show ?thesis by (intro handle_pay_invalid fenced_not_valid)
qed

lemma fence_is_final_witness:
  "\<exists>t e. engine_fence_epoch sample_crypto [] (Epoch 1) sample_engine = Ok () t \<and>
     handle_pay sample_crypto [] [] (sample_pay 3 20 0) 5 t = Err e t"
proof -
  let ?s0 = "broadcast (FenceCommit (Epoch 1) [engine_id sample_engine]) sample_engine"
  obtain m where "append_record sample_crypto (FenceEpoch (Epoch 1)) ?s0 = Ok () m"
    using append_no_fault [OF sample_crypto_ok, of ?s0] by (auto simp: broadcast_def sample_engine_fields)
  then have "\<exists>s1. fence_once sample_crypto (Epoch 1) ?s0 = Ok () s1"
    by (auto simp: fence_once_Ok)
  then obtain t where t: "engine_fence_epoch sample_crypto [] (Epoch 1) sample_engine = Ok () t"
    by (auto simp: engine_fence_epoch_def Let_def sample_engine_fields)
  show ?thesis
    using t fence_is_final [OF t, of "sample_pay 3 20 0" "[]" "[]" 5 "[]"] by (auto simp: signed_fields)
qed

text \<open>C15: A validator recovers: start one on an empty log, run any operations that succeed (payments,
  activations, fences, message handling), and a validator opened on the resulting log has exactly
  the same ledger.\<close>

theorem restart_recovers_ledger:
  assumes "wal_codec X D" and "open_engine X D None None cfg None peers = Ok s ()"
    and "engine_run X s ops = Some t"
  shows "\<exists>r. open_engine X D None None cfg (Some (si_wal t)) peers = Ok r () \<and> si_state r = si_state t"
proof -
  have "si_wal s = []" "si_state s = shard_state_new"
    using assms(2) by (auto simp: open_engine_def wal_open_def wal_replay_def)
  then have "journaled X s" unfolding journaled_def by (intro exI [of _ "[]"]) simp
  then have "journaled X t" by (rule engine_run_journaled [OF assms(3)])
  then show ?thesis using open_engine_recovers [OF assms(1)] by blast
qed

lemma restart_recovers_ledger_witness:
  "\<exists>r. open_engine sample_crypto sample_wal_read None None sample_cfg (Some (si_wal sample_engine)) {||} = Ok r ()
     \<and> si_state r = activated_state sample_cap shard_state_new"
proof -
  have "open_engine sample_crypto sample_wal_read None None sample_cfg None {||} = Ok sample_opened ()"
    by (simp add: open_engine_def wal_open_def wal_replay_def sample_opened_def)
  moreover have "engine_run sample_crypto sample_opened [OpActivate sample_cap] = Some sample_engine"
    by (simp add: sample_activate)
  ultimately show ?thesis
    using restart_recovers_ledger [OF sample_wal_codec] by (metis sample_engine_fields(2))
qed

text \<open>C39: A validated payment whose sequence lies outside its capability's range, or whose epoch is
  not the capability's, is logged before it is refused: the commit fails, and from then on the
  validator cannot be opened on its log.\<close>

theorem poisoned_log_blocks_restart:
  assumes "crypto_ok X" and "wal_codec X D" and "journaled X s" and "si_io s = []"
    and "authorised X s p now cap" and "fmlookup (ss_capabilities (si_state s)) (pay_capability_id p) = Some ac"
    and "pay_epoch p \<noteq> ac_epoch ac \<or> seq_num (pay_sequence p) < seq_num (ac_sequence_start ac) \<or>
      seq_num (ac_sequence_end ac) < seq_num (pay_sequence p)"
  shows "validate_pay X s p now = Inr () \<and> (\<exists>e t. durable_commit X (pay_body_of X p) s = Err e t \<and>
    open_engine X D None None cfg (Some (si_wal t)) peers = Err e ())"
proof
  show "validate_pay X s p now = Inr ()" using assms(5) validate_pay_Inr by blast
  have "\<not> consumable (si_state s) (pay_capability_id p) (pay_epoch p) (pay_sequence p) (pay_amount p)"
    using assms(6,7) by (auto simp: consumable_def not_le)
  then show "\<exists>e t. durable_commit X (pay_body_of X p) s = Err e t \<and>
      open_engine X D None None cfg (Some (si_wal t)) peers = Err e ()"
    by (intro poisoned_log [OF assms(1-4)]) (simp add: pay_body_of_def body_from_pay_def)
qed

lemma poisoned_log_blocks_restart_witness:
  "\<exists>e t. durable_commit sample_crypto (pay_body_of sample_crypto (sample_pay 99 20 0)) sample_engine = Err e t \<and>
     open_engine sample_crypto sample_wal_read None None sample_cfg (Some (si_wal t)) {||} = Err e ()"
proof -
  have "fmlookup (ss_capabilities (si_state sample_engine)) (pay_capability_id (sample_pay 99 20 0)) =
      Some \<lparr> ac_remaining = AmountMicros 100, ac_sequence_start = Sequence 1, ac_sequence_end = Sequence 10,
        ac_epoch = Epoch 1 \<rparr>"
    by (simp add: sample_engine_fields activated_state_def activate_capability_def signed_fields)
  then show ?thesis
    using poisoned_log_blocks_restart [OF sample_crypto_ok sample_wal_codec sample_engine_journaled _
        sample_authorised [of 20 99 0], of _ sample_cfg "{||}"]
    by (simp add: sample_engine_fields signed_fields)
qed

text \<open>Votes in a commit are counted, not voters: one valid vote repeated as often as the quorum
  needs makes a validator commit and acknowledge the payment.\<close>

lemma repeated_vote_reaches_quorum:
  assumes "crypto_ok X" and "si_io s = []" and "body_digest X b = Some d" and "good_vote X s d v sig"
    and "body_consumable b (si_state s)"
  shows "\<exists>t. handle_commit X b (replicate (need_of s) (v, sig)) s = Ok () t \<and> body_consumed b t \<and>
    DurableAck d (engine_id s) \<in> set (si_sent t)"
proof -
  obtain m where m: "commit_once X b s = Ok () m" using commit_once_total [OF assms(1,2)] assms(5) by blast
  let ?t = "broadcast (DurableAck d (engine_id m)) m"
  have "engine_id m = engine_id s" using growing.commit_Ok [OF m] by (simp add: grows_def engine_id_def)
  moreover have "body_consumed b ?t"
    using growing.commit_consumes [OF m] by (simp add: body_consumed_def broadcast_def)
  moreover have "handle_commit X b (replicate (need_of s) (v, sig)) s = Ok () ?t"
    using assms(3) m by (simp add: handle_commit_def count_good_replicate [OF assms(4)])
  ultimately show ?thesis by (intro exI [of _ ?t]) (simp add: broadcast_def)
qed

lemma repeated_vote_reaches_quorum_witness:
  "\<exists>d sig t. handle_commit sample_crypto (pay_body_of sample_crypto (sample_pay 3 20 0))
     (replicate 3 (0, sig)) (sample_engine\<lparr> si_outboxes := {|1, 2, 3|} \<rparr>) = Ok () t \<and>
     DurableAck d 0 \<in> set (si_sent t)"
proof -
  let ?s = "sample_engine\<lparr> si_outboxes := {|1, 2, 3|} \<rparr>" and ?b = "pay_body_of sample_crypto (sample_pay 3 20 0)"
  have n: "need_of ?s = 3" by (simp add: need_of_def quorum_threshold_def fcard.rep_eq)
  have i: "engine_id ?s = 0" by (simp add: engine_id_def sample_engine_fields sample_cfg_def)
  obtain d where d: "body_digest sample_crypto ?b = Some d" using sample_body_digest by blast
  have g: "good_vote sample_crypto ?s d 0 (sign_digest sample_crypto (vc_key (si_cfg ?s)) d)"
    using own_vote_good [OF sample_crypto_ok, of ?s d] unfolding i .
  have c: "body_consumable ?b (si_state ?s)" using sample_consumable [of 20 3 0] by simp
  have io: "si_io ?s = []" by (simp add: sample_engine_fields)
  show ?thesis
    using repeated_vote_reaches_quorum [OF sample_crypto_ok io d g c] unfolding n i by blast
qed

text \<open>A follower votes for the proposed body on the strength of the accompanying payment alone:
  with any payment that validates, it signs the digest of whatever body came along.\<close>

lemma follower_votes_for_any_body:
  assumes "validate_pay X s p now = Inr ()" and "body_digest X b = Some d"
  shows "handle_propose X b p now s =
    Ok () (broadcast (Vote d (engine_id s) (sign_digest X (vc_key (si_cfg s)) d)) s)"
  using assms by (simp add: handle_propose_def)

lemma follower_votes_for_any_body_witness:
  "\<exists>d t. pay_body_of sample_crypto (sample_pay 4 50 7) \<noteq> pay_body_of sample_crypto (sample_pay 3 20 0) \<and>
     body_digest sample_crypto (pay_body_of sample_crypto (sample_pay 4 50 7)) = Some d \<and>
     handle_propose sample_crypto (pay_body_of sample_crypto (sample_pay 4 50 7)) (sample_pay 3 20 0) 5 sample_engine
       = Ok () t"
proof -
  have v: "validate_pay sample_crypto sample_engine (sample_pay 3 20 0) 5 = Inr ()"
    unfolding validate_pay_Inr using sample_authorised [of 20 3 0] by auto
  obtain d where d: "body_digest sample_crypto (pay_body_of sample_crypto (sample_pay 4 50 7)) = Some d"
    using sample_body_digest by blast
  have "pay_body_of sample_crypto (sample_pay 4 50 7) \<noteq> pay_body_of sample_crypto (sample_pay 3 20 0)"
    by (simp add: pay_body_of_def body_from_pay_def signed_fields)
  then show ?thesis using follower_votes_for_any_body [OF v d] d by blast
qed

text \<open>A second payment with the sequence of a consumed one, validated before that, still gets its
  commit acknowledged: nothing is logged or deducted for it, and the acknowledgement goes out.\<close>

lemma late_commit_acked_unrecorded:
  assumes "body_consumed b s"
  shows "\<exists>t. pay_commit X b d votes s = Ok () t \<and> si_wal t = si_wal s \<and> si_state t = si_state s \<and>
    DurableAck d (engine_id s) \<in> set (si_sent t)"
  using assms
  by (simp add: pay_commit_def commit_once_def body_consumed_def broadcast_def engine_id_def)

lemma late_commit_acked_unrecorded_witness:
  "\<exists>s t d. pay_commit sample_crypto (pay_body_of sample_crypto (sample_pay 3 50 77)) d fmempty s = Ok () t \<and>
     si_state t = si_state s"
proof -
  obtain acc s where s: "handle_pay sample_crypto [] [] (sample_pay 3 20 0) 5 sample_engine = Ok acc s"
    using sample_handle_pay [of 20 3 0] by auto
  have "body_consumed (pay_body_of sample_crypto (sample_pay 3 50 77)) s"
    using handle_pay_Ok(2) [OF sample_crypto_ok s]
    by (simp add: body_consumed_def pay_body_of_def body_from_pay_def signed_fields)
  then show ?thesis using late_commit_acked_unrecorded by blast
qed

text \<open>Activating a capability again, as a validator must after a restart because it forgets the
  capabilities it knew, gives its whole allowance back: what is left is the maximum total again,
  whatever was spent, while the consumed payments stay consumed.\<close>

lemma reactivation_restores_allowance:
  assumes "engine_activate X cap s = Ok u t"
  shows "left (si_state t) (cap_capability_id cap) = amt (cap_maximum_total cap) \<and>
    ss_consumed (si_state t) = ss_consumed (si_state s)"
  using assms by (auto simp: engine_activate_Ok activated_state_def)

lemma reactivation_restores_allowance_witness:
  "left (si_state sample_engine) (cap_capability_id sample_cap) = 100"
  using reactivation_restores_allowance [OF sample_activate] by (simp add: signed_fields)

end
