(* ===== verification/Votes.thy ===== *)
theory Votes
  imports Prelude
begin

text \<open>
  Votes collected in a map from voters to signatures, entered one after the other, as both the
  shard's and the global leader do.
\<close>

lemma fmdom_votes: "fmdom (fold (\<lambda>(v, sig). fmupd v sig) vs votes) = fmdom votes |\<union>| fset_of_list (map fst vs)"
  by (induction vs arbitrary: votes) auto

lemma lookup_votes:
  "fmlookup (fold (\<lambda>(v, sig). fmupd v sig) vs votes) v = Some sig \<Longrightarrow> fmlookup votes v = Some sig \<or> (v, sig) \<in> set vs"
proof (induction vs arbitrary: votes)
  case (Cons w vs)
  have "fmlookup (fmupd (fst w) (snd w) votes) v = Some sig \<or> (v, sig) \<in> set vs"
    using Cons.IH [of "fmupd (fst w) (snd w) votes"] Cons.prems by (simp add: case_prod_unfold)
  then show ?case by (cases w) (auto split: if_splits)
qed simp

lemma fcard_votes:
  assumes "distinct (v # map fst vs)"
  shows "fcard (fmdom (fold (\<lambda>(v, sig). fmupd v sig) vs (fmupd v sig fmempty))) = 1 + length vs"
  using assms by (simp add: fmdom_votes fcard.rep_eq fset_of_list.rep_eq distinct_card [of "map fst vs", simplified])

lemma length_filter_map_mono:
  "(\<And>x. x \<in> set xs \<Longrightarrow> P x \<Longrightarrow> Q (g x)) \<Longrightarrow> length (filter P xs) \<le> length (filter Q (map g xs))"
  by (induction xs) (auto simp: le_SucI)

end
