(* ===== verification/Testkit.thy ===== *)
theory Testkit
  imports Shard_Theorems Votes
begin

text \<open>
  The in-process cluster of four validators (\<open>shard/src/testkit.rs\<close>), and the liveness of a
  payment in such a cluster: the leader runs \<open>handle_pay\<close> while the followers' background
  tasks pump their inboxes. The generated keys are an argument; the log files are those of a
  fresh temporary directory.
\<close>

section \<open>Building the cluster\<close>

record shard_cluster4 =
  c4_engines :: "shard_inner list"
  c4_issuer_vk :: vkey
  c4_leader_idx :: nat

definition peer_map :: "crypto \<Rightarrow> (u8 \<Rightarrow> b32) \<Rightarrow> (u8, vkey) fmap" where
  "peer_map X secrets =
     fmap_of_list (map (\<lambda>i. (i, verifying_key X (keypair_from_bytes (secrets i)))) [0, 1, 2, 3])"

definition node_config :: "crypto \<Rightarrow> shard_id \<Rightarrow> vkey \<Rightarrow> (u8 \<Rightarrow> b32) \<Rightarrow> u8 \<Rightarrow> validator_config" where
  "node_config X shard issuer_vk secrets i =
     \<lparr> vc_id = i, vc_shard_id = shard, vc_key = keypair_from_bytes (secrets i),
       vc_peer_keys = fmfilter (\<lambda>j. j \<noteq> i) (peer_map X secrets), vc_issuer_vk = issuer_vk \<rparr>"

definition open_node ::
  "crypto \<Rightarrow> (bytes \<Rightarrow> wal_record option) \<Rightarrow> shard_id \<Rightarrow> vkey \<Rightarrow> (u8 \<Rightarrow> b32) \<Rightarrow> u8 \<Rightarrow> shard_inner option" where
  "open_node X D shard issuer_vk secrets i =
     (case open_engine X D None None (node_config X shard issuer_vk secrets i) None ({|0, 1, 2, 3|} |-| {|i|}) of
        Ok s _ \<Rightarrow> Some s | Err _ _ \<Rightarrow> None | Panic \<Rightarrow> None)"

definition cluster4_with_issuer_bytes ::
  "crypto \<Rightarrow> (bytes \<Rightarrow> wal_record option) \<Rightarrow> shard_id \<Rightarrow> b32 \<Rightarrow> (u8 \<Rightarrow> b32) \<Rightarrow> shard_cluster4 option" where
  "cluster4_with_issuer_bytes X D shard issuer_bytes secrets =
     (let issuer_vk = verifying_key X (keypair_from_bytes issuer_bytes) in
      map_option (\<lambda>engines. \<lparr> c4_engines = engines, c4_issuer_vk = issuer_vk, c4_leader_idx = 0 \<rparr>)
        (those (map (open_node X D shard issuer_vk secrets) [0, 1, 2, 3])))"

definition fresh_cluster4 ::
  "crypto \<Rightarrow> (bytes \<Rightarrow> wal_record option) \<Rightarrow> shard_id \<Rightarrow> b32 \<Rightarrow> (u8 \<Rightarrow> b32) \<Rightarrow> shard_cluster4 option" where
  "fresh_cluster4 X D shard drawn secrets =
     cluster4_with_issuer_bytes X D shard (signing_key (keypair_generate drawn)) secrets"

definition cluster_leader :: "shard_cluster4 \<Rightarrow> shard_inner" where
  "cluster_leader c = c4_engines c ! c4_leader_idx c"

definition kill_matching :: "u8 \<Rightarrow> shard_inner \<Rightarrow> shard_inner" where
  "kill_matching v e = (if engine_id e = v then kill e else e)"

definition cluster_kill :: "u8 \<Rightarrow> shard_cluster4 \<Rightarrow> shard_cluster4" where
  "cluster_kill v c = c\<lparr> c4_engines := map (kill_matching v) (c4_engines c) \<rparr>"

text \<open>\<open>for eng in cluster.engines { eng.activate_capability(cap).unwrap() }\<close>, as its users do.\<close>

definition activate_engine :: "crypto \<Rightarrow> spend_capability \<Rightarrow> shard_inner \<Rightarrow> shard_inner option" where
  "activate_engine X cap e = (case engine_activate X cap e of Ok _ t \<Rightarrow> Some t | Err _ _ \<Rightarrow> None | Panic \<Rightarrow> None)"

definition activate_all :: "crypto \<Rightarrow> spend_capability \<Rightarrow> shard_cluster4 \<Rightarrow> shard_cluster4 option" where
  "activate_all X cap c =
     map_option (\<lambda>es. c\<lparr> c4_engines := es \<rparr>) (those (map (activate_engine X cap) (c4_engines c)))"

section \<open>A payment with the followers' tasks\<close>

definition sent_since :: "shard_inner \<Rightarrow> shard_inner \<Rightarrow> bft_message list" where
  "sent_since s t = drop (length (si_sent s)) (si_sent t)"

text \<open>
  A follower's task: woken by messages it pumps; an error is dropped. A round pumps every
  follower and hands each the others' messages, which wait in its inbox for the next wake-up.
\<close>

definition follower_pump :: "crypto \<Rightarrow> bft_message list \<Rightarrow> shard_inner \<Rightarrow> shard_inner" where
  "follower_pump X ms f = (case outcome_state (pump X (deliver ms f)) of Some t \<Rightarrow> t | None \<Rightarrow> f)"

definition followers_say :: "crypto \<Rightarrow> bft_message list \<Rightarrow> shard_inner list \<Rightarrow> bft_message list" where
  "followers_say X ms fs = concat (map (\<lambda>f. sent_since f (follower_pump X ms f)) fs)"

definition followers_next :: "crypto \<Rightarrow> bft_message list \<Rightarrow> shard_inner list \<Rightarrow> shard_inner list" where
  "followers_next X ms fs =
     map (\<lambda>f. deliver (followers_say X ms (filter (\<lambda>g. engine_id g \<noteq> engine_id f) fs)) (follower_pump X ms f)) fs"

text \<open>
  The leader waits twice, for votes and for acknowledgements. Run with no further rounds it
  stops where it waits, having sent what the followers answer.
\<close>

definition said :: "shard_inner \<Rightarrow> edge_accept engine \<Rightarrow> bft_message list" where
  "said s r = (case outcome_state r of Some t \<Rightarrow> sent_since s t | None \<Rightarrow> [])"

definition cluster_pay ::
  "crypto \<Rightarrow> pay \<Rightarrow> u64 \<Rightarrow> shard_inner \<Rightarrow> shard_inner list \<Rightarrow> edge_accept engine \<times> shard_inner list" where
  "cluster_pay X p now leader fs =
     (let proposed = said leader (handle_pay X [] [] p now leader);
          votes = followers_say X proposed fs;
          fs1 = followers_next X proposed fs;
          committed = drop (length proposed) (said leader (handle_pay X [votes] [] p now leader));
          acks = followers_say X committed fs1
      in (handle_pay X [votes] [acks] p now leader, followers_next X committed fs1))"

section \<open>Chatter\<close>

text \<open>Votes and acknowledgements, which a follower's pump drops.\<close>

fun chatter :: "bft_message \<Rightarrow> bool" where
  "chatter (Vote d v sig) = True"
| "chatter (DurableAck d v) = True"
| "chatter _ = False"

lemma dispatch_chatter: "chatter m \<Longrightarrow> handle_message X m s = Ok () s"
  by (cases m) (simp_all add: handle_message_def)

lemma drain_inbox_irrelevant [simp]: "drain X ms (s\<lparr> si_inbox := z \<rparr>) = drain X ms s"
  by (cases ms) simp_all

lemma drain_chatter: "list_all chatter cs \<Longrightarrow> drain X (cs @ ms) s = drain X ms s"
  by (induction cs arbitrary: s) (simp_all add: dispatch_chatter)

lemma count_good_cfg: "si_cfg t = si_cfg s \<Longrightarrow> count_good X t d votes = count_good X s d votes"
  using good_vote_cfg [of t s X d] by (simp add: count_good_def)

lemma commit_once_alive: "commit_once X b s = Ok u t \<Longrightarrow> si_alive t = si_alive s"
  by (auto simp: commit_once_def durable_commit_Ok append_record_Ok split: if_splits)

text \<open>The followers' view of the leader's two broadcasts.\<close>

lemma pump_propose:
  assumes "si_alive f" and "list_all chatter (si_inbox f)" and "validate_pay X f p now = Inr ()"
    and "body_digest X b = Some d"
  shows "pump X (deliver [Propose b p l now, Vote d' l sig] f) =
    Ok () (f\<lparr> si_inbox := [], si_sent := si_sent f @ [Vote d (engine_id f) (sign_digest X (vc_key (si_cfg f)) d)] \<rparr>)"
proof -
  let ?f = "f\<lparr> si_inbox := [Vote d' l sig] \<rparr>"
  have "validate_pay X ?f p now = Inr ()" using assms(3) validate_pay_cong [of ?f f] by simp
  then have "handle_message X (Propose b p l now) ?f =
      Ok () (broadcast (Vote d (engine_id f) (sign_digest X (vc_key (si_cfg f)) d)) ?f)"
    using assms(1,4) by (simp add: handle_message_def handle_propose_def engine_id_def)
  then show ?thesis
    using assms(1,2)
    by (simp add: pump_def deliver_def drain_chatter handle_message_def broadcast_def)
qed

text \<open>A commit that is recorded: the ledger has consumed the payment, the log holds its record.\<close>

lemma commit_once_fits:
  assumes "crypto_ok X" and "si_io s = []" and "body_consumable b (si_state s)"
  obtains w where "commit_once X b s = Ok () (s\<lparr> si_wal := w, si_state := consumed_state b (si_state s) \<rparr>)"
proof -
  have fresh: "\<not> body_consumed b s"
    using assms(3) by (simp add: body_consumable_def consumable_def body_consumed_def)
  obtain t where t: "commit_once X b s = Ok () t"
    using commit_once_total [OF assms(1), of s b] assms(2,3) by auto
  obtain fr where t': "t = s\<lparr> si_io := tl (si_io s), si_wal := si_wal s @ fr, si_state := consumed_state b (si_state s) \<rparr>"
    using t fresh unfolding commit_once_def by (simp add: durable_commit_Ok append_record_Ok) blast
  have "t = s\<lparr> si_wal := si_wal s @ fr, si_state := consumed_state b (si_state s) \<rparr>"
    unfolding t' using assms(2) by (cases s) simp
  then show ?thesis using t that by blast
qed

lemma pump_commit:
  assumes "crypto_ok X" and "si_alive f" and "list_all chatter (si_inbox f)" and "si_io f = []"
    and "body_digest X b = Some d" and "need_of f \<le> count_good X f d votes"
    and "body_consumable b (si_state f)"
  obtains w where "pump X (deliver [Commit b votes, DurableAck d' l] f) = Ok () (f\<lparr> si_inbox := [],
    si_sent := si_sent f @ [DurableAck d (engine_id f)], si_wal := w, si_state := consumed_state b (si_state f) \<rparr>)"
proof -
  let ?f = "f\<lparr> si_inbox := [DurableAck d' l] \<rparr>"
  have c: "count_good X ?f d votes = count_good X f d votes" "need_of ?f = need_of f" "engine_id ?f = engine_id f"
    using count_good_cfg [of ?f f X d votes] by (simp_all add: need_of_def engine_id_def)
  obtain w where m: "commit_once X b ?f = Ok () (?f\<lparr> si_wal := w, si_state := consumed_state b (si_state f) \<rparr>)"
    using commit_once_fits [OF assms(1), of ?f b] assms(4,7) by auto
  have "handle_message X (Commit b votes) ?f =
      Ok () (broadcast (DurableAck d (engine_id f)) (?f\<lparr> si_wal := w, si_state := consumed_state b (si_state f) \<rparr>))"
    using assms(2,5,6) m c by (simp add: handle_message_def handle_commit_def engine_id_def)
  then show ?thesis
    using that [of w] assms(2,3) by (simp add: pump_def deliver_def drain_chatter handle_message_def broadcast_def)
qed

section \<open>The leader's waits\<close>

lemma take_votes_all:
  assumes "list_all (\<lambda>(v, sig). good_vote X s d v sig) vs"
  shows "take_votes X d (map (\<lambda>(v, sig). Vote d v sig) vs) votes s =
    Ok (fold (\<lambda>(v, sig). fmupd v sig) vs votes) (s\<lparr> si_inbox := [] \<rparr>)"
  using assms
proof (induction vs arbitrary: votes s)
  case (Cons w vs)
  obtain v sig where w: "w = (v, sig)" by (cases w)
  have g: "good_vote X (s\<lparr> si_inbox := ms \<rparr>) d = good_vote X s d" for ms
    by (intro ext good_vote_cfg) simp
  show ?case using Cons.prems Cons.IH [of "s\<lparr> si_inbox := map (\<lambda>(v, sig). Vote d v sig) vs \<rparr>"]
    by (simp add: w g Let_def)
qed simp

lemma take_acks_all:
  "take_acks X d (map (DurableAck d) vs) acks s = Ok (fold add_ack vs acks) (s\<lparr> si_inbox := [] \<rparr>)"
  by (induction vs arbitrary: acks s) (simp_all add: Let_def)

lemma length_add_acks: "distinct vs \<Longrightarrow> set vs \<inter> set acks = {} \<Longrightarrow> length (fold add_ack vs acks) = length acks + length vs"
  by (induction vs arbitrary: acks) (auto simp: add_ack_def)

lemma vote_wait_once:
  assumes "1 < need" and "distinct (v # map fst vs)" and "need \<le> 1 + length vs" and "si_inbox s = []"
    and "list_all (\<lambda>(v, sig). good_vote X s d v sig) vs"
  shows "vote_wait X d need [map (\<lambda>(v, sig). Vote d v sig) vs] (fmupd v sig fmempty) s =
    Ok (fold (\<lambda>(v, sig). fmupd v sig) vs (fmupd v sig fmempty)) s"
proof -
  let ?m = "map (\<lambda>(v, sig). Vote d v sig) vs"
  have g: "good_vote X (deliver ?m s) d = good_vote X s d"
    by (intro ext good_vote_cfg) (simp add: deliver_def)
  have "take_votes X d ?m (fmupd v sig fmempty) (deliver ?m s) =
      Ok (fold (\<lambda>(v, sig). fmupd v sig) vs (fmupd v sig fmempty)) ((deliver ?m s)\<lparr> si_inbox := [] \<rparr>)"
    using assms(5) by (intro take_votes_all) (simp add: g)
  then show ?thesis
    using assms(1,3,4) fcard_votes [OF assms(2)] by (simp add: deliver_def Let_def fcard.rep_eq)
qed

lemma ack_wait_once:
  assumes "1 < need" and "distinct (v # vs)" and "need \<le> 1 + length vs" and "si_inbox s = []"
  shows "ack_wait X d need [map (DurableAck d) vs] [v] s = Ok (fold add_ack vs [v]) s"
  using assms length_add_acks [of vs "[v]"] take_acks_all [of X d vs "[v]" "deliver (map (DurableAck d) vs) s"]
  by (simp add: deliver_def Let_def)

section \<open>A round of the followers\<close>

definition votes_of :: "crypto \<Rightarrow> b32 \<Rightarrow> shard_inner list \<Rightarrow> (u8 \<times> bytes) list" where
  "votes_of X d fs = map (\<lambda>f. (engine_id f, sign_digest X (vc_key (si_cfg f)) d)) (filter si_alive fs)"

text \<open>A live follower that can answer: what it sees of the payment, and of the leader's commit.\<close>

definition can_vote :: "crypto \<Rightarrow> pay \<Rightarrow> u64 \<Rightarrow> shard_inner \<Rightarrow> bool" where
  "can_vote X p now f \<longleftrightarrow> list_all chatter (si_inbox f) \<and> validate_pay X f p now = Inr ()"

definition can_commit :: "crypto \<Rightarrow> pay_commit_body \<Rightarrow> b32 \<Rightarrow> (u8 \<times> bytes) list \<Rightarrow> shard_inner \<Rightarrow> bool" where
  "can_commit X b d votes f \<longleftrightarrow> list_all chatter (si_inbox f) \<and> si_io f = [] \<and>
     need_of f \<le> count_good X f d votes \<and> body_consumable b (si_state f)"

lemma follower_pump_dead: "\<not> si_alive f \<Longrightarrow> follower_pump X ms f = deliver ms f"
  by (simp add: follower_pump_def pump_def deliver_def)

lemma follower_pump_propose:
  assumes "can_vote X p now f" and "body_digest X b = Some d" and "si_alive f"
  shows "follower_pump X [Propose b p l now, Vote d' l sig] f =
    f\<lparr> si_inbox := [], si_sent := si_sent f @ [Vote d (engine_id f) (sign_digest X (vc_key (si_cfg f)) d)] \<rparr>"
  using assms pump_propose [of f X p now b d l d' sig] by (simp add: follower_pump_def can_vote_def)

lemma follower_pump_commit:
  assumes "crypto_ok X" and "can_commit X b d votes f" and "body_digest X b = Some d" and "si_alive f"
  obtains w where "follower_pump X [Commit b votes, DurableAck d' l] f = f\<lparr> si_inbox := [],
    si_sent := si_sent f @ [DurableAck d (engine_id f)], si_wal := w, si_state := consumed_state b (si_state f) \<rparr>"
proof -
  have f: "list_all chatter (si_inbox f)" "si_io f = []" "need_of f \<le> count_good X f d votes" "body_consumable b (si_state f)"
    using assms(2) by (simp_all add: can_commit_def)
  obtain w where "pump X (deliver [Commit b votes, DurableAck d' l] f) = Ok () (f\<lparr> si_inbox := [],
      si_sent := si_sent f @ [DurableAck d (engine_id f)], si_wal := w, si_state := consumed_state b (si_state f) \<rparr>)"
    by (rule pump_commit [OF assms(1,4) f(1,2) assms(3) f(3,4)])
  then show thesis using that [of w] by (simp add: follower_pump_def)
qed

lemma followers_say_Cons: "followers_say X ms (f # fs) = sent_since f (follower_pump X ms f) @ followers_say X ms fs"
  by (simp add: followers_say_def)

lemma followers_say_Nil [simp]: "followers_say X ms [] = []"
  by (simp add: followers_say_def)

lemma followers_vote:
  assumes "\<forall>f \<in> set fs. si_alive f \<longrightarrow> can_vote X p now f" and "body_digest X b = Some d"
  shows "followers_say X [Propose b p l now, Vote d' l sig] fs = map (\<lambda>(v, sig). Vote d v sig) (votes_of X d fs)"
  using assms(1)
proof (induction fs)
  case (Cons f fs)
  then show ?case
    using follower_pump_propose [OF _ assms(2), of p now f]
    by (cases "si_alive f")
      (simp_all add: followers_say_Cons votes_of_def sent_since_def follower_pump_dead deliver_def)
qed (simp add: votes_of_def)

lemma followers_ack:
  assumes "crypto_ok X" and "\<forall>f \<in> set fs. si_alive f \<longrightarrow> can_commit X b d votes f" and "body_digest X b = Some d"
  shows "followers_say X [Commit b votes, DurableAck d' l] fs = map (DurableAck d) (map engine_id (filter si_alive fs))"
  using assms(2)
proof (induction fs)
  case (Cons f fs)
  show ?case
  proof (cases "si_alive f")
    case True
    then obtain w where "follower_pump X [Commit b votes, DurableAck d' l] f = f\<lparr> si_inbox := [],
        si_sent := si_sent f @ [DurableAck d (engine_id f)], si_wal := w, si_state := consumed_state b (si_state f) \<rparr>"
      using follower_pump_commit [OF assms(1) _ assms(3)] Cons.prems by (metis list.set_intros(1))
    then show ?thesis using Cons True by (simp add: followers_say_Cons sent_since_def)
  next
    case False
    then show ?thesis using Cons by (simp add: followers_say_Cons sent_since_def follower_pump_dead deliver_def)
  qed
qed simp

text \<open>What a follower keeps while it votes.\<close>

definition voted :: "crypto \<Rightarrow> bft_message list \<Rightarrow> shard_inner list \<Rightarrow> shard_inner \<Rightarrow> shard_inner" where
  "voted X ms fs f = deliver (followers_say X ms (filter (\<lambda>g. engine_id g \<noteq> engine_id f) fs)) (follower_pump X ms f)"

lemma followers_next_voted: "followers_next X ms fs = map (voted X ms fs) fs"
  by (simp add: followers_next_def voted_def)

lemma voted_frame:
  assumes "\<forall>g \<in> set fs. si_alive g \<longrightarrow> can_vote X p now g" and "body_digest X b = Some d" and "f \<in> set fs"
    and f'_def: "f' = voted X [Propose b p l now, Vote d' l sig] fs f"
  shows "si_alive f' = si_alive f" and "si_cfg f' = si_cfg f" and "si_state f' = si_state f"
    and "si_io f' = si_io f" and "si_outboxes f' = si_outboxes f" and "si_alive f \<longrightarrow> list_all chatter (si_inbox f')"
    and "si_capabilities f' = si_capabilities f"
proof -
  let ?fs = "filter (\<lambda>g. engine_id g \<noteq> engine_id f) fs"
  have say: "followers_say X [Propose b p l now, Vote d' l sig] ?fs = map (\<lambda>(v, sig). Vote d v sig) (votes_of X d ?fs)"
    using assms(1) by (intro followers_vote [OF _ assms(2)]) auto
  show "si_alive f' = si_alive f" and "si_cfg f' = si_cfg f" and "si_state f' = si_state f"
    and "si_io f' = si_io f" and "si_outboxes f' = si_outboxes f" and "si_alive f \<longrightarrow> list_all chatter (si_inbox f')"
    and "si_capabilities f' = si_capabilities f"
    unfolding f'_def voted_def say
    using follower_pump_propose [OF _ assms(2), of p now f l d' sig] follower_pump_dead [of f X] assms(1,3)
    by (cases "si_alive f"; simp add: deliver_def list_all_iff votes_of_def)+
qed

section \<open>A payment with a quorum of live validators\<close>

definition keys_known :: "crypto \<Rightarrow> shard_inner list \<Rightarrow> bool" where
  "keys_known X es \<longleftrightarrow>
     (\<forall>x \<in> set es. \<forall>y \<in> set es. voter_key X x (engine_id y) = Some (verifying_key X (vc_key (si_cfg y))))"

lemma known_vote_good:
  assumes "crypto_ok X" and "keys_known X es" and "x \<in> set es" and "y \<in> set es"
  shows "good_vote X x d (engine_id y) (sign_digest X (vc_key (si_cfg y)) d)"
  using assms by (simp add: good_vote_def keys_known_def verify_digest_def sign_digest_def verifying_key_def)

lemma count_good_votes:
  assumes "\<forall>v sig. fmlookup votes v = Some sig \<longrightarrow> good_vote X f d v sig"
  shows "count_good X f d (vote_list votes) = fcard (fmdom votes)"
proof -
  have "filter (\<lambda>(v, sig). good_vote X f d v sig) (vote_list votes) = vote_list votes"
    using assms by (auto simp: filter_id_conv vote_list_def sorted_list_of_fmap_def fmlookup_dom_iff)
  moreover have "length (sorted_list_of_fset (fmdom votes)) = card (fset (fmdom votes))"
    by (simp add: sorted_list_of_fset.rep_eq)
  ultimately show ?thesis by (simp add: count_good_def vote_list_def sorted_list_of_fmap_def fcard.rep_eq)
qed

text \<open>The leader, stopped at its first wait, and at its second.\<close>

lemma leader_waits_for_votes:
  assumes "si_alive l" and "validate_pay X l p now = Inr ()" and "body_digest X (pay_body_of X p) = Some d"
    and "1 < need_of l"
  shows "handle_pay X vr ar p now l =
    and_then (vote_wait X d (need_of l) vr (own_votes X d l) (after_propose X p now d l)) (\<lambda>votes s2.
    and_then (pay_commit X (pay_body_of X p) d votes s2) (\<lambda>_ s3.
    and_then (ack_wait X d (need_of l) ar [engine_id s3] s3) (\<lambda>_ s4. Ok (pay_finish X (pay_body_of X p) d s4) s4)))"
    and "said l (handle_pay X [] [] p now l) =
      [Propose (pay_body_of X p) p (engine_id l) now, Vote d (engine_id l) (sign_digest X (vc_key (si_cfg l)) d)]"
proof -
  have p: "pay_propose X p now l = Ok (pay_body_of X p, d) (after_propose X p now d l)"
    using assms by (simp add: pay_propose_Ok after_propose_def)
  show eq: "handle_pay X vr ar p now l =
    and_then (vote_wait X d (need_of l) vr (own_votes X d l) (after_propose X p now d l)) (\<lambda>votes s2.
    and_then (pay_commit X (pay_body_of X p) d votes s2) (\<lambda>_ s3.
    and_then (ack_wait X d (need_of l) ar [engine_id s3] s3) (\<lambda>_ s4. Ok (pay_finish X (pay_body_of X p) d s4) s4)))"
    for vr ar by (simp add: handle_pay_def p Let_def)
  show "said l (handle_pay X [] [] p now l) =
      [Propose (pay_body_of X p) p (engine_id l) now, Vote d (engine_id l) (sign_digest X (vc_key (si_cfg l)) d)]"
    using assms(4)
    by (simp add: eq said_def fcard.rep_eq sent_since_def) (simp add: after_propose_def broadcast_def engine_id_def)
qed

text \<open>What a payment leaves of a validator: a live one has consumed it and only chatter waits.\<close>

definition paid :: "pay_commit_body \<Rightarrow> shard_inner \<Rightarrow> shard_inner \<Rightarrow> bool" where
  "paid b f f' \<longleftrightarrow> si_cfg f' = si_cfg f \<and> si_outboxes f' = si_outboxes f \<and> si_alive f' = si_alive f \<and>
     (si_alive f \<longrightarrow> si_state f' = consumed_state b (si_state f) \<and> si_capabilities f' = si_capabilities f \<and>
        si_io f' = [] \<and> list_all chatter (si_inbox f'))"

lemma consumed_state_consumed [simp]:
  "is_consumed (consumed_state b st) (pb_capability_id b) (pb_epoch b) (pb_sequence b)"
  by (simp add: consumed_state_def after_consume_def is_consumed_def)

lemma paid_consumed: "paid b f f' \<Longrightarrow> si_alive f \<Longrightarrow> body_consumed b f'"
  by (simp add: paid_def body_consumed_def)

lemma pay_commit_frame:
  assumes "crypto_ok X" and "si_io s = []" and "body_consumable b (si_state s)"
  obtains t where "pay_commit X b d votes s = Ok () t" and "si_state t = consumed_state b (si_state s)"
    and "si_cfg t = si_cfg s" and "si_capabilities t = si_capabilities s" and "si_outboxes t = si_outboxes s"
    and "si_alive t = si_alive s" and "si_io t = []" and "si_inbox t = si_inbox s"
proof -
  let ?s = "broadcast (Commit b (vote_list votes)) s"
  obtain w where "commit_once X b ?s = Ok () (?s\<lparr> si_wal := w, si_state := consumed_state b (si_state ?s) \<rparr>)"
    using commit_once_fits [OF assms(1), of ?s b] assms(2,3) by (auto simp: broadcast_def)
  then show ?thesis using that assms(2) by (simp add: pay_commit_def broadcast_def)
qed

text \<open>A leader and followers that are configured alike and see the same ledger.\<close>

definition team :: "crypto \<Rightarrow> pay \<Rightarrow> u64 \<Rightarrow> shard_inner \<Rightarrow> shard_inner list \<Rightarrow> bool" where
  "team X p now l fs \<longleftrightarrow> keys_known X (l # fs) \<and> distinct (map engine_id (l # fs)) \<and>
     1 < need_of l \<and> need_of l \<le> 1 + length (filter si_alive fs) \<and>
     (\<forall>f \<in> set fs. si_alive f \<longrightarrow> can_vote X p now f \<and> si_io f = [] \<and>
        body_consumable (pay_body_of X p) (si_state f) \<and> need_of f = need_of l)"

lemma voted_can_commit:
  assumes "crypto_ok X" and "team X p now l fs" and d: "body_digest X (pay_body_of X p) = Some d"
    and "f \<in> set fs" and "si_alive f"
    and f': "f' = voted X [Propose (pay_body_of X p) p l' now, Vote d' l' sig] fs f"
    and votes: "\<And>v s. fmlookup votes v = Some s \<Longrightarrow>
      \<exists>e \<in> set (l # fs). v = engine_id e \<and> s = sign_digest X (vc_key (si_cfg e)) d"
    and "need_of l \<le> fcard (fmdom votes)"
  shows "si_alive f' \<and> can_commit X (pay_body_of X p) d (vote_list votes) f'"
proof -
  have cv: "\<forall>g \<in> set fs. si_alive g \<longrightarrow> can_vote X p now g" using assms(2) by (auto simp: team_def)
  note fr = voted_frame [OF cv d assms(4) f']
  have "good_vote X f d v s" if "fmlookup votes v = Some s" for v s
    using votes [OF that] known_vote_good [OF assms(1), of "l # fs" f] assms(2,4) by (auto simp: team_def)
  then have "good_vote X f' d v s" if "fmlookup votes v = Some s" for v s
    using that good_vote_cfg [OF fr(2)] by blast
  then have "count_good X f' d (vote_list votes) = fcard (fmdom votes)"
    using count_good_votes by blast
  moreover have "need_of f' = need_of l"
    using fr(5) assms(2,4,5) by (auto simp: team_def need_of_def)
  ultimately show ?thesis
    using fr assms(2,4,5,8) by (auto simp: can_commit_def team_def)
qed

lemma team_accepts:
  assumes "crypto_ok X" and "team X p now l fs" and "si_alive l" and "si_inbox l = []" and "si_io l = []"
    and "validate_pay X l p now = Inr ()" and "body_consumable (pay_body_of X p) (si_state l)"
  shows "\<exists>acc t fs'. cluster_pay X p now l fs = (Ok acc t, fs') \<and> paid (pay_body_of X p) l t \<and> si_inbox t = [] \<and>
    list_all2 (paid (pay_body_of X p)) fs fs' \<and> ed_commit_index acc = ss_commit_index (si_state t) \<and> ed_tx_id acc = tx_id X p"
proof -
  let ?b = "pay_body_of X p" and ?id = "engine_id l" and ?n = "need_of l"
  obtain d where d: "body_digest X ?b = Some d" using body_digest_total [OF assms(1)] by blast
  let ?vs = "votes_of X d fs" and ?s1 = "after_propose X p now d l" and ?own = "own_votes X d l"
  let ?ann = "[Propose ?b p ?id now, Vote d ?id (sign_digest X (vc_key (si_cfg l)) d)]"
  let ?V = "fold (\<lambda>(v, sig). fmupd v sig) ?vs ?own" and ?M = "map (\<lambda>(v, sig). Vote d v sig) ?vs"
  have n: "1 < ?n" "?n \<le> 1 + length ?vs" and cv: "\<forall>f \<in> set fs. si_alive f \<longrightarrow> can_vote X p now f"
    and ids: "distinct (?id # map fst ?vs)"
    using assms(2) by (auto simp: team_def votes_of_def distinct_map inj_on_def)
  note run = leader_waits_for_votes [OF assms(3,6) d n(1)]
  have voters: "\<exists>e \<in> set (l # fs). v = engine_id e \<and> s = sign_digest X (vc_key (si_cfg e)) d"
    if "fmlookup ?V v = Some s" for v s
    using lookup_votes [OF that] by (auto simp: votes_of_def split: if_splits)
  have good: "list_all (\<lambda>(v, sig). good_vote X ?s1 d v sig) ?vs"
    using known_vote_good [OF assms(1), of "l # fs" l] assms(2) good_vote_cfg [of ?s1 l]
    by (auto simp: list_all_iff votes_of_def team_def)
  have vw: "vote_wait X d ?n [?M] ?own ?s1 = Ok ?V ?s1"
    using vote_wait_once [OF n(1) ids n(2) _ good] assms(4) by simp
  have cnt: "?n \<le> fcard (fmdom ?V)" using fcard_votes [OF ids] n(2) by simp
  obtain s3 where pc: "pay_commit X ?b d ?V ?s1 = Ok () s3" and st3: "si_state s3 = consumed_state ?b (si_state l)"
    "si_cfg s3 = si_cfg l" "si_capabilities s3 = si_capabilities l" "si_outboxes s3 = si_outboxes l"
    "si_alive s3" "si_io s3 = []" "si_inbox s3 = []"
    using pay_commit_frame [OF assms(1), of ?s1 ?b d ?V] assms(3,4,5,7)
    by (auto simp: after_propose_def broadcast_def)
  let ?com = "[Commit ?b (vote_list ?V), DurableAck d ?id]"
  have s3: "si_sent s3 = si_sent l @ ?ann @ ?com" "engine_id s3 = ?id" "si_inbox s3 = []"
    using pay_commit_sent [OF pc] st3(7) by (simp_all add: after_propose_def broadcast_def engine_id_def)
  have "ack_wait X d ?n [] [?id] s3 = Err BftQuorumFailed s3" using n(1) by simp
  then have "handle_pay X [?M] [] p now l = Err BftQuorumFailed s3"
    by (simp add: run(1) vw pc s3(2) del: vote_wait.simps ack_wait.simps)
  then have said2: "drop (length ?ann) (said l (handle_pay X [?M] [] p now l)) = ?com"
    using s3 by (simp add: said_def sent_since_def)
  let ?fs1 = "map (voted X ?ann fs) fs"
  have alive: "si_alive (voted X ?ann fs f) = si_alive f" "engine_id (voted X ?ann fs f) = engine_id f" if "f \<in> set fs" for f
    using voted_frame [OF cv d that refl] by (simp_all add: engine_id_def)
  have cc: "\<forall>f \<in> set ?fs1. si_alive f \<longrightarrow> can_commit X ?b d (vote_list ?V) f"
    using voted_can_commit [OF assms(1,2) d _ _ refl voters cnt] alive by auto
  have live: "map engine_id (filter si_alive ?fs1) = map fst ?vs"
    using alive by (simp add: votes_of_def filter_map o_def cong: filter_cong map_cong)
  have acks: "followers_say X ?com ?fs1 = map (DurableAck d) (map fst ?vs)"
    using followers_ack [OF assms(1) cc d, of d ?id] live by simp
  have aw: "ack_wait X d ?n [map (DurableAck d) (map fst ?vs)] [?id] s3 = Ok (fold add_ack (map fst ?vs) [?id]) s3"
    using ack_wait_once [OF n(1) ids _ s3(3)] n(2) by simp
  have "handle_pay X [?M] [map (DurableAck d) (map fst ?vs)] p now l = Ok (pay_finish X ?b d s3) s3"
    by (simp add: run(1) vw pc s3(2) aw del: vote_wait.simps ack_wait.simps map_map)
  then have "cluster_pay X p now l fs = (Ok (pay_finish X ?b d s3) s3, map (voted X ?com ?fs1) ?fs1)"
    unfolding cluster_pay_def Let_def run(2) followers_vote [OF cv d] followers_next_voted said2 acks by (rule arg_cong2) simp_all
  moreover have "paid ?b l s3" using st3 assms(3) by (simp add: paid_def)
  moreover have "list_all2 (paid ?b) fs (map (voted X ?com ?fs1) ?fs1)"
  proof -
    have "paid ?b f (voted X ?com ?fs1 (voted X ?ann fs f))" if f: "f \<in> set fs" for f
    proof -
      let ?f = "voted X ?ann fs f"
      note fr = voted_frame [OF cv d f refl]
      let ?others = "followers_say X ?com (filter (\<lambda>g. engine_id g \<noteq> engine_id ?f) ?fs1)"
      have others: "?others = map (DurableAck d) (map engine_id (filter si_alive (filter (\<lambda>g. engine_id g \<noteq> engine_id ?f) ?fs1)))"
        using cc by (intro followers_ack [OF assms(1) _ d, of _ "vote_list ?V"]) auto
      show ?thesis
      proof (cases "si_alive f")
        case True
        then have "si_alive ?f" "?f \<in> set ?fs1" using alive [OF f] f by auto
        then obtain w where "follower_pump X ?com ?f = ?f\<lparr> si_inbox := [], si_sent := si_sent ?f @ [DurableAck d (engine_id ?f)],
            si_wal := w, si_state := consumed_state ?b (si_state ?f) \<rparr>"
          using follower_pump_commit [OF assms(1) _ d] cc by metis
        then show ?thesis
          using fr True assms(2) f unfolding voted_def [of X ?com] others
          by (auto simp: paid_def deliver_def list_all_iff team_def)
      next
        case False
        then show ?thesis
          using fr alive [OF f] unfolding voted_def [of X ?com] by (simp add: paid_def deliver_def follower_pump_dead)
      qed
    qed
    then show ?thesis by (simp add: list_all2_conv_all_nth)
  qed
  moreover have "ed_commit_index (pay_finish X ?b d s3) = ss_commit_index (si_state s3)" "ed_tx_id (pay_finish X ?b d s3) = tx_id X p"
    by (simp_all add: pay_finish_def pay_body_of_def body_from_pay_def)
  ultimately show ?thesis using st3(7) by blast
qed

section \<open>The cluster of the test kit\<close>

lemma nodes_in_order: "those (map f [0, 1, 2, 3]) = Some es \<longleftrightarrow>
  (\<exists>a b c d. es = [a, b, c, d] \<and> f 0 = Some a \<and> f 1 = Some b \<and> f 2 = Some c \<and> f 3 = Some d)" for f :: "u8 \<Rightarrow> 'a option"
  by (auto split: option.splits)

definition fresh_node :: "crypto \<Rightarrow> shard_id \<Rightarrow> vkey \<Rightarrow> (u8 \<Rightarrow> b32) \<Rightarrow> u8 \<Rightarrow> shard_inner" where
  "fresh_node X shard vk secrets i = \<lparr> si_cfg = node_config X shard vk secrets i, si_state = shard_state_new,
     si_wal = [], si_capabilities = fmempty, si_alive = True, si_inbox = [],
     si_outboxes = {|0, 1, 2, 3|} |-| {|i|}, si_sent = [], si_io = [] \<rparr>"

lemma open_node_fresh: "open_node X D shard vk secrets i = Some (fresh_node X shard vk secrets i)"
  by (simp add: open_node_def open_engine_def wal_open_def wal_replay_def fresh_node_def)

lemma cluster4_fresh:
  "cluster4_with_issuer_bytes X D shard ib secrets = Some
     \<lparr> c4_engines = map (fresh_node X shard (verifying_key X (keypair_from_bytes ib)) secrets) [0, 1, 2, 3],
       c4_issuer_vk = verifying_key X (keypair_from_bytes ib), c4_leader_idx = 0 \<rparr>"
  by (simp add: cluster4_with_issuer_bytes_def Let_def open_node_fresh)

text \<open>The four validators are the start of the step relation of a shard.\<close>

lemma cluster4_starts:
  "cluster_start \<lparr> cl_nodes = fmap_of_list (map (\<lambda>i. (i, fresh_node X shard vk secrets i)) [0, 1, 2, 3]),
     cl_tasks = fmempty \<rparr>"
  by (auto simp: cluster_start_def wired_def fresh_node_def node_config_def engine_id_def fmlookup_of_list split: if_splits)

text \<open>A validator of the cluster; a live one holds the capability and the ledger \<open>st\<close>.\<close>

definition cap_node ::
  "crypto \<Rightarrow> spend_capability \<Rightarrow> shard_state \<Rightarrow> shard_id \<Rightarrow> vkey \<Rightarrow> (u8 \<Rightarrow> b32) \<Rightarrow> u8 \<Rightarrow> shard_inner \<Rightarrow> bool" where
  "cap_node X cap st shard vk secrets i t \<longleftrightarrow> si_cfg t = node_config X shard vk secrets i \<and>
     si_outboxes t = {|0, 1, 2, 3|} |-| {|i|} \<and>
     (si_alive t \<longrightarrow> si_state t = st \<and> si_capabilities t = fmupd (cap_capability_id cap) cap fmempty \<and>
        list_all chatter (si_inbox t) \<and> si_io t = [])"

lemma cap_node_id: "cap_node X cap st shard vk secrets i t \<Longrightarrow> engine_id t = i"
  by (simp add: cap_node_def engine_id_def node_config_def)

lemma cap_node_paid:
  "cap_node X cap st shard vk secrets i t \<Longrightarrow> paid b t t' \<Longrightarrow> cap_node X cap (consumed_state b st) shard vk secrets i t'"
  by (auto simp: cap_node_def paid_def)

lemma activate_fresh:
  assumes "activate_engine X cap (fresh_node X shard vk secrets i) = Some t"
  shows "cap_node X cap (activated_state cap shard_state_new) shard vk secrets i t" and "si_alive t" and "si_inbox t = []"
proof -
  let ?s = "fresh_node X shard vk secrets i"
  have "engine_activate X cap ?s = Ok () t"
    using assms by (auto simp: activate_engine_def split: outcome.splits)
  then obtain w where t: "t = ?s\<lparr> si_wal := w, si_state := activated_state cap (si_state ?s),
      si_capabilities := fmupd (cap_capability_id cap) cap (si_capabilities ?s) \<rparr>"
    unfolding engine_activate_Ok append_record_Ok by (auto simp: fresh_node_def)
  show "cap_node X cap (activated_state cap shard_state_new) shard vk secrets i t" and "si_alive t" and "si_inbox t = []"
    unfolding t by (simp_all add: fresh_node_def cap_node_def engine_id_def node_config_def)
qed

lemma activate_fresh_total:
  assumes "crypto_ok X" and "verify_capability X vk cap = Inr ()"
  obtains t where "activate_engine X cap (fresh_node X shard vk secrets i) = Some t"
proof -
  let ?s = "fresh_node X shard vk secrets i"
  have "si_io ?s = []" by (simp add: fresh_node_def)
  then obtain m where m: "append_record X (activation_record cap) ?s = Ok () m"
    using append_no_fault [OF assms(1)] by blast
  have "si_alive ?s \<and> verify_capability X (vc_issuer_vk (si_cfg ?s)) cap = Inr ()"
    using assms(2) by (simp add: fresh_node_def node_config_def)
  then have "\<exists>t. engine_activate X cap ?s = Ok () t"
    unfolding engine_activate_Ok using m by blast
  then show ?thesis using that by (auto simp: activate_engine_def)
qed

lemma engine_id_kill [simp]: "engine_id (kill t) = engine_id t"
  by (simp add: kill_def engine_id_def)

lemma kill_matching_node:
  assumes "cap_node X cap st shard vk secrets i t" and "si_alive t"
  shows "cap_node X cap st shard vk secrets i (kill_matching k t)" and "si_alive (kill_matching k t) \<longleftrightarrow> i \<noteq> k"
  using assms(2) assms(1) [unfolded cap_node_def] cap_node_id [OF assms(1)]
  by (auto simp: kill_matching_def cap_node_def kill_def)

text \<open>Which payments a validator of the cluster accepts does not depend on the validator.\<close>

lemma validate_pay_same:
  assumes "si_capabilities s = si_capabilities t" and "si_state s = si_state t"
    and "vc_shard_id (si_cfg s) = vc_shard_id (si_cfg t)" and "vc_issuer_vk (si_cfg s) = vc_issuer_vk (si_cfg t)"
  shows "validate_pay X s p now = validate_pay X t p now"
  unfolding validate_pay_def assms ..

lemma cap_nodes_validate:
  assumes "cap_node X cap st shard vk secrets i s" and "si_alive s"
    and "cap_node X cap st shard vk secrets j t" and "si_alive t"
  shows "validate_pay X s p now = validate_pay X t p now"
  using assms by (intro validate_pay_same) (simp_all add: cap_node_def node_config_def)

lemma need_of_four: "si_outboxes t = {|0, 1, 2, 3|} |-| {|i|} \<Longrightarrow> i \<in> {0, 1, 2, 3} \<Longrightarrow> need_of t = 3"
  by (auto simp: need_of_def quorum_threshold_def fcard.rep_eq)

lemma voter_key_node:
  assumes "si_cfg t = node_config X shard vk secrets i" and "j \<in> {0, 1, 2, 3}"
  shows "voter_key X t j = Some (verifying_key X (keypair_from_bytes (secrets j)))"
  using assms by (auto simp: voter_key_def node_config_def engine_id_def peer_map_def)

text \<open>A leader and three followers, one of which may be down, between two payments.\<close>

definition ready ::
  "crypto \<Rightarrow> spend_capability \<Rightarrow> shard_state \<Rightarrow> shard_id \<Rightarrow> vkey \<Rightarrow> (u8 \<Rightarrow> b32) \<Rightarrow> u8 \<Rightarrow> shard_inner \<Rightarrow> shard_inner list \<Rightarrow> bool" where
  "ready X cap st shard vk secrets k l fs \<longleftrightarrow>
     cap_node X cap st shard vk secrets 0 l \<and> si_alive l \<and> si_inbox l = [] \<and>
     list_all2 (cap_node X cap st shard vk secrets) [1, 2, 3] fs \<and> map si_alive fs = map (\<lambda>i. i \<noteq> k) [1, 2, 3]"

lemma ready_team:
  assumes "crypto_ok X" and "ready X cap st shard vk secrets k l fs"
    and "validate_pay X l p now = Inr ()" and "body_consumable (pay_body_of X p) st"
  shows "team X p now l fs" and "2 \<le> length (filter si_alive fs)"
proof -
  let ?N = "cap_node X cap st shard vk secrets"
  obtain a b c where fs: "fs = [a, b, c]" and n: "?N 0 l" "?N 1 a" "?N 2 b" "?N 3 c" and live: "si_alive l"
    using assms(2) by (auto simp: ready_def list_all2_Cons1)
  have alive: "si_alive a \<longleftrightarrow> 1 \<noteq> k" "si_alive b \<longleftrightarrow> 2 \<noteq> k" "si_alive c \<longleftrightarrow> 3 \<noteq> k"
    using assms(2) by (simp_all add: ready_def fs)
  show two: "2 \<le> length (filter si_alive fs)"
    using alive by (cases "k = 1"; cases "k = 2") (simp_all add: fs)
  have node: "\<exists>i \<in> {0, 1, 2, 3}. ?N i e" if "e \<in> set (l # fs)" for e
    using that n by (auto simp: fs)
  have need: "need_of e = 3" if mem: "e \<in> set (l # fs)" for e
  proof -
    obtain i where "i \<in> {0, 1, 2, 3}" "?N i e" using node [OF mem] by blast
    then show ?thesis using need_of_four [of e i] by (simp only: cap_node_def)
  qed
  have each: "can_vote X p now e \<and> si_io e = [] \<and> body_consumable (pay_body_of X p) (si_state e)"
    if mem: "e \<in> set (l # fs)" and up: "si_alive e" for e
  proof -
    obtain i where e: "?N i e" using node [OF mem] by blast
    then show ?thesis
      using assms(3,4) up cap_nodes_validate [OF e up n(1) live] by (simp add: can_vote_def cap_node_def)
  qed
  have "keys_known X (l # fs)"
    unfolding keys_known_def
  proof (intro ballI)
    fix x y assume "x \<in> set (l # fs)" "y \<in> set (l # fs)"
    then obtain i j where x: "?N i x" and j: "j \<in> {0, 1, 2, 3}" "?N j y" using node by meson
    then show "voter_key X x (engine_id y) = Some (verifying_key X (vc_key (si_cfg y)))"
      using voter_key_node [of x X shard vk secrets i j] cap_node_id [OF j(2)] by (auto simp: cap_node_def node_config_def)
  qed
  moreover have "distinct (map engine_id (l # fs))" using n [THEN cap_node_id] by (simp add: fs)
  ultimately show "team X p now l fs" using each need two by (simp add: team_def)
qed

text \<open>One payment: the cluster accepts it, and is ready for the next.\<close>

lemma ready_pays:
  assumes "crypto_ok X" and "ready X cap st shard vk secrets k l fs"
    and "validate_pay X l p now = Inr ()" and "body_consumable (pay_body_of X p) st"
  obtains acc t fs' where "cluster_pay X p now l fs = (Ok acc t, fs')"
    and "ready X cap (consumed_state (pay_body_of X p) st) shard vk secrets k t fs'"
    and "si_state t = consumed_state (pay_body_of X p) st"
    and "ed_tx_id acc = tx_id X p" and "ed_commit_index acc = ss_commit_index st + 1"
proof -
  let ?N = "cap_node X cap st shard vk secrets" and ?b = "pay_body_of X p"
  have l: "?N 0 l" "si_alive l" "si_inbox l = []" and fs: "list_all2 ?N [1, 2, 3] fs" "map si_alive fs = map (\<lambda>i. i \<noteq> k) [1, 2, 3]"
    using assms(2) by (simp_all only: ready_def)
  have st: "si_state l = st" "si_io l = []" using l by (simp_all add: cap_node_def)
  obtain acc t fs' where pay: "cluster_pay X p now l fs = (Ok acc t, fs')" and t: "paid ?b l t" "si_inbox t = []"
    and fs': "list_all2 (paid ?b) fs fs'" and acc: "ed_commit_index acc = ss_commit_index (si_state t)" "ed_tx_id acc = tx_id X p"
    using team_accepts [OF assms(1) ready_team(1) [OF assms] l(2,3) st(2) assms(3)] assms(4) st(1) by blast
  have state: "si_state t = consumed_state ?b st" using t(1) l(2) st(1) by (simp add: paid_def)
  have "list_all2 (cap_node X cap (consumed_state ?b st) shard vk secrets) [1, 2, 3] fs'"
    using list_all2_trans [OF _ fs(1) fs', of "cap_node X cap (consumed_state ?b st) shard vk secrets"] cap_node_paid by blast
  moreover have "map si_alive fs' = map si_alive fs"
    using fs' by (induction rule: list_all2_induct) (simp_all add: paid_def)
  ultimately have "ready X cap (consumed_state ?b st) shard vk secrets k t fs'"
    using cap_node_paid [OF l(1) t(1)] t fs(2) l(2) by (simp add: ready_def paid_def)
  moreover have "ed_commit_index acc = ss_commit_index st + 1"
    by (simp add: acc(1) state consumed_state_def after_consume_def)
  ultimately show ?thesis using that pay state acc(2) by blast
qed

section \<open>Runs of payments\<close>

text \<open>A client that sends the leader one payment after the other, and stops when one fails.\<close>

fun pay_all ::
  "crypto \<Rightarrow> u64 \<Rightarrow> pay list \<Rightarrow> shard_inner \<Rightarrow> shard_inner list
   \<Rightarrow> (edge_accept list \<times> shard_inner \<times> shard_inner list) option" where
  "pay_all X now [] l fs = Some ([], l, fs)"
| "pay_all X now (p # ps) l fs =
     (case cluster_pay X p now l fs of
        (Ok acc t, fs') \<Rightarrow> map_option (\<lambda>(accs, r). (acc # accs, r)) (pay_all X now ps t fs')
      | _ \<Rightarrow> None)"

text \<open>The same payments on one ledger: no votes, no log, no cluster.\<close>

fun ledger_takes :: "crypto \<Rightarrow> u64 \<Rightarrow> pay list \<Rightarrow> shard_inner \<Rightarrow> shard_state option" where
  "ledger_takes X now [] s = Some (si_state s)"
| "ledger_takes X now (p # ps) s =
     (if validate_pay X s p now = Inr ()
      then (case consume_body (pay_body_of X p) s of Ok _ t \<Rightarrow> ledger_takes X now ps t | _ \<Rightarrow> None)
      else None)"

lemma ready_pays_all:
  assumes "crypto_ok X" and "ready X cap st shard vk secrets k l fs" and "ledger_takes X now ps s = Some st'"
    and "si_state s = st" and "si_capabilities s = fmupd (cap_capability_id cap) cap fmempty"
    and "vc_shard_id (si_cfg s) = shard" and "vc_issuer_vk (si_cfg s) = vk"
  shows "\<exists>accs t fs'. pay_all X now ps l fs = Some (accs, t, fs') \<and> ready X cap st' shard vk secrets k t fs' \<and>
    map ed_tx_id accs = map (tx_id X) ps \<and> map (\<lambda>a. unat (ed_commit_index a)) accs =
      map (\<lambda>i. unat (ss_commit_index st) + Suc i) [0..<length ps]"
  using assms(2-)
proof (induction ps arbitrary: st l fs s)
  case (Cons p ps)
  let ?b = "pay_body_of X p"
  have v: "validate_pay X s p now = Inr ()" and c: "body_consumable ?b st"
    and rest: "ledger_takes X now ps (s\<lparr> si_state := consumed_state ?b st \<rparr>) = Some st'"
    using Cons.prems(2,3) by (auto simp: consume_body_Ok split: if_splits outcome.splits)
  have "validate_pay X l p now = validate_pay X s p now"
    using Cons.prems(1,3-) by (intro validate_pay_same) (simp_all add: ready_def cap_node_def node_config_def)
  then obtain acc t fs' where pay: "cluster_pay X p now l fs = (Ok acc t, fs')"
    and r: "ready X cap (consumed_state ?b st) shard vk secrets k t fs'"
    and a: "ed_tx_id acc = tx_id X p" "ed_commit_index acc = ss_commit_index st + 1"
    using ready_pays [OF assms(1) Cons.prems(1) _ c] v by metis
  have n: "unat (ss_commit_index (consumed_state ?b st)) = Suc (unat (ss_commit_index st))"
    and a2: "unat (ed_commit_index acc) = Suc (unat (ss_commit_index st))"
    using c a(2) by (simp_all add: body_consumable_def consumed_state_def after_consume_def unat_add_lem [THEN iffD1])
  obtain accs u gs where IH: "pay_all X now ps t fs' = Some (accs, u, gs)" "ready X cap st' shard vk secrets k u gs"
    "map ed_tx_id accs = map (tx_id X) ps" "map (\<lambda>a. unat (ed_commit_index a)) accs =
      map (\<lambda>i. Suc (unat (ss_commit_index st)) + Suc i) [0..<length ps]"
    using Cons.IH [OF r rest] Cons.prems(3-) n by auto
  have "[0..<length (p # ps)] = 0 # map Suc [0..<length ps]" by (simp add: map_Suc_upt upt_conv_Cons del: upt_Suc)
  then show ?case using IH a(1) a2 by (simp add: pay del: upt_Suc)
qed (simp add: ready_def cap_node_def)

section \<open>The cluster with the capability active\<close>

lemma cluster4_active:
  assumes "cluster4_with_issuer_bytes X D shard ib secrets = Some c0" and "activate_all X cap c0 = Some c" and "k \<noteq> 0"
  shows "ready X cap (activated_state cap shard_state_new) shard (verifying_key X (keypair_from_bytes ib)) secrets k
      (cluster_leader (cluster_kill k c)) (tl (c4_engines (cluster_kill k c)))"
    and "cluster_leader (cluster_kill k c) = cluster_leader c"
    and "cap_node X cap (activated_state cap shard_state_new) shard (verifying_key X (keypair_from_bytes ib)) secrets 0 (cluster_leader c)"
    and "si_alive (cluster_leader c)" and "3 < k \<Longrightarrow> cluster_kill k c = c"
proof -
  let ?vk = "verifying_key X (keypair_from_bytes ib)" and ?K = "kill_matching k"
  let ?N = "cap_node X cap (activated_state cap shard_state_new) shard (verifying_key X (keypair_from_bytes ib)) secrets"
  obtain es where c: "c = c0\<lparr> c4_engines := es \<rparr>" and es: "those (map (activate_engine X cap) (c4_engines c0)) = Some es"
    using assms(2) by (auto simp: activate_all_def)
  have c0: "c0 = \<lparr> c4_engines = map (fresh_node X shard ?vk secrets) [0, 1, 2, 3], c4_issuer_vk = ?vk, c4_leader_idx = 0 \<rparr>"
    using assms(1) by (simp add: cluster4_fresh)
  have "those (map (\<lambda>i. activate_engine X cap (fresh_node X shard ?vk secrets i)) [0, 1, 2, 3]) = Some es"
    using es by (simp add: c0)
  then obtain l f g h where l: "es = [l, f, g, h]" and act: "activate_engine X cap (fresh_node X shard ?vk secrets 0) = Some l"
    "activate_engine X cap (fresh_node X shard ?vk secrets 1) = Some f" "activate_engine X cap (fresh_node X shard ?vk secrets 2) = Some g"
    "activate_engine X cap (fresh_node X shard ?vk secrets 3) = Some h"
    unfolding nodes_in_order by blast
  note n = act [THEN activate_fresh(1)] and alive = act [THEN activate_fresh(2)]
  have kl: "?K l = l" using cap_node_id [OF n(1)] assms(3) by (simp add: kill_matching_def)
  then have eqs: "cluster_leader (cluster_kill k c) = l" "cluster_leader c = l" "tl (c4_engines (cluster_kill k c)) = map ?K [f, g, h]"
    by (simp_all add: c c0 l cluster_leader_def cluster_kill_def)
  have "list_all2 ?N [1, 2, 3] (map ?K [f, g, h])" "map si_alive (map ?K [f, g, h]) = map (\<lambda>i. i \<noteq> k) [1, 2, 3]"
    using kill_matching_node [OF n(2) alive(2)] kill_matching_node [OF n(3) alive(3)] kill_matching_node [OF n(4) alive(4)]
    by simp_all
  then show "ready X cap (activated_state cap shard_state_new) shard ?vk secrets k
      (cluster_leader (cluster_kill k c)) (tl (c4_engines (cluster_kill k c)))"
    using n(1) alive(1) activate_fresh(3) [OF act(1)] by (simp only: ready_def eqs simp_thms)
  show "cluster_leader (cluster_kill k c) = cluster_leader c" "?N 0 (cluster_leader c)" "si_alive (cluster_leader c)"
    using n(1) alive(1) by (simp_all only: eqs)
  assume "3 < k"
  then have "k \<noteq> 1" "k \<noteq> 2" "k \<noteq> 3" by auto
  then have "map ?K es = es" using kl n [THEN cap_node_id] by (simp add: l kill_matching_def)
  then show "cluster_kill k c = c" by (simp add: cluster_kill_def c)
qed

text \<open>C9: In a cluster of four with one follower killed (or none), every run of payments that one ledger takes
  one after the other is accepted: each payment gets its votes and its acknowledgements in one
  round of the followers each, the acceptances name the payments and number them without gaps, and
  at the end the leader and all live followers, two at least, hold the ledger the payments lead to.\<close>

theorem payments_replicate:
  assumes "crypto_ok X" and "cluster4_with_issuer_bytes X D shard ib secrets = Some c0"
    and "activate_all X cap c0 = Some c" and "k \<noteq> 0"
    and "ledger_takes X now ps (cluster_leader c) = Some st"
  shows "\<exists>accs t fs. pay_all X now ps (cluster_leader (cluster_kill k c)) (tl (c4_engines (cluster_kill k c))) = Some (accs, t, fs)
    \<and> map ed_tx_id accs = map (tx_id X) ps \<and> map (\<lambda>a. unat (ed_commit_index a)) accs = map Suc [0..<length ps]
    \<and> si_state t = st \<and> (\<forall>f \<in> set fs. si_alive f \<longrightarrow> si_state f = st) \<and> 2 \<le> length (filter si_alive fs)"
proof -
  note r = cluster4_active [OF assms(2-4)]
  obtain accs t fs where run: "pay_all X now ps (cluster_leader (cluster_kill k c)) (tl (c4_engines (cluster_kill k c))) = Some (accs, t, fs)"
    and ready: "ready X cap st shard (verifying_key X (keypair_from_bytes ib)) secrets k t fs"
    and ids: "map ed_tx_id accs = map (tx_id X) ps" "map (\<lambda>a. unat (ed_commit_index a)) accs = map Suc [0..<length ps]"
    using ready_pays_all [OF assms(1) r(1) assms(5)] r(3,4)
    by (auto simp: cap_node_def node_config_def activated_state_def activate_capability_def shard_state_new_def)
  obtain a b d where fs: "fs = [a, b, d]" using ready by (auto simp: ready_def list_all2_Cons1)
  have "2 \<le> length (filter si_alive fs)"
    using ready by (cases "k = 1"; cases "k = 2") (simp_all add: ready_def fs)
  moreover have "\<forall>f \<in> set fs. si_alive f \<longrightarrow> si_state f = st" "si_state t = st"
    using ready by (auto simp: ready_def fs cap_node_def)
  ultimately show ?thesis using run ids by blast
qed

text \<open>The sample capability in a cluster of four, with validator 2 killed.\<close>

lemma sample_cluster4:
  obtains c0 c where "cluster4_with_issuer_bytes sample_crypto D (ShardId ''S'') 1 secrets = Some c0"
    and "activate_all sample_crypto sample_cap c0 = Some c"
    and "validate_pay sample_crypto (cluster_leader c) (sample_pay 3 20 0) 5 = Inr ()"
    and "body_consumable (pay_body_of sample_crypto (sample_pay 3 20 0)) (si_state (cluster_leader c))"
proof -
  let ?X = sample_crypto and ?vk = "verifying_key sample_crypto (Keypair 1)"
  let ?node = "fresh_node ?X (ShardId ''S'') ?vk secrets"
  have "\<exists>u. activate_engine ?X sample_cap (?node i) = Some u" for i
    by (rule activate_fresh_total [OF sample_crypto_ok sample_cap_verifies]) blast
  then obtain t where t: "activate_engine ?X sample_cap (?node i) = Some (t i)" for i by metis
  let ?fresh = "\<lparr> c4_engines = map ?node [0, 1, 2, 3], c4_issuer_vk = ?vk, c4_leader_idx = 0 \<rparr>"
  let ?active = "\<lparr> c4_engines = map t [0, 1, 2, 3], c4_issuer_vk = ?vk, c4_leader_idx = 0 \<rparr>"
  have "cluster4_with_issuer_bytes ?X D (ShardId ''S'') 1 secrets = Some ?fresh"
    by (simp add: cluster4_fresh keypair_from_bytes_def)
  moreover have "activate_all ?X sample_cap ?fresh = Some ?active" by (simp add: activate_all_def t)
  ultimately have st: "cluster4_with_issuer_bytes ?X D (ShardId ''S'') 1 secrets = Some ?fresh"
    "activate_all ?X sample_cap ?fresh = Some ?active" by simp_all
  have n: "cap_node ?X sample_cap (activated_state sample_cap shard_state_new) (ShardId ''S'') ?vk secrets 0 (cluster_leader ?active)"
    and up: "si_alive (cluster_leader ?active)"
    using activate_fresh(1,2) [OF t [of 0]] by (simp_all add: cluster_leader_def)
  have "validate_pay ?X (cluster_leader ?active) (sample_pay 3 20 0) 5 = validate_pay ?X sample_engine (sample_pay 3 20 0) 5"
    using n up by (intro validate_pay_same)
      (simp_all add: cap_node_def node_config_def sample_engine_fields sample_cfg_def signed_fields activated_state_def)
  moreover have "validate_pay ?X sample_engine (sample_pay 3 20 0) 5 = Inr ()"
    unfolding validate_pay_Inr using sample_authorised [of 20 3 0] by auto
  ultimately have "validate_pay ?X (cluster_leader ?active) (sample_pay 3 20 0) 5 = Inr ()"
    by simp
  moreover have "si_state (cluster_leader ?active) = si_state sample_engine"
    using n up by (simp add: cap_node_def sample_engine_fields)
  then have "body_consumable (pay_body_of ?X (sample_pay 3 20 0)) (si_state (cluster_leader ?active))"
    using sample_consumable [of 20 3 0] by simp
  ultimately show ?thesis using that [OF st] by blast
qed

lemma payments_replicate_witness:
  "\<exists>c accs t fs. pay_all sample_crypto 5 [sample_pay 3 20 0]
     (cluster_leader (cluster_kill 2 c)) (tl (c4_engines (cluster_kill 2 c))) = Some (accs, t, fs)
   \<and> map (\<lambda>a. unat (ed_commit_index a)) accs = [1] \<and> left (si_state t) (CapabilityId 9) = 80"
proof -
  let ?X = sample_crypto and ?p = "sample_pay 3 20 0"
  obtain c0 c where c: "cluster4_with_issuer_bytes ?X (\<lambda>_. None) (ShardId ''S'') 1 ucast = Some c0" "activate_all ?X sample_cap c0 = Some c"
    and v: "validate_pay ?X (cluster_leader c) ?p 5 = Inr ()" and b: "body_consumable (pay_body_of ?X ?p) (si_state (cluster_leader c))"
    using sample_cluster4 [of "\<lambda>_. None" ucast] by blast
  have st: "si_state (cluster_leader c) = activated_state sample_cap shard_state_new"
    using cluster4_active(3,4) [OF c, of 2] by (simp add: cap_node_def)
  let ?st = "consumed_state (pay_body_of ?X ?p) (si_state (cluster_leader c))"
  have "consume_body (pay_body_of ?X ?p) (cluster_leader c) = Ok () ((cluster_leader c)\<lparr> si_state := ?st \<rparr>)"
    using b by (simp add: consume_body_Ok)
  then have "ledger_takes ?X 5 [?p] (cluster_leader c) = Some ?st" using v by simp
  moreover have "left ?st (CapabilityId 9) = 80"
    using left_after [of "si_state (cluster_leader c)" "pb_capability_id (pay_body_of ?X ?p)" "pb_epoch (pay_body_of ?X ?p)"
        "pb_sequence (pay_body_of ?X ?p)" "pb_amount (pay_body_of ?X ?p)" "CapabilityId 9"] b
    by (simp add: consumed_state_def body_consumable_def pay_body_of_def body_from_pay_def signed_fields)
      (simp add: st left_def activated_state_def activate_capability_def signed_fields)
  moreover obtain accs t fs where "pay_all ?X 5 [?p] (cluster_leader (cluster_kill 2 c)) (tl (c4_engines (cluster_kill 2 c))) = Some (accs, t, fs)"
    and "map (\<lambda>a. unat (ed_commit_index a)) accs = [1]" and "si_state t = ?st"
    using payments_replicate [OF sample_crypto_ok c _ calculation(1), of 2] by auto
  ultimately show ?thesis by metis
qed

end
