(* ===== verification/Settlement.thy ===== *)
theory Settlement
  imports Ledger_Theorems Testkit Checkpoint
begin

text \<open>
  From an edge acceptance to the global ledger: the parts of the program put together the way
  the vertical test \<open>consensus/tests/seef_vertical_e2e.rs\<close> does, for any receipt log, any number of
  witnesses and any ledger with enough escrow.
\<close>

section \<open>Progress of the single steps\<close>

lemma countersign_all:
  assumes "crypto_ok X" and "verify_signed_checkpoint X cp = Inr ()"
  obtains sigs where "list_all2 (\<lambda>w sig. countersign X w cp = Inr sig) kps sigs"
proof -
  have "\<exists>sigs. list_all2 (\<lambda>w sig. countersign X w cp = Inr sig) kps sigs"
  proof (induction kps)
    case (Cons w kps)
    then show ?case using countersign_total [OF assms, of w] by (auto simp: list_all2_Cons1)
  qed simp
  then show ?thesis using that by blast
qed

lemma countersigned_verifies:
  assumes "crypto_ok X" and "verify_signed_checkpoint X cp = Inr ()"
    and "list_all2 (\<lambda>w sig. countersign X w cp = Inr sig) kps sigs"
    and "distinct (map (verifying_key_bytes X) kps)" and "need \<le> length kps"
  shows "verify_witnessed X \<lparr> wc_checkpoint = cp, wc_witness_sigs = sigs \<rparr> need = Inr ()"
  using countersigned_bundle [OF assms(1-4)] assms(2,5) list_all2_lengthD [OF assms(3)]
  by (simp add: verify_witnessed_Inr check_witnesses_Inr)

lemma force_seal_total:
  assumes "crypto_ok X" and "rl_proofs log \<noteq> []" and "unat (cs_next_height s) + 1 < 2 ^ 64"
  obtains cp st where "force_seal X kp shard ep now (s, log) = Ok cp st"
  using sign_checkpoint_total [OF assms(1), of kp "sealed_header X s log shard ep now"] assms(2,3) that
  by (auto simp: force_seal_Ok log_is_empty_def)

lemma apply_checkpoint_total:
  assumes "gs_ok gs" and "verify_witnessed X c (gs_min_witnesses gs) = Inr ()"
    and "fmlookup (gs_finalized gs) (header_key (sc_header (wc_checkpoint c))) = None"
    and "(shard_str (hd_shard_id (sc_header (wc_checkpoint c))), k) |\<in>| fmdom (gs_shard_outstanding gs)"
    and "amt (hd_exposure (sc_header (wc_checkpoint c)))
      \<le> amt (outstanding_of (shard_str (hd_shard_id (sc_header (wc_checkpoint c))), k) gs)"
  obtains g where "apply_checkpoint X c k gs = Ok () g"
proof -
  have "apply_checkpoint X c k gs \<noteq> Panic" using checkpoint_no_panic assms(1) by (auto simp: gs_ok_def)
  moreover have "apply_checkpoint X c k gs \<noteq> Err e g" for e g
    using assms
    by (auto simp: apply_checkpoint_def Let_def exec_iff outstanding_of_def gs_ok_def escrow_ok_def micros_less_amt
        fmlookup_dom_iff split: if_splits option.splits)
  ultimately show ?thesis using that by (cases "apply_checkpoint X c k gs") auto
qed

lemma sealed_last:
  assumes "rlog.accounts X log" and "log_append X pr log = Ok () log'"
    and "force_seal X kp shard ep now (s, log') = Ok cp st"
  obtains leaf mp where "leaf_of X pr = Some leaf" and "verify_merkle_proof X leaf mp (hd_root (sc_header cp))"
proof -
  have pr: "rl_proofs log' = rl_proofs log @ [pr]" using assms(2) by (auto simp: log_append_Ok)
  show ?thesis
    using sealed_inclusion [OF rlog.accounts_append [OF assms(1,2)] assms(3), of "length (rl_proofs log)"] that
    by (auto simp: pr)
qed

section \<open>Settlement\<close>

text \<open>A log that the escrow covers settles: it can be sealed, countersigned and finalised.\<close>

lemma log_settles:
  assumes "crypto_ok X" and "rl_proofs log \<noteq> []"
    and "amt (rl_exposure log) \<le> amt (outstanding_of (shard_str shard, k) gs)"
    and "unat (cs_next_height se) + 1 < 2 ^ 64"
    and "distinct (map (verifying_key_bytes X) kps)" and "gs_min_witnesses gs \<le> length kps" and "gs_ok gs"
    and "(shard_str shard, k) |\<in>| fmdom (gs_shard_outstanding gs)"
    and "fmlookup (gs_finalized gs) (shard_str shard, epoch_num ep, cs_next_height se) = None"
  obtains cp st sigs g where "force_seal X kp shard ep at (se, log) = Ok cp st"
    and "list_all2 (\<lambda>w sig. countersign X w cp = Inr sig) kps sigs"
    and "apply_tx X H (CheckpointFinalized \<lparr> wc_checkpoint = cp, wc_witness_sigs = sigs \<rparr> k) gs = Ok () g" and "gs_ok g"
    and "locked_of g k = locked_of gs k + amt (rl_exposure log)"
    and "fmlookup (gs_finalized g) (header_key (sc_header cp)) = Some (hd_root (sc_header cp))"
proof -
  obtain cp st where seal: "force_seal X kp shard ep at (se, log) = Ok cp st"
    using force_seal_total [OF assms(1,2,4)] by blast
  note head = force_seal_seals [OF seal] and ver = force_seal_verifies [OF assms(1) seal]
  obtain sigs where sigs: "list_all2 (\<lambda>w sig. countersign X w cp = Inr sig) kps sigs"
    using countersign_all [OF assms(1) ver] by blast
  let ?w = "\<lparr> wc_checkpoint = cp, wc_witness_sigs = sigs \<rparr>"
  have exposure: "hd_exposure (sc_header cp) = rl_exposure log" using head(1) by (simp add: seals_def)
  obtain g where g: "apply_checkpoint X ?w k gs = Ok () g"
    using apply_checkpoint_total [OF assms(7) countersigned_verifies [OF assms(1) ver sigs assms(5,6)], of k]
      assms(3,8,9) head exposure by (auto simp: header_key_def)
  have tx: "apply_tx X H (CheckpointFinalized ?w k) gs = Ok () g" using g by (simp add: apply_tx_run [OF assms(7)])
  show ?thesis
    by (rule that [OF seal sigs tx apply_tx_ok [OF assms(7) tx]])
      (use checkpoint_moves(2) [OF g] apply_checkpoint_Ok(3) [OF g] exposure in simp_all)
qed

text \<open>C7: An accepted payment settles. Whatever receipts a log accounts for, the payment's proof can be
  completed and appended as long as the escrow covers the log; the log can be sealed at a height
  not yet finalised; enough different witnesses can countersign the checkpoint; and the ledger
  then finalises it: it stays good, the account's locked balance grows by the log's exposure and
  the payment's cost, and the payment's proof, which names its transaction, is provably included
  under the finalised root.\<close>

theorem accepted_payment_settles:
  assumes "crypto_ok X" and "handle_pay X vr ar p now s = Ok acc t" and "amt a \<le> amt (pay_max_amount p)"
    and "rlog.accounts X log" and "amt (rl_exposure log) + amt a \<le> amt (outstanding_of (shard_str shard, k) gs)"
    and "unat (cs_next_height se) + 1 < 2 ^ 64"
    and "distinct (map (verifying_key_bytes X) kps)" and "gs_min_witnesses gs \<le> length kps" and "gs_ok gs"
    and "(shard_str shard, k) |\<in>| fmdom (gs_shard_outstanding gs)"
    and "fmlookup (gs_finalized gs) (shard_str shard, epoch_num ep, cs_next_height se) = None"
  shows "\<exists>pr log' cp st sigs g. complete_payment_proof X p acc ek h a sk log = Ok pr log'
    \<and> force_seal X kp shard ep at (se, log') = Ok cp st
    \<and> list_all2 (\<lambda>w sig. countersign X w cp = Inr sig) kps sigs
    \<and> apply_tx X H (CheckpointFinalized \<lparr> wc_checkpoint = cp, wc_witness_sigs = sigs \<rparr> k) gs = Ok () g \<and> gs_ok g
    \<and> locked_of g k = locked_of gs k + amt (rl_exposure log) + amt a
    \<and> proof_chain X p acc (verifying_key X ek) (verifying_key X sk) pr \<and> ea_tx_id (pp_edge pr) = tx_id X p
    \<and> fmlookup (gs_finalized g) (header_key (sc_header cp)) = Some (hd_root (sc_header cp))
    \<and> (\<exists>leaf mp. leaf_of X pr = Some leaf \<and> verify_merkle_proof X leaf mp (hd_root (sc_header cp)))"
proof -
  have "amt (rl_exposure log) + amt a < 2 ^ 128" using assms(5) amt_less_pow le_less_trans by blast
  then obtain pr log' where pr: "complete_payment_proof X p acc ek h a sk log = Ok pr log'"
    using complete_payment_proof_total [OF assms(1,3)] by blast
  then have app: "log_append X pr log = Ok () log'" and cost: "sr_actual_amount (pp_service pr) = a"
    by (auto simp: complete_payment_proof_Ok service_part_def attach_service_def)
  then have exp: "amt (rl_exposure log') = amt (rl_exposure log) + amt a" and ne: "rl_proofs log' \<noteq> []"
    using rlog.append_exposure [OF app] by (auto simp: log_append_Ok actual_cost_def amt_def)
  have cover: "amt (rl_exposure log') \<le> amt (outstanding_of (shard_str shard, k) gs)" using assms(5) exp by simp
  obtain cp st sigs g where seal: "force_seal X kp shard ep at (se, log') = Ok cp st"
    and sigs: "list_all2 (\<lambda>w sig. countersign X w cp = Inr sig) kps sigs"
    and tx: "apply_tx X H (CheckpointFinalized \<lparr> wc_checkpoint = cp, wc_witness_sigs = sigs \<rparr> k) gs = Ok () g" "gs_ok g"
    and lk: "locked_of g k = locked_of gs k + amt (rl_exposure log')"
    and fin: "fmlookup (gs_finalized g) (header_key (sc_header cp)) = Some (hd_root (sc_header cp))"
    by (rule log_settles [OF assms(1) ne cover assms(6-11)])
  have chain: "proof_chain X p acc (verifying_key X ek) (verifying_key X sk) pr"
    by (rule complete_payment_proof_chain [OF assms(1) pr])
  moreover have "ea_tx_id (pp_edge pr) = tx_id X p"
    using chain handle_pay_Ok(4) [OF assms(1,2)] by (simp add: proof_chain_def)
  moreover obtain leaf mp where "leaf_of X pr = Some leaf" "verify_merkle_proof X leaf mp (hd_root (sc_header cp))"
    using sealed_last [OF assms(4) app seal] by blast
  ultimately show ?thesis using pr seal sigs tx lk fin exp by fastforce
qed

text \<open>The sample ledger, a new sealer and two witnesses meet what settling asks for.\<close>

definition sample_sealer :: checkpoint_sealer where
  "sample_sealer = sealer_new 10 (AmountMicros 100)"

lemma sample_settling:
  "amt (outstanding_of (shard_str (ShardId ''S''), AccountId 1) sample_ledger) = 10"
  "(shard_str (ShardId ''S''), AccountId 1) |\<in>| fmdom (gs_shard_outstanding sample_ledger)"
  "fmlookup (gs_finalized sample_ledger) (shard_str (ShardId ''S''), epoch_num (Epoch 1), cs_next_height sample_sealer) = None"
  "gs_min_witnesses sample_ledger \<le> length [Keypair 7, Keypair 8]" "locked_of sample_ledger (AccountId 1) = 0"
  "amt (rl_exposure receipt_log_new) = 0" "unat (cs_next_height sample_sealer) + 1 < 2 ^ 64"
  "distinct (map (verifying_key_bytes sample_crypto) [Keypair 7, Keypair 8])"
  by (simp_all add: sample_ledger_def global_state_new_def outstanding_of_def locked_of_def new_human_def sample_sealer_def
      sealer_new_def receipt_log_new_def verifying_key_bytes_def verifying_key_def sample_crypto_def sample_public_def)

lemma accepted_payment_settles_witness:
  "\<exists>cp sigs g. apply_tx sample_crypto sample_wasm (CheckpointFinalized \<lparr> wc_checkpoint = cp, wc_witness_sigs = sigs \<rparr> (AccountId 1))
     sample_ledger = Ok () g \<and> locked_of g (AccountId 1) = 8 \<and> length sigs = 2"
proof -
  obtain acc t where pay: "handle_pay sample_crypto [] [] (sample_pay 3 20 0) 5 sample_engine = Ok acc t"
    using sample_handle_pay [of 20 3 0] by auto
  have cost: "amt (AmountMicros 8) \<le> amt (pay_max_amount (sample_pay 3 20 0))" by (simp add: signed_fields)
  have "amt (rl_exposure receipt_log_new) + amt (AmountMicros 8)
      \<le> amt (outstanding_of (shard_str (ShardId ''S''), AccountId 1) sample_ledger)"
    unfolding sample_settling by simp
  from accepted_payment_settles [OF sample_crypto_ok pay cost rlog.accounts_new this sample_settling(7,8,4) sample_ledger_ok sample_settling(2,3),
      of "Keypair 1" 7 "Keypair 2" "Keypair 3" 50 sample_wasm]
  obtain cp sigs g where "apply_tx sample_crypto sample_wasm
      (CheckpointFinalized \<lparr> wc_checkpoint = cp, wc_witness_sigs = sigs \<rparr> (AccountId 1)) sample_ledger = Ok () g"
    and "locked_of g (AccountId 1) = 8"
    and "list_all2 (\<lambda>w sig. countersign sample_crypto w cp = Inr sig) [Keypair 7, Keypair 8] sigs"
    by (auto simp: sample_settling)
  then show ?thesis using list_all2_lengthD by fastforce
qed

end
