(* ===== verification/Solvency.thy ===== *)
theory Solvency
  imports Settlement Trust_Theorems "HOL-Library.Multiset"
begin

text \<open>
  Solvency across the authority, the shard and the global ledger: what services charge against
  what was issued. Honest services, which charge each consumed payment at most once and at most
  its amount, never charge more than the account's float, so that their receipts always settle
  (\<open>authority/src/issuer.rs\<close>, \<open>shard/src/wal.rs\<close>, \<open>shard/src/payment.rs\<close>,
  \<open>shard/src/checkpoint.rs\<close>, \<open>execute/src/lib.rs\<close>). The code does not make services honest: it
  bounds a charge by the payment's \<open>max_amount\<close>, which no capability bounds.
\<close>

section \<open>Charges\<close>

record charge =
  ch_pay :: pay
  ch_accept :: edge_accept
  ch_edge :: keypair
  ch_execution :: b32
  ch_amount :: amount_micros
  ch_service :: keypair

text \<open>Receipts for a list of charges, one after the other.\<close>

fun complete_all :: "crypto \<Rightarrow> charge list \<Rightarrow> receipt_log \<Rightarrow> (receipt_log, shard_error, payment_proof list) outcome" where
  "complete_all X [] log = Ok [] log"
| "complete_all X (c # cs) log =
     and_then (complete_payment_proof X (ch_pay c) (ch_accept c) (ch_edge c) (ch_execution c) (ch_amount c) (ch_service c) log)
       (\<lambda>pr log1. and_then (complete_all X cs log1) (\<lambda>prs log2. Ok (pr # prs) log2))"

definition charged :: "charge list \<Rightarrow> nat" where
  "charged cs = (\<Sum>c \<leftarrow> cs. amt (ch_amount c))"

lemma charged_simps [simp]: "charged [] = 0" "charged (c # cs) = amt (ch_amount c) + charged cs"
  by (simp_all add: charged_def)

lemma complete_all_total:
  assumes "crypto_ok X" and "list_all (\<lambda>c. amt (ch_amount c) \<le> amt (pay_max_amount (ch_pay c))) cs"
    and "amt (rl_exposure log) + charged cs < 2 ^ 128" and "rlog.accounts X log"
  obtains prs log' where "complete_all X cs log = Ok prs log'" and "rlog.accounts X log'"
    and "amt (rl_exposure log') = amt (rl_exposure log) + charged cs"
    and "length (rl_proofs log') = length (rl_proofs log) + length cs"
proof -
  have "\<exists>prs log'. complete_all X cs log = Ok prs log' \<and> rlog.accounts X log' \<and>
      amt (rl_exposure log') = amt (rl_exposure log) + charged cs \<and>
      length (rl_proofs log') = length (rl_proofs log) + length cs"
    using assms(2-4)
  proof (induction cs arbitrary: log)
    case (Cons c cs)
    have m: "amt (ch_amount c) \<le> amt (pay_max_amount (ch_pay c))" and f: "amt (rl_exposure log) + amt (ch_amount c) < 2 ^ 128"
      using Cons.prems by simp_all
    obtain pr log1 where pr: "complete_payment_proof X (ch_pay c) (ch_accept c) (ch_edge c) (ch_execution c) (ch_amount c)
        (ch_service c) log = Ok pr log1"
      using complete_payment_proof_total [OF assms(1) m f] by blast
    then have app: "log_append X pr log = Ok () log1" and cost: "sr_actual_amount (pp_service pr) = ch_amount c"
      by (auto simp: complete_payment_proof_Ok)
    have e: "amt (rl_exposure log1) = amt (rl_exposure log) + amt (ch_amount c)"
      using rlog.append_exposure [OF app] by (simp add: actual_cost_def cost)
    have l: "length (rl_proofs log1) = Suc (length (rl_proofs log))" using app by (auto simp: log_append_Ok)
    have "\<exists>prs log'. complete_all X cs log1 = Ok prs log' \<and> rlog.accounts X log' \<and>
        amt (rl_exposure log') = amt (rl_exposure log1) + charged cs \<and>
        length (rl_proofs log') = length (rl_proofs log1) + length cs"
      by (rule Cons.IH) (use Cons.prems e rlog.accounts_append [OF Cons.prems(3) app] in simp_all)
    then show ?case using pr e l by auto
  qed simp
  then show ?thesis using that by blast
qed

section \<open>Honest charges are covered by what the log consumed\<close>

definition charge_key :: "charge \<Rightarrow> consume_key" where
  "charge_key c = consume_key_of (pay_capability_id (ch_pay c)) (pay_epoch (ch_pay c)) (pay_sequence (ch_pay c))"

text \<open>What a log consumed under one key.\<close>

fun consumed_at :: "consume_key \<Rightarrow> wal_record list \<Rightarrow> nat" where
  "consumed_at key [] = 0"
| "consumed_at key (ConsumePay tid cid ep sq n # rs) =
     (if consume_key_of cid ep sq = key then amt n else 0) + consumed_at key rs"
| "consumed_at key (_ # rs) = consumed_at key rs"

definition honest :: "wal_record list \<Rightarrow> charge list \<Rightarrow> bool" where
  "honest rs cs \<longleftrightarrow> distinct (map charge_key cs) \<and>
     list_all (\<lambda>c. amt (ch_amount c) \<le> consumed_at (charge_key c) rs \<and> amt (ch_amount c) \<le> amt (pay_max_amount (ch_pay c))) cs"

lemma consumed_spent:
  assumes "finite K" and "fst ` K \<subseteq> C" and "finite C"
  shows "(\<Sum>key \<in> K. consumed_at key rs) \<le> (\<Sum>c \<in> C. spent c rs)"
proof (induction rs rule: spent.induct [of "\<lambda>_ rs. (\<Sum>key \<in> K. consumed_at key rs) \<le> (\<Sum>c \<in> C. spent c rs)" undefined])
  case (2 c tid cid ep sq n rs)
  let ?k = "consume_key_of cid ep sq"
  have "(if ?k \<in> K then amt n else 0) \<le> (if cid \<in> C then amt n else 0)"
    using assms(2) by (auto simp: consume_key_of_def image_subset_iff)
  then show ?case using 2 assms(1,3) by (simp add: sum.distrib)
qed simp_all

lemma honest_spent:
  assumes "honest rs cs"
  shows "charged cs \<le> (\<Sum>c \<in> (\<lambda>c. pay_capability_id (ch_pay c)) ` set cs. spent c rs)"
proof -
  have "charged cs \<le> (\<Sum>c \<leftarrow> cs. consumed_at (charge_key c) rs)"
    unfolding charged_def using assms by (intro sum_list_mono) (simp add: honest_def list_all_iff)
  also have "\<dots> = (\<Sum>key \<in> set (map charge_key cs). consumed_at key rs)"
    using assms by (subst sum_list_distinct_conv_sum_set [symmetric]) (simp_all add: honest_def comp_def)
  also have "\<dots> \<le> (\<Sum>c \<in> (\<lambda>c. pay_capability_id (ch_pay c)) ` set cs. spent c rs)"
    by (rule consumed_spent) (auto simp: charge_key_def consume_key_of_def)
  finally show ?thesis .
qed

section \<open>What was consumed is covered by what was issued\<close>

text \<open>The record \<open>engine_activate\<close> writes for a capability.\<close>

definition activation_of :: "spend_capability \<Rightarrow> wal_record" where
  "activation_of cap = ActivateCapability (cap_capability_id cap) (cap_epoch cap) (cap_maximum_total cap)
     (cap_sequence_start cap) (cap_sequence_end cap)"

fun is_activation :: "wal_record \<Rightarrow> bool" where
  "is_activation (ActivateCapability _ _ _ _ _) = True"
| "is_activation _ = False"

text \<open>Only issued capabilities were activated, each as often as it was issued.\<close>

definition activates_issued :: "spend_capability list \<Rightarrow> wal_record list \<Rightarrow> bool" where
  "activates_issued caps rs \<longleftrightarrow> mset (filter is_activation rs) \<subseteq># mset (map activation_of caps)"

fun grant_of :: "capability_id \<Rightarrow> wal_record \<Rightarrow> nat" where
  "grant_of c (ActivateCapability cid ep n a b) = (if cid = c then amt n else 0)"
| "grant_of c _ = 0"

lemma granted_mset: "granted c rs = (\<Sum>r \<in># mset (filter is_activation rs). grant_of c r)"
  by (induction rs rule: granted.induct) simp_all

lemma granted_issued:
  assumes "activates_issued caps rs"
  shows "granted c rs \<le> (\<Sum>cap \<leftarrow> caps. if cap_capability_id cap = c then amt (cap_maximum_total cap) else 0)"
proof -
  obtain M where M: "mset (map activation_of caps) = mset (filter is_activation rs) + M"
    using assms unfolding activates_issued_def by (meson mset_subset_eq_exists_conv)
  have "(\<Sum>r \<in># mset (map activation_of caps). grant_of c r)
      = (\<Sum>cap \<leftarrow> caps. if cap_capability_id cap = c then amt (cap_maximum_total cap) else 0)"
    by (induction caps) (simp_all add: activation_of_def)
  then show ?thesis unfolding granted_mset M by simp
qed

lemma issued_ids:
  assumes "finite C" and "\<forall>cap \<in> set caps. cap_capability_id cap \<in> C \<longrightarrow> cap_account_id cap = k"
  shows "(\<Sum>c \<in> C. \<Sum>cap \<leftarrow> caps. if cap_capability_id cap = c then amt (cap_maximum_total cap) else 0) \<le> issued_to k caps"
  using assms(2)
proof (induction caps)
  case (Cons cap caps)
  have "(\<Sum>c \<in> C. if cap_capability_id cap = c then amt (cap_maximum_total cap) else 0)
      \<le> (if cap_account_id cap = k then amt (cap_maximum_total cap) else 0)"
    using Cons.prems assms(1) by simp
  from add_mono [OF this Cons.IH] Cons.prems show ?case by (simp only: list.map sum_list.Cons sum.distrib) simp
qed simp

lemma honest_charges_within_float:
  assumes "crypto_ok X" and "authority_run X a ops = Some (a', caps)" and "list_all (\<lambda>op. \<not> funds k op) ops"
    and "run_log apply_record rs shard_state_new = Ok () st" and "activates_issued caps rs" and "honest rs cs"
    and "\<forall>c \<in> set cs. \<forall>cap \<in> set caps. cap_capability_id cap = pay_capability_id (ch_pay c) \<longrightarrow> cap_account_id cap = k"
  shows "charged cs + float_of a' k \<le> float_of a k"
proof -
  let ?C = "(\<lambda>c. pay_capability_id (ch_pay c)) ` set cs"
  have "spent c rs \<le> granted c rs" for c
    using ledger.hist_run [OF assms(4)] by (auto simp: ledger_hist_def intro: add_leD1)
  then have "spent c rs \<le> (\<Sum>cap \<leftarrow> caps. if cap_capability_id cap = c then amt (cap_maximum_total cap) else 0)" for c
    using granted_issued [OF assms(5), of c] le_trans by blast
  then have "(\<Sum>c \<in> ?C. spent c rs)
      \<le> (\<Sum>c \<in> ?C. \<Sum>cap \<leftarrow> caps. if cap_capability_id cap = c then amt (cap_maximum_total cap) else 0)"
    by (intro sum_mono)
  also have "\<dots> \<le> issued_to k caps" using assms(7) by (intro issued_ids) auto
  finally have "charged cs \<le> issued_to k caps" using honest_spent [OF assms(6)] by linarith
  then show ?thesis using authority_run_float [OF assms(1,2), of k] assms(3) by (simp add: list_all_iff)
qed

section \<open>Honest receipts settle\<close>

text \<open>C6: Honest receipts settle. Whatever an authority issues in any run that does not fund the account
  again, and whatever a validator's log activates (each capability as often as it was issued) and
  consumes: when services charge every consumed payment of the account's capabilities at most
  once and at most its amount, all their receipts are completed, and the checkpoint over them can
  be sealed, countersigned by enough different witnesses and finalised on any good ledger that has
  nothing finalised at its height and whose escrow covers the float the account started with.\<close>

theorem honest_receipts_settle:
  assumes "crypto_ok X" and "authority_run X a ops = Some (a', caps)" and "list_all (\<lambda>op. \<not> funds k op) ops"
    and "run_log apply_record rs shard_state_new = Ok () st" and "activates_issued caps rs"
    and "honest rs cs" and "cs \<noteq> []"
    and "\<forall>c \<in> set cs. \<forall>cap \<in> set caps. cap_capability_id cap = pay_capability_id (ch_pay c) \<longrightarrow> cap_account_id cap = k"
    and "float_of a k \<le> amt (outstanding_of (shard_str shard, k) gs)"
    and "unat (cs_next_height se) + 1 < 2 ^ 64"
    and "distinct (map (verifying_key_bytes X) kps)" and "gs_min_witnesses gs \<le> length kps" and "gs_ok gs"
    and "(shard_str shard, k) |\<in>| fmdom (gs_shard_outstanding gs)"
    and "fmlookup (gs_finalized gs) (shard_str shard, epoch_num ep, cs_next_height se) = None"
  shows "\<exists>prs log cp sealer sigs g. complete_all X cs receipt_log_new = Ok prs log
    \<and> force_seal X kp shard ep at (se, log) = Ok cp sealer
    \<and> list_all2 (\<lambda>w sig. countersign X w cp = Inr sig) kps sigs
    \<and> apply_tx X H (CheckpointFinalized \<lparr> wc_checkpoint = cp, wc_witness_sigs = sigs \<rparr> k) gs = Ok () g
    \<and> gs_ok g \<and> locked_of g k = locked_of gs k + charged cs"
proof -
  have new: "amt (rl_exposure receipt_log_new) = 0" "rl_proofs receipt_log_new = []" by (simp_all add: receipt_log_new_def)
  have within: "charged cs \<le> amt (outstanding_of (shard_str shard, k) gs)"
    using honest_charges_within_float [OF assms(1-6,8)] assms(9) by simp
  then have fits: "amt (rl_exposure receipt_log_new) + charged cs < 2 ^ 128"
    using new(1) amt_less_pow [of "outstanding_of (shard_str shard, k) gs"] by simp
  have max: "list_all (\<lambda>c. amt (ch_amount c) \<le> amt (pay_max_amount (ch_pay c))) cs"
    using assms(6) by (simp add: honest_def list_all_iff)
  obtain prs log where log: "complete_all X cs receipt_log_new = Ok prs log"
    and e: "amt (rl_exposure log) = charged cs" and n: "length (rl_proofs log) = length cs"
    by (rule complete_all_total [OF assms(1) max fits rlog.accounts_new]) (use new in simp)
  have ne: "rl_proofs log \<noteq> []" using n assms(7) by auto
  have cover: "amt (rl_exposure log) \<le> amt (outstanding_of (shard_str shard, k) gs)" using within e by simp
  obtain cp sealer sigs g where "force_seal X kp shard ep at (se, log) = Ok cp sealer"
    and "list_all2 (\<lambda>w sig. countersign X w cp = Inr sig) kps sigs"
    and "apply_tx X H (CheckpointFinalized \<lparr> wc_checkpoint = cp, wc_witness_sigs = sigs \<rparr> k) gs = Ok () g" "gs_ok g"
    and "locked_of g k = locked_of gs k + amt (rl_exposure log)"
    by (rule log_settles [OF assms(1) ne cover assms(10-15)])
  then show ?thesis using log e by auto
qed

text \<open>An authority with a float of ten, all of it allocated, and a capability over eight.\<close>

definition sample_ten :: authority where
  "sample_ten = sample_authority\<lparr> au_accounts := fmupd (AccountId 1)
     \<lparr> af_total = AmountMicros 10, af_reserve = AmountMicros 0,
       af_shard_allowances = fmupd (ShardId ''S'') (AmountMicros 10) fmempty \<rparr> fmempty \<rparr>"

definition sample_eight :: issue_request where
  "sample_eight = sample_request\<lparr> ir_maximum_total := AmountMicros 8 \<rparr>"

lemma sample_ten_fields: "float_of sample_ten (AccountId 1) = 10" "au_next_cap_counter sample_ten = 1"
  "au_attest_policy sample_ten = au_attest_policy sample_authority"
  by (simp_all add: sample_ten_def sample_authority_def authority_new_def Let_def float_of_def unissued_def fm_sum_new amt_def)

lemma sample_eight_issued:
  obtains ev cap a where "issue_capability sample_crypto sample_eight ev sample_ten = Ok cap a"
proof -
  obtain ev where ev: "verify_evidence sample_crypto (au_attest_policy sample_ten) ev = Inr ()"
    using tp_evidence_accepted [OF sample_crypto_ok, of "Keypair 1"]
    by (auto simp: sample_ten_fields sample_authority_def authority_new_def Let_def)
  obtain cap where "seal_issued sample_crypto sample_ten (unsigned_capability sample_crypto sample_ten sample_eight) = Ok () cap"
    using seal_issued_Ok [OF sample_crypto_ok] by blast
  moreover have "fmlookup (au_accounts sample_ten) (AccountId 1) = Some \<lparr> af_total = AmountMicros 10,
      af_reserve = AmountMicros 0, af_shard_allowances = fmupd (ShardId ''S'') (AmountMicros 10) fmempty \<rparr>"
    by (simp add: sample_ten_def)
  ultimately have "\<exists>cap a. issue_capability sample_crypto sample_eight ev sample_ten = Ok cap a"
    using ev by (simp add: issue_capability_Ok sample_ten_fields sample_eight_def sample_request_def amt_def)
  then show ?thesis using that by blast
qed

definition sample_charge :: "capability_id \<Rightarrow> charge" where
  "sample_charge c =
     \<lparr> ch_pay = (sample_pay 2 5 0)\<lparr> pay_capability_id := c \<rparr>,
       ch_accept = \<lparr> ed_commit_index = 1, ed_tx_id = 7, ed_edge_signature = [] \<rparr>, ch_edge = Keypair 1,
       ch_execution = 7, ch_amount = AmountMicros 5, ch_service = Keypair 2 \<rparr>"

lemma sample_charge_fields [simp]:
  "pay_capability_id (ch_pay (sample_charge c)) = c" "pay_epoch (ch_pay (sample_charge c)) = Epoch 1"
  "pay_sequence (ch_pay (sample_charge c)) = Sequence 2" "pay_max_amount (ch_pay (sample_charge c)) = AmountMicros 50"
  "ch_amount (sample_charge c) = AmountMicros 5"
  by (simp_all add: sample_charge_def signed_fields)

lemma sample_log_run:
  assumes "cap_epoch cap = Epoch 1" and "cap_maximum_total cap = AmountMicros 8"
    and "cap_sequence_start cap = Sequence 1" and "cap_sequence_end cap = Sequence 9"
  obtains st where "run_log apply_record [activation_of cap, ConsumePay 0 (cap_capability_id cap) (Epoch 1) (Sequence 2) (AmountMicros 5)]
    shard_state_new = Ok () st"
  using assms
  by (simp add: activation_of_def shard_state_new_def activate_capability_def consume_pay_def epoch_state_of_def
      is_consumed_def consume_key_of_def chk_add_def word_less_nat_alt)

lemma honest_receipts_settle_witness:
  "\<exists>cp sigs g. apply_tx sample_crypto sample_wasm (CheckpointFinalized \<lparr> wc_checkpoint = cp, wc_witness_sigs = sigs \<rparr> (AccountId 1))
     sample_ledger = Ok () g \<and> locked_of g (AccountId 1) = 5"
proof -
  obtain ev cap a where i: "issue_capability sample_crypto sample_eight ev sample_ten = Ok cap a"
    using sample_eight_issued by blast
  then have run: "authority_run sample_crypto sample_ten [Issue sample_eight ev] = Some (a, [cap])" by simp
  have f: "cap_epoch cap = Epoch 1" "cap_maximum_total cap = AmountMicros 8" "cap_sequence_start cap = Sequence 1"
    "cap_sequence_end cap = Sequence 9" "cap_account_id cap = AccountId 1"
    using i by (auto simp: issue_capability_Ok unsigned_capability_def sample_eight_def sample_request_def dest: seal_issued_fields)
  let ?rs = "[activation_of cap, ConsumePay 0 (cap_capability_id cap) (Epoch 1) (Sequence 2) (AmountMicros 5)]"
  obtain st where log: "run_log apply_record ?rs shard_state_new = Ok () st" by (rule sample_log_run [OF f(1-4)])
  have act: "activates_issued [cap] ?rs" by (simp add: activates_issued_def activation_of_def)
  have hon: "honest ?rs [sample_charge (cap_capability_id cap)]"
    by (simp add: honest_def charge_key_def activation_of_def amt_def)
  have float: "float_of sample_ten (AccountId 1) \<le> amt (outstanding_of (shard_str (ShardId ''S''), AccountId 1) sample_ledger)"
    by (simp only: sample_ten_fields sample_settling(1))
  have own: "\<forall>c \<in> set [sample_charge (cap_capability_id cap)]. \<forall>x \<in> set [cap].
      cap_capability_id x = pay_capability_id (ch_pay c) \<longrightarrow> cap_account_id x = AccountId 1"
    using f(5) by simp
  from honest_receipts_settle [OF sample_crypto_ok run _ log act hon _ own float sample_settling(7,8,4) sample_ledger_ok sample_settling(2,3),
      of "Keypair 1" 7 sample_wasm]
  obtain cp sigs g where "apply_tx sample_crypto sample_wasm
      (CheckpointFinalized \<lparr> wc_checkpoint = cp, wc_witness_sigs = sigs \<rparr> (AccountId 1)) sample_ledger = Ok () g"
    and "locked_of g (AccountId 1) = 5"
    by (auto simp: sample_settling amt_def)
  then show ?thesis by blast
qed

section \<open>Nothing makes services honest\<close>

lemma checkpoint_uncovered:
  assumes "verify_witnessed X c (gs_min_witnesses gs) = Inr ()"
    and "fmlookup (gs_finalized gs) (header_key (sc_header (wc_checkpoint c))) = None"
    and "amt (outstanding_of (shard_str (hd_shard_id (sc_header (wc_checkpoint c))), k) gs)
      < amt (hd_exposure (sc_header (wc_checkpoint c)))"
  shows "apply_tx X H (CheckpointFinalized c k) gs = Err ExecInsufficientShardAllowance gs"
  using assms by (auto simp: apply_tx_def apply_checkpoint_def Let_def outstanding_of_def micros_less_amt split: option.splits)

text \<open>C36: Nothing makes services honest: one accepted payment can be charged any number of times, each time
  up to its maximum amount, which is not bounded by the capability, while its amount was deducted
  once. All the receipts are completed, sealed and countersigned; when they exceed the escrow the
  ledger refuses the checkpoint, so that no receipt sealed with them settles.\<close>

theorem overcharged_receipts_block_settlement:
  assumes "crypto_ok X" and "handle_pay X vr ar p now s = Ok acc t"
    and "list_all (\<lambda>c. ch_pay c = p \<and> ch_accept c = acc \<and> amt (ch_amount c) \<le> amt (pay_max_amount p)) cs"
    and "amt (rl_exposure log) + charged cs < 2 ^ 128" and "rlog.accounts X log" and "rl_proofs log \<noteq> [] \<or> cs \<noteq> []"
    and "amt (outstanding_of (shard_str shard, k) gs) < amt (rl_exposure log) + charged cs"
    and "unat (cs_next_height se) + 1 < 2 ^ 64"
    and "distinct (map (verifying_key_bytes X) kps)" and "gs_min_witnesses gs \<le> length kps"
    and "fmlookup (gs_finalized gs) (shard_str shard, epoch_num ep, cs_next_height se) = None"
  shows "(\<exists>cap. authorised X s p now cap) \<and> (\<exists>prs log' cp sealer sigs. complete_all X cs log = Ok prs log'
    \<and> force_seal X kp shard ep at (se, log') = Ok cp sealer
    \<and> list_all2 (\<lambda>w sig. countersign X w cp = Inr sig) kps sigs
    \<and> apply_tx X H (CheckpointFinalized \<lparr> wc_checkpoint = cp, wc_witness_sigs = sigs \<rparr> k) gs
      = Err ExecInsufficientShardAllowance gs)"
proof
  show "\<exists>cap. authorised X s p now cap" using handle_pay_Ok(1) [OF assms(1,2)] by (simp add: validate_pay_Inr)
  have max: "list_all (\<lambda>c. amt (ch_amount c) \<le> amt (pay_max_amount (ch_pay c))) cs"
    using assms(3) by (auto simp: list_all_iff)
  obtain prs log' where log: "complete_all X cs log = Ok prs log'"
    and e: "amt (rl_exposure log') = amt (rl_exposure log) + charged cs"
    and n: "length (rl_proofs log') = length (rl_proofs log) + length cs"
    by (rule complete_all_total [OF assms(1) max assms(4,5)])
  have ne: "rl_proofs log' \<noteq> []" using n assms(6) by auto
  obtain cp sealer where seal: "force_seal X kp shard ep at (se, log') = Ok cp sealer"
    using force_seal_total [OF assms(1) ne assms(8)] by blast
  note head = force_seal_seals [OF seal] and ver = force_seal_verifies [OF assms(1) seal]
  obtain sigs where sigs: "list_all2 (\<lambda>w sig. countersign X w cp = Inr sig) kps sigs"
    using countersign_all [OF assms(1) ver] by blast
  have "apply_tx X H (CheckpointFinalized \<lparr> wc_checkpoint = cp, wc_witness_sigs = sigs \<rparr> k) gs
      = Err ExecInsufficientShardAllowance gs"
    using countersigned_verifies [OF assms(1) ver sigs assms(9,10)] head assms(7,11) e
    by (intro checkpoint_uncovered) (simp_all add: header_key_def seals_def)
  then show "\<exists>prs log' cp sealer sigs. complete_all X cs log = Ok prs log'
    \<and> force_seal X kp shard ep at (se, log') = Ok cp sealer
    \<and> list_all2 (\<lambda>w sig. countersign X w cp = Inr sig) kps sigs
    \<and> apply_tx X H (CheckpointFinalized \<lparr> wc_checkpoint = cp, wc_witness_sigs = sigs \<rparr> k) gs
      = Err ExecInsufficientShardAllowance gs"
    using log seal sigs by blast
qed

text \<open>
  A payment of five under a capability over a hundred, charged three times fifty, against an
  escrow of ten.
\<close>

lemma overcharged_receipts_block_settlement_witness:
  "\<exists>acc t cs prs log cp sigs. handle_pay sample_crypto [] [] (sample_pay 3 5 0) 5 sample_engine = Ok acc t
    \<and> amt (cap_maximum_total sample_cap) < charged cs \<and> complete_all sample_crypto cs receipt_log_new = Ok prs log
    \<and> apply_tx sample_crypto sample_wasm (CheckpointFinalized \<lparr> wc_checkpoint = cp, wc_witness_sigs = sigs \<rparr> (AccountId 1))
      sample_ledger = Err ExecInsufficientShardAllowance sample_ledger"
proof -
  obtain acc t where pay: "handle_pay sample_crypto [] [] (sample_pay 3 5 0) 5 sample_engine = Ok acc t"
    using sample_handle_pay [of 5 3 0] by auto
  define cs where "cs = replicate 3 \<lparr> ch_pay = sample_pay 3 5 0, ch_accept = acc, ch_edge = Keypair 1, ch_execution = 7,
    ch_amount = AmountMicros 50, ch_service = Keypair 2 \<rparr>"
  have cs: "list_all (\<lambda>c. ch_pay c = sample_pay 3 5 0 \<and> ch_accept c = acc \<and>
      amt (ch_amount c) \<le> amt (pay_max_amount (sample_pay 3 5 0))) cs" and sum: "charged cs = 150" and ne: "cs \<noteq> []"
    by (simp_all add: cs_def numeral_3_eq_3 signed_fields amt_def)
  have fits: "amt (rl_exposure receipt_log_new) + charged cs < 2 ^ 128" by (simp add: sample_settling(6) sum)
  have over: "amt (outstanding_of (shard_str (ShardId ''S''), AccountId 1) sample_ledger) < amt (rl_exposure receipt_log_new) + charged cs"
    by (simp only: sample_settling(1,6) sum)
  have some: "rl_proofs receipt_log_new \<noteq> [] \<or> cs \<noteq> []" using ne by simp
  from overcharged_receipts_block_settlement
      [OF sample_crypto_ok pay cs fits rlog.accounts_new some over sample_settling(7,8,4,3), of "Keypair 1" 7 sample_wasm]
  have "\<exists>prs log cp sigs. complete_all sample_crypto cs receipt_log_new = Ok prs log
    \<and> apply_tx sample_crypto sample_wasm (CheckpointFinalized \<lparr> wc_checkpoint = cp, wc_witness_sigs = sigs \<rparr> (AccountId 1))
      sample_ledger = Err ExecInsufficientShardAllowance sample_ledger"
    by blast
  moreover have "amt (cap_maximum_total sample_cap) < charged cs" by (simp add: sum signed_fields)
  ultimately show ?thesis using pay by blast
qed

end
