(* ===== verification/Concurrency.thy ===== *)
theory Concurrency
  imports Shard_Theorems
begin

text \<open>
  Two payments handled at the same time: \<open>handle_pay\<close> releases the validator's lock between its
  critical sections, so a second call may validate its payment before the first one commits.
\<close>

lemma keeps_reachable: "cluster_reachable X C \<Longrightarrow> cluster_step X C C' \<Longrightarrow> cluster_reachable X C'"
  by (rule cluster_reachable.step)

text \<open>A task of a validator that needs no one else, from its start to its acceptance.\<close>

lemma begin_alone:
  assumes "fmlookup (cl_nodes C) i = Some s" and "fmlookup (cl_tasks C) k = None"
    and "si_alive s" and "need_of s = 1" and "validate_pay X s p now = Inr ()" and "body_digest X (pay_body_of X p) = Some d"
  shows "cluster_step X C (set_task k i (CollectVotes (pay_body_of X p) d 1 (own_votes X d s))
    (set_node i (after_propose X p now d s) C))"
proof (rule cluster_step.Begin [OF assms(1) _ assms(2)])
  have "pay_propose X p now s = Ok (pay_body_of X p, d) (after_propose X p now d s)"
    using assms by (simp add: pay_propose_Ok after_propose_def)
  then show "task_begin X p now s = Ok (CollectVotes (pay_body_of X p) d 1 (own_votes X d s)) (after_propose X p now d s)"
    using assms(4) by (simp add: task_begin_def)
qed

lemma finish_alone:
  assumes "fmlookup (cl_tasks C) k = Some (i, CollectVotes b d 1 votes)" and "fmlookup (cl_nodes C) i = Some s"
    and "fmdom votes \<noteq> {||}" and "pay_commit X b d votes s = Ok () t"
  defines "C1 \<equiv> set_task k i (CollectAcks b d 1 [engine_id t]) (set_node i t C)"
  defines "C2 \<equiv> set_task k i (Accepted b d 1 [engine_id t] (pay_finish X b d t)) (set_node i t C1)"
  shows "cluster_step X C C1" and "cluster_step X C1 C2"
proof -
  show "cluster_step X C C1"
    unfolding C1_def using assms(3,4) by (intro cluster_step.Step [OF assms(1,2)]) simp
  show "cluster_step X C1 C2"
    unfolding C2_def by (rule cluster_step.Step [of _ _ _ "CollectAcks b d 1 [engine_id t]" t])
      (simp_all add: C1_def set_task_def set_node_def)
qed

lemma commit_deducts:
  assumes "pay_commit X b d votes s = Ok u t" and "\<not> body_consumed b s"
  shows "left (si_state t) (pb_capability_id b) + amt (pb_amount b) = left (si_state s) (pb_capability_id b)"
  using assms left_after [of "si_state s" "pb_capability_id b" "pb_epoch b" "pb_sequence b" "pb_amount b" "pb_capability_id b"]
  by (auto simp: pay_commit_def and_then_iff commit_once_def durable_commit_Ok consumed_state_def body_consumable_def
      broadcast_def body_consumed_def split: if_splits)

text \<open>C38: Two payments with the same sequence can both be accepted: a validator that is a quorum by itself
  and starts on the second before it commits the first ends up with an edge acceptance for each,
  but has deducted only the first.\<close>

theorem concurrent_payments_both_accepted:
  assumes "crypto_ok X" and "cluster_reachable X C" and "fmlookup (cl_nodes C) i = Some s"
    and "fmlookup (cl_tasks C) k = None" and "fmlookup (cl_tasks C) l = None" and "k \<noteq> l"
    and "si_alive s" and "need_of s = 1" and "si_io s = []"
    and "validate_pay X s p now = Inr ()" and "validate_pay X s q now = Inr ()"
    and "pay_capability_id q = pay_capability_id p" and "pay_epoch q = pay_epoch p" and "pay_sequence q = pay_sequence p"
    and "body_consumable (pay_body_of X p) (si_state s)"
  shows "\<exists>C' t b d acks acc b' d' acks' acc'. cluster_reachable X C' \<and> fmlookup (cl_nodes C') i = Some t
    \<and> fmlookup (cl_tasks C') k = Some (i, Accepted b d 1 acks acc) \<and> ed_tx_id acc = tx_id X p
    \<and> fmlookup (cl_tasks C') l = Some (i, Accepted b' d' 1 acks' acc') \<and> ed_tx_id acc' = tx_id X q
    \<and> left (si_state t) (pay_capability_id p) + amt (pay_amount p) = left (si_state s) (pay_capability_id p)"
proof -
  let ?b = "pay_body_of X p" and ?c = "pay_body_of X q"
  obtain d e where d: "body_digest X ?b = Some d" and e: "body_digest X ?c = Some e"
    using body_digest_total [OF assms(1)] by blast
  let ?s1 = "after_propose X p now d s" and ?s2 = "after_propose X q now e (after_propose X p now d s)"
  let ?C1 = "set_task k i (CollectVotes ?b d 1 (own_votes X d s)) (set_node i ?s1 C)"
  let ?C2 = "set_task l i (CollectVotes ?c e 1 (own_votes X e ?s1)) (set_node i ?s2 ?C1)"
  have r1: "cluster_step X C ?C1" by (rule begin_alone [OF assms(3,4,7,8,10) d])
  have n1: "fmlookup (cl_nodes ?C1) i = Some ?s1" "fmlookup (cl_tasks ?C1) l = None"
    using assms(5,6) by (simp_all add: set_task_def set_node_def)
  have r2: "cluster_step X ?C1 ?C2"
    using assms(7,8,11) by (intro begin_alone [OF n1 _ _ _ e]) simp_all
  obtain t where t: "pay_commit X ?b d (own_votes X d s) ?s2 = Ok () t"
    using pay_commit_total [OF assms(1), of ?s2 ?b d "own_votes X d s"] assms(9,15) by auto
  obtain u where u: "pay_commit X ?c e (own_votes X e ?s1) t = Ok () u" and st: "si_state u = si_state t"
  proof -
    have "body_consumed ?c t" using pay_commit_consumes [OF t] assms(12-14)
      by (simp add: body_consumed_def pay_body_of_def body_from_pay_def)
    then show thesis using that late_commit_acked_unrecorded by blast
  qed
  let ?C3 = "set_task k i (CollectAcks ?b d 1 [engine_id t]) (set_node i t ?C2)"
  let ?C4 = "set_task k i (Accepted ?b d 1 [engine_id t] (pay_finish X ?b d t)) (set_node i t ?C3)"
  let ?C5 = "set_task l i (CollectAcks ?c e 1 [engine_id u]) (set_node i u ?C4)"
  let ?C6 = "set_task l i (Accepted ?c e 1 [engine_id u] (pay_finish X ?c e u)) (set_node i u ?C5)"
  have r3: "cluster_step X ?C2 ?C3" "cluster_step X ?C3 ?C4"
    using assms(6) by (intro finish_alone [OF _ _ _ t]; simp add: set_task_def set_node_def)+
  have r5: "cluster_step X ?C4 ?C5" "cluster_step X ?C5 ?C6"
    using assms(6) by (intro finish_alone [OF _ _ _ u]; simp add: set_task_def set_node_def)+
  have reach: "cluster_reachable X ?C6"
    by (rule keeps_reachable [OF keeps_reachable [OF keeps_reachable [OF keeps_reachable [OF keeps_reachable
      [OF keeps_reachable [OF assms(2) r1] r2] r3(1)] r3(2)] r5(1)] r5(2)])
  have left: "left (si_state u) (pay_capability_id p) + amt (pay_amount p) = left (si_state s) (pay_capability_id p)"
  proof -
    have "\<not> body_consumed ?b ?s2" using consumed_not_valid [of X p s now] assms(10) by auto
    then show ?thesis
      using commit_deducts [OF t] by (simp add: st pay_body_of_def body_from_pay_def)
  qed
  have tasks: "fmlookup (cl_nodes ?C6) i = Some u"
    "fmlookup (cl_tasks ?C6) k = Some (i, Accepted ?b d 1 [engine_id t] (pay_finish X ?b d t))"
    "fmlookup (cl_tasks ?C6) l = Some (i, Accepted ?c e 1 [engine_id u] (pay_finish X ?c e u))"
    using assms(6) by (simp_all add: set_task_def set_node_def)
  have ids: "ed_tx_id (pay_finish X ?b d t) = tx_id X p" "ed_tx_id (pay_finish X ?c e u) = tx_id X q"
    by (simp_all add: pay_finish_def pay_body_of_def body_from_pay_def)
  show ?thesis using reach tasks ids left by blast
qed

lemma concurrent_payments_both_accepted_witness:
  "\<exists>C t b d acks acc b' d' acks' acc'. cluster_reachable sample_crypto C \<and> fmlookup (cl_nodes C) 0 = Some t
    \<and> fmlookup (cl_tasks C) 0 = Some (0, Accepted b d 1 acks acc)
    \<and> fmlookup (cl_tasks C) 1 = Some (0, Accepted b' d' 1 acks' acc') \<and> left (si_state t) (CapabilityId 9) = 80"
proof -
  let ?X = sample_crypto and ?p = "sample_pay 3 20 0" and ?q = "sample_pay 3 50 77"
  have node: "fmlookup (cl_nodes sample_cluster) 0 = Some sample_engine"
    and free: "fmlookup (cl_tasks sample_cluster) k = None" for k
    by (simp_all add: sample_cluster_def)
  have v: "validate_pay ?X sample_engine ?p 5 = Inr ()" "validate_pay ?X sample_engine ?q 5 = Inr ()"
    unfolding validate_pay_Inr by (rule exI, rule sample_authorised, simp)+
  have key: "pay_capability_id ?q = pay_capability_id ?p" "pay_epoch ?q = pay_epoch ?p" "pay_sequence ?q = pay_sequence ?p"
    by (simp_all add: signed_fields)
  have cons: "body_consumable (pay_body_of ?X ?p) (si_state sample_engine)" using sample_consumable [of 20 3 0] by simp
  have all: "left (si_state sample_engine) (CapabilityId 9) = 100"
    by (simp add: left_def sample_engine_fields activated_state_def activate_capability_def signed_fields)
  note c = concurrent_payments_both_accepted [OF sample_crypto_ok cluster_reachable.start [OF sample_cluster_start] node
      free [of 0] free [of 1] _ sample_engine_fields(4) sample_need sample_engine_fields(8) v key cons]
  then obtain C t b d acks acc b' d' acks' acc' where r: "cluster_reachable ?X C" "fmlookup (cl_nodes C) 0 = Some t"
    "fmlookup (cl_tasks C) 0 = Some (0, Accepted b d 1 acks acc)" "fmlookup (cl_tasks C) 1 = Some (0, Accepted b' d' 1 acks' acc')"
    and "left (si_state t) (pay_capability_id ?p) + amt (pay_amount ?p) = left (si_state sample_engine) (pay_capability_id ?p)"
    by (elim exE conjE meta_impE) simp_all
  then have "left (si_state t) (CapabilityId 9) = 80" by (simp add: signed_fields all)
  then show ?thesis using r by blast
qed

end
