(* ===== verification/Dag.thy ===== *)
theory Dag
  imports Ledger_Theorems
begin

text \<open>
  The block DAG of the global consensus (\<open>crates/consensus/src/dag.rs\<close>): the CBOR form of
  transactions and blocks, the block digest, the mempool with its tips, and the traversal that
  orders the transactions below an anchor.
\<close>

section \<open>Transactions and blocks in CBOR\<close>

definition ser_header :: "checkpoint_header \<Rightarrow> cval" where
  "ser_header h = CMap
     [(''shard_id'', c_shard (hd_shard_id h)), (''epoch'', c_epoch (hd_epoch h)), (''root'', c_b32 (hd_root h)),
      (''height'', c_u64 (hd_height h)), (''tx_count'', c_u64 (hd_tx_count h)),
      (''exposure'', c_amount (hd_exposure h)), (''sealed_at_unix_ms'', c_u64 (hd_sealed_at_unix_ms h))]"

definition ser_signed_checkpoint :: "signed_checkpoint \<Rightarrow> cval" where
  "ser_signed_checkpoint c = CMap
     [(''header'', ser_header (sc_header c)), (''shard_signer_pubkey'', c_b32 (sc_shard_signer_pubkey c)),
      (''shard_signature'', c_bytes (sc_shard_signature c))]"

definition ser_witness_sig :: "witness_sig \<Rightarrow> cval" where
  "ser_witness_sig s = CMap
     [(''witness_pubkey'', c_b32 (ws_witness_pubkey s)), (''signature'', c_bytes (ws_signature s))]"

definition ser_witnessed :: "witnessed_checkpoint \<Rightarrow> cval" where
  "ser_witnessed w = CMap
     [(''checkpoint'', ser_signed_checkpoint (wc_checkpoint w)),
      (''witness_sigs'', CArr (map ser_witness_sig (wc_witness_sigs w)))]"

definition c_account :: "account_id \<Rightarrow> cval" where "c_account a = c_b32 (account_bytes a)"
definition c_agent :: "agent_id \<Rightarrow> cval" where "c_agent a = c_b32 (agent_bytes a)"
definition c_asset :: "asset_id \<Rightarrow> cval" where "c_asset a = c_b32 (asset_bytes a)"

fun ser_tx :: "l1_tx \<Rightarrow> cval" where
  "ser_tx (GenesisFund k n) = variant ''GenesisFund'' [(''account'', c_account k), (''amount'', c_amount n)]"
| "ser_tx (Stake k n) = variant ''Stake'' [(''account'', c_account k), (''amount'', c_amount n)]"
| "ser_tx (Unstake k n) = variant ''Unstake'' [(''account'', c_account k), (''amount'', c_amount n)]"
| "ser_tx (AllocateShardAllowance k s n) = variant ''AllocateShardAllowance''
     [(''account'', c_account k), (''shard_id'', c_shard s), (''amount'', c_amount n)]"
| "ser_tx (CheckpointFinalized c k) = variant ''CheckpointFinalized''
     [(''checkpoint'', ser_witnessed c), (''funding_account'', c_account k)]"
| "ser_tx (SlashConflict s e h k n) = variant ''SlashConflict''
     [(''shard_id'', c_shard s), (''epoch'', c_epoch e), (''height'', c_u64 h), (''offender'', c_account k),
      (''amount'', c_amount n)]"
| "ser_tx (RegisterAgent k g m) = variant ''RegisterAgent''
     [(''account'', c_account k), (''agent_id'', c_agent g), (''metadata_hash'', c_b32 m)]"
| "ser_tx (SuspendAgent g) = variant ''SuspendAgent'' [(''agent_id'', c_agent g)]"
| "ser_tx (UpdateReputation g d r) = variant ''UpdateReputation''
     [(''agent_id'', c_agent g), (''delta'', c_sint d), (''reason_hash'', c_b32 r)]"
| "ser_tx (DeployContract k h c) = variant ''DeployContract''
     [(''deployer'', c_account k), (''code_hash'', c_b32 h), (''code'', c_bytes c)]"
| "ser_tx (CallContract k h e a b f) = variant ''CallContract''
     [(''caller'', c_account k), (''code_hash'', c_b32 h), (''export'', CText e),
      (''args'', CArr [c_sint a, c_sint b]), (''fuel'', c_u64 f)]"
| "ser_tx (OpenDispute i p d n v) = variant ''OpenDispute''
     [(''id'', c_b32 i), (''plaintiff'', c_account p), (''defendant'', c_account d), (''bond'', c_amount n),
      (''evidence_hash'', c_b32 v)]"
| "ser_tx (ResolveDispute i p) = variant ''ResolveDispute'' [(''id'', c_b32 i), (''for_plaintiff'', CBool p)]"
| "ser_tx (RegisterAsset i k s n d m) = variant ''RegisterAsset''
     [(''asset_id'', c_asset i), (''issuer'', c_account k), (''symbol'', CText s), (''name'', CText n),
      (''decimals'', c_u8 d), (''max_supply'', CUint m)]"
| "ser_tx (MintAsset i k t u) = variant ''MintAsset''
     [(''asset_id'', c_asset i), (''issuer'', c_account k), (''to'', c_account t), (''units'', CUint u)]"
| "ser_tx (TransferAsset i f t u) = variant ''TransferAsset''
     [(''asset_id'', c_asset i), (''from'', c_account f), (''to'', c_account t), (''units'', CUint u)]"
| "ser_tx (SpotTrade i b s u p) = variant ''SpotTrade''
     [(''asset_id'', c_asset i), (''buyer'', c_account b), (''seller'', c_account s),
      (''asset_units'', CUint u), (''price_total'', c_amount p)]"

record dag_block =
  db_author :: u8
  db_round :: u64
  db_parents :: "b32 list"
  db_txs :: "l1_tx list"

definition ser_block :: "dag_block \<Rightarrow> cval" where
  "ser_block b = CMap
     [(''author'', c_u8 (db_author b)), (''round'', c_u64 (db_round b)),
      (''parents'', CArr (map c_b32 (db_parents b))), (''txs'', CArr (map ser_tx (db_txs b)))]"

section \<open>A serialised block is the block\<close>

lemma word_of_sint_inj:
  fixes v w :: "'a::len word"
  assumes "LENGTH('a) \<le> 64"
  shows "c_sint v = c_sint w \<longleftrightarrow> v = w"
proof -
  have b: "- (2 ^ 63) \<le> sint u" "sint u < 2 ^ 63" for u :: "'a word"
  proof -
    have "LENGTH('a) - Suc 0 \<le> 63" using assms by simp
    then have "(2::int) ^ (LENGTH('a) - Suc 0) \<le> 2 ^ 63" by (rule power_increasing) simp
    then show "- (2 ^ 63) \<le> sint u" "sint u < 2 ^ 63"
      using sint_greater_eq [of u] sint_less [of u] by simp_all
  qed
  have pos: "uint (word_of_int (sint u) :: u128) = sint u" if "0 \<le> sint u" for u :: "'a word"
    using that b(2) [of u] by (simp only: uint_word_of_int) simp
  have neg: "uint (word_of_int (- 1 - sint u) :: u64) = - 1 - sint u" if "\<not> 0 \<le> sint u" for u :: "'a word"
    using that b(1) [of u] by (simp only: uint_word_of_int) simp
  have "sint v = sint w" if "c_sint v = c_sint w"
  proof (cases "0 \<le> sint v")
    case True
    then have w: "0 \<le> sint w" using that by (auto simp: c_sint_def split: if_splits)
    then have "(word_of_int (sint v) :: u128) = word_of_int (sint w)" using that True by (simp add: c_sint_def)
    then show ?thesis using pos [OF True] pos [OF w] by metis
  next
    case False
    then have w: "\<not> 0 \<le> sint w" using that by (auto simp: c_sint_def split: if_splits)
    then have "(word_of_int (- 1 - sint v) :: u64) = word_of_int (- 1 - sint w)"
      using that False unfolding c_sint_def by (simp only: if_False cval.inject)
    then have "- 1 - sint v = - 1 - sint w" using neg [OF False] neg [OF w] by metis
    then show ?thesis by simp
  qed
  then show ?thesis by (auto simp: word_eq_iff_signed intro: signed_word_eqI)
qed

lemma c_sint_inj [cval_inj, simp]:
  "c_sint (v :: i64) = c_sint w \<longleftrightarrow> v = w" "c_sint (a :: i32) = c_sint b \<longleftrightarrow> a = b"
  by (simp_all add: word_of_sint_inj)

lemma c_id_inj [cval_inj, simp]:
  "c_account k = c_account l \<longleftrightarrow> k = l" "c_agent g = c_agent f \<longleftrightarrow> g = f" "c_asset i = c_asset j \<longleftrightarrow> i = j"
  by (auto simp: c_account_def c_agent_def c_asset_def account_id.expand agent_id.expand asset_id.expand)

lemma ser_header_inj [simp]: "ser_header h = ser_header g \<longleftrightarrow> h = g"
  by (cases h; cases g) (auto simp: ser_header_def)

lemma ser_signed_checkpoint_inj [simp]: "ser_signed_checkpoint c = ser_signed_checkpoint d \<longleftrightarrow> c = d"
  by (cases c; cases d) (auto simp: ser_signed_checkpoint_def)

lemma ser_witness_sig_inj [simp]: "ser_witness_sig s = ser_witness_sig t \<longleftrightarrow> s = t"
  by (cases s; cases t) (auto simp: ser_witness_sig_def)

lemma ser_witnessed_inj [simp]: "ser_witnessed v = ser_witnessed w \<longleftrightarrow> v = w"
  by (cases v; cases w) (auto simp: ser_witnessed_def inj_def)

lemma ser_tx_inj [simp]: "ser_tx s = ser_tx t \<longleftrightarrow> s = t"
  by (cases s; cases t) simp_all

lemma ser_block_inj: "ser_block b = ser_block c \<longleftrightarrow> b = c"
  by (cases b; cases c) (auto simp: ser_block_def inj_def)

section \<open>The mempool\<close>

text \<open>The digest of a block; one that does not encode panics (\<open>None\<close>).\<close>

definition block_digest :: "crypto \<Rightarrow> dag_block \<Rightarrow> b32 option" where
  "block_digest X b = map_option (blake3 X) (cbor_write X (ser_block b))"

record dag_mempool =
  dm_blocks :: "(b32, dag_block) fmap"
  dm_tips :: "b32 list"
  dm_next_round :: u64

definition dag_new :: dag_mempool where
  "dag_new = \<lparr> dm_blocks = fmempty, dm_tips = [], dm_next_round = 0 \<rparr>"

definition dag_insert :: "crypto \<Rightarrow> dag_block \<Rightarrow> dag_mempool \<Rightarrow> (dag_mempool \<times> b32) option" where
  "dag_insert X b m =
     (case block_digest X b of
        None \<Rightarrow> None
      | Some d \<Rightarrow>
          let tips = dm_tips m @ [d]
          in Some (m\<lparr> dm_blocks := fmupd d b (dm_blocks m),
                     dm_tips := (if 16 < length tips then drop (length tips - 16) tips else tips) \<rparr>, d))"

definition dag_propose :: "crypto \<Rightarrow> u8 \<Rightarrow> l1_tx list \<Rightarrow> dag_mempool \<Rightarrow> (dag_mempool \<times> dag_block) option" where
  "dag_propose X author txs m =
     (case chk_add (dm_next_round m) 1 of
        None \<Rightarrow> None
      | Some r \<Rightarrow>
          let b = \<lparr> db_author = author, db_round = dm_next_round m, db_parents = dm_tips m, db_txs = txs \<rparr>
          in (case dag_insert X b (m\<lparr> dm_next_round := r \<rparr>) of
                None \<Rightarrow> None
              | Some (m', d) \<Rightarrow> Some (m', b)))"

text \<open>Blocks are filed under their digest, and at most 16 tips are kept, all of them of filed blocks.\<close>

definition dag_ok :: "crypto \<Rightarrow> dag_mempool \<Rightarrow> bool" where
  "dag_ok X m \<longleftrightarrow> fmpred (\<lambda>d b. block_digest X b = Some d) (dm_blocks m) \<and>
     length (dm_tips m) \<le> 16 \<and> set (dm_tips m) \<subseteq> fset (fmdom (dm_blocks m))"

lemma dag_ok_new: "dag_ok X dag_new"
  by (simp add: dag_ok_def dag_new_def)

lemma dag_insert_ok:
  assumes "dag_ok X m" and "dag_insert X b m = Some (m', d)"
  shows "dag_ok X m'" and "block_digest X b = Some d" and "fmlookup (dm_blocks m') d = Some b"
    and "last (dm_tips m') = d" and "dm_tips m' \<noteq> []"
    and "dm_next_round m' = dm_next_round m"
proof -
  obtain tips where d: "block_digest X b = Some d" and t: "tips = dm_tips m @ [d]"
    and m': "m' = m\<lparr> dm_blocks := fmupd d b (dm_blocks m),
      dm_tips := (if 16 < length tips then drop (length tips - 16) tips else tips) \<rparr>"
    using assms(2) by (auto simp: dag_insert_def Let_def split: option.splits)
  have "set (dm_tips m') \<subseteq> set tips" by (auto simp: m' dest: in_set_dropD)
  then show "dag_ok X m'"
    using assms(1) d t m' by (auto simp: dag_ok_def fmpred_iff)
  show "block_digest X b = Some d" by (rule d)
  show "fmlookup (dm_blocks m') d = Some b" "dm_next_round m' = dm_next_round m" by (simp_all add: m')
  show "last (dm_tips m') = d" "dm_tips m' \<noteq> []" by (auto simp: m' t)
qed

lemma dag_propose_ok:
  assumes "dag_ok X m" and "dag_propose X a txs m = Some (m', b)"
  shows "dag_ok X m'" and "db_parents b = dm_tips m" and "db_round b = dm_next_round m" and "db_txs b = txs"
    and "\<exists>d. block_digest X b = Some d \<and> fmlookup (dm_blocks m') d = Some b"
    and "unat (dm_next_round m') = unat (dm_next_round m) + 1"
proof -
  obtain r d where r: "chk_add (dm_next_round m) 1 = Some r"
    and b: "b = \<lparr> db_author = a, db_round = dm_next_round m, db_parents = dm_tips m, db_txs = txs \<rparr>"
    and i: "dag_insert X b (m\<lparr> dm_next_round := r \<rparr>) = Some (m', d)"
    using assms(2) by (auto simp: dag_propose_def Let_def split: option.splits)
  have ok: "dag_ok X (m\<lparr> dm_next_round := r \<rparr>)" using assms(1) by (simp add: dag_ok_def)
  note ins = dag_insert_ok [OF ok i]
  show "dag_ok X m'" by (rule ins(1))
  show "db_parents b = dm_tips m" "db_round b = dm_next_round m" "db_txs b = txs" by (simp_all add: b)
  show "\<exists>d. block_digest X b = Some d \<and> fmlookup (dm_blocks m') d = Some b" using ins(2,3) by blast
  show "unat (dm_next_round m') = unat (dm_next_round m) + 1" using ins(6) chk_add_Some [OF r] by simp
qed

section \<open>Ordering the transactions below an anchor\<close>

text \<open>
  The loop with its stack (last element on top) and the set of ids seen. It ends because an id is
  expanded once: either a filed block leaves the blocks not yet seen, or the stack shrinks.
\<close>

function walk :: "(b32, dag_block) fmap \<Rightarrow> b32 list \<Rightarrow> b32 fset \<Rightarrow> (b32 \<times> dag_block) list \<Rightarrow> (b32 \<times> dag_block) list" where
  "walk blocks [] seen out = out"
| "walk blocks (next_id # stack) seen out =
     (if next_id |\<in>| seen then walk blocks stack seen out
      else case fmlookup blocks next_id of
        None \<Rightarrow> walk blocks stack (finsert next_id seen) out
      | Some b \<Rightarrow> walk blocks (db_parents b @ stack) (finsert next_id seen) (out @ [(next_id, b)]))"
  by pat_completeness auto
termination
proof (relation "inv_image (less_than <*lex*> less_than)
    (\<lambda>(blocks, stack, seen, out). (card (fset (fmdom blocks) - fset seen), length stack))", goal_cases)
  case 1
  then show ?case by (intro wf_inv_image wf_lex_prod wf_less_than)
next
  case (2 blocks next_id stack seen out)
  then show ?case by simp
next
  case (3 blocks next_id stack seen out)
  have "fset (fmdom blocks) - insert next_id (fset seen) = fset (fmdom blocks) - fset seen"
    using fmdom_notI [OF 3(2)] by auto
  then show ?case by simp
next
  case (4 blocks next_id stack seen out b)
  have "card (fset (fmdom blocks) - insert next_id (fset seen)) < card (fset (fmdom blocks) - fset seen)"
    using 4 fmdomI [OF 4(2)] by (intro psubset_card_mono) auto
  then show ?case by simp
qed

text \<open>
  The code pushes a block's parents in reverse on a stack it pops from the end, so the first
  parent is next: here the stack has its top first.
\<close>

definition ordered_blocks_from_anchor :: "dag_mempool \<Rightarrow> b32 \<Rightarrow> (b32 \<times> dag_block) list" where
  "ordered_blocks_from_anchor m anchor = walk (dm_blocks m) [anchor] {||} []"

definition ordered_txs_from_anchor :: "dag_mempool \<Rightarrow> b32 \<Rightarrow> l1_tx list" where
  "ordered_txs_from_anchor m anchor = concat (map (db_txs \<circ> snd) (ordered_blocks_from_anchor m anchor))"

declare walk.simps [simp del]

inductive below :: "(b32, dag_block) fmap \<Rightarrow> b32 \<Rightarrow> b32 \<Rightarrow> bool" for blocks anchor where
  self: "below blocks anchor anchor"
| parent: "below blocks anchor i \<Longrightarrow> fmlookup blocks i = Some b \<Longrightarrow> p \<in> set (db_parents b) \<Longrightarrow>
    below blocks anchor p"

lemma walk_prefix: "\<exists>ys. walk blocks stack seen out = out @ ys"
  by (induction blocks stack seen out rule: walk.induct) (auto simp: walk.simps split: option.split)

lemma walk_distinct:
  "distinct (map fst out) \<Longrightarrow> fst ` set out \<subseteq> fset seen \<Longrightarrow>
    distinct (map fst (walk blocks stack seen out))"
  by (induction blocks stack seen out rule: walk.induct) (fastforce simp: walk.simps split: option.split)+

lemma walk_all:
  assumes "\<And>i b p. fmlookup blocks i = Some b \<Longrightarrow> P i \<Longrightarrow> p \<in> set (db_parents b) \<Longrightarrow> P p"
    and "\<forall>i\<in>set stack. P i" and "\<forall>(i, b)\<in>set out. P i \<and> fmlookup blocks i = Some b"
  shows "\<forall>(i, b)\<in>set (walk blocks stack seen out). P i \<and> fmlookup blocks i = Some b"
  using assms
proof (induction blocks stack seen out rule: walk.induct)
  case (1 blocks seen out)
  then show ?case by (simp add: walk.simps)
next
  case (2 blocks i stack seen out)
  show ?case
  proof (cases "i |\<in>| seen")
    case True
    then show ?thesis using "2.IH"(1) [OF True] "2.prems" by (simp add: walk.simps)
  next
    case False
    show ?thesis
    proof (cases "fmlookup blocks i")
      case None
      then show ?thesis using "2.IH"(2) [OF False None] "2.prems" False by (simp add: walk.simps)
    next
      case (Some b)
      have "\<forall>j\<in>set (db_parents b @ stack). P j" using "2.prems" Some by auto
      moreover have "\<forall>(j, c)\<in>set (out @ [(i, b)]). P j \<and> fmlookup blocks j = Some c" using "2.prems" Some by auto
      ultimately show ?thesis using "2.IH"(3) [OF False Some "2.prems"(1)] False Some by (simp add: walk.simps)
    qed
  qed
qed

text \<open>What the loop still owes: every parent of a listed block is seen or on the stack.\<close>

definition pending :: "(b32, dag_block) fmap \<Rightarrow> b32 list \<Rightarrow> b32 fset \<Rightarrow> (b32 \<times> dag_block) list \<Rightarrow> bool" where
  "pending blocks stack seen out \<longleftrightarrow>
     (\<forall>(i, b)\<in>set out. set (db_parents b) \<subseteq> fset seen \<union> set stack) \<and>
     (\<forall>i. i |\<in>| seen \<longrightarrow> i \<in> fst ` set out \<or> fmlookup blocks i = None)"

lemma walk_complete:
  assumes "pending blocks stack seen out"
  shows "\<exists>seen'. pending blocks [] seen' (walk blocks stack seen out) \<and> fset seen \<union> set stack \<subseteq> fset seen'"
  using assms
proof (induction blocks stack seen out rule: walk.induct)
  case (1 blocks seen out)
  then show ?case by (auto simp: walk.simps)
next
  case (2 blocks i stack seen out)
  show ?case
  proof (cases "i |\<in>| seen")
    case True
    have "pending blocks stack seen out" using "2.prems" True by (fastforce simp: pending_def)
    then show ?thesis using "2.IH"(1) [OF True] True by (auto simp: walk.simps)
  next
    case False
    show ?thesis
    proof (cases "fmlookup blocks i")
      case None
      have "pending blocks stack (finsert i seen) out" using "2.prems" None by (fastforce simp: pending_def)
      then show ?thesis using "2.IH"(2) [OF False None] False None by (auto simp: walk.simps)
    next
      case (Some b)
      have "pending blocks (db_parents b @ stack) (finsert i seen) (out @ [(i, b)])"
        using "2.prems" by (fastforce simp: pending_def)
      then show ?thesis using "2.IH"(3) [OF False Some] False Some by (auto simp: walk.simps)
    qed
  qed
qed

lemma ordered_blocks_distinct: "distinct (map fst (ordered_blocks_from_anchor m anchor))"
  unfolding ordered_blocks_from_anchor_def by (rule walk_distinct) simp_all

lemma mem_fst_image: "i \<in> fst ` A \<longleftrightarrow> (\<exists>c. (i, c) \<in> A)"
  by force

lemma ordered_blocks_below:
  "set (ordered_blocks_from_anchor m anchor) = {(i, b). below (dm_blocks m) anchor i \<and> fmlookup (dm_blocks m) i = Some b}"
    (is "?L = ?R")
proof
  have "\<forall>(i, b)\<in>?L. below (dm_blocks m) anchor i \<and> fmlookup (dm_blocks m) i = Some b"
    unfolding ordered_blocks_from_anchor_def
    by (rule walk_all) (auto intro: below.intros)
  then show "?L \<subseteq> ?R" by auto
  have "pending (dm_blocks m) [anchor] {||} []" by (simp add: pending_def)
  from walk_complete [OF this] obtain seen where
    p: "pending (dm_blocks m) [] seen (ordered_blocks_from_anchor m anchor)" and a: "anchor |\<in>| seen"
    by (auto simp: ordered_blocks_from_anchor_def)
  have seen: "i |\<in>| seen" if "below (dm_blocks m) anchor i" for i
    using that
  proof (induction rule: below.induct)
    case self
    show ?case by (rule a)
  next
    case (parent i b q)
    have "\<exists>c. (i, c) \<in> ?L" using p parent.IH parent.hyps(2) by (auto simp: pending_def mem_fst_image)
    then have "(i, b) \<in> ?L" using \<open>?L \<subseteq> ?R\<close> parent.hyps(2) by auto
    then show ?case using p parent.hyps(3) by (auto simp: pending_def)
  qed
  show "?R \<subseteq> ?L"
  proof (rule subrelI)
    fix i b
    assume r: "(i, b) \<in> ?R"
    have i: "fmlookup (dm_blocks m) i = Some b" using r by simp
    have "i |\<in>| seen" by (rule seen) (use r in simp)
    then have "\<exists>c. (i, c) \<in> ?L" using p i by (auto simp: pending_def mem_fst_image)
    then show "(i, b) \<in> ?L" using \<open>?L \<subseteq> ?R\<close> i by auto
  qed
qed

text \<open>The anchor's own transactions come first, before those of the blocks it builds on.\<close>

lemma ordered_blocks_anchor_first:
  assumes "fmlookup (dm_blocks m) anchor = Some b"
  shows "\<exists>rest. ordered_blocks_from_anchor m anchor = (anchor, b) # rest"
  using walk_prefix [of "dm_blocks m" "db_parents b @ []" "{|anchor|}" "[(anchor, b)]"] assms
  by (auto simp: ordered_blocks_from_anchor_def walk.simps)

end
