(* ===== verification/Consensus.thy ===== *)
theory Consensus
  imports Dag Quorum
begin

text \<open>
  The global consensus (\<open>crates/consensus/src/bft.rs\<close>): four validators that vote on blocks of the
  DAG and apply them to the ledger. A broadcast appends to \<open>gv_sent\<close>, the messages sent to every
  outbox so far. The wait of \<open>submit_and_commit\<close> takes the messages that arrive before each look at
  the inbox, a list per round; when the rounds are used up the deadline has passed.
\<close>

section \<open>Errors\<close>

datatype consensus_error =
    QuorumFailed
  | ConsBadSignature
  | Execute string
  | DuplicateTx
  | ConsValidatorKilled

text \<open>\<open>Display\<close> of an execution error.\<close>

fun execute_error_str :: "execute_error \<Rightarrow> string" where
  "execute_error_str UnknownAccount = ''unknown account''"
| "execute_error_str InsufficientAvailable = ''insufficient available balance''"
| "execute_error_str InsufficientStake = ''insufficient stake''"
| "execute_error_str ExecInsufficientShardAllowance = ''insufficient shard allowance''"
| "execute_error_str ConservationBroken = ''conservation broken''"
| "execute_error_str InvalidCheckpoint = ''invalid checkpoint witnesses''"
| "execute_error_str CheckpointAlreadyFinalized = ''checkpoint already finalized''"
| "execute_error_str ExecConflictingCheckpoint = ''conflicting checkpoint''"
| "execute_error_str Suspended = ''account suspended''"
| "execute_error_str AgentExists = ''agent already registered''"
| "execute_error_str UnknownAgent = ''unknown agent''"
| "execute_error_str UnknownContract = ''unknown contract''"
| "execute_error_str CodeHashMismatch = ''code hash mismatch''"
| "execute_error_str (WasmErr m) = ''wasm error: '' @ m"
| "execute_error_str UnknownDispute = ''unknown dispute''"
| "execute_error_str DisputeNotOpen = ''dispute not open''"
| "execute_error_str DisputeExists = ''dispute exists''"
| "execute_error_str AssetExists = ''asset already registered''"
| "execute_error_str UnknownAsset = ''unknown asset''"
| "execute_error_str AssetSymbolTaken = ''asset symbol taken''"
| "execute_error_str NotAssetIssuer = ''not asset issuer''"
| "execute_error_str ExceedsMaxSupply = ''exceeds max supply''"
| "execute_error_str InsufficientAssetUnits = ''insufficient asset units''"
| "execute_error_str ZeroAssetAmount = ''zero asset amount''"
| "execute_error_str AssetConservationBroken = ''asset conservation broken''"
| "execute_error_str SelfTrade = ''self trade forbidden''"

section \<open>State\<close>

datatype global_message =
    MsgPropose dag_block u8
  | MsgVote b32 u8 bytes
  | MsgCommit b32 "(u8 \<times> bytes) list"

record validator_inner =
  gv_id :: u8
  gv_key :: keypair
  gv_peer_keys :: "(u8, vkey) fmap"
  gv_dag :: dag_mempool
  gv_state :: global_state
  gv_alive :: bool
  gv_inbox :: "global_message list"
  gv_outboxes :: "u8 fset"
  gv_sent :: "global_message list"

record commit_outcome =
  co_digest :: b32
  co_applied :: nat
  co_height_hint :: u64

type_synonym 'a consensus = "(validator_inner, consensus_error, 'a) outcome"

definition global_broadcast :: "global_message \<Rightarrow> validator_inner \<Rightarrow> validator_inner" where
  "global_broadcast m s = s\<lparr> gv_sent := gv_sent s @ [m] \<rparr>"

section \<open>Votes\<close>

definition global_sign_digest :: "crypto \<Rightarrow> keypair \<Rightarrow> b32 \<Rightarrow> bytes" where
  "global_sign_digest X kp d = ed_sign X (signing_key kp) (b32_bytes d)"

definition global_verify_digest :: "crypto \<Rightarrow> vkey \<Rightarrow> b32 \<Rightarrow> bytes \<Rightarrow> consensus_error + unit" where
  "global_verify_digest X vk d sig =
     (if length sig \<noteq> 64 then Inl ConsBadSignature
      else if ed_verify X (vkey_bytes vk) (b32_bytes d) sig then Inr () else Inl ConsBadSignature)"

text \<open>The key a voter is checked with: the validator's own, or the configured peer's.\<close>

definition global_voter_key :: "crypto \<Rightarrow> validator_inner \<Rightarrow> u8 \<Rightarrow> vkey option" where
  "global_voter_key X s v =
     (if v = gv_id s then Some (verifying_key X (gv_key s)) else fmlookup (gv_peer_keys s) v)"

definition global_good_vote :: "crypto \<Rightarrow> validator_inner \<Rightarrow> b32 \<Rightarrow> u8 \<Rightarrow> bytes \<Rightarrow> bool" where
  "global_good_vote X s d v sig =
     (case global_voter_key X s v of None \<Rightarrow> False | Some vk \<Rightarrow> global_verify_digest X vk d sig = Inr ())"

definition global_count_good :: "crypto \<Rightarrow> validator_inner \<Rightarrow> b32 \<Rightarrow> (u8 \<times> bytes) list \<Rightarrow> nat" where
  "global_count_good X s d votes = length (filter (\<lambda>(v, sig). global_good_vote X s d v sig) votes)"

section \<open>Applying a block\<close>

fun apply_txs :: "crypto \<Rightarrow> wasm_host \<Rightarrow> l1_tx list \<Rightarrow> global_state \<Rightarrow> (global_state, consensus_error, unit) outcome" where
  "apply_txs X H [] gs = Ok () gs"
| "apply_txs X H (tx # txs) gs =
     (case apply_tx X H tx gs of
        Ok _ g \<Rightarrow> apply_txs X H txs g
      | Err e g \<Rightarrow> if e = CheckpointAlreadyFinalized then apply_txs X H txs g
                   else Err (Execute (execute_error_str e)) g
      | Panic \<Rightarrow> Panic)"

definition apply_block_txs :: "crypto \<Rightarrow> wasm_host \<Rightarrow> dag_block \<Rightarrow> validator_inner \<Rightarrow> unit consensus" where
  "apply_block_txs X H b s =
     (case apply_txs X H (db_txs b) (gv_state s) of
        Ok _ g \<Rightarrow> Ok () (s\<lparr> gv_state := g \<rparr>)
      | Err e g \<Rightarrow> Err e (s\<lparr> gv_state := g \<rparr>)
      | Panic \<Rightarrow> Panic)"

section \<open>Handling a message\<close>

definition global_handle_propose :: "crypto \<Rightarrow> dag_block \<Rightarrow> validator_inner \<Rightarrow> unit consensus" where
  "global_handle_propose X b s =
     ret_or_panic (dag_insert X b (gv_dag s)) (\<lambda>(m, d).
       Ok () (global_broadcast (MsgVote d (gv_id s) (global_sign_digest X (gv_key s) d)) (s\<lparr> gv_dag := m \<rparr>)))"

definition global_handle_commit ::
  "crypto \<Rightarrow> wasm_host \<Rightarrow> b32 \<Rightarrow> (u8 \<times> bytes) list \<Rightarrow> validator_inner \<Rightarrow> unit consensus" where
  "global_handle_commit X H d votes s =
     (if 3 \<le> global_count_good X s d votes then
        (case fmlookup (dm_blocks (gv_dag s)) d of None \<Rightarrow> Ok () s | Some b \<Rightarrow> apply_block_txs X H b s)
      else Ok () s)"

definition handle_msg :: "crypto \<Rightarrow> wasm_host \<Rightarrow> global_message \<Rightarrow> validator_inner \<Rightarrow> unit consensus" where
  "handle_msg X H msg s =
     (if \<not> gv_alive s then Ok () s
      else case msg of
        MsgPropose b leader \<Rightarrow> global_handle_propose X b s
      | MsgCommit d votes \<Rightarrow> global_handle_commit X H d votes s
      | MsgVote d v sig \<Rightarrow> Ok () s)"

text \<open>\<open>let _ = handle_msg(..)\<close>: an error is dropped, with the state it leaves.\<close>

fun ignore_err :: "unit consensus \<Rightarrow> unit consensus" where
  "ignore_err (Ok u s) = Ok u s"
| "ignore_err (Err e s) = Ok () s"
| "ignore_err Panic = Panic"

fun global_drain :: "crypto \<Rightarrow> wasm_host \<Rightarrow> global_message list \<Rightarrow> validator_inner \<Rightarrow> unit consensus" where
  "global_drain X H [] s = Ok () (s\<lparr> gv_inbox := [] \<rparr>)"
| "global_drain X H (m # ms) s =
     and_then (ignore_err (handle_msg X H m (s\<lparr> gv_inbox := ms \<rparr>))) (\<lambda>_ s1. global_drain X H ms s1)"

definition global_pump :: "crypto \<Rightarrow> wasm_host \<Rightarrow> validator_inner \<Rightarrow> unit consensus" where
  "global_pump X H s = (if \<not> gv_alive s then Ok () s else global_drain X H (gv_inbox s) s)"

definition global_kill :: "validator_inner \<Rightarrow> validator_inner" where
  "global_kill s = s\<lparr> gv_alive := False \<rparr>"

definition global_deliver :: "global_message list \<Rightarrow> validator_inner \<Rightarrow> validator_inner" where
  "global_deliver ms s = s\<lparr> gv_inbox := gv_inbox s @ ms \<rparr>"

section \<open>Submitting transactions\<close>

text \<open>The first critical section: a block on the tips, its proposal and the leader's vote.\<close>

definition submit_propose :: "crypto \<Rightarrow> l1_tx list \<Rightarrow> validator_inner \<Rightarrow> (dag_block \<times> b32) consensus" where
  "submit_propose X txs s =
     (if \<not> gv_alive s then Err ConsValidatorKilled s
      else ret_or_panic (dag_propose X (gv_id s) txs (gv_dag s)) (\<lambda>(m, b).
        let s1 = global_broadcast (MsgPropose b (gv_id s)) (s\<lparr> gv_dag := m \<rparr>) in
        ret_or_panic (block_digest X b) (\<lambda>d.
          Ok (b, d) (global_broadcast (MsgVote d (gv_id s1) (global_sign_digest X (gv_key s1) d)) s1))))"

text \<open>One pass over the inbox: votes for the block are collected, the rest is handled.\<close>

fun collect_votes ::
  "crypto \<Rightarrow> wasm_host \<Rightarrow> b32 \<Rightarrow> global_message list \<Rightarrow> (u8, bytes) fmap \<Rightarrow> validator_inner
   \<Rightarrow> (u8, bytes) fmap consensus" where
  "collect_votes X H d [] votes s = Ok votes (s\<lparr> gv_inbox := [] \<rparr>)"
| "collect_votes X H d (m # ms) votes s =
     (let s0 = s\<lparr> gv_inbox := ms \<rparr>;
          other = and_then (ignore_err (handle_msg X H m s0)) (\<lambda>_ s1. collect_votes X H d ms votes s1)
      in case m of
           MsgVote e v sig \<Rightarrow>
             if e = d
             then collect_votes X H d ms (if global_good_vote X s0 d v sig then fmupd v sig votes else votes) s0
             else other
         | _ \<Rightarrow> other)"

fun await_quorum ::
  "crypto \<Rightarrow> wasm_host \<Rightarrow> b32 \<Rightarrow> global_message list list \<Rightarrow> (u8, bytes) fmap \<Rightarrow> validator_inner
   \<Rightarrow> (u8, bytes) fmap consensus" where
  "await_quorum X H d [] votes s = (if fcard (fmdom votes) < 3 then Err QuorumFailed s else Ok votes s)"
| "await_quorum X H d (arrived # rounds) votes s =
     (if fcard (fmdom votes) < 3 then
        (let s1 = global_deliver arrived s in
         and_then (collect_votes X H d (gv_inbox s1) votes s1) (\<lambda>votes' s2. await_quorum X H d rounds votes' s2))
      else Ok votes s)"

text \<open>The votes are sent in the order of the voters' ids; receivers only count them.\<close>

definition submit_and_commit ::
  "crypto \<Rightarrow> wasm_host \<Rightarrow> global_message list list \<Rightarrow> l1_tx list \<Rightarrow> validator_inner \<Rightarrow> commit_outcome consensus" where
  "submit_and_commit X H rounds txs s =
     and_then (submit_propose X txs s) (\<lambda>(b, d) s1.
     and_then (await_quorum X H d rounds (fmupd (gv_id s1) (global_sign_digest X (gv_key s1) d) fmempty) s1)
       (\<lambda>votes s2.
     and_then (apply_block_txs X H b (global_broadcast (MsgCommit d (sorted_list_of_fmap votes)) s2)) (\<lambda>_ s3.
     Ok \<lparr> co_digest = d, co_applied = length (db_txs b), co_height_hint = db_round b \<rparr> s3)))"

section \<open>The cluster of four\<close>

definition new_validator :: "crypto \<Rightarrow> nat \<Rightarrow> (u8 \<Rightarrow> b32) \<Rightarrow> u8 \<Rightarrow> validator_inner" where
  "new_validator X min_witnesses secrets i =
     \<lparr> gv_id = i, gv_key = keypair_from_bytes (secrets i),
       gv_peer_keys = fmap_of_list (map (\<lambda>j. (j, verifying_key X (keypair_from_bytes (secrets j)))) (removeAll i [0, 1, 2, 3])),
       gv_dag = dag_new, gv_state = global_state_new min_witnesses, gv_alive = True, gv_inbox = [],
       gv_outboxes = fset_of_list (removeAll i [0, 1, 2, 3]), gv_sent = [] \<rparr>"

definition cluster4 :: "crypto \<Rightarrow> nat \<Rightarrow> (u8 \<Rightarrow> b32) \<Rightarrow> validator_inner list" where
  "cluster4 X min_witnesses secrets = map (new_validator X min_witnesses secrets) [0, 1, 2, 3]"

definition global_leader :: "validator_inner list \<Rightarrow> validator_inner" where
  "global_leader vs = vs ! 0"

section \<open>What applying a block keeps\<close>

text \<open>
  The contract between the consensus and the ledger it executes on: a transaction keeps the
  ledger good when it succeeds, and an error that is passed over changes nothing. Then a block that
  is applied keeps the ledger good.
\<close>

locale block_executor =
  fixes exec :: "'t \<Rightarrow> 's \<Rightarrow> ('s, 'e, unit) outcome" and tolerated :: "'e \<Rightarrow> bool"
    and good :: "'s \<Rightarrow> bool" and block :: "'t list \<Rightarrow> 's \<Rightarrow> ('s, 'f, unit) outcome"
  assumes keeps: "good s \<Longrightarrow> exec t s = Ok () s' \<Longrightarrow> good s'"
    and passes: "good s \<Longrightarrow> exec t s = Err e s' \<Longrightarrow> tolerated e \<Longrightarrow> s' = s"
    and block_Nil: "block [] s = Ok () s"
    and block_Ok: "exec t s = Ok () s' \<Longrightarrow> block (t # ts) s = block ts s'"
    and block_skip: "exec t s = Err e s' \<Longrightarrow> tolerated e \<Longrightarrow> block (t # ts) s = block ts s'"
    and block_Err: "exec t s = Err e s' \<Longrightarrow> \<not> tolerated e \<Longrightarrow> \<exists>f. block (t # ts) s = Err f s'"
    and block_Panic: "exec t s = Panic \<Longrightarrow> block (t # ts) s = Panic"
begin

lemma block_good: "good s \<Longrightarrow> block ts s = Ok () s' \<Longrightarrow> good s'"
proof (induction ts arbitrary: s)
  case Nil
  then show ?case by (simp add: block_Nil)
next
  case (Cons t ts)
  show ?case
  proof (cases "exec t s")
    case (Ok u m)
    then show ?thesis using Cons.IH [of m] Cons.prems keeps [of s t m] block_Ok [of t s m ts] by simp
  next
    case (Err e m)
    show ?thesis
    proof (cases "tolerated e")
      case True
      then show ?thesis
        using Cons.IH [of m] Cons.prems Err passes [of s t e m] block_skip [of t s e m ts] by simp
    next
      case False
      then show ?thesis using block_Err [OF Err False, of ts] Cons.prems(2) by auto
    qed
  next
    case Panic
    then show ?thesis using block_Panic [of t s ts] Cons.prems(2) by simp
  qed
qed

lemma block_append:
  assumes "block ts s = Ok () m"
  shows "block (ts @ us) s = block us m"
  using assms
proof (induction ts arbitrary: s)
  case Nil
  then show ?case by (simp add: block_Nil)
next
  case (Cons t ts)
  show ?case
  proof (cases "exec t s")
    case (Ok u n)
    then show ?thesis using Cons.IH [of n] Cons.prems block_Ok [of t s n] by simp
  next
    case (Err e n)
    show ?thesis
    proof (cases "tolerated e")
      case True
      then show ?thesis using Cons.IH [of n] Cons.prems block_skip [OF Err] by simp
    next
      case False
      then show ?thesis using block_Err [OF Err False, of ts] Cons.prems by auto
    qed
  next
    case Panic
    then show ?thesis using block_Panic [of t s ts] Cons.prems by simp
  qed
qed

end

lemma run_tx_finalized_Err_same:
  assumes "gs_ok gs" and "apply_tx X H tx gs = Err e s" and "e = CheckpointAlreadyFinalized"
  shows "s = gs"
proof -
  have "escrow_ok gs" using assms(1) by (simp add: gs_ok_def)
  then show ?thesis using run_tx_Err [of gs X H tx e s] assms by (auto simp: apply_tx_run [OF assms(1)])
qed

interpretation ledger_exec: block_executor "apply_tx X H" "\<lambda>e. e = CheckpointAlreadyFinalized" gs_ok "apply_txs X H"
  for X H
  by unfold_locales (auto intro: apply_tx_ok run_tx_finalized_Err_same)

text \<open>A block that is applied leaves what its transactions leave one after the other.\<close>

lemma apply_txs_ledger_after: "apply_txs X H txs gs = Ok u s \<Longrightarrow> s = ledger_after X H gs txs"
  by (induction txs arbitrary: gs) (auto split: outcome.splits if_splits)

lemma apply_block_txs_frame:
  assumes "outcome_state (apply_block_txs X H b s) = Some t"
  shows "\<exists>g. t = s\<lparr> gv_state := g \<rparr>"
  using assms by (auto simp: apply_block_txs_def split: outcome.splits)

section \<open>What a message keeps\<close>

text \<open>The parts of a validator no message changes, and the DAG invariant.\<close>

definition same_voter :: "validator_inner \<Rightarrow> validator_inner \<Rightarrow> bool" where
  "same_voter s t \<longleftrightarrow> gv_id t = gv_id s \<and> gv_key t = gv_key s \<and> gv_peer_keys t = gv_peer_keys s \<and>
     gv_alive t = gv_alive s \<and> gv_outboxes t = gv_outboxes s"

lemma same_voter_trans: "same_voter r s \<Longrightarrow> same_voter s t \<Longrightarrow> same_voter r t"
  by (simp add: same_voter_def)

lemma same_voter_frame [simp]:
  "same_voter s s" "same_voter s (s\<lparr> gv_state := g \<rparr>)" "same_voter s (s\<lparr> gv_dag := m \<rparr>)"
  "same_voter s (s\<lparr> gv_inbox := ms \<rparr>)" "same_voter s (global_broadcast msg s)"
  "same_voter s (global_deliver ms s)"
  by (simp_all add: same_voter_def global_broadcast_def global_deliver_def)

lemma same_voter_good:
  assumes "same_voter s t"
  shows "global_good_vote X t = global_good_vote X s"
  using assms by (intro ext) (simp add: same_voter_def global_good_vote_def global_voter_key_def)

text \<open>A filed block stays filed, or is replaced by one of the same digest.\<close>

definition dag_grows :: "crypto \<Rightarrow> validator_inner \<Rightarrow> validator_inner \<Rightarrow> bool" where
  "dag_grows X s t \<longleftrightarrow> (dag_ok X (gv_dag s) \<longrightarrow> dag_ok X (gv_dag t) \<and>
     fmdom (dm_blocks (gv_dag s)) |\<subseteq>| fmdom (dm_blocks (gv_dag t)))"

lemma dag_grows_trans: "dag_grows X r s \<Longrightarrow> dag_grows X s t \<Longrightarrow> dag_grows X r t"
  by (auto simp: dag_grows_def)

lemma dag_grows_frame [simp]: "gv_dag t = gv_dag s \<Longrightarrow> dag_grows X s t"
  by (simp add: dag_grows_def)

lemma kept_trans:
  "same_voter r s \<and> dag_grows X r s \<Longrightarrow> same_voter s t \<and> dag_grows X s t \<Longrightarrow> same_voter r t \<and> dag_grows X r t"
  using same_voter_trans dag_grows_trans by meson

lemma dag_insert_grows:
  assumes "dag_ok X m" and "dag_insert X b m = Some (m', d)"
  shows "fmdom (dm_blocks m) |\<subseteq>| fmdom (dm_blocks m')"
  using assms(2) by (auto simp: dag_insert_def Let_def split: option.splits)

lemma handle_msg_keeps:
  assumes "outcome_state (handle_msg X H msg s) = Some t"
  shows "same_voter s t \<and> dag_grows X s t"
proof (cases "gv_alive s")
  case alive: True
  show ?thesis
  proof (cases msg)
    case (MsgPropose b l)
    then obtain m d where i: "dag_insert X b (gv_dag s) = Some (m, d)"
      and t: "t = global_broadcast (MsgVote d (gv_id s) (global_sign_digest X (gv_key s) d)) (s\<lparr> gv_dag := m \<rparr>)"
      using assms alive by (cases "dag_insert X b (gv_dag s)") (auto simp: handle_msg_def global_handle_propose_def)
    have "same_voter s t" by (simp add: t same_voter_def global_broadcast_def)
    moreover have "dag_grows X s t"
      using dag_insert_ok(1) [OF _ i] dag_insert_grows [OF _ i] by (auto simp: dag_grows_def t global_broadcast_def)
    ultimately show ?thesis by blast
  next
    case (MsgCommit d votes)
    have "\<exists>g. t = s\<lparr> gv_state := g \<rparr>"
    proof (cases "3 \<le> global_count_good X s d votes \<and> fmlookup (dm_blocks (gv_dag s)) d \<noteq> None")
      case True
      then show ?thesis
        using assms alive MsgCommit apply_block_txs_frame
        by (auto simp: handle_msg_def global_handle_commit_def)
    next
      case False
      then have "t = s" using assms alive MsgCommit
        by (auto simp: handle_msg_def global_handle_commit_def split: if_splits)
      then show ?thesis by (intro exI [of _ "gv_state s"]) simp
    qed
    then show ?thesis by auto
  qed (use assms alive in \<open>simp add: handle_msg_def\<close>)
qed (use assms in \<open>simp add: handle_msg_def\<close>)

lemma ignore_err_Ok: "ignore_err r = Ok u t \<longleftrightarrow> outcome_state r = Some t"
  by (cases r) auto

lemma collect_votes_keeps:
  assumes "collect_votes X H d ms votes s = Ok votes' t"
  shows "same_voter s t \<and> dag_grows X s t"
  using assms
proof (induction ms arbitrary: votes s)
  case Nil
  then show ?case by auto
next
  case (Cons m ms)
  let ?s0 = "s\<lparr> gv_inbox := ms \<rparr>"
  have s0: "same_voter s ?s0 \<and> dag_grows X s ?s0" by simp
  show ?case
  proof (cases "\<exists>v sig. m = MsgVote d v sig")
    case True
    then obtain w where "collect_votes X H d ms w ?s0 = Ok votes' t"
      using Cons.prems by (auto simp: Let_def)
    then show ?thesis using kept_trans [OF s0] Cons.IH by blast
  next
    case False
    then obtain s1 where h: "outcome_state (handle_msg X H m ?s0) = Some s1"
      and c: "collect_votes X H d ms votes s1 = Ok votes' t"
      using Cons.prems by (auto simp: Let_def and_then_Ok ignore_err_Ok split: global_message.splits if_splits)
    show ?thesis by (rule kept_trans [OF s0 kept_trans [OF handle_msg_keeps [OF h] Cons.IH [OF c]]])
  qed
qed

lemma collect_votes_good:
  assumes "collect_votes X H d ms votes s = Ok votes' t"
    and "fmpred (\<lambda>v sig. global_good_vote X s d v sig) votes"
  shows "fmpred (\<lambda>v sig. global_good_vote X s d v sig) votes'"
  using assms
proof (induction ms arbitrary: votes s)
  case Nil
  then show ?case by auto
next
  case (Cons m ms)
  let ?s0 = "s\<lparr> gv_inbox := ms \<rparr>"
  have s0: "global_good_vote X ?s0 = global_good_vote X s" by (rule same_voter_good) simp
  show ?case
  proof (cases "\<exists>v sig. m = MsgVote d v sig")
    case True
    then obtain v sig where m: "m = MsgVote d v sig" by blast
    let ?w = "if global_good_vote X s d v sig then fmupd v sig votes else votes"
    have "collect_votes X H d ms ?w ?s0 = Ok votes' t" using Cons.prems(1) by (simp add: m s0)
    moreover have "fmpred (\<lambda>v sig. global_good_vote X s d v sig) ?w" using Cons.prems(2) by auto
    ultimately show ?thesis using Cons.IH [of ?w ?s0] by (simp add: s0)
  next
    case False
    then obtain s1 where h: "outcome_state (handle_msg X H m ?s0) = Some s1"
      and c: "collect_votes X H d ms votes s1 = Ok votes' t"
      using Cons.prems(1) by (auto simp: Let_def and_then_Ok ignore_err_Ok split: global_message.splits if_splits)
    have "global_good_vote X s1 = global_good_vote X s"
      using same_voter_good [OF conjunct1 [OF handle_msg_keeps [OF h]], of X] by (simp add: s0)
    then show ?thesis using Cons.IH [OF c] Cons.prems(2) by simp
  qed
qed

lemma await_quorum_Ok:
  assumes "await_quorum X H d rounds votes s = Ok votes' t"
    and "fmpred (\<lambda>v sig. global_good_vote X s d v sig) votes"
  shows "fmpred (\<lambda>v sig. global_good_vote X s d v sig) votes' \<and> 3 \<le> fcard (fmdom votes') \<and>
    same_voter s t \<and> dag_grows X s t"
  using assms
proof (induction rounds arbitrary: votes s)
  case Nil
  then show ?case by (auto split: if_splits)
next
  case (Cons arrived rounds)
  show ?case
  proof (cases "fcard (fmdom votes) < 3")
    case True
    let ?s1 = "global_deliver arrived s"
    from True Cons.prems(1) obtain w s2 where c: "collect_votes X H d (gv_inbox ?s1) votes ?s1 = Ok w s2"
      and a: "await_quorum X H d rounds w s2 = Ok votes' t"
      by (auto simp: Let_def and_then_Ok)
    have s1: "global_good_vote X ?s1 = global_good_vote X s" by (rule same_voter_good) simp
    have d1: "dag_grows X s ?s1" by (simp add: global_deliver_def)
    have k: "same_voter ?s1 s2 \<and> dag_grows X ?s1 s2" by (rule collect_votes_keeps [OF c])
    have s2: "global_good_vote X s2 = global_good_vote X s" using same_voter_good [OF conjunct1 [OF k], of X] by (simp add: s1)
    have "fmpred (\<lambda>v sig. global_good_vote X s2 d v sig) w"
      using collect_votes_good [OF c] Cons.prems(2) by (simp add: s1 s2)
    then have "fmpred (\<lambda>v sig. global_good_vote X s d v sig) votes' \<and> 3 \<le> fcard (fmdom votes') \<and>
        same_voter s2 t \<and> dag_grows X s2 t"
      using Cons.IH [OF a] by (simp add: s2)
    moreover have "same_voter s s2 \<and> dag_grows X s s2" by (rule kept_trans [OF _ k]) (simp add: d1)
    ultimately show ?thesis using kept_trans [of s s2 X t] by blast
  next
    case False
    then show ?thesis using Cons.prems by auto
  qed
qed

end
