(* ===== verification/Consensus_Theorems.thy ===== *)
theory Consensus_Theorems
  imports Consensus
begin

text \<open>
  The theorems about the global consensus: the traversal of the DAG, what a commit needs and does,
  and what the order of commits decides. The sample validators are two members of a cluster of four that hold
  the same block.
\<close>

section \<open>Commits on one validator\<close>

lemma global_own_vote_good:
  assumes "crypto_ok X"
  shows "global_good_vote X s d (gv_id s) (global_sign_digest X (gv_key s) d)"
  using assms by (simp add: global_good_vote_def global_voter_key_def global_verify_digest_def
      global_sign_digest_def verifying_key_def)

lemma submit_propose_Ok:
  assumes "dag_ok X (gv_dag s)" and "submit_propose X txs s = Ok (b, d) t"
  shows "gv_alive s" and "same_voter s t" and "dag_grows X s t" and "block_digest X b = Some d"
    and "db_txs b = txs" and "db_author b = gv_id s" and "db_parents b = dm_tips (gv_dag s)"
    and "db_round b = dm_next_round (gv_dag s)" and "MsgPropose b (gv_id s) \<in> set (gv_sent t)"
    and "gv_state t = gv_state s"
proof -
  obtain m where alive: "gv_alive s" and p: "dag_propose X (gv_id s) txs (gv_dag s) = Some (m, b)"
    and d: "block_digest X b = Some d"
    and t: "t = global_broadcast (MsgVote d (gv_id s) (global_sign_digest X (gv_key s) d))
      (global_broadcast (MsgPropose b (gv_id s)) (s\<lparr> gv_dag := m \<rparr>))"
    using assms(2)
    by (auto simp: submit_propose_def outcome_iff Let_def global_broadcast_def split: if_splits)
  show "gv_alive s" "block_digest X b = Some d" by (fact alive, fact d)
  show "same_voter s t" "MsgPropose b (gv_id s) \<in> set (gv_sent t)" "gv_state t = gv_state s"
    by (simp_all add: t same_voter_def global_broadcast_def)
  have a: "db_author b = gv_id s" and g: "fmdom (dm_blocks (gv_dag s)) |\<subseteq>| fmdom (dm_blocks m)"
    using p by (auto simp: dag_propose_def dag_insert_def Let_def split: option.splits)
  note dp = dag_propose_ok [OF assms(1) p]
  show "dag_grows X s t" using dp(1) g by (simp add: dag_grows_def t global_broadcast_def)
  show "db_txs b = txs" "db_author b = gv_id s" "db_parents b = dm_tips (gv_dag s)"
    "db_round b = dm_next_round (gv_dag s)" using dp(2,3,4) a by simp_all
qed

text \<open>A commit with enough good votes applies the block filed under its digest.\<close>

lemma handle_commit_applies:
  assumes "gv_alive s" and "3 \<le> global_count_good X s d votes" and "fmlookup (dm_blocks (gv_dag s)) d = Some b"
  shows "handle_msg X H (MsgCommit d votes) s = apply_block_txs X H b s"
  using assms by (simp add: handle_msg_def global_handle_commit_def)

lemma global_count_good_replicate:
  assumes "global_good_vote X s d v sig"
  shows "global_count_good X s d (replicate n (v, sig)) = n"
  using assms by (simp add: global_count_good_def)

section \<open>Replicas\<close>

text \<open>Two validators that check votes with the same keys, hold the same ledger, and are both alive.\<close>

definition replicas :: "crypto \<Rightarrow> validator_inner \<Rightarrow> validator_inner \<Rightarrow> bool" where
  "replicas X s t \<longleftrightarrow> gv_state s = gv_state t \<and> gv_alive s \<and> gv_alive t \<and>
     global_voter_key X s = global_voter_key X t"

lemma voter_key_frame [simp]:
  "global_voter_key X (s\<lparr> gv_state := g \<rparr>) = global_voter_key X s"
  "global_voter_key X (s\<lparr> gv_inbox := ms \<rparr>) = global_voter_key X s"
  "global_voter_key X (s\<lparr> gv_state := g, gv_inbox := ms \<rparr>) = global_voter_key X s"
  by (simp_all add: global_voter_key_def fun_eq_iff)

lemma replicas_count: "replicas X s t \<Longrightarrow> global_count_good X t d votes = global_count_good X s d votes"
  by (simp add: replicas_def global_count_good_def global_good_vote_def)

text \<open>Two commits in an inbox: what the two blocks do to the ledger, one after the other.\<close>

lemma two_commits_pump:
  assumes "gv_alive s" and "gv_inbox s = [MsgCommit d votes, MsgCommit e votes']"
    and "3 \<le> global_count_good X s d votes" and "3 \<le> global_count_good X s e votes'"
    and "fmlookup (dm_blocks (gv_dag s)) d = Some b" and "fmlookup (dm_blocks (gv_dag s)) e = Some c"
    and "apply_txs X H (db_txs b) (gv_state s) = Ok () g"
    and "outcome_state (apply_txs X H (db_txs c) g) = Some h"
  shows "\<exists>t. global_pump X H s = Ok () t \<and> gv_state t = h"
proof -
  let ?s0 = "s\<lparr> gv_inbox := [MsgCommit e votes'] \<rparr>" and ?s1 = "s\<lparr> gv_inbox := [MsgCommit e votes'], gv_state := g \<rparr>"
  let ?s2 = "s\<lparr> gv_state := g, gv_inbox := [] \<rparr>"
  have count: "global_count_good X u f vs = global_count_good X s f vs" if "same_voter s u" for u f vs
    using same_voter_good [OF that, of X] by (simp add: global_count_good_def)
  have "handle_msg X H (MsgCommit d votes) ?s0 = Ok () ?s1"
    using handle_commit_applies [of ?s0 X d votes b H] count [of ?s0] assms(1,3,5,7) by (simp add: apply_block_txs_def)
  moreover have "outcome_state (handle_msg X H (MsgCommit e votes') ?s2) = Some (?s2\<lparr> gv_state := h \<rparr>)"
    using handle_commit_applies [of ?s2 X e votes' c H] count [of ?s2] assms(1,4,6,8)
    by (cases "apply_txs X H (db_txs c) g") (simp_all add: apply_block_txs_def same_voter_def)
  then have "ignore_err (handle_msg X H (MsgCommit e votes') ?s2) = Ok () (?s2\<lparr> gv_state := h \<rparr>)"
    by (simp add: ignore_err_Ok)
  ultimately show ?thesis using assms(1,2) by (simp add: global_pump_def)
qed

text \<open>In a new cluster all validators check votes with the same keys.\<close>

lemma cluster_keys:
  assumes "i \<in> {0, 1, 2, 3}"
  shows "global_voter_key X (new_validator X w secrets i) v =
    (if v \<in> {0, 1, 2, 3} then Some (verifying_key X (keypair_from_bytes (secrets v))) else None)"
proof -
  have "map_of (map (\<lambda>j. (j, f j)) ks) v = (if v \<in> set ks then Some (f v) else None)" for f :: "u8 \<Rightarrow> vkey" and ks
    by (induction ks) auto
  then show ?thesis using assms by (auto simp: global_voter_key_def new_validator_def fmlookup_of_list)
qed

section \<open>Sample validators\<close>

definition sample_block :: dag_block where
  "sample_block = \<lparr> db_author = 0, db_round = 0, db_parents = [], db_txs = [GenesisFund (AccountId 1) (AmountMicros 5)] \<rparr>"

definition sample_digest :: b32 where
  "sample_digest = the (block_digest sample_crypto sample_block)"

definition sample_dag :: dag_mempool where
  "sample_dag = \<lparr> dm_blocks = fmupd sample_digest sample_block fmempty, dm_tips = [sample_digest], dm_next_round = 1 \<rparr>"

definition sample_validator :: "u8 \<Rightarrow> validator_inner" where
  "sample_validator i = (new_validator sample_crypto 0 ucast i)\<lparr> gv_dag := sample_dag \<rparr>"

text \<open>A commit of the sample block that carries one vote of validator 0, three times.\<close>

definition sample_commit :: global_message where
  "sample_commit = MsgCommit sample_digest
     (replicate 3 (0, global_sign_digest sample_crypto (keypair_from_bytes 0) sample_digest))"

lemma sample_block_digest: "block_digest sample_crypto b = Some (blake3 sample_crypto (enc (ser_block b)))"
  by (simp add: block_digest_def)

lemma sample_dag_ok: "dag_ok sample_crypto sample_dag"
  by (simp add: dag_ok_def sample_dag_def sample_digest_def sample_block_digest fmpred_iff)

lemma sample_vote_good:
  assumes "i \<in> {0, 1, 2, 3}"
  shows "global_good_vote sample_crypto (sample_validator i) d 0 (global_sign_digest sample_crypto (keypair_from_bytes 0) d)"
proof -
  have "global_voter_key sample_crypto (sample_validator i) 0 = global_voter_key sample_crypto (new_validator sample_crypto 0 ucast i) 0"
    by (simp add: sample_validator_def global_voter_key_def)
  then have "global_voter_key sample_crypto (sample_validator i) 0 = Some (verifying_key sample_crypto (keypair_from_bytes 0))"
    using cluster_keys [OF assms, of sample_crypto 0 ucast 0] by simp
  then show ?thesis
    by (simp add: global_good_vote_def global_verify_digest_def global_sign_digest_def verifying_key_def)
qed

lemma sample_validator_fields [simp]:
  "gv_alive (sample_validator i)" "gv_dag (sample_validator i) = sample_dag" "gv_id (sample_validator i) = i"
  "gv_state (sample_validator i) = global_state_new 0" "gv_inbox (sample_validator i) = []"
  by (simp_all add: sample_validator_def new_validator_def)

lemma sample_genesis:
  "\<exists>g. apply_tx sample_crypto sample_wasm (GenesisFund (AccountId 1) (AmountMicros 5)) (global_state_new 0) = Ok () g"
  unfolding apply_tx_run [OF gs_ok_new]
  by (simp add: genesis_fund_def global_state_new_def new_human_def chk_add_def)

lemma genesis_applies:
  assumes "gs_ok g" and "supply_of g + amt n < 2 ^ 128"
  shows "\<exists>h. apply_tx X H (GenesisFund k n) g = Ok () h \<and> gs_ok h \<and> supply_of h = supply_of g + amt n"
proof -
  have "run_tx X H (GenesisFund k n) g \<noteq> Panic" by (rule run_tx_no_panic) (use assms in \<open>simp_all add: gs_ok_def\<close>)
  then obtain h where h: "genesis_fund k n g = Ok () h"
    by (auto simp: genesis_fund_def Let_def ret_or_panic_def split: option.splits)
  then show ?thesis
    using run_tx_ok [OF assms(1), of X H "GenesisFund k n" "()" h] genesis_fund_money(2) [OF h]
    by (simp add: apply_tx_run [OF assms(1)])
qed

section \<open>Theorems\<close>

text \<open>C26: The traversal below an anchor lists every filed block that the anchor reaches over parent
  links, each once, the anchor itself first; the ordered transactions are theirs, in that
  order.\<close>

theorem dag_traversal_exact:
  "\<exists>visited. distinct (map fst visited) \<and>
     set visited = {(i, b). below (dm_blocks m) anchor i \<and> fmlookup (dm_blocks m) i = Some b} \<and>
     ordered_txs_from_anchor m anchor = concat (map (\<lambda>(i, b). db_txs b) visited) \<and>
     (case fmlookup (dm_blocks m) anchor of
        None \<Rightarrow> visited = [] | Some b \<Rightarrow> \<exists>older. visited = (anchor, b) # older)"
proof (intro exI [of _ "ordered_blocks_from_anchor m anchor"] conjI)
  show "ordered_txs_from_anchor m anchor = concat (map (\<lambda>(i, b). db_txs b) (ordered_blocks_from_anchor m anchor))"
    unfolding ordered_txs_from_anchor_def by (intro arg_cong [where f = concat] map_cong) auto
  show "case fmlookup (dm_blocks m) anchor of
        None \<Rightarrow> ordered_blocks_from_anchor m anchor = []
      | Some b \<Rightarrow> \<exists>older. ordered_blocks_from_anchor m anchor = (anchor, b) # older"
    using ordered_blocks_anchor_first [of m anchor]
    by (auto simp: ordered_blocks_from_anchor_def walk.simps split: option.split)
qed (rule ordered_blocks_distinct, rule ordered_blocks_below)

text \<open>A submission that succeeds has a quorum: the new block, on the validator's tips and in its
  round, carries the transactions and was proposed; a commit was broadcast with the votes of
  at least three different voters, each valid over the block's digest; and the transactions
  were applied to the ledger the validator had by then.\<close>

lemma submission_needs_quorum:
  assumes "crypto_ok X" and "dag_ok X (gv_dag s)" and "submit_and_commit X H rounds txs s = Ok out t"
  shows "\<exists>b votes g. block_digest X b = Some (co_digest out) \<and> db_txs b = txs \<and> db_author b = gv_id s
    \<and> db_parents b = dm_tips (gv_dag s) \<and> db_round b = dm_next_round (gv_dag s)
    \<and> co_applied out = length txs \<and> co_height_hint out = dm_next_round (gv_dag s)
    \<and> MsgCommit (co_digest out) votes \<in> set (gv_sent t) \<and> 3 \<le> card (fst ` set votes)
    \<and> list_all (\<lambda>(v, sig). global_good_vote X s (co_digest out) v sig) votes
    \<and> apply_txs X H txs g = Ok () (gv_state t) \<and> dag_ok X (gv_dag t)"
proof -
  obtain b d s1 votes s2 s3 where p: "submit_propose X txs s = Ok (b, d) s1"
    and a: "await_quorum X H d rounds (fmupd (gv_id s1) (global_sign_digest X (gv_key s1) d) fmempty) s1 = Ok votes s2"
    and c: "apply_block_txs X H b (global_broadcast (MsgCommit d (sorted_list_of_fmap votes)) s2) = Ok () s3"
    and out: "out = \<lparr> co_digest = d, co_applied = length (db_txs b), co_height_hint = db_round b \<rparr>" and t: "t = s3"
    using assms(3) by (auto simp: submit_and_commit_def outcome_iff)
  note pr = submit_propose_Ok [OF assms(2) p]
  have "fmpred (\<lambda>v sig. global_good_vote X s1 d v sig) (fmupd (gv_id s1) (global_sign_digest X (gv_key s1) d) fmempty)"
    using global_own_vote_good [OF assms(1)] by auto
  note q = await_quorum_Ok [OF a this]
  obtain g where s3: "s3 = (global_broadcast (MsgCommit d (sorted_list_of_fmap votes)) s2)\<lparr> gv_state := g \<rparr>"
    and g: "apply_txs X H (db_txs b) (gv_state s2) = Ok () g"
    using c by (auto simp: apply_block_txs_def global_broadcast_def split: outcome.splits)
  have votes: "set (sorted_list_of_fmap votes) = {(v, sig). fmlookup votes v = Some sig}"
    by (auto simp: sorted_list_of_fmap_def fmlookup_dom_iff image_iff)
  have good: "global_good_vote X s1 = global_good_vote X s" by (rule same_voter_good [OF pr(2)])
  have "fst ` set (sorted_list_of_fmap votes) = fset (fmdom votes)"
    by (force simp: votes fmlookup_dom_iff image_iff)
  then have "3 \<le> card (fst ` set (sorted_list_of_fmap votes))" using q by (simp add: fcard.rep_eq)
  moreover have "list_all (\<lambda>(v, sig). global_good_vote X s d v sig) (sorted_list_of_fmap votes)"
    using q by (auto simp: votes list_all_iff fmpred_iff good)
  moreover have "dag_ok X (gv_dag t)"
    using q pr(3) assms(2) by (simp add: dag_grows_def t s3 global_broadcast_def)
  moreover have "MsgCommit d (sorted_list_of_fmap votes) \<in> set (gv_sent t)" "gv_state t = g"
    by (simp_all add: t s3 global_broadcast_def)
  ultimately show ?thesis using pr g out by (intro exI [of _ b] exI [of _ "sorted_list_of_fmap votes"] exI [of _ "gv_state s2"]) simp
qed

lemma sample_peer_vote:
  "global_good_vote sample_crypto (sample_validator 0) d 1 (global_sign_digest sample_crypto (keypair_from_bytes 1) d)"
  "global_good_vote sample_crypto (sample_validator 0) d 2 (global_sign_digest sample_crypto (keypair_from_bytes 2) d)"
proof -
  have "global_voter_key sample_crypto (sample_validator 0) v = global_voter_key sample_crypto (new_validator sample_crypto 0 ucast 0) v" for v
    by (simp add: sample_validator_def global_voter_key_def)
  then have "global_voter_key sample_crypto (sample_validator 0) 1 = Some (verifying_key sample_crypto (keypair_from_bytes 1))"
    "global_voter_key sample_crypto (sample_validator 0) 2 = Some (verifying_key sample_crypto (keypair_from_bytes 2))"
    using cluster_keys [of 0 sample_crypto 0 ucast 1] cluster_keys [of 0 sample_crypto 0 ucast 2] by simp_all
  then show "global_good_vote sample_crypto (sample_validator 0) d 1 (global_sign_digest sample_crypto (keypair_from_bytes 1) d)"
    "global_good_vote sample_crypto (sample_validator 0) d 2 (global_sign_digest sample_crypto (keypair_from_bytes 2) d)"
    by (simp_all add: global_good_vote_def global_verify_digest_def global_sign_digest_def verifying_key_def)
qed

lemma collect_two_votes:
  assumes "global_good_vote X s d v sv" and "global_good_vote X s d w sw"
  shows "collect_votes X H d [MsgVote d v sv, MsgVote d w sw] votes s = Ok (fmupd w sw (fmupd v sv votes)) (s\<lparr> gv_inbox := [] \<rparr>)"
proof -
  have "global_good_vote X (s\<lparr> gv_inbox := ms \<rparr>) = global_good_vote X s" for ms by (rule same_voter_good) simp
  then show ?thesis using assms by (simp add: Let_def)
qed

lemma sample_submission:
  "\<exists>rounds t. submit_and_commit sample_crypto sample_wasm rounds [GenesisFund (AccountId 1) (AmountMicros 5)]
     (new_validator sample_crypto 0 ucast 0)
     = Ok \<lparr> co_digest = sample_digest, co_applied = 1, co_height_hint = 0 \<rparr> t"
proof -
  let ?s = "new_validator sample_crypto 0 ucast 0"
  let ?sig = "\<lambda>i. global_sign_digest sample_crypto (keypair_from_bytes i) sample_digest"
  have d: "block_digest sample_crypto sample_block = Some sample_digest"
    by (simp add: sample_digest_def sample_block_digest)
  have "dag_propose sample_crypto 0 [GenesisFund (AccountId 1) (AmountMicros 5)] dag_new = Some (sample_dag, sample_block)"
    using d by (simp add: dag_propose_def dag_insert_def dag_new_def sample_dag_def chk_add_def sample_block_def Let_def)
  then obtain s1 where p: "submit_propose sample_crypto [GenesisFund (AccountId 1) (AmountMicros 5)] ?s = Ok (sample_block, sample_digest) s1"
    and s1: "same_voter (sample_validator 0) s1" "gv_inbox s1 = []" "gv_state s1 = global_state_new 0" "gv_id s1 = 0"
    using d by (simp add: submit_propose_def new_validator_def sample_validator_def same_voter_def
        global_broadcast_def Let_def)
  let ?s2 = "global_deliver [MsgVote sample_digest 1 (?sig 1), MsgVote sample_digest 2 (?sig 2)] s1"
  have "same_voter (sample_validator 0) ?s2" using s1(1) by (simp add: same_voter_def global_deliver_def)
  then have good: "global_good_vote sample_crypto ?s2 = global_good_vote sample_crypto (sample_validator 0)"
    by (rule same_voter_good)
  have "gv_inbox ?s2 = [MsgVote sample_digest 1 (?sig 1), MsgVote sample_digest 2 (?sig 2)]"
    by (simp add: global_deliver_def s1(2))
  then have a: "await_quorum sample_crypto sample_wasm sample_digest
      [[MsgVote sample_digest 1 (?sig 1), MsgVote sample_digest 2 (?sig 2)]]
      (fmupd 0 x fmempty) s1 = Ok (fmupd 2 (?sig 2) (fmupd 1 (?sig 1) (fmupd 0 x fmempty))) (?s2\<lparr> gv_inbox := [] \<rparr>)" for x
    using collect_two_votes [of sample_crypto ?s2 sample_digest 1 "?sig 1" 2 "?sig 2" sample_wasm "fmupd 0 x fmempty"]
      sample_peer_vote [of sample_digest]
    by (simp add: good fcard.rep_eq)
  let ?votes = "\<lambda>x. fmupd 2 (?sig 2) (fmupd 1 (?sig 1) (fmupd 0 x fmempty))"
  let ?s3 = "\<lambda>x. global_broadcast (MsgCommit sample_digest (sorted_list_of_fmap (?votes x))) (?s2\<lparr> gv_inbox := [] \<rparr>)"
  obtain g where g: "apply_txs sample_crypto sample_wasm (db_txs sample_block) (global_state_new 0) = Ok () g"
    using sample_genesis by (auto simp: sample_block_def)
  have "gv_state (?s3 x) = global_state_new 0" for x by (simp add: global_broadcast_def global_deliver_def s1(3))
  then have b: "apply_block_txs sample_crypto sample_wasm sample_block (?s3 x) = Ok () (?s3 x\<lparr> gv_state := g \<rparr>)" for x
    by (simp add: apply_block_txs_def g)
  have "length (db_txs sample_block) = 1" "db_round sample_block = 0" by (simp_all add: sample_block_def)
  then show ?thesis
    by (intro exI [of _ "[[MsgVote sample_digest 1 (?sig 1), MsgVote sample_digest 2 (?sig 2)]]"])
      (simp add: submit_and_commit_def p a s1(4) b del: await_quorum.simps)
qed

lemma submission_needs_quorum_witness:
  "\<exists>(t :: validator_inner) votes g. MsgCommit sample_digest votes \<in> set (gv_sent t) \<and> 3 \<le> card (fst ` set votes) \<and>
     apply_txs sample_crypto sample_wasm [GenesisFund (AccountId 1) (AmountMicros 5)] g = Ok () (gv_state t)"
proof -
  obtain rounds t where "submit_and_commit sample_crypto sample_wasm rounds [GenesisFund (AccountId 1) (AmountMicros 5)]
     (new_validator sample_crypto 0 ucast 0) = Ok \<lparr> co_digest = sample_digest, co_applied = 1, co_height_hint = 0 \<rparr> t"
    using sample_submission by blast
  note run = this
  have "dag_ok sample_crypto (gv_dag (new_validator sample_crypto 0 ucast 0))"
    by (simp add: new_validator_def dag_ok_new)
  from submission_needs_quorum [OF sample_crypto_ok this run, unfolded commit_outcome.select_convs]
  obtain b :: dag_block and votes g where "MsgCommit sample_digest votes \<in> set (gv_sent t)" "3 \<le> card (fst ` set votes)"
    "apply_txs sample_crypto sample_wasm [GenesisFund (AccountId 1) (AmountMicros 5)] g = Ok () (gv_state t)"
    by (elim exE conjE)
  then show ?thesis by blast
qed

text \<open>A block that is applied to a good ledger leaves a good ledger, namely the one its
  transactions leave one after the other, and the rest of the validator as it was.\<close>

lemma applied_block_keeps_ledger_good:
  assumes "gs_ok (gv_state s)" and "apply_block_txs X H b s = Ok u t"
  shows "gs_ok (gv_state t) \<and> t = s\<lparr> gv_state := ledger_after X H (gv_state s) (db_txs b) \<rparr>"
proof -
  obtain g where g: "apply_txs X H (db_txs b) (gv_state s) = Ok () g" and t: "t = s\<lparr> gv_state := g \<rparr>"
    using assms(2) by (auto simp: apply_block_txs_def split: outcome.splits)
  show ?thesis using ledger_exec.block_good [OF assms(1) g] apply_txs_ledger_after [OF g] by (simp add: t)
qed

lemma sample_block_applies:
  "\<exists>t. apply_block_txs sample_crypto sample_wasm sample_block (sample_validator i) = Ok () t"
  using sample_genesis by (auto simp: apply_block_txs_def sample_block_def)

lemma applied_block_keeps_ledger_good_witness:
  "gs_ok (ledger_after sample_crypto sample_wasm (global_state_new 0) [GenesisFund (AccountId 1) (AmountMicros 5)])"
proof -
  obtain t where "apply_block_txs sample_crypto sample_wasm sample_block (sample_validator 1) = Ok () t"
    using sample_block_applies by blast
  then show ?thesis
    using applied_block_keeps_ledger_good [of "sample_validator 1" sample_crypto sample_wasm sample_block "()" t]
    by (auto simp: sample_block_def)
qed

text \<open>A registration goes through on a good ledger that has neither the asset nor the symbol, and then
  every registration under that symbol is refused.\<close>

lemma registration_applies:
  assumes "gs_ok gs" and "ensure_active k gs = Inr ()" and "fmlookup (gs_assets gs) i = None"
    and "fmlookup (gs_asset_symbols gs) (to_ascii_uppercase sy) = None" and "sy \<noteq> []" and "m \<noteq> 0"
  shows "\<exists>g. apply_txs X H [RegisterAsset i k sy nm q m] gs = Ok () g \<and> gs_ok g
    \<and> fmlookup (gs_asset_symbols g) (to_ascii_uppercase sy) = Some i"
proof -
  have "to_ascii_uppercase sy \<noteq> []" using assms(5) by (simp add: to_ascii_uppercase_def)
  then obtain g where g: "run_tx X H (RegisterAsset i k sy nm q m) gs = Ok () g"
    and look: "fmlookup (gs_asset_symbols g) (to_ascii_uppercase sy) = Some i"
    using assms by (simp add: register_asset_def check_then_def Let_def fmlookup_dom_iff push_event_def)
  then show ?thesis using run_tx_ok [OF assms(1) g] by (simp add: apply_tx_run [OF assms(1)])
qed

lemma registration_refused:
  assumes "gs_ok gs" and "fmlookup (gs_asset_symbols gs) (to_ascii_uppercase sy) = Some i"
  shows "outcome_state (apply_txs X H [RegisterAsset j l sy nm q m] gs) = Some gs"
proof -
  have "to_ascii_uppercase sy |\<in>| fmdom (gs_asset_symbols gs)" using assms(2) by (rule fmdomI)
  then have "\<exists>e. register_asset j l sy nm q m gs = Err e gs"
    by (auto simp: register_asset_def Let_def check_then_def split: sum.splits)
  then obtain e where "apply_tx X H (RegisterAsset j l sy nm q m) gs = Err e gs"
    by (auto simp: apply_tx_run [OF assms(1)])
  then show ?thesis by simp
qed

lemma registrations_pump:
  assumes "gv_alive s" and "gs_ok (gv_state s)"
    and "gv_inbox s = [MsgCommit d votes, MsgCommit e votes']"
    and "3 \<le> global_count_good X s d votes" and "3 \<le> global_count_good X s e votes'"
    and "fmlookup (dm_blocks (gv_dag s)) d = Some b" and "db_txs b = [RegisterAsset i k sy nm q m]"
    and "fmlookup (dm_blocks (gv_dag s)) e = Some c" and "db_txs c = [RegisterAsset j l sz nn r n]"
    and "ensure_active k (gv_state s) = Inr ()" and "fmlookup (gs_assets (gv_state s)) i = None"
    and "fmlookup (gs_asset_symbols (gv_state s)) (to_ascii_uppercase sy) = None" and "sy \<noteq> []" and "m \<noteq> 0"
    and "to_ascii_uppercase sz = to_ascii_uppercase sy"
  shows "\<exists>t. global_pump X H s = Ok () t \<and> fmlookup (gs_asset_symbols (gv_state t)) (to_ascii_uppercase sy) = Some i"
proof -
  obtain g where g: "apply_txs X H (db_txs b) (gv_state s) = Ok () g" "gs_ok g"
    and look: "fmlookup (gs_asset_symbols g) (to_ascii_uppercase sy) = Some i"
    using registration_applies [OF assms(2,10-14), of X H] unfolding assms(7) by blast
  have "outcome_state (apply_txs X H (db_txs c) g) = Some g"
    unfolding assms(9) using registration_refused [OF g(2)] look assms(15) by metis
  then show ?thesis using two_commits_pump [OF assms(1,3,4,5,6,8) g(1)] look by blast
qed

text \<open>C18: Nothing orders the commits of concurrent submissions, and the ledgers of live replicas can part
  for good: two validators with the same ledger, the same keys for checking votes and the same
  two blocks, each block with its quorum of votes and each registering an asset under one and the
  same symbol, handle both commits, one in one order and the other in the other. Both carry on,
  with the symbol bound to different assets, and no transactions executed afterwards on either
  ever bind it to the same.\<close>

theorem commit_order_splits_replicas:
  assumes "replicas X s t" and "gs_ok (gv_state s)" and "i \<noteq> j"
    and "3 \<le> global_count_good X s d votes" and "3 \<le> global_count_good X s e votes'"
    and "\<forall>v \<in> {s, t}. fmlookup (dm_blocks (gv_dag v)) d = Some b \<and> fmlookup (dm_blocks (gv_dag v)) e = Some c"
    and "db_txs b = [RegisterAsset i k sy nm q m]" and "db_txs c = [RegisterAsset j l sz nn r n]"
    and "ensure_active k (gv_state s) = Inr ()" and "ensure_active l (gv_state s) = Inr ()"
    and "fmlookup (gs_assets (gv_state s)) i = None" and "fmlookup (gs_assets (gv_state s)) j = None"
    and "to_ascii_uppercase sz = to_ascii_uppercase sy"
    and "fmlookup (gs_asset_symbols (gv_state s)) (to_ascii_uppercase sy) = None"
    and "sy \<noteq> []" and "m \<noteq> 0" and "n \<noteq> 0"
    and "gv_inbox s = [MsgCommit d votes, MsgCommit e votes']" and "gv_inbox t = [MsgCommit e votes', MsgCommit d votes]"
  shows "\<exists>s' t'. global_pump X H s = Ok () s' \<and> global_pump X H t = Ok () t' \<and>
    (\<forall>txs txs'. fmlookup (gs_asset_symbols (ledger_after X H (gv_state s') txs)) (to_ascii_uppercase sy)
       \<noteq> fmlookup (gs_asset_symbols (ledger_after X H (gv_state t') txs')) (to_ascii_uppercase sy))"
proof -
  have t: "gv_alive s" "gv_alive t" "gv_state t = gv_state s" using assms(1) by (auto simp: replicas_def)
  have sz: "sz \<noteq> []" using assms(13,15) by (auto simp: to_ascii_uppercase_def)
  obtain s' where s': "global_pump X H s = Ok () s'"
      "fmlookup (gs_asset_symbols (gv_state s')) (to_ascii_uppercase sy) = Some i"
    using registrations_pump [OF t(1) assms(2,18,4,5) _ assms(7) _ assms(8,9,11,14,15,16,13), of H] assms(6) by blast
  obtain t' where t': "global_pump X H t = Ok () t'"
      "fmlookup (gs_asset_symbols (gv_state t')) (to_ascii_uppercase sy) = Some j"
    using registrations_pump [OF t(2) _ assms(19) _ _ _ assms(8) _ assms(7) _ _ _ sz assms(17) assms(13) [symmetric], of X H]
      assms(2,4,5,6,10,12,14) replicas_count [OF assms(1)]
    by (auto simp: t(3) assms(13))
  show ?thesis
    using s' t' ledger_after_symbol [OF s'(2)] ledger_after_symbol [OF t'(2)] assms(3)
    by (intro exI [of _ s'] exI [of _ t']) simp
qed

text \<open>Two blocks by validators 1 and 2 that register the same symbol, and validators that have both.\<close>

definition ore_block :: dag_block where
  "ore_block = \<lparr> db_author = 1, db_round = 0, db_parents = [],
     db_txs = [RegisterAsset (AssetId 1) (AccountId 1) ''ore'' ''Ore'' 0 5] \<rparr>"

definition rival_block :: "u64 \<Rightarrow> dag_block" where
  "rival_block r = \<lparr> db_author = 2, db_round = r, db_parents = [],
     db_txs = [RegisterAsset (AssetId 2) (AccountId 2) ''Ore'' ''Ore'' 0 5] \<rparr>"

abbreviation digest_of :: "dag_block \<Rightarrow> b32" where
  "digest_of b \<equiv> sample_hash (enc (ser_block b))"

lemma rival_digest: "\<exists>r. digest_of (rival_block r) \<noteq> digest_of ore_block"
proof -
  have "le_bytes 16 (0 :: u128) = replicate 16 0" "le_bytes 16 (1 :: u128) = 1 # replicate 15 0"
    by (simp_all add: eval_nat_numeral)
  then have "even (digest_of (rival_block 0)) \<noteq> even (digest_of (rival_block 1))"
    by (simp add: sample_hash_parity ser_block_def rival_block_def c_u64_def del: ser_tx.simps)
  then show ?thesis by metis
qed

definition two_blocks :: "u64 \<Rightarrow> dag_mempool" where
  "two_blocks r = \<lparr> dm_blocks = fmupd (digest_of ore_block) ore_block (fmupd (digest_of (rival_block r)) (rival_block r) fmempty),
     dm_tips = [digest_of ore_block, digest_of (rival_block r)], dm_next_round = 1 \<rparr>"

definition voting_validator :: "u8 \<Rightarrow> u64 \<Rightarrow> global_message list \<Rightarrow> validator_inner" where
  "voting_validator i r ms = (new_validator sample_crypto 0 ucast i)
     \<lparr> gv_dag := two_blocks r, gv_state := sample_ledger, gv_inbox := ms \<rparr>"

definition three_votes :: "b32 \<Rightarrow> (u8 \<times> bytes) list" where
  "three_votes d = map (\<lambda>v. (v, global_sign_digest sample_crypto (keypair_from_bytes (ucast v)) d)) [0, 1, 2]"

lemma voting_keys:
  assumes "i \<in> {0, 1, 2, 3}"
  shows "global_voter_key sample_crypto (voting_validator i r ms) v =
    (if v \<in> {0, 1, 2, 3} then Some (verifying_key sample_crypto (keypair_from_bytes (ucast v))) else None)"
proof -
  have "global_voter_key sample_crypto (voting_validator i r ms) v = global_voter_key sample_crypto (new_validator sample_crypto 0 ucast i) v"
    by (simp add: voting_validator_def global_voter_key_def)
  then show ?thesis using cluster_keys [OF assms] by simp
qed

lemma three_votes_good:
  assumes "i \<in> {0, 1, 2, 3}"
  shows "global_count_good sample_crypto (voting_validator i r ms) d (three_votes d) = 3"
proof -
  have "global_good_vote sample_crypto (voting_validator i r ms) d v
      (global_sign_digest sample_crypto (keypair_from_bytes (ucast v)) d)" if "v \<in> {0, 1, 2}" for v
    using that voting_keys [OF assms, of r ms v]
    by (auto simp: global_good_vote_def global_verify_digest_def global_sign_digest_def verifying_key_def)
  from this [of 0] this [of 1] this [of 2] show ?thesis by (simp add: global_count_good_def three_votes_def)
qed

lemma commit_order_splits_replicas_witness:
  "\<exists>s t s' t'. replicas sample_crypto s t \<and> global_pump sample_crypto sample_wasm s = Ok () s' \<and>
     global_pump sample_crypto sample_wasm t = Ok () t' \<and> gv_state s' \<noteq> gv_state t'"
proof -
  obtain r where r: "digest_of (rival_block r) \<noteq> digest_of ore_block" using rival_digest by blast
  let ?d = "digest_of ore_block" and ?e = "digest_of (rival_block r)"
  let ?c = "MsgCommit ?d (three_votes ?d)" and ?c' = "MsgCommit ?e (three_votes ?e)"
  let ?s = "voting_validator 0 r [?c, ?c']" and ?t = "voting_validator 3 r [?c', ?c]"
  have rep: "replicas sample_crypto ?s ?t"
    by (simp add: replicas_def fun_eq_iff voting_keys) (simp add: voting_validator_def new_validator_def)
  have filed: "\<forall>v \<in> {?s, ?t}. fmlookup (dm_blocks (gv_dag v)) ?d = Some ore_block \<and>
      fmlookup (dm_blocks (gv_dag v)) ?e = Some (rival_block r)"
    using r by (simp add: voting_validator_def two_blocks_def)
  have up: "to_ascii_uppercase ''Ore'' = ''ORE''" "to_ascii_uppercase ''ore'' = ''ORE''" by code_simp+
  have st: "gv_state ?s = sample_ledger" "gv_inbox ?s = [?c, ?c']" "gv_inbox ?t = [?c', ?c]"
    by (simp_all add: voting_validator_def)
  have count: "3 \<le> global_count_good sample_crypto ?s ?d (three_votes ?d)"
    "3 \<le> global_count_good sample_crypto ?s ?e (three_votes ?e)"
    by (simp_all add: three_votes_good)
  have txs: "db_txs ore_block = [RegisterAsset (AssetId 1) (AccountId 1) ''ore'' ''Ore'' 0 5]"
    "db_txs (rival_block r) = [RegisterAsset (AssetId 2) (AccountId 2) ''Ore'' ''Ore'' 0 5]"
    by (simp_all add: ore_block_def rival_block_def)
  have free: "fmlookup (gs_asset_symbols (gv_state ?s)) (to_ascii_uppercase ''ore'') = None"
    "fmlookup (gs_assets (gv_state ?s)) (AssetId 1) = None" "fmlookup (gs_assets (gv_state ?s)) (AssetId 2) = None"
    unfolding st up by (simp_all add: sample_ledger_def)
  have active: "ensure_active (AccountId 1) (gv_state ?s) = Inr ()" "ensure_active (AccountId 2) (gv_state ?s) = Inr ()"
    unfolding st by (simp_all add: ensure_active_def sample_ledger_def new_human_def)
  have "\<exists>s' t'. global_pump sample_crypto sample_wasm ?s = Ok () s' \<and> global_pump sample_crypto sample_wasm ?t = Ok () t' \<and>
    (\<forall>txs txs'. fmlookup (gs_asset_symbols (ledger_after sample_crypto sample_wasm (gv_state s') txs)) (to_ascii_uppercase ''ore'')
       \<noteq> fmlookup (gs_asset_symbols (ledger_after sample_crypto sample_wasm (gv_state t') txs')) (to_ascii_uppercase ''ore''))"
    by (rule commit_order_splits_replicas [OF rep _ _ count filed txs active free(2,3) _ free(1) _ _ _ st(2,3)])
      (simp_all only: st sample_ledger_ok up, simp_all)
  then show ?thesis using rep by metis
qed

text \<open>One valid signature is enough for a follower to apply a block: a commit that lists the same
  vote three times or more is taken as a quorum.\<close>

lemma one_signature_commits:
  assumes "gv_alive s" and "global_good_vote X s d v sig" and "fmlookup (dm_blocks (gv_dag s)) d = Some b"
    and "3 \<le> n"
  shows "handle_msg X H (MsgCommit d (replicate n (v, sig))) s = apply_block_txs X H b s"
  using handle_commit_applies [OF assms(1) _ assms(3)] global_count_good_replicate [OF assms(2)] assms(4) by simp

lemma one_signature_commits_witness:
  "handle_msg sample_crypto sample_wasm sample_commit (sample_validator 3)
     = apply_block_txs sample_crypto sample_wasm sample_block (sample_validator 3)"
  unfolding sample_commit_def
  by (rule one_signature_commits) (simp_all add: sample_vote_good sample_dag_def)

text \<open>C40: Commits are not idempotent: a commit delivered twice applies its block twice. A block that
  funds an account then raises the supply by twice the amount.\<close>

theorem repeated_commit_funds_twice:
  assumes "gv_alive s" and "gs_ok (gv_state s)" and "3 \<le> global_count_good X s d votes"
    and "fmlookup (dm_blocks (gv_dag s)) d = Some b" and "db_txs b = [GenesisFund k n]"
    and "supply_of (gv_state s) + 2 * amt n < 2 ^ 128" and "gv_inbox s = [MsgCommit d votes, MsgCommit d votes]"
  shows "\<exists>t. global_pump X H s = Ok () t \<and> supply_of (gv_state t) = supply_of (gv_state s) + 2 * amt n"
proof -
  obtain g where g: "apply_tx X H (GenesisFund k n) (gv_state s) = Ok () g" "gs_ok g" "supply_of g = supply_of (gv_state s) + amt n"
    using genesis_applies [OF assms(2), of n X H k] assms(6) by auto
  obtain h where h: "apply_tx X H (GenesisFund k n) g = Ok () h" "supply_of h = supply_of (gv_state s) + 2 * amt n"
    using genesis_applies [OF g(2), of n X H k] g(3) assms(6) by auto
  show ?thesis
    using two_commits_pump [OF assms(1,7,3,3,4,4), of H g h] assms(5) g(1) h by auto
qed

lemma repeated_commit_funds_twice_witness:
  "\<exists>t. global_pump sample_crypto sample_wasm (global_deliver [sample_commit, sample_commit] (sample_validator 3)) = Ok () t
     \<and> supply_of (gv_state t) = 10"
proof -
  let ?s = "global_deliver [sample_commit, sample_commit] (sample_validator 3)"
  have "global_good_vote sample_crypto ?s = global_good_vote sample_crypto (sample_validator 3)"
    by (rule same_voter_good) simp
  then have "3 \<le> global_count_good sample_crypto ?s sample_digest
      (replicate 3 (0, global_sign_digest sample_crypto (keypair_from_bytes 0) sample_digest))"
    by (simp add: global_count_good_replicate sample_vote_good)
  moreover have "supply_of (gv_state ?s) = 0" by (simp add: global_deliver_def supply_of_def global_state_new_def)
  ultimately show ?thesis
    using repeated_commit_funds_twice [of ?s sample_crypto sample_digest _ sample_block "AccountId 1" "AmountMicros 5" sample_wasm]
    by (simp add: global_deliver_def sample_commit_def sample_dag_def sample_block_def)
qed

end
