(* ===== verification/Replication.thy ===== *)
theory Replication
  imports Consensus_Theorems Votes
begin

text \<open>
  The global cluster at work: a leader submits blocks of transactions while its followers' tasks
  pump their inboxes. With a quorum of live validators every block commits, and all of them hold
  the ledger the blocks lead to.
\<close>

section \<open>A submission with the followers' tasks\<close>

definition global_sent_since :: "validator_inner \<Rightarrow> validator_inner \<Rightarrow> global_message list" where
  "global_sent_since s t = drop (length (gv_sent s)) (gv_sent t)"

definition global_follower :: "crypto \<Rightarrow> wasm_host \<Rightarrow> global_message list \<Rightarrow> validator_inner \<Rightarrow> validator_inner" where
  "global_follower X H ms f =
     (case outcome_state (global_pump X H (global_deliver ms f)) of Some t \<Rightarrow> t | None \<Rightarrow> f)"

definition global_say :: "crypto \<Rightarrow> wasm_host \<Rightarrow> global_message list \<Rightarrow> validator_inner list \<Rightarrow> global_message list" where
  "global_say X H ms fs = concat (map (\<lambda>f. global_sent_since f (global_follower X H ms f)) fs)"

text \<open>Every follower gets what the others say; it waits in the inbox for the next wake-up.\<close>

definition after_round :: "crypto \<Rightarrow> wasm_host \<Rightarrow> global_message list \<Rightarrow> validator_inner list \<Rightarrow> validator_inner \<Rightarrow> validator_inner" where
  "after_round X H ms fs f =
     global_deliver (global_say X H ms (filter (\<lambda>g. gv_id g \<noteq> gv_id f) fs)) (global_follower X H ms f)"

definition global_said :: "validator_inner \<Rightarrow> 'a consensus \<Rightarrow> global_message list" where
  "global_said s r = (case outcome_state r of Some t \<Rightarrow> global_sent_since s t | None \<Rightarrow> [])"

definition submit_round ::
  "crypto \<Rightarrow> wasm_host \<Rightarrow> l1_tx list \<Rightarrow> validator_inner \<Rightarrow> validator_inner list
   \<Rightarrow> commit_outcome consensus \<times> validator_inner list" where
  "submit_round X H txs leader fs =
     (let proposed = global_said leader (submit_and_commit X H [] txs leader);
          votes = global_say X H proposed fs;
          fs1 = map (after_round X H proposed fs) fs;
          result = submit_and_commit X H [votes] txs leader;
          committed = drop (length proposed) (global_said leader result)
      in (result, map (after_round X H committed fs1) fs1))"

definition kill_validator :: "u8 \<Rightarrow> validator_inner \<Rightarrow> validator_inner" where
  "kill_validator k f = (if gv_id f = k then global_kill f else f)"

fun submit_all ::
  "crypto \<Rightarrow> wasm_host \<Rightarrow> l1_tx list list \<Rightarrow> validator_inner \<Rightarrow> validator_inner list
   \<Rightarrow> (validator_inner \<times> validator_inner list) option" where
  "submit_all X H [] leader fs = Some (leader, fs)"
| "submit_all X H (txs # rest) leader fs =
     (case submit_round X H txs leader fs of
        (Ok _ leader', fs') \<Rightarrow> submit_all X H rest leader' fs'
      | _ \<Rightarrow> None)"

section \<open>The followers\<close>

fun is_vote :: "global_message \<Rightarrow> bool" where
  "is_vote (MsgVote d v sig) = True"
| "is_vote _ = False"

lemma handle_vote [simp]: "is_vote m \<Longrightarrow> handle_msg X H m s = Ok () s"
  by (cases m) (simp_all add: handle_msg_def)

lemma global_drain_inbox [simp]: "global_drain X H ms (s\<lparr> gv_inbox := z \<rparr>) = global_drain X H ms s"
  by (cases ms) simp_all

lemma global_drain_votes: "list_all is_vote cs \<Longrightarrow> global_drain X H (cs @ ms) s = global_drain X H ms s"
  by (induction cs arbitrary: s) simp_all

lemma global_follower_dead: "\<not> gv_alive f \<Longrightarrow> global_follower X H ms f = global_deliver ms f"
  by (simp add: global_follower_def global_pump_def global_deliver_def)

lemma global_follower_propose:
  assumes "gv_alive f" and "list_all is_vote (gv_inbox f)" and "dag_insert X b (gv_dag f) = Some (m, d)"
  shows "global_follower X H [MsgPropose b l, MsgVote d' l sig] f =
    f\<lparr> gv_dag := m, gv_inbox := [], gv_sent := gv_sent f @ [MsgVote d (gv_id f) (global_sign_digest X (gv_key f) d)] \<rparr>"
  using assms
  by (simp add: global_follower_def global_pump_def global_deliver_def global_drain_votes
      handle_msg_def global_handle_propose_def global_broadcast_def)

lemma global_follower_commit:
  assumes "gv_alive f" and "list_all is_vote (gv_inbox f)" and "3 \<le> global_count_good X f d votes"
    and "fmlookup (dm_blocks (gv_dag f)) d = Some b" and "apply_txs X H (db_txs b) (gv_state f) = Ok () g"
  shows "global_follower X H [MsgCommit d votes] f = f\<lparr> gv_state := g, gv_inbox := [] \<rparr>"
proof -
  let ?f = "f\<lparr> gv_inbox := [] \<rparr>"
  have "global_count_good X ?f d votes = global_count_good X f d votes"
    using same_voter_good [of f ?f X] by (simp add: global_count_good_def)
  then have "handle_msg X H (MsgCommit d votes) ?f = Ok () (?f\<lparr> gv_state := g \<rparr>)"
    using assms by (simp add: handle_msg_def global_handle_commit_def apply_block_txs_def)
  then show ?thesis
    using assms(1,2)
    by (simp add: global_follower_def global_pump_def global_deliver_def global_drain_votes)
qed

section \<open>The leader\<close>

lemma collect_votes_all:
  assumes "list_all (\<lambda>(v, sig). global_good_vote X s d v sig) vs"
  shows "collect_votes X H d (map (\<lambda>(v, sig). MsgVote d v sig) vs) votes s =
    Ok (fold (\<lambda>(v, sig). fmupd v sig) vs votes) (s\<lparr> gv_inbox := [] \<rparr>)"
  using assms
proof (induction vs arbitrary: votes s)
  case (Cons w vs)
  obtain v sig where w: "w = (v, sig)" by (cases w)
  have g: "global_good_vote X (s\<lparr> gv_inbox := ms \<rparr>) = global_good_vote X s" for ms by (rule same_voter_good) simp
  show ?case using Cons.prems Cons.IH [of "s\<lparr> gv_inbox := map (\<lambda>(v, sig). MsgVote d v sig) vs \<rparr>"]
    by (simp add: w g Let_def)
qed simp

lemma await_once:
  assumes "distinct (v # map fst vs)" and "2 \<le> length vs" and "gv_inbox s = []"
    and "list_all (\<lambda>(v, sig). global_good_vote X s d v sig) vs"
  shows "await_quorum X H d [map (\<lambda>(v, sig). MsgVote d v sig) vs] (fmupd v sig fmempty) s =
    Ok (fold (\<lambda>(v, sig). fmupd v sig) vs (fmupd v sig fmempty)) s"
proof -
  let ?m = "map (\<lambda>(v, sig). MsgVote d v sig) vs"
  have g: "global_good_vote X (global_deliver ?m s) = global_good_vote X s" by (rule same_voter_good) simp
  have "collect_votes X H d ?m (fmupd v sig fmempty) (global_deliver ?m s) =
      Ok (fold (\<lambda>(v, sig). fmupd v sig) vs (fmupd v sig fmempty)) ((global_deliver ?m s)\<lparr> gv_inbox := [] \<rparr>)"
    using assms(4) by (intro collect_votes_all) (simp add: g)
  then show ?thesis
    using assms(2,3) fcard_votes [OF assms(1)] by (simp add: global_deliver_def Let_def fcard.rep_eq)
qed

section \<open>One round\<close>

text \<open>
  Validators that check votes with each other's keys; the leader and two followers at least are
  alive, and whoever is alive holds the leader's ledger.
\<close>

definition voting_team :: "crypto \<Rightarrow> validator_inner \<Rightarrow> validator_inner list \<Rightarrow> bool" where
  "voting_team X l fs \<longleftrightarrow>
     (\<forall>x \<in> set (l # fs). \<forall>y \<in> set (l # fs). global_voter_key X x (gv_id y) = Some (verifying_key X (gv_key y))) \<and>
     distinct (map gv_id (l # fs)) \<and> gv_alive l \<and> gv_inbox l = [] \<and> 2 \<le> length (filter gv_alive fs) \<and>
     (\<forall>f \<in> set fs. gv_alive f \<longrightarrow> gv_state f = gv_state l \<and> list_all is_vote (gv_inbox f))"

definition ballots :: "crypto \<Rightarrow> b32 \<Rightarrow> validator_inner list \<Rightarrow> (u8 \<times> bytes) list" where
  "ballots X d fs = map (\<lambda>f. (gv_id f, global_sign_digest X (gv_key f) d)) (filter gv_alive fs)"

lemma team_vote_good:
  assumes "crypto_ok X" and "voting_team X l fs" and "x \<in> set (l # fs)" and "y \<in> set (l # fs)"
  shows "global_good_vote X x d (gv_id y) (global_sign_digest X (gv_key y) d)"
proof -
  have "global_voter_key X x (gv_id y) = Some (verifying_key X (gv_key y))"
    using assms(2-4) unfolding voting_team_def by blast
  then show ?thesis
    using assms(1) by (simp add: global_good_vote_def global_verify_digest_def global_sign_digest_def verifying_key_def)
qed

lemma block_digest_total: "crypto_ok X \<Longrightarrow> \<exists>d. block_digest X b = Some d"
  using encode_cbor_total [of X "ser_block b"] by (auto simp: block_digest_def encode_cbor_def split: option.splits)

lemma dag_insert_filed:
  assumes "block_digest X b = Some d"
  obtains m' where "dag_insert X b m = Some (m', d)" and "fmlookup (dm_blocks m') d = Some b"
    and "dm_next_round m' = dm_next_round m"
  using that assms by (simp add: dag_insert_def Let_def)

lemma global_say_Cons:
  "global_say X H ms (f # fs) = global_sent_since f (global_follower X H ms f) @ global_say X H ms fs"
  by (simp add: global_say_def)

lemma global_say_Nil [simp]: "global_say X H ms [] = []"
  by (simp add: global_say_def)

text \<open>The followers' answer to a proposal, and what it leaves of them.\<close>

lemma say_ballots:
  assumes "\<forall>f \<in> set fs. gv_alive f \<longrightarrow> list_all is_vote (gv_inbox f)" and "block_digest X b = Some d"
  shows "global_say X H [MsgPropose b l, MsgVote d' l sig] fs = map (\<lambda>(v, sig). MsgVote d v sig) (ballots X d fs)"
  using assms(1)
proof (induction fs)
  case (Cons f fs)
  obtain m where "dag_insert X b (gv_dag f) = Some (m, d)" by (rule dag_insert_filed [OF assms(2)])
  then show ?case
    using Cons global_follower_propose [of f X b m d H l d' sig]
    by (cases "gv_alive f")
      (simp_all add: global_say_Cons ballots_def global_sent_since_def global_follower_dead global_deliver_def)
qed (simp add: ballots_def)

lemma after_proposal:
  assumes "\<forall>g \<in> set fs. gv_alive g \<longrightarrow> list_all is_vote (gv_inbox g)" and d: "block_digest X b = Some d"
    and "f \<in> set fs" and f': "f' = after_round X H [MsgPropose b l, MsgVote d' l sig] fs f"
  shows "same_voter f f'" and "gv_state f' = gv_state f"
    and "gv_alive f \<Longrightarrow> list_all is_vote (gv_inbox f') \<and> fmlookup (dm_blocks (gv_dag f')) d = Some b"
proof -
  let ?fs = "filter (\<lambda>g. gv_id g \<noteq> gv_id f) fs"
  have say: "global_say X H [MsgPropose b l, MsgVote d' l sig] ?fs = map (\<lambda>(v, sig). MsgVote d v sig) (ballots X d ?fs)"
    using assms(1) by (intro say_ballots [OF _ d]) auto
  obtain m where m: "dag_insert X b (gv_dag f) = Some (m, d)" "fmlookup (dm_blocks m) d = Some b"
    by (rule dag_insert_filed [OF d])
  have votes: "list_all is_vote (map (\<lambda>(v, sig). MsgVote d v sig) vs)" for vs :: "(u8 \<times> bytes) list"
    by (auto simp: list_all_iff)
  show "same_voter f f'" and "gv_state f' = gv_state f"
    and "gv_alive f \<Longrightarrow> list_all is_vote (gv_inbox f') \<and> fmlookup (dm_blocks (gv_dag f')) d = Some b"
    unfolding f' after_round_def say
    using global_follower_propose [OF _ _ m(1), of H l d' sig] global_follower_dead [of f X H] assms(1,3) m(2) votes
    by (cases "gv_alive f"; simp add: global_deliver_def same_voter_def)+
qed

text \<open>After a commit that all live followers can apply, nothing more is said.\<close>

lemma after_commit:
  assumes "\<forall>g \<in> set fs. gv_alive g \<longrightarrow> global_follower X H ms g = g\<lparr> gv_state := gs, gv_inbox := [] \<rparr>"
    and "f \<in> set fs"
  shows "after_round X H ms fs f = (if gv_alive f then f\<lparr> gv_state := gs, gv_inbox := [] \<rparr> else global_deliver ms f)"
proof -
  have "global_say X H ms (filter P fs) = []" for P
    using assms(1)
    by (induction fs)
      (auto simp: global_say_Cons global_sent_since_def global_follower_dead global_deliver_def split: if_splits)
  then show ?thesis
    using assms by (auto simp: after_round_def global_follower_dead) (simp_all add: global_deliver_def)
qed

lemma count_good_ballots:
  assumes "\<And>v s. fmlookup votes v = Some s \<Longrightarrow> global_good_vote X f d v s"
  shows "global_count_good X f d (sorted_list_of_fmap votes) = fcard (fmdom votes)"
proof -
  have "filter (\<lambda>(v, sig). global_good_vote X f d v sig) (sorted_list_of_fmap votes) = sorted_list_of_fmap votes"
    using assms by (auto simp: filter_id_conv sorted_list_of_fmap_def fmlookup_dom_iff)
  moreover have "length (sorted_list_of_fset (fmdom votes)) = card (fset (fmdom votes))"
    by (simp add: sorted_list_of_fset.rep_eq)
  ultimately show ?thesis by (simp add: global_count_good_def sorted_list_of_fmap_def fcard.rep_eq)
qed

text \<open>What the leader says while it waits: its block, its vote, and then the commit.\<close>

lemma submit_propose_total:
  assumes "crypto_ok X" and "gv_alive l" and "unat (dm_next_round (gv_dag l)) + 1 < 2 ^ 64"
  obtains b d m where "submit_propose X txs l = Ok (b, d)
      (l\<lparr> gv_dag := m, gv_sent := gv_sent l @ [MsgPropose b (gv_id l), MsgVote d (gv_id l) (global_sign_digest X (gv_key l) d)] \<rparr>)"
    and "block_digest X b = Some d" and "db_txs b = txs" and "unat (dm_next_round m) = unat (dm_next_round (gv_dag l)) + 1"
proof -
  let ?b = "\<lparr> db_author = gv_id l, db_round = dm_next_round (gv_dag l), db_parents = dm_tips (gv_dag l), db_txs = txs \<rparr>"
  obtain d where d: "block_digest X ?b = Some d" using block_digest_total [OF assms(1)] by blast
  obtain m where m: "dag_insert X ?b ((gv_dag l)\<lparr> dm_next_round := dm_next_round (gv_dag l) + 1 \<rparr>) = Some (m, d)"
    and r: "dm_next_round m = dm_next_round ((gv_dag l)\<lparr> dm_next_round := dm_next_round (gv_dag l) + 1 \<rparr>)"
    by (rule dag_insert_filed [OF d])
  have "chk_add (dm_next_round (gv_dag l)) 1 = Some (dm_next_round (gv_dag l) + 1)"
    using assms(3) by (simp add: chk_add_def)
  then have "submit_propose X txs l = Ok (?b, d)
      (l\<lparr> gv_dag := m, gv_sent := gv_sent l @ [MsgPropose ?b (gv_id l), MsgVote d (gv_id l) (global_sign_digest X (gv_key l) d)] \<rparr>)"
    using assms(2) m d by (simp add: submit_propose_def dag_propose_def Let_def global_broadcast_def)
  moreover have "unat (dm_next_round m) = unat (dm_next_round (gv_dag l)) + 1"
    using r assms(3) by (simp add: unat_plus_fits)
  ultimately show ?thesis using that d by simp
qed

lemma voting_team_step:
  assumes "voting_team X l fs" and "same_voter l t" and "gv_inbox t = []"
    and step: "\<And>f. f \<in> set fs \<Longrightarrow> same_voter f (h f) \<and> (gv_alive f \<longrightarrow> gv_state (h f) = gv_state t \<and> gv_inbox (h f) = [])"
  shows "voting_team X t (map h fs)"
proof -
  have h: "gv_id (h f) = gv_id f" "gv_alive (h f) = gv_alive f" if "f \<in> set fs" for f
    using step [OF that] by (simp_all add: same_voter_def)
  have key: "global_voter_key X y = global_voter_key X x" if "same_voter x y" for x y
    using that by (intro ext) (simp add: same_voter_def global_voter_key_def)
  have old: "\<exists>x0 \<in> set (l # fs). same_voter x0 x" if "x \<in> set (t # map h fs)" for x
    using that assms(2) step by auto
  have "global_voter_key X x (gv_id y) = Some (verifying_key X (gv_key y))"
    if x: "x \<in> set (t # map h fs)" and y: "y \<in> set (t # map h fs)" for x y
  proof -
    obtain x0 y0 where "x0 \<in> set (l # fs)" "same_voter x0 x" "y0 \<in> set (l # fs)" "same_voter y0 y"
      using old [OF x] old [OF y] by blast
    moreover from this have "global_voter_key X x0 (gv_id y0) = Some (verifying_key X (gv_key y0))"
      using assms(1) unfolding voting_team_def by blast
    ultimately show ?thesis using key [of x0 x] by (simp add: same_voter_def)
  qed
  moreover have "distinct (map gv_id (t # map h fs))"
    using assms(1,2) h by (auto simp: voting_team_def same_voter_def distinct_map inj_on_def)
  moreover have "length (filter gv_alive (map h fs)) = length (filter gv_alive fs)"
    using h by (simp add: filter_map o_def cong: filter_cong)
  ultimately show ?thesis
    using assms(1,2,3) step h by (auto simp: voting_team_def same_voter_def)
qed

text \<open>A submission collects the votes of all live followers, whatever becomes of its transactions.\<close>

lemma submission_votes:
  assumes "crypto_ok X" and team: "voting_team X l fs" and "unat (dm_next_round (gv_dag l)) + 1 < 2 ^ 64"
  obtains b d m where "block_digest X b = Some d" and "db_txs b = txs"
    and "unat (dm_next_round m) = unat (dm_next_round (gv_dag l)) + 1"
    and "global_said l (submit_and_commit X H [] txs l) =
      [MsgPropose b (gv_id l), MsgVote d (gv_id l) (global_sign_digest X (gv_key l) d)]"
    and "submit_and_commit X H [map (\<lambda>(v, sig). MsgVote d v sig) (ballots X d fs)] txs l =
      and_then (apply_block_txs X H b (l\<lparr> gv_dag := m, gv_sent := gv_sent l @
        [MsgPropose b (gv_id l), MsgVote d (gv_id l) (global_sign_digest X (gv_key l) d)] @
        [MsgCommit d (sorted_list_of_fmap (fold (\<lambda>(v, sig). fmupd v sig) (ballots X d fs)
          (fmupd (gv_id l) (global_sign_digest X (gv_key l) d) fmempty)))] \<rparr>))
      (\<lambda>_ s3. Ok \<lparr> co_digest = d, co_applied = length txs, co_height_hint = db_round b \<rparr> s3)"
proof -
  have alive: "gv_alive l" and inbox: "gv_inbox l = []" using team by (auto simp: voting_team_def)
  obtain b d m where p: "submit_propose X txs l = Ok (b, d)
      (l\<lparr> gv_dag := m, gv_sent := gv_sent l @ [MsgPropose b (gv_id l), MsgVote d (gv_id l) (global_sign_digest X (gv_key l) d)] \<rparr>)"
    and d: "block_digest X b = Some d" and txs: "db_txs b = txs" and r: "unat (dm_next_round m) = unat (dm_next_round (gv_dag l)) + 1"
    by (rule submit_propose_total [OF assms(1) alive assms(3)])
  let ?ann = "[MsgPropose b (gv_id l), MsgVote d (gv_id l) (global_sign_digest X (gv_key l) d)]"
  let ?l1 = "l\<lparr> gv_dag := m, gv_sent := gv_sent l @ ?ann \<rparr>"
  let ?own = "fmupd (gv_id l) (global_sign_digest X (gv_key l) d) fmempty" and ?vs = "ballots X d fs"
  let ?V = "fold (\<lambda>(v, sig). fmupd v sig) ?vs ?own" and ?M = "map (\<lambda>(v, sig). MsgVote d v sig) ?vs"
  have ids: "distinct (gv_id l # map fst ?vs)" and two: "2 \<le> length ?vs"
    using team by (auto simp: voting_team_def ballots_def distinct_map inj_on_def)
  have said1: "global_said l (submit_and_commit X H [] txs l) = ?ann"
    by (simp add: submit_and_commit_def p fcard.rep_eq global_said_def global_sent_since_def)
  have "global_good_vote X ?l1 = global_good_vote X l" by (rule same_voter_good) (simp add: same_voter_def)
  then have good: "list_all (\<lambda>(v, sig). global_good_vote X ?l1 d v sig) ?vs"
    using team_vote_good [OF assms(1) team, of l] by (auto simp: list_all_iff ballots_def)
  have aw: "await_quorum X H d [?M] ?own ?l1 = Ok ?V ?l1"
    using await_once [OF ids two _ good] inbox by simp
  show ?thesis
    by (rule that [OF d txs r said1])
      (simp add: submit_and_commit_def p aw global_broadcast_def txs del: await_quorum.simps)
qed

lemma submit_round_commits:
  assumes "crypto_ok X" and team: "voting_team X l fs" and "unat (dm_next_round (gv_dag l)) + 1 < 2 ^ 64"
    and run: "apply_txs X H txs (gv_state l) = Ok () g"
  obtains out t fs' where "submit_round X H txs l fs = (Ok out t, fs')" and "voting_team X t fs'" and "gv_state t = g"
    and "unat (dm_next_round (gv_dag t)) = unat (dm_next_round (gv_dag l)) + 1"
    and "map gv_alive fs' = map gv_alive fs" and "co_applied out = length txs"
proof -
  have inbox: "gv_inbox l = []" and inv: "\<forall>f \<in> set fs. gv_alive f \<longrightarrow> list_all is_vote (gv_inbox f)"
    and st: "\<forall>f \<in> set fs. gv_alive f \<longrightarrow> gv_state f = gv_state l"
    using team by (auto simp: voting_team_def)
  obtain b d m where d: "block_digest X b = Some d" and txs: "db_txs b = txs"
    and r: "unat (dm_next_round m) = unat (dm_next_round (gv_dag l)) + 1"
    and said1: "global_said l (submit_and_commit X H [] txs l) =
      [MsgPropose b (gv_id l), MsgVote d (gv_id l) (global_sign_digest X (gv_key l) d)]"
    and collected: "submit_and_commit X H [map (\<lambda>(v, sig). MsgVote d v sig) (ballots X d fs)] txs l =
      and_then (apply_block_txs X H b (l\<lparr> gv_dag := m, gv_sent := gv_sent l @
        [MsgPropose b (gv_id l), MsgVote d (gv_id l) (global_sign_digest X (gv_key l) d)] @
        [MsgCommit d (sorted_list_of_fmap (fold (\<lambda>(v, sig). fmupd v sig) (ballots X d fs)
          (fmupd (gv_id l) (global_sign_digest X (gv_key l) d) fmempty)))] \<rparr>))
      (\<lambda>_ s3. Ok \<lparr> co_digest = d, co_applied = length txs, co_height_hint = db_round b \<rparr> s3)"
    by (rule submission_votes [OF assms(1-3)])
  let ?ann = "[MsgPropose b (gv_id l), MsgVote d (gv_id l) (global_sign_digest X (gv_key l) d)]"
  let ?l1 = "l\<lparr> gv_dag := m, gv_sent := gv_sent l @ ?ann \<rparr>"
  let ?own = "fmupd (gv_id l) (global_sign_digest X (gv_key l) d) fmempty" and ?vs = "ballots X d fs"
  let ?V = "fold (\<lambda>(v, sig). fmupd v sig) ?vs ?own" and ?M = "map (\<lambda>(v, sig). MsgVote d v sig) ?vs"
  let ?com = "[MsgCommit d (sorted_list_of_fmap ?V)]"
  let ?t = "?l1\<lparr> gv_sent := gv_sent l @ ?ann @ ?com, gv_state := g \<rparr>"
  have ids: "distinct (gv_id l # map fst ?vs)" and two: "2 \<le> length ?vs"
    using team by (auto simp: voting_team_def ballots_def distinct_map inj_on_def)
  let ?out = "\<lparr> co_digest = d, co_applied = length txs, co_height_hint = db_round b \<rparr>"
  have result: "submit_and_commit X H [?M] txs l = Ok ?out ?t"
    by (simp add: collected apply_block_txs_def txs run)
  have said2: "drop (length ?ann) (global_said l (Ok ?out ?t)) = ?com"
    by (simp add: global_said_def global_sent_since_def)
  have voters: "\<exists>e \<in> set (l # fs). v = gv_id e \<and> s = global_sign_digest X (gv_key e) d" if "fmlookup ?V v = Some s" for v s
    using lookup_votes [OF that] by (auto simp: ballots_def split: if_splits)
  let ?f1 = "after_round X H ?ann fs" and ?fs1 = "map (after_round X H ?ann fs) fs"
  note f1 = after_proposal [OF inv d _ refl]
  have ids1: "gv_id (?f1 f) = gv_id f \<and> gv_alive (?f1 f) = gv_alive f" if "f \<in> set fs" for f
    using f1(1) [OF that] by (simp add: same_voter_def)
  have commit: "global_follower X H ?com (?f1 f) = (?f1 f)\<lparr> gv_state := g, gv_inbox := [] \<rparr>"
    if f: "f \<in> set fs" and a: "gv_alive (?f1 f)" for f
  proof -
    have "global_good_vote X (?f1 f) d v s" if "fmlookup ?V v = Some s" for v s
      using voters [OF that] team_vote_good [OF assms(1) team, of f] f same_voter_good [OF f1(1) [OF f]] by auto
    then have "global_count_good X (?f1 f) d (sorted_list_of_fmap ?V) = fcard (fmdom ?V)"
      by (rule count_good_ballots)
    then have "3 \<le> global_count_good X (?f1 f) d (sorted_list_of_fmap ?V)" using fcard_votes [OF ids] two by simp
    then show ?thesis
      using f1(2,3) [OF f] ids1 [OF f] a st f run txs by (intro global_follower_commit [where b = b]) auto
  qed
  let ?fs2 = "map (after_round X H ?com ?fs1) ?fs1"
  have round: "submit_round X H txs l fs = (Ok ?out ?t, ?fs2)"
    unfolding submit_round_def said1 Let_def say_ballots [OF inv d] result said2 ..
  have cf: "\<forall>f \<in> set ?fs1. gv_alive f \<longrightarrow> global_follower X H ?com f = f\<lparr> gv_state := g, gv_inbox := [] \<rparr>"
    using commit by auto
  let ?f2 = "\<lambda>f. after_round X H ?com ?fs1 (?f1 f)"
  have f2: "?f2 f = (if gv_alive (?f1 f) then (?f1 f)\<lparr> gv_state := g, gv_inbox := [] \<rparr> else global_deliver ?com (?f1 f))"
    if "f \<in> set fs" for f using that by (intro after_commit [OF cf]) simp
  have step: "same_voter f (?f2 f) \<and> (gv_alive f \<longrightarrow> gv_state (?f2 f) = gv_state ?t \<and> gv_inbox (?f2 f) = [])" if "f \<in> set fs" for f
    using f1(1) [OF that] ids1 [OF that] unfolding f2 [OF that] by (simp add: same_voter_def global_deliver_def)
  have "voting_team X ?t (map ?f2 fs)"
    using inbox step by (intro voting_team_step [OF team]) (simp_all add: same_voter_def)
  then have "voting_team X ?t ?fs2" by (simp add: o_def)
  moreover have "map gv_alive ?fs2 = map gv_alive fs" using step by (simp add: same_voter_def)
  ultimately show ?thesis using that [OF round] r by simp
qed

text \<open>Transactions that the ledger refuses end the submission with an error.\<close>

lemma submit_round_refused:
  assumes "crypto_ok X" and team: "voting_team X l fs" and "unat (dm_next_round (gv_dag l)) + 1 < 2 ^ 64"
    and run: "apply_txs X H txs (gv_state l) = Err e g"
  shows "\<exists>t. fst (submit_round X H txs l fs) = Err e t"
proof -
  have inv: "\<forall>f \<in> set fs. gv_alive f \<longrightarrow> list_all is_vote (gv_inbox f)" using team by (simp add: voting_team_def)
  obtain b d m where d: "block_digest X b = Some d" and txs: "db_txs b = txs"
    and said1: "global_said l (submit_and_commit X H [] txs l) =
      [MsgPropose b (gv_id l), MsgVote d (gv_id l) (global_sign_digest X (gv_key l) d)]"
    and collected: "submit_and_commit X H [map (\<lambda>(v, sig). MsgVote d v sig) (ballots X d fs)] txs l =
      and_then (apply_block_txs X H b (l\<lparr> gv_dag := m, gv_sent := gv_sent l @
        [MsgPropose b (gv_id l), MsgVote d (gv_id l) (global_sign_digest X (gv_key l) d)] @
        [MsgCommit d (sorted_list_of_fmap (fold (\<lambda>(v, sig). fmupd v sig) (ballots X d fs)
          (fmupd (gv_id l) (global_sign_digest X (gv_key l) d) fmempty)))] \<rparr>))
      (\<lambda>_ s3. Ok \<lparr> co_digest = d, co_applied = length txs, co_height_hint = db_round b \<rparr> s3)"
    by (rule submission_votes [OF assms(1-3)])
  show ?thesis
    unfolding submit_round_def said1 Let_def say_ballots [OF inv d] collected
    by (simp add: apply_block_txs_def txs run)
qed

section \<open>Any number of rounds\<close>

lemma apply_txs_split:
  assumes "apply_txs X H (ts @ us) s = Ok () g"
  obtains m where "apply_txs X H ts s = Ok () m" and "apply_txs X H us m = Ok () g"
proof -
  have "\<exists>m. apply_txs X H ts s = Ok () m"
    using assms by (induction ts arbitrary: s) (auto split: outcome.splits if_splits)
  then show ?thesis using that assms ledger_exec.block_append [of X H ts s _ us] by auto
qed

lemma submit_all_commits:
  assumes "crypto_ok X" and "voting_team X l fs" and "unat (dm_next_round (gv_dag l)) + length blocks < 2 ^ 64"
    and "apply_txs X H (concat blocks) (gv_state l) = Ok () g"
  shows "\<exists>t fs'. submit_all X H blocks l fs = Some (t, fs') \<and> voting_team X t fs' \<and> gv_state t = g \<and>
    map gv_alive fs' = map gv_alive fs"
  using assms(2-4)
proof (induction blocks arbitrary: l fs)
  case (Cons txs rest)
  obtain m where m: "apply_txs X H txs (gv_state l) = Ok () m" and k: "apply_txs X H (concat rest) m = Ok () g"
    using Cons.prems(3) by (auto elim: apply_txs_split)
  have "unat (dm_next_round (gv_dag l)) + 1 < 2 ^ 64" using Cons.prems(2) by simp
  then obtain out t fs' where r: "submit_round X H txs l fs = (Ok out t, fs')" "voting_team X t fs'" "gv_state t = m"
    "unat (dm_next_round (gv_dag t)) = unat (dm_next_round (gv_dag l)) + 1" "map gv_alive fs' = map gv_alive fs"
    using submit_round_commits [OF assms(1) Cons.prems(1) _ m] by metis
  then show ?case using Cons.IH [of t fs'] Cons.prems(2) k by auto
qed simp

text \<open>The four validators, with one follower killed or none, before the first submission.\<close>

lemma cluster4_voting_team:
  assumes "cluster4 X w secrets = l # fs" and "k \<noteq> 0"
  shows "voting_team X l (map (kill_validator k) fs)" and "gv_state l = global_state_new w" and "dm_next_round (gv_dag l) = 0"
proof -
  let ?n = "new_validator X w secrets" and ?K = "kill_validator k"
  have l: "l = ?n 0" and fs: "fs = map ?n [1, 2, 3]" using assms(1) by (simp_all add: cluster4_def)
  have id: "gv_id (?n i) = i" "gv_key (?n i) = keypair_from_bytes (secrets i)" "gv_alive (?n i)" "gv_inbox (?n i) = []"
    "gv_state (?n i) = global_state_new w" "dm_next_round (gv_dag (?n i)) = 0" for i
    by (simp_all add: new_validator_def dag_new_def)
  have key: "global_voter_key X (global_kill s) = global_voter_key X s" for s
    by (intro ext) (simp add: global_voter_key_def global_kill_def)
  have K: "gv_id (?K f) = gv_id f" "gv_key (?K f) = gv_key f" "global_voter_key X (?K f) = global_voter_key X f"
    "gv_alive (?K f) = (gv_alive f \<and> gv_id f \<noteq> k)" "gv_inbox (?K f) = gv_inbox f" "gv_state (?K f) = gv_state f" for f
    using key [of f] by (simp_all add: kill_validator_def global_kill_def)
  have member: "\<exists>i \<in> {0, 1, 2, 3}. gv_id x = i \<and> gv_key x = keypair_from_bytes (secrets i) \<and>
      global_voter_key X x = global_voter_key X (?n i)" if "x \<in> set (l # map ?K fs)" for x
    using that K [of "?n 1"] K [of "?n 2"] K [of "?n 3"] by (auto simp: l fs id)
  have "global_voter_key X x (gv_id y) = Some (verifying_key X (gv_key y))"
    if x: "x \<in> set (l # map ?K fs)" and y: "y \<in> set (l # map ?K fs)" for x y
  proof -
    obtain i j where "i \<in> {0, 1, 2, 3}" "j \<in> {0, 1, 2, 3}" "global_voter_key X x = global_voter_key X (?n i)"
      "gv_id y = j" "gv_key y = keypair_from_bytes (secrets j)"
      using member [OF x] member [OF y] by blast
    then show ?thesis using cluster_keys [of i X w secrets j] by auto
  qed
  moreover have "distinct (map gv_id (l # map ?K fs))" "gv_alive l" "gv_inbox l = []"
    by (simp_all add: l fs K id)
  moreover have "map gv_alive (map ?K fs) = [1 \<noteq> k, 2 \<noteq> k, 3 \<noteq> k]" by (simp add: fs K id)
  then have "2 \<le> length (filter gv_alive (map ?K fs))"
    by (cases "k = 1"; cases "k = 2"; cases "k = 3") (simp_all add: fs K id)
  moreover have "\<forall>f \<in> set (map ?K fs). gv_alive f \<longrightarrow> gv_state f = gv_state l \<and> list_all is_vote (gv_inbox f)"
    by (simp add: l fs K id)
  ultimately show "voting_team X l (map ?K fs)" unfolding voting_team_def by blast
  show "gv_state l = global_state_new w" "dm_next_round (gv_dag l) = 0" by (simp_all add: l id)
qed

text \<open>C10: In a cluster of four with one follower killed (or none), every run of submissions whose
  transactions apply one after the other commits: each submission collects its votes in one
  round of the followers, and at the end the leader and all live followers, two at least, hold
  the ledger that the transactions lead to.\<close>

theorem submissions_replicate:
  assumes "crypto_ok X" and "cluster4 X w secrets = l # fs" and "k \<noteq> 0" and "length blocks < 2 ^ 64"
    and "apply_txs X H (concat blocks) (global_state_new w) = Ok () g"
  shows "\<exists>t fs'. submit_all X H blocks l (map (kill_validator k) fs) = Some (t, fs')
    \<and> gv_state t = g \<and> g = ledger_after X H (global_state_new w) (concat blocks)
    \<and> (\<forall>f \<in> set fs'. gv_alive f \<longrightarrow> gv_state f = g) \<and> 2 \<le> length (filter gv_alive fs')"
proof -
  note start = cluster4_voting_team [OF assms(2,3)]
  obtain t fs' where "submit_all X H blocks l (map (kill_validator k) fs) = Some (t, fs')" "voting_team X t fs'" "gv_state t = g"
    using submit_all_commits [OF assms(1) start(1), of blocks H g] assms(4,5) start(2,3) by auto
  then show ?thesis using apply_txs_ledger_after [OF assms(5)] by (auto simp: voting_team_def)
qed

lemma submissions_replicate_witness:
  "\<exists>t fs' g. submit_all sample_crypto sample_wasm
       [[GenesisFund (AccountId 1) (AmountMicros 5)], [GenesisFund (AccountId 2) (AmountMicros 7)]]
       (new_validator sample_crypto 0 ucast 0) (map (kill_validator 2) (map (new_validator sample_crypto 0 ucast) [1, 2, 3]))
     = Some (t, fs') \<and> supply_of (gv_state t) = 12 \<and> 2 \<le> length (filter gv_alive fs')"
proof -
  have new: "supply_of (global_state_new 0) = 0" by (simp add: supply_of_def global_state_new_def)
  obtain g1 where g1: "apply_tx sample_crypto sample_wasm (GenesisFund (AccountId 1) (AmountMicros 5)) (global_state_new 0) = Ok () g1"
    and ok: "gs_ok g1" and s1: "supply_of g1 = 5"
    using genesis_applies [OF gs_ok_new, of 0 "AmountMicros 5" sample_crypto sample_wasm "AccountId 1"] new by auto
  obtain g2 where g2: "apply_tx sample_crypto sample_wasm (GenesisFund (AccountId 2) (AmountMicros 7)) g1 = Ok () g2"
    and s2: "supply_of g2 = 12"
    using genesis_applies [OF ok, of "AmountMicros 7" sample_crypto sample_wasm "AccountId 2"] s1 by auto
  have run: "apply_txs sample_crypto sample_wasm (concat [[GenesisFund (AccountId 1) (AmountMicros 5)],
      [GenesisFund (AccountId 2) (AmountMicros 7)]]) (global_state_new 0) = Ok () g2"
    using g1 g2 by simp
  have c: "cluster4 sample_crypto 0 ucast = new_validator sample_crypto 0 ucast 0 # map (new_validator sample_crypto 0 ucast) [1, 2, 3]"
    by (simp add: cluster4_def)
  show ?thesis
    using submissions_replicate [OF sample_crypto_ok c _ _ run, of 2] s2 by auto
qed

end
