(* ===== verification/Ledger_Sims.thy ===== *)
theory Ledger_Sims
  imports Ledger_Theorems
begin

text \<open>
  The demonstrations that drive the global ledger alone: \<open>tools/src/bin/trade_sim.rs\<close> and
  \<open>wasm_sim.rs\<close>. A step that is \<open>unwrap\<close>ped and fails ends the program, \<open>None\<close>; a program that
  ends well yields the values it prints. The command line gives the arguments.
\<close>

section \<open>Scripts\<close>

text \<open>\<open>state.apply(tx).unwrap()\<close>, one after the other.\<close>

fun apply_all :: "crypto \<Rightarrow> wasm_host \<Rightarrow> l1_tx list \<Rightarrow> global_state \<Rightarrow> global_state option" where
  "apply_all X H [] gs = Some gs"
| "apply_all X H (tx # txs) gs =
     (case apply_tx X H tx gs of Ok _ g \<Rightarrow> apply_all X H txs g | Err _ _ \<Rightarrow> None | Panic \<Rightarrow> None)"

lemma apply_all_Cons:
  "gs_ok gs \<Longrightarrow> run_tx X H tx gs = Ok () g \<Longrightarrow> apply_all X H (tx # txs) gs = apply_all X H txs g"
  by (simp add: apply_tx_run)

lemma apply_all_ok: "apply_all X H txs gs = Some g \<Longrightarrow> gs_ok gs \<Longrightarrow> gs_ok g"
  by (induction txs arbitrary: gs) (auto dest: apply_tx_ok split: outcome.splits)

text \<open>\<open>[b; 32]\<close>.\<close>

definition filled :: "u8 \<Rightarrow> b32" where
  "filled b = word_of_nat (nat_of_le (replicate 32 b))"

definition sat_mul :: "u128 \<Rightarrow> u128 \<Rightarrow> u128" where
  "sat_mul a b = (if unat a * unat b < 2 ^ 128 then a * b else - 1)"

section \<open>A tokenized trade\<close>

definition trade_asset :: "crypto \<Rightarrow> string \<Rightarrow> asset_id" where
  "trade_asset X symbol = AssetId (blake3 X (str_bytes symbol))"

definition trade_txs :: "crypto \<Rightarrow> string \<Rightarrow> u128 \<Rightarrow> u128 \<Rightarrow> u128 \<Rightarrow> l1_tx list" where
  "trade_txs X symbol mint units price =
     (let issuer = AccountId (filled 1); buyer = AccountId (filled 2); asset = trade_asset X symbol in
      [GenesisFund issuer (AmountMicros 0),
       GenesisFund buyer (AmountMicros (sat_mul price 2)),
       RegisterAsset asset issuer symbol (to_ascii_uppercase symbol @ '' Tokenized Shares'') 0
         (max (sat_mul mint 10) mint),
       MintAsset asset issuer issuer mint,
       SpotTrade asset buyer issuer units (AmountMicros price)])"

record trade_report =
  tr_symbol :: string
  tr_buyer_units :: u128
  tr_seller_units :: u128
  tr_buyer_eurc :: u128
  tr_seller_eurc :: u128
  tr_minted :: u128

definition trade_report_of :: "crypto \<Rightarrow> string \<Rightarrow> global_state \<Rightarrow> trade_report option" where
  "trade_report_of X symbol gs =
     (let issuer = AccountId (filled 1); buyer = AccountId (filled 2); asset = trade_asset X symbol in
      case (fmlookup (gs_assets gs) asset, fmlookup (gs_accounts gs) buyer, fmlookup (gs_accounts gs) issuer) of
        (Some a, Some b, Some s) \<Rightarrow>
          Some \<lparr> tr_symbol = as_symbol a, tr_buyer_units = holding gs buyer asset,
                 tr_seller_units = holding gs issuer asset, tr_buyer_eurc = micros (balance_available b),
                 tr_seller_eurc = micros (balance_available s), tr_minted = as_minted a \<rparr>
      | _ \<Rightarrow> None)"

definition trade_sim :: "crypto \<Rightarrow> wasm_host \<Rightarrow> string \<Rightarrow> u128 \<Rightarrow> u128 \<Rightarrow> u128 \<Rightarrow> trade_report option" where
  "trade_sim X H symbol mint units price =
     (case apply_all X H (trade_txs X symbol mint units price) (global_state_new 2) of
        None \<Rightarrow> None
      | Some gs \<Rightarrow>
          (case check_conservation gs of Ok _ _ \<Rightarrow> trade_report_of X symbol gs | Err _ _ \<Rightarrow> None | Panic \<Rightarrow> None))"

lemma unat_mult_fits: "unat a * unat b < 2 ^ 128 \<Longrightarrow> unat (a * b) = unat a * unat b" for a b :: u128
  by (simp add: unat_word_ariths)

lemma sat_mul_ge: "b \<noteq> 0 \<Longrightarrow> a \<le> sat_mul a b"
proof -
  assume "b \<noteq> 0"
  then have "1 \<le> unat b" by (simp add: Suc_le_eq unat_gt_0)
  then have "unat a \<le> unat a * unat b" by simp
  then show ?thesis
    by (cases "unat a * unat b < 2 ^ 128")
      (simp add: sat_mul_def word_le_nat_alt unat_mult_fits, simp add: sat_mul_def)
qed

lemma chk_add_zero [simp]: "chk_add 0 w = Some w" "sat_add 0 w = w"
  by (simp_all add: chk_add_def sat_add_def)

lemma filled_inj [simp]: "filled b = filled c \<longleftrightarrow> b = c"
proof
  assume eq: "filled b = filled c"
  have "nat_of_le (replicate 32 d) < 2 ^ 256" for d using nat_of_le_less [of "replicate 32 d"] by simp
  then have "unat (filled d) = nat_of_le (replicate 32 d)" for d
    by (simp add: filled_def unat_of_nat)
  then have "nat_of_le (replicate 32 b) = nat_of_le (replicate 32 c)" using eq by metis
  then have "replicate 32 b = replicate 32 c" by (intro nat_of_le_eqD) simp_all
  then show "b = c" by simp
qed simp

text \<open>
  The demonstration ends well, and with the values one expects, for every non-empty symbol and
  every trade of some of the minted units, whatever the price, even when the doubled price saturates.
\<close>

lemma trade_sim_settles:
  assumes "symbol \<noteq> []" and "0 < units" and "units \<le> mint"
  shows "trade_sim X H symbol mint units price = Some
    \<lparr> tr_symbol = to_ascii_uppercase symbol, tr_buyer_units = units, tr_seller_units = mint - units,
      tr_buyer_eurc = sat_mul price 2 - price, tr_seller_eurc = price, tr_minted = mint \<rparr>"
proof -
  let ?i = "AccountId (filled 1)" and ?b = "AccountId (filled 2)" and ?a = "trade_asset X symbol"
  let ?f = "AmountMicros (sat_mul price 2)" and ?max = "max (sat_mul mint 10) mint"
  have m: "0 < mint" using assms(2,3) by (rule less_le_trans)
  then have "0 < ?max" by (simp add: less_max_iff_disj)
  then have pos: "mint \<noteq> 0" "?max \<noteq> 0" "mint \<le> ?max" using m by auto
  have sym: "to_ascii_uppercase symbol \<noteq> []" using assms(1) by (simp add: to_ascii_uppercase_def)
  have price: "price \<le> sat_mul price 2" by (rule sat_mul_ge) simp
  obtain g1 where g1: "run_tx X H (GenesisFund ?i (AmountMicros 0)) (global_state_new 2) = Ok () g1"
    and a1: "gs_accounts g1 = fmupd ?i (new_human ?i (AmountMicros 0)) fmempty" "gs_holdings g1 = fmempty"
      "gs_assets g1 = fmempty" "gs_asset_symbols g1 = fmempty" "gs_total_supply g1 = AmountMicros 0"
    by (simp add: genesis_fund_def Let_def global_state_new_def set_account_def push_event_def new_human_def)
  obtain g2 where g2: "run_tx X H (GenesisFund ?b ?f) g1 = Ok () g2"
    and a2: "gs_accounts g2 = fmupd ?b (new_human ?b ?f) (gs_accounts g1)" "gs_holdings g2 = fmempty"
      "gs_assets g2 = fmempty" "gs_asset_symbols g2 = fmempty"
    using a1 by (simp add: genesis_fund_def Let_def set_account_def push_event_def new_human_def)
  let ?asset = "\<lparr> as_asset_id = ?a, as_symbol = to_ascii_uppercase symbol,
      as_name = to_ascii_uppercase symbol @ '' Tokenized Shares'', as_issuer = ?i, as_decimals = 0,
      as_max_supply = ?max, as_minted = 0 \<rparr>"
  obtain g3 where g3: "run_tx X H (RegisterAsset ?a ?i symbol (to_ascii_uppercase symbol @ '' Tokenized Shares'') 0 ?max) g2 = Ok () g3"
    and a3: "gs_accounts g3 = gs_accounts g2" "gs_holdings g3 = fmempty" "gs_assets g3 = fmupd ?a ?asset fmempty"
    using a1 a2 sym pos by (simp add: register_asset_def ensure_active_def check_then_def Let_def push_event_def new_human_def)
  obtain g4 where g4: "run_tx X H (MintAsset ?a ?i ?i mint) g3 = Ok () g4"
    and a4: "gs_accounts g4 = gs_accounts g2" "gs_holdings g4 = fmupd (?i, ?a) mint fmempty"
      "gs_assets g4 = fmupd ?a (?asset\<lparr> as_minted := mint \<rparr>) fmempty"
    using a1 a2 a3 pos
    by (simp add: mint_asset_def ensure_active_def check_then_def push_event_def new_human_def credit_holding_def holding_def
        not_less)
  obtain g5 where g5: "run_tx X H (SpotTrade ?a ?b ?i units (AmountMicros price)) g4 = Ok () g5"
    and a5: "fmlookup (gs_accounts g5) ?b = Some (new_human ?b (AmountMicros (sat_mul price 2 - price)))"
      "fmlookup (gs_accounts g5) ?i = Some (new_human ?i (AmountMicros price))"
      "holding g5 ?b ?a = units" "holding g5 ?i ?a = mint - units" "gs_assets g5 = gs_assets g4"
  proof -
    have "\<not> mint < units" "units \<noteq> 0" "\<not> sat_mul price 2 < price" using assms(2,3) price by auto
    then show ?thesis
      using that a1 a2 a4
      by (simp add: spot_trade_def ensure_active_def check_then_def Let_def push_event_def new_human_def credit_holding_def
          debit_holding_def holding_def set_account_def)
  qed
  note ok1 = run_tx_ok [OF gs_ok_new g1]
  note ok2 = run_tx_ok [OF ok1 g2] note ok3 = run_tx_ok [OF ok2 g3]
  note ok4 = run_tx_ok [OF ok3 g4] note ok5 = run_tx_ok [OF ok4 g5]
  have "apply_all X H (trade_txs X symbol mint units price) (global_state_new 2) = Some g5"
    unfolding trade_txs_def Let_def
    by (simp only: apply_all_Cons [OF gs_ok_new g1] apply_all_Cons [OF ok1 g2] apply_all_Cons [OF ok2 g3]
      apply_all_Cons [OF ok3 g4] apply_all_Cons [OF ok4 g5] apply_all.simps(1))
  then show ?thesis
    using a4(3) a5 by (simp add: trade_sim_def check_conservation_ok [OF ok5] trade_report_of_def Let_def new_human_def)
qed

section \<open>A metered contract\<close>

definition add_wat :: bytes where
  "add_wat = str_bytes ([CHR 0x0A] @ ''(module'' @ [CHR 0x0A] @
     ''  (func (export '' @ [CHR 0x22] @ ''add'' @ [CHR 0x22] @ '') (param i32 i32) (result i32)'' @ [CHR 0x0A] @
     ''    local.get 0'' @ [CHR 0x0A] @ ''    local.get 1'' @ [CHR 0x0A] @ ''    i32.add))'' @ [CHR 0x0A])"

definition wasm_txs :: "crypto \<Rightarrow> i32 \<Rightarrow> i32 \<Rightarrow> l1_tx list" where
  "wasm_txs X a b =
     (let acct = AccountId (filled 1); agent = AgentId (filled 9); hash = code_hash X add_wat in
      [GenesisFund acct (AmountMicros 100), RegisterAgent acct agent (filled 3),
       DeployContract acct hash add_wat, CallContract acct hash ''add'' a b 50000])"

record wasm_report =
  wr_result :: i32
  wr_reputation :: i64
  wr_contracts :: nat

definition wasm_sim :: "crypto \<Rightarrow> wasm_host \<Rightarrow> i32 \<Rightarrow> i32 \<Rightarrow> wasm_report option" where
  "wasm_sim X H a b =
     (case apply_all X H (wasm_txs X a b) (global_state_new 2) of
        None \<Rightarrow> None
      | Some gs \<Rightarrow>
          (case (gs_last_call_result gs, fmlookup (gs_agents gs) (AgentId (filled 9))) of
             (Some r, Some agent) \<Rightarrow>
               Some \<lparr> wr_result = r, wr_reputation = ar_reputation agent, wr_contracts = fcard (fmdom (gs_contracts gs)) \<rparr>
           | _ \<Rightarrow> None))"

text \<open>
  When the engine compiles the text and runs the export, the demonstration prints its result. Text
  is filed under its own hash and under that of the module it compiles to, so it counts twice.
\<close>

lemma wasm_sim_reports:
  assumes "wasm_compile H add_wat = Inr w" and "call_i32_i32 H w ''add'' a b 50000 = Inr r"
  shows "wasm_sim X H a b = Some \<lparr> wr_result = r, wr_reputation = 0,
    wr_contracts = (if code_hash X w = code_hash X add_wat then 1 else 2) \<rparr>"
proof -
  let ?k = "AccountId (filled 1)" and ?g = "AgentId (filled 9)" and ?h = "code_hash X add_wat"
  obtain g1 where g1: "run_tx X H (GenesisFund ?k (AmountMicros 100)) (global_state_new 2) = Ok () g1"
    and a1: "gs_accounts g1 = fmupd ?k (new_human ?k (AmountMicros 100)) fmempty" "gs_agents g1 = fmempty" "gs_contracts g1 = fmempty"
    by (simp add: genesis_fund_def Let_def global_state_new_def set_account_def push_event_def new_human_def)
  obtain g2 where g2: "run_tx X H (RegisterAgent ?k ?g (filled 3)) g1 = Ok () g2"
    and a2: "?k |\<in>| fmdom (gs_accounts g2)" "gs_contracts g2 = fmempty"
      "\<exists>m. fmlookup (gs_agents g2) ?g = Some m \<and> ar_reputation m = 0"
    using a1 by (simp add: register_agent_def Let_def set_account_def push_event_def)
  obtain g3 where g3: "run_tx X H (DeployContract ?k ?h add_wat) g2 = Ok () g3"
    and a3: "gs_accounts g3 = gs_accounts g2" "gs_agents g3 = gs_agents g2"
      "gs_contracts g3 = fmupd ?h w (fmupd (code_hash X w) w fmempty)"
    using a2(1,2) assms(1) by (simp add: deploy_contract_def Let_def push_event_def)
  obtain g4 where g4: "run_tx X H (CallContract ?k ?h ''add'' a b 50000) g3 = Ok () g4"
    and a4: "gs_last_call_result g4 = Some r" "gs_agents g4 = gs_agents g2" "gs_contracts g4 = gs_contracts g3"
    using a2(1) a3 assms(2) by (simp add: call_contract_def Let_def push_event_def)
  note ok1 = run_tx_ok [OF gs_ok_new g1]
  note ok2 = run_tx_ok [OF ok1 g2] note ok3 = run_tx_ok [OF ok2 g3]
  have "apply_all X H (wasm_txs X a b) (global_state_new 2) = Some g4"
    unfolding wasm_txs_def Let_def
    by (simp only: apply_all_Cons [OF gs_ok_new g1] apply_all_Cons [OF ok1 g2] apply_all_Cons [OF ok2 g3]
      apply_all_Cons [OF ok3 g4] apply_all.simps(1))
  then show ?thesis using a2(3) a4 by (auto simp: wasm_sim_def a3(3) fcard.rep_eq)
qed

end
