(* ===== verification/Pay_Sims.thy ===== *)
theory Pay_Sims
  imports Testkit Settlement Authority Ledger_Sims "HOL-Library.Monad_Syntax"
begin

text \<open>
  The demonstrations that pay through the test cluster: \<open>tools/src/bin/pay_sim.rs\<close> and
  \<open>checkpoint_sim.rs\<close>. As in \<open>Ledger_Sims\<close> a failing \<open>unwrap\<close> ends the program, \<open>None\<close>. The keys
  a demonstration generates are its argument; the times it measures are left out.
\<close>

section \<open>What the demonstrations share\<close>

definition unwrap :: "('s, 'e, 'a) outcome \<Rightarrow> ('a \<times> 's) option" where
  "unwrap r = (case r of Ok a t \<Rightarrow> Some (a, t) | Err _ _ \<Rightarrow> None | Panic \<Rightarrow> None)"

definition unwrap_sum :: "'e + 'a \<Rightarrow> 'a option" where
  "unwrap_sum r = (case r of Inl _ \<Rightarrow> None | Inr a \<Rightarrow> Some a)"

lemma unwrap_simps [simp]: "unwrap (Ok a t) = Some (a, t)" "unwrap (Err e t) = None" "unwrap Panic = None"
  by (simp_all add: unwrap_def)

lemma unwrap_Some: "unwrap r = Some (a, t) \<longleftrightarrow> r = Ok a t"
  by (simp add: unwrap_def split: outcome.splits)

lemma unwrap_sum_simps [simp]: "unwrap_sum (Inr a) = Some a" "unwrap_sum (Inl e) = None"
  by (simp_all add: unwrap_sum_def)

record demo_keys =
  dk_platform :: keypair
  dk_issuer :: b32
  dk_issuer_pq :: pq_keypair
  dk_agent :: keypair
  dk_edge :: keypair
  dk_service :: keypair
  dk_witnesses :: "nat \<Rightarrow> keypair"
  dk_shard :: "u8 \<Rightarrow> b32"
  dk_global :: "u8 \<Rightarrow> b32"

definition demo_shard :: shard_id where
  "demo_shard = ShardId ''FRA-004''"

definition demo_account :: account_id where
  "demo_account = AccountId (filled 1)"

definition demo_request :: "crypto \<Rightarrow> demo_keys \<Rightarrow> u128 \<Rightarrow> u128 \<Rightarrow> u64 \<Rightarrow> issue_request" where
  "demo_request X K maximum per_call seq_end =
     \<lparr> ir_account_id = demo_account, ir_agent_id = AgentId (verifying_key_bytes X (dk_agent K)),
       ir_shard_id = demo_shard, ir_epoch = Epoch 1, ir_maximum_total = AmountMicros maximum,
       ir_maximum_per_call = AmountMicros per_call, ir_service_scope = [''inference/*''],
       ir_policy_hash = filled 9, ir_sequence_start = Sequence 1, ir_sequence_end = Sequence seq_end,
       ir_ttl_ms = 600000, ir_region = ''EU'', ir_now_unix_ms = 1000 \<rparr>"

text \<open>The authority is funded, allocates to the shard, and issues what it allocated.\<close>

definition demo_capability :: "crypto \<Rightarrow> demo_keys \<Rightarrow> u128 \<Rightarrow> u128 \<Rightarrow> u128 \<Rightarrow> u64 \<Rightarrow> spend_capability option" where
  "demo_capability X K float maximum per_call seq_end = do {
     let a0 = authority_new X (dk_platform K) (keypair_from_bytes (dk_issuer K)) (dk_issuer_pq K);
     (_, a1) \<leftarrow> unwrap (fund demo_account (AmountMicros float) a0);
     (_, a2) \<leftarrow> unwrap (allocate demo_account demo_shard (AmountMicros maximum) a1);
     evidence \<leftarrow> passing_attestation X a2;
     (cap, _) \<leftarrow> unwrap (issue_capability X (demo_request X K maximum per_call seq_end) evidence a2);
     Some cap }"

definition unsigned_pay :: "capability_id \<Rightarrow> epoch \<Rightarrow> agent_id \<Rightarrow> u64 \<Rightarrow> u128 \<Rightarrow> u128 \<Rightarrow> b32 \<Rightarrow> b32 \<Rightarrow> bytes \<Rightarrow> pay" where
  "unsigned_pay cid ep agent sq amount max_amount request quote sig =
     \<lparr> pay_capability_id = cid, pay_epoch = ep, pay_sequence = Sequence sq, pay_agent_id = agent,
       pay_service_id = ''inference/x'', pay_amount = AmountMicros amount, pay_currency = ''EURC'',
       pay_request_hash = request, pay_price_quote_hash = quote,
       pay_max_amount = AmountMicros max_amount, pay_pricing_schedule_version = 1,
       pay_expiry_unix_ms = 9999999999, pay_agent_signature = sig \<rparr>"

definition demo_pay :: "crypto \<Rightarrow> demo_keys \<Rightarrow> spend_capability \<Rightarrow> u64 \<Rightarrow> u128 \<Rightarrow> u128 \<Rightarrow> b32 \<Rightarrow> pay option" where
  "demo_pay X K cap sq amount max_amount request =
     (let p = unsigned_pay (cap_capability_id cap) (cap_epoch cap) (AgentId (verifying_key_bytes X (dk_agent K)))
                sq amount max_amount request (filled 5) []
      in map_option (\<lambda>sig. attach_pay sig p) (sign_pay X (dk_agent K) p))"

definition demo_cluster ::
  "crypto \<Rightarrow> (bytes \<Rightarrow> wal_record option) \<Rightarrow> demo_keys \<Rightarrow> spend_capability \<Rightarrow> shard_cluster4 option" where
  "demo_cluster X D K cap = do {
     c \<leftarrow> cluster4_with_issuer_bytes X D demo_shard (dk_issuer K) (dk_shard K);
     activate_all X cap c }"

text \<open>The capability of a demonstration, as far as the payments depend on it.\<close>

definition demo_cap :: "crypto \<Rightarrow> demo_keys \<Rightarrow> u128 \<Rightarrow> u128 \<Rightarrow> u64 \<Rightarrow> spend_capability \<Rightarrow> bool" where
  "demo_cap X K maximum per_call seq_end cap \<longleftrightarrow>
     verify_capability_hybrid X cap = Inr () \<and>
     verify_capability X (verifying_key X (keypair_from_bytes (dk_issuer K))) cap = Inr () \<and>
     cap_agent_id cap = AgentId (verifying_key_bytes X (dk_agent K)) \<and> cap_shard_id cap = demo_shard \<and>
     cap_epoch cap = Epoch 1 \<and> cap_maximum_total cap = AmountMicros maximum \<and>
     cap_maximum_per_call cap = AmountMicros per_call \<and> cap_currency cap = ''EURC'' \<and>
     cap_service_scope cap = [''inference/*''] \<and> cap_sequence_start cap = Sequence 1 \<and>
     cap_sequence_end cap = Sequence seq_end \<and> cap_valid_from_unix_ms cap = 1000 \<and>
     cap_valid_until_unix_ms cap = 601000"

lemma demo_capability_total:
  assumes "crypto_ok X" and "maximum \<le> float"
  obtains cap where "demo_capability X K float maximum per_call seq_end = Some cap" and "demo_cap X K maximum per_call seq_end cap"
proof -
  let ?a0 = "authority_new X (dk_platform K) (keypair_from_bytes (dk_issuer K)) (dk_issuer_pq K)"
  let ?f = "\<lparr> af_total = AmountMicros float, af_reserve = AmountMicros float, af_shard_allowances = fmempty \<rparr>"
  let ?g = "?f\<lparr> af_reserve := AmountMicros (float - maximum), af_shard_allowances := fmupd demo_shard (AmountMicros maximum) fmempty \<rparr>"
  let ?a1 = "?a0\<lparr> au_accounts := fmupd demo_account ?f fmempty \<rparr>" and ?a2 = "?a0\<lparr> au_accounts := fmupd demo_account ?g fmempty \<rparr>"
  let ?req = "demo_request X K maximum per_call seq_end"
  have a0: "au_accounts ?a0 = fmempty" "au_attest_policy ?a0 = tp_policy (test_platform_new X (dk_platform K))"
    "au_test_platform ?a0 = Some (test_platform_new X (dk_platform K))" "au_next_cap_counter ?a0 = 1" "au_hybrid_issue ?a0"
    "au_issuer ?a0 = keypair_from_bytes (dk_issuer K)"
    by (simp_all add: authority_new_def Let_def)
  have a1: "fund demo_account (AmountMicros float) ?a0 = Ok () ?a1" by (simp add: fund_def a0)
  have a2: "allocate demo_account demo_shard (AmountMicros maximum) ?a1 = Ok () ?a2"
    using assms(2) by (simp add: allocate_def Let_def)
  obtain ev where ev: "passing_attestation X ?a2 = Some ev" "verify_evidence X (au_attest_policy ?a2) ev = Inr ()"
    using tp_evidence_accepted [OF assms(1), of "dk_platform K"] by (auto simp: passing_attestation_def a0)
  obtain cap where seal: "seal_issued X ?a2 (unsigned_capability X ?a2 ?req) = Ok () cap"
    using seal_issued_Ok [OF assms(1)] by blast
  then obtain a3 where a3: "issue_capability X ?req ev ?a2 = Ok cap a3"
    using ev(2) by (simp add: issue_capability_Ok demo_request_def a0)
  have "demo_cap X K maximum per_call seq_end cap"
    using issue_capability_verifies [OF assms(1) _ a3] seal_issued_fields [OF seal]
    by (simp add: demo_cap_def a0 unsigned_capability_def demo_request_def sat_add_def)
  moreover have "demo_capability X K float maximum per_call seq_end = Some cap"
    using a1 a2 ev(1) a3 by (simp add: demo_capability_def Let_def)
  ultimately show ?thesis using that by blast
qed

lemma demo_cluster_total:
  assumes "crypto_ok X" and "demo_cap X K maximum per_call seq_end cap"
  obtains c0 c where "demo_cluster X D K cap = Some c"
    and "cluster4_with_issuer_bytes X D demo_shard (dk_issuer K) (dk_shard K) = Some c0" and "activate_all X cap c0 = Some c"
proof -
  let ?vk = "verifying_key X (keypair_from_bytes (dk_issuer K))"
  let ?node = "fresh_node X demo_shard ?vk (dk_shard K)"
  let ?c0 = "\<lparr> c4_engines = map ?node [0, 1, 2, 3], c4_issuer_vk = ?vk, c4_leader_idx = 0 \<rparr>"
  have "\<exists>u. activate_engine X cap (?node i) = Some u" for i
    using activate_fresh_total [OF assms(1), of ?vk cap] assms(2) unfolding demo_cap_def by metis
  then obtain t where "activate_engine X cap (?node i) = Some (t i)" for i by metis
  then have "activate_all X cap ?c0 = Some (?c0\<lparr> c4_engines := map t [0, 1, 2, 3] \<rparr>)" by (simp add: activate_all_def)
  then show ?thesis using that cluster4_fresh [of X D demo_shard "dk_issuer K" "dk_shard K"] by (simp add: demo_cluster_def)
qed

lemma demo_pay_total:
  assumes "crypto_ok X"
  obtains p where "demo_pay X K cap sq amount m h = Some p"
  using pay_sig.sign_total [OF assms] that unfolding demo_pay_def Let_def by (metis option.simps(9))

lemma demo_pay_fields:
  assumes "crypto_ok X" and "demo_pay X K cap sq amount m h = Some p"
  shows "pay_capability_id p = cap_capability_id cap" "pay_epoch p = cap_epoch cap" "pay_sequence p = Sequence sq"
    "pay_agent_id p = AgentId (verifying_key_bytes X (dk_agent K))" "pay_service_id p = ''inference/x''"
    "pay_amount p = AmountMicros amount" "pay_max_amount p = AmountMicros m" "pay_currency p = ''EURC''"
    "pay_expiry_unix_ms p = 9999999999" "verify_pay X (verifying_key X (dk_agent K)) p = Inr ()"
proof -
  obtain q sig where "sign_pay X (dk_agent K) q = Some sig" and p: "p = attach_pay sig q"
    and q: "q = unsigned_pay (cap_capability_id cap) (cap_epoch cap) (AgentId (verifying_key_bytes X (dk_agent K)))
      sq amount m h (filled 5) []"
    using assms(2) by (auto simp: demo_pay_def Let_def)
  then show "verify_pay X (verifying_key X (dk_agent K)) p = Inr ()" using pay_sig.verify_attached [OF assms(1)] by blast
  show "pay_capability_id p = cap_capability_id cap" "pay_epoch p = cap_epoch cap" "pay_sequence p = Sequence sq"
    "pay_agent_id p = AgentId (verifying_key_bytes X (dk_agent K))" "pay_service_id p = ''inference/x''"
    "pay_amount p = AmountMicros amount" "pay_max_amount p = AmountMicros m" "pay_currency p = ''EURC''"
    "pay_expiry_unix_ms p = 9999999999"
    by (simp_all add: p q attach_pay_def unsigned_pay_def)
qed

text \<open>What a validator of the demonstration checks comes down to the ledger.\<close>

lemma demo_pay_valid:
  assumes "crypto_ok X" and "demo_cap X K maximum per_call seq_end cap" and "demo_pay X K cap sq amount m h = Some p"
    and "si_capabilities s = fmupd (cap_capability_id cap) cap fmempty" and "vc_shard_id (si_cfg s) = demo_shard"
    and "vc_issuer_vk (si_cfg s) = verifying_key X (keypair_from_bytes (dk_issuer K))"
    and "epoch_state_of (si_state s) (Epoch 1) = Active" and "amount \<le> m"
    and "amount \<le> per_call" and "\<not> is_consumed (si_state s) (cap_capability_id cap) (Epoch 1) (Sequence sq)"
    and "1000 \<le> now" and "now \<le> 601000"
  shows "validate_pay X s p now = Inr () \<longleftrightarrow>
    (\<exists>r. remaining_of (si_state s) (cap_capability_id cap) = Inr (AmountMicros r) \<and> amount \<le> r)"
proof -
  have "service_in_scope ''inference/x'' [''inference/*'']" by code_simp
  moreover have "ed_point_ok X (verifying_key_bytes X k)" for k
    using assms(1) by (simp add: verifying_key_bytes_def verifying_key_def)
  moreover have "VKey (verifying_key_bytes X k) = verifying_key X k" for k
    by (simp add: verifying_key_bytes_def verifying_key_def)
  moreover have "(\<exists>r. remaining_of (si_state s) (cap_capability_id cap) = Inr r \<and> amt (AmountMicros amount) \<le> amt r) \<longleftrightarrow>
      (\<exists>r. remaining_of (si_state s) (cap_capability_id cap) = Inr (AmountMicros r) \<and> amount \<le> r)"
    by (metis amount_micros.exhaust amount_micros.sel micros_le_amt)
  moreover have "unat amount \<le> unat per_call" "unat amount \<le> unat m"
    using assms(8,9) by (simp_all add: word_le_nat_alt)
  moreover have "now \<le> 9999999999" using assms(12) by (rule order_trans) simp
  ultimately show ?thesis
    using assms(2,4-) demo_pay_fields [OF assms(1,3)]
    by (simp add: validate_pay_Inr authorised_def demo_cap_def)
qed

section \<open>A run of payments (pay_sim.rs)\<close>

text \<open>The payments of \<open>for i in 1..=args.pays\<close>, whose request hash starts with \<open>i\<close>.\<close>

definition loop_indices :: "u64 \<Rightarrow> u64 list" where
  "loop_indices n = map word_of_nat [1..<Suc (unat n)]"

definition loop_pay :: "crypto \<Rightarrow> demo_keys \<Rightarrow> spend_capability \<Rightarrow> u64 \<Rightarrow> pay option" where
  "loop_pay X K cap i = demo_pay X K cap i 1 5 (word_of_nat (nat_of_le (le_bytes 8 i @ replicate 24 0)))"

record pay_report =
  pr_pays :: u64
  pr_remaining :: u128

definition pay_sim :: "crypto \<Rightarrow> (bytes \<Rightarrow> wal_record option) \<Rightarrow> demo_keys \<Rightarrow> u64 \<Rightarrow> pay_report option" where
  "pay_sim X D K pays = do {
     seq_end \<leftarrow> chk_add pays 10;
     cap \<leftarrow> demo_capability X K 1000000 1000000 5 seq_end;
     c \<leftarrow> demo_cluster X D K cap;
     ps \<leftarrow> those (map (loop_pay X K cap) (loop_indices pays));
     (accs, _) \<leftarrow> pay_all X 1100 ps (cluster_leader c) (tl (c4_engines c));
     if accs = [] \<or> 1000000 < unat pays then None
     else Some \<lparr> pr_pays = pays, pr_remaining = 1000000 - ucast pays \<rparr> }"

text \<open>
  The payments of a demonstration's loop: one unit each, numbered from \<open>off + 1\<close>; and the ledger
  after \<open>n\<close> of them.
\<close>

definition numbered_pay :: "crypto \<Rightarrow> demo_keys \<Rightarrow> spend_capability \<Rightarrow> nat \<Rightarrow> (nat \<Rightarrow> b32) \<Rightarrow> nat \<Rightarrow> pay option" where
  "numbered_pay X K cap off h i = demo_pay X K cap (word_of_nat (i + off)) 1 5 (h i)"

definition after_loop :: "nat \<Rightarrow> spend_capability \<Rightarrow> u64 \<Rightarrow> nat \<Rightarrow> shard_state \<Rightarrow> bool" where
  "after_loop off cap seq_end n st \<longleftrightarrow> epoch_state_of st (Epoch 1) = Active \<and> unat (ss_commit_index st) = n \<and>
     fmlookup (ss_capabilities st) (cap_capability_id cap) =
       Some \<lparr> ac_remaining = AmountMicros (word_of_nat (1000000 - n)), ac_sequence_start = Sequence 1,
              ac_sequence_end = Sequence seq_end, ac_epoch = Epoch 1 \<rparr> \<and>
     (\<forall>q. n + off < unat q \<longrightarrow> \<not> is_consumed st (cap_capability_id cap) (Epoch 1) (Sequence q))"

lemma after_loop_start:
  "demo_cap X K 1000000 per_call seq_end cap \<Longrightarrow> after_loop off cap seq_end 0 (activated_state cap shard_state_new)"
  by (simp add: demo_cap_def after_loop_def activated_state_def activate_capability_def shard_state_new_def
      epoch_state_of_def is_consumed_def)

lemma loop_index: "n < 2 ^ 64 \<Longrightarrow> unat (word_of_nat n :: u64) = n"
  by (simp add: unat_of_nat)

lemma after_loop_next:
  assumes "crypto_ok X" and "demo_cap X K 1000000 5 seq_end cap" and "numbered_pay X K cap off h (Suc n) = Some p"
    and "si_capabilities s = fmupd (cap_capability_id cap) cap fmempty" and "vc_shard_id (si_cfg s) = demo_shard"
    and "vc_issuer_vk (si_cfg s) = verifying_key X (keypair_from_bytes (dk_issuer K))"
    and st: "after_loop off cap seq_end n (si_state s)" and n: "n \<le> 1000000" "n + off < unat seq_end"
    and now: "1000 \<le> now" "now \<le> 601000"
  shows "validate_pay X s p now = Inr () \<longleftrightarrow> n < 1000000"
    and "n < 1000000 \<Longrightarrow> body_consumable (pay_body_of X p) (si_state s)"
    and "n < 1000000 \<Longrightarrow> after_loop off cap seq_end (Suc n) (consumed_state (pay_body_of X p) (si_state s))"
proof -
  have idx: "unat (word_of_nat (Suc n + off) :: u64) = Suc n + off"
  proof (rule loop_index)
    have "unat seq_end < 2 ^ 64" using unsigned_less [of seq_end] by simp
    then show "Suc n + off < 2 ^ 64" using n(2) by simp
  qed
  have ep: "cap_epoch cap = Epoch 1" using assms(2) by (simp add: demo_cap_def)
  have rem: "unat (word_of_nat (1000000 - n) :: u128) = 1000000 - n" by (simp add: unat_of_nat)
  have one: "(1 :: u128) \<le> word_of_nat (1000000 - n) \<longleftrightarrow> n < 1000000"
    by (simp add: word_le_nat_alt rem Suc_le_eq)
  note f = demo_pay_fields [OF assms(1) assms(3) [unfolded numbered_pay_def]]
  show "validate_pay X s p now = Inr () \<longleftrightarrow> n < 1000000"
    using demo_pay_valid [OF assms(1,2) assms(3) [unfolded numbered_pay_def] assms(4-6) _ _ _ _ now] st idx one
    by (simp add: after_loop_def remaining_of_def)
  assume lt: "n < 1000000"
  have b: "pb_capability_id (pay_body_of X p) = cap_capability_id cap" "pb_epoch (pay_body_of X p) = Epoch 1"
    "pb_sequence (pay_body_of X p) = Sequence (word_of_nat (Suc n + off))" "pb_amount (pay_body_of X p) = AmountMicros 1"
    using f ep by (simp_all add: pay_body_of_def body_from_pay_def)
  have le: "(1 :: u64) \<le> word_of_nat (Suc n + off)" "(word_of_nat (Suc n + off) :: u64) \<le> seq_end"
    unfolding word_le_nat_alt idx using n(2) by simp_all
  show c: "body_consumable (pay_body_of X p) (si_state s)"
    using st le one lt idx n(1) rem
    by (simp add: body_consumable_def b consumable_def after_loop_def amt_def)
  have "word_of_nat (1000000 - n) - (1 :: u128) = word_of_nat (1000000 - Suc n)"
    using lt by simp
  moreover have "unat (ss_commit_index (si_state s) + 1) = Suc n"
    using st n(1) by (simp add: after_loop_def unat_add_lem [THEN iffD1])
  moreover have "q \<noteq> word_of_nat (Suc n + off)" if "Suc n + off < unat q" for q :: u64 using that idx by auto
  ultimately show "after_loop off cap seq_end (Suc n) (consumed_state (pay_body_of X p) (si_state s))"
    using st by (auto simp: after_loop_def consumed_state_def after_consume_def b is_consumed_def consume_key_of_def epoch_state_of_def)
qed

text \<open>One ledger takes the loop's payments up to the capability's maximum.\<close>

lemma ledger_takes_loop:
  assumes "crypto_ok X" and cap: "demo_cap X K 1000000 5 seq_end cap"
    and "list_all2 (\<lambda>i p. numbered_pay X K cap off h i = Some p) [Suc n..<Suc (n + length ps)] ps"
    and "si_capabilities s = fmupd (cap_capability_id cap) cap fmempty" and "vc_shard_id (si_cfg s) = demo_shard"
    and "vc_issuer_vk (si_cfg s) = verifying_key X (keypair_from_bytes (dk_issuer K))"
    and "after_loop off cap seq_end n (si_state s)" and "n + length ps \<le> 1000000" "n + length ps + off \<le> unat seq_end"
    and now: "1000 \<le> now" "now \<le> 601000"
  shows "\<exists>st. ledger_takes X now ps s = Some st \<and> after_loop off cap seq_end (n + length ps) st"
  using assms(3-9)
proof (induction ps arbitrary: n s rule: list.induct)
  case (Cons p ps)
  let ?st = "consumed_state (pay_body_of X p) (si_state s)"
  have idx: "[Suc n..<Suc (n + length (p # ps))] = Suc n # [Suc (Suc n)..<Suc (Suc n + length ps)]"
    by (simp add: upt_conv_Cons del: upt_Suc)
  have p: "numbered_pay X K cap off h (Suc n) = Some p"
    and ps: "list_all2 (\<lambda>i p. numbered_pay X K cap off h i = Some p) [Suc (Suc n)..<Suc (Suc n + length ps)] ps"
    using Cons.prems(1) unfolding idx by simp_all
  have n: "n < 1000000" "n \<le> 1000000" "n + off < unat seq_end" using Cons.prems(6,7) by simp_all
  note next_ = after_loop_next [OF assms(1) cap p Cons.prems(2-5) n(2,3) now]
  have "\<exists>st. ledger_takes X now ps (s\<lparr> si_state := ?st \<rparr>) = Some st \<and> after_loop off cap seq_end (Suc n + length ps) st"
    using Cons.IH [OF ps, of "s\<lparr> si_state := ?st \<rparr>"] Cons.prems(2-4,6,7) next_(3) [OF n(1)] by simp
  moreover have "consume_body (pay_body_of X p) s = Ok () (s\<lparr> si_state := ?st \<rparr>)"
    using next_(2) [OF n(1)] by (simp add: consume_body_Ok)
  ultimately show ?case using next_(1) n(1) by simp
qed simp

lemma numbered_pays_total:
  assumes "crypto_ok X"
  obtains ps where "those (map (numbered_pay X K cap off h) is) = Some ps"
    and "list_all2 (\<lambda>i p. numbered_pay X K cap off h i = Some p) is ps"
proof -
  have "\<exists>ps. those (map (numbered_pay X K cap off h) is) = Some ps \<and>
      list_all2 (\<lambda>i p. numbered_pay X K cap off h i = Some p) is ps"
  proof (induction "is")
    case (Cons i "is")
    obtain p where "numbered_pay X K cap off h i = Some p"
      unfolding numbered_pay_def by (rule demo_pay_total [OF assms])
    then show ?case using Cons by auto
  qed simp
  then show ?thesis using that by blast
qed

definition loop_hash :: "nat \<Rightarrow> b32" where
  "loop_hash i = word_of_nat (nat_of_le (le_bytes 8 (word_of_nat i :: u64) @ replicate 24 0))"

lemma loop_numbered:
  "map (loop_pay X K cap) (loop_indices n) = map (numbered_pay X K cap 0 loop_hash) [1..<Suc (unat n)]"
  by (simp add: loop_indices_def loop_pay_def numbered_pay_def loop_hash_def del: upt_Suc)

lemma pay_all_append:
  "pay_all X now (ps @ qs) l fs = (case pay_all X now ps l fs of None \<Rightarrow> None
     | Some (accs, t, gs) \<Rightarrow> map_option (\<lambda>(bccs, r). (accs @ bccs, r)) (pay_all X now qs t gs))"
proof (induction ps arbitrary: l fs)
  case (Cons p ps)
  show ?case
  proof (cases "cluster_pay X p now l fs")
    case (Pair r fs')
    then show ?thesis
      by (cases r) (auto simp: Cons.IH option.map_comp o_def split: option.splits intro!: option.map_cong0)
  qed
qed (auto simp: option.map_id0 split: option.splits)

lemma pay_all_refuses:
  assumes "validate_pay X l p now \<noteq> Inr ()"
  shows "pay_all X now (p # ps) l fs = None"
proof -
  have "\<exists>e. fst (cluster_pay X p now l fs) = Err e l"
    using handle_pay_invalid [OF assms] by (simp add: cluster_pay_def Let_def)
  then show ?thesis by (cases "cluster_pay X p now l fs") auto
qed

text \<open>The demonstration's cluster before the loop.\<close>

lemma demo_cluster_ready:
  assumes "crypto_ok X" and "demo_cap X K maximum per_call seq_end cap"
  obtains c where "demo_cluster X D K cap = Some c"
    and "ready X cap (activated_state cap shard_state_new) demo_shard (verifying_key X (keypair_from_bytes (dk_issuer K)))
      (dk_shard K) 4 (cluster_leader c) (tl (c4_engines c))"
proof -
  obtain c0 c where c: "demo_cluster X D K cap = Some c"
    and r: "cluster4_with_issuer_bytes X D demo_shard (dk_issuer K) (dk_shard K) = Some c0" "activate_all X cap c0 = Some c"
    by (rule demo_cluster_total [OF assms])
  show ?thesis using that [OF c] cluster4_active(1,5) [OF r, of 4] by simp
qed

lemma ready_fields:
  assumes "ready X cap st shard vk secrets k l fs"
  shows "si_state l = st" "si_capabilities l = fmupd (cap_capability_id cap) cap fmempty"
    "vc_shard_id (si_cfg l) = shard" "vc_issuer_vk (si_cfg l) = vk"
  using assms by (simp_all add: ready_def cap_node_def node_config_def)

text \<open>A loop that fits is paid in full; the payment beyond the maximum is refused.\<close>

lemma loop_paid:
  assumes "crypto_ok X" and cap: "demo_cap X K 1000000 5 seq_end cap"
    and r: "ready X cap (activated_state cap shard_state_new) demo_shard (verifying_key X (keypair_from_bytes (dk_issuer K)))
      (dk_shard K) 4 l fs"
    and ps: "list_all2 (\<lambda>i p. numbered_pay X K cap off h i = Some p) [1..<Suc (length ps)] ps"
    and "length ps \<le> 1000000" "length ps + off \<le> unat seq_end" and now: "1000 \<le> now" "now \<le> 601000"
  obtains accs t gs st where "pay_all X now ps l fs = Some (accs, t, gs)" and "length accs = length ps"
    and "ready X cap st demo_shard (verifying_key X (keypair_from_bytes (dk_issuer K))) (dk_shard K) 4 t gs"
    and "after_loop off cap seq_end (length ps) st"
proof -
  note f = ready_fields [OF r]
  obtain st where takes: "ledger_takes X now ps l = Some st" and st: "after_loop off cap seq_end (length ps) st"
    using ledger_takes_loop [OF assms(1) cap, of off h 0 ps l now] ps f after_loop_start [OF cap] assms(5-) by auto
  obtain accs t gs where run: "pay_all X now ps l fs = Some (accs, t, gs)"
    "ready X cap st demo_shard (verifying_key X (keypair_from_bytes (dk_issuer K))) (dk_shard K) 4 t gs"
    and "map ed_tx_id accs = map (tx_id X) ps"
    using ready_pays_all [OF assms(1) r takes f] by blast
  then have "length accs = length ps" by (metis length_map)
  then show ?thesis using that run st by blast
qed

lemma loop_overspent:
  assumes "crypto_ok X" and cap: "demo_cap X K 1000000 5 seq_end cap"
    and r: "ready X cap (activated_state cap shard_state_new) demo_shard (verifying_key X (keypair_from_bytes (dk_issuer K)))
      (dk_shard K) 4 l fs"
    and ps: "list_all2 (\<lambda>i p. numbered_pay X K cap off h i = Some p) [1..<Suc (length ps)] ps"
    and "1000000 < length ps" "length ps + off \<le> unat seq_end" and now: "1000 \<le> now" "now \<le> 601000"
  shows "pay_all X now ps l fs = None"
proof -
  let ?n = "1000000 :: nat"
  let ?P = "\<lambda>i p. numbered_pay X K cap off h i = Some p"
  obtain p qs where split: "ps = take ?n ps @ p # qs" and p: "ps ! ?n = p"
    using assms(5) id_take_nth_drop by blast
  have "?P ([1..<Suc (length ps)] ! ?n) p"
    using list_all2_nthD2 [OF ps assms(5)] p by simp
  then have lp: "numbered_pay X K cap off h (Suc ?n) = Some p"
    using assms(5) by (simp del: upt_Suc)
  have len: "length (take ?n ps) = ?n" using assms(5) by simp
  have "take ?n [1..<Suc (length ps)] = [1..<Suc ?n]"
    using assms(5) by (simp del: upt_Suc)
  then have "list_all2 ?P [1..<Suc (length (take ?n ps))] (take ?n ps)"
    using list_all2_takeI [OF ps, of ?n] unfolding len by simp
  note pre = this
  have fits: "length (take ?n ps) \<le> 1000000" "length (take ?n ps) + off \<le> unat seq_end" using len assms(5,6) by simp_all
  obtain accs t gs st where run: "pay_all X now (take ?n ps) l fs = Some (accs, t, gs)"
    and t: "ready X cap st demo_shard (verifying_key X (keypair_from_bytes (dk_issuer K))) (dk_shard K) 4 t gs"
    and st: "after_loop off cap seq_end (length (take ?n ps)) st"
    by (rule loop_paid [OF assms(1) cap r pre fits now])
  note f = ready_fields [OF t]
  have "validate_pay X t p now \<noteq> Inr ()"
    using after_loop_next(1) [OF assms(1) cap lp f(2,3,4) _ _ _ now] st f(1) assms(5,6) unfolding len by simp
  then have "pay_all X now (p # qs) t gs = None" by (rule pay_all_refuses)
  then show ?thesis by (subst split) (simp add: pay_all_append run)
qed

text \<open>The start of both demonstrations, and whether the cluster pays all their payments.\<close>

lemma loop_setup:
  assumes "crypto_ok X" and "unat pays + 10 < 2 ^ 64"
  obtains cap c ps where "chk_add pays 10 = Some (pays + 10)"
    and "demo_capability X K 1000000 1000000 5 (pays + 10) = Some cap" and "demo_cluster X D K cap = Some c"
    and "those (map (loop_pay X K cap) (loop_indices pays)) = Some ps" and "length ps = unat pays"
    and "\<forall>p \<in> set ps. 1 \<le> amt (pay_max_amount p)"
    and "unat pays \<le> 1000000 \<Longrightarrow> \<exists>accs r. pay_all X 1100 ps (cluster_leader c) (tl (c4_engines c)) = Some (accs, r) \<and> length accs = unat pays"
    and "1000000 < unat pays \<Longrightarrow> pay_all X 1100 ps (cluster_leader c) (tl (c4_engines c)) = None"
proof -
  let ?stop = "pays + 10" and ?n = "unat pays"
  have e: "chk_add pays 10 = Some ?stop" "unat ?stop = ?n + 10"
    using assms(2) by (simp_all add: chk_add_def unat_add_lem [THEN iffD1])
  obtain cap where cap: "demo_capability X K 1000000 1000000 5 ?stop = Some cap" "demo_cap X K 1000000 5 ?stop cap"
    by (rule demo_capability_total [OF assms(1) order_refl])
  obtain c where c: "demo_cluster X D K cap = Some c"
    and r: "ready X cap (activated_state cap shard_state_new) demo_shard (verifying_key X (keypair_from_bytes (dk_issuer K)))
      (dk_shard K) 4 (cluster_leader c) (tl (c4_engines c))"
    by (rule demo_cluster_ready [OF assms(1) cap(2)])
  obtain ps where ps: "those (map (loop_pay X K cap) (loop_indices pays)) = Some ps"
    and each: "list_all2 (\<lambda>i p. numbered_pay X K cap 0 loop_hash i = Some p) [1..<Suc ?n] ps"
    unfolding loop_numbered by (rule numbered_pays_total [OF assms(1)])
  have n: "length ps = ?n" using list_all2_lengthD [OF each] by (simp del: upt_Suc)
  have "\<forall>p \<in> set ps. 1 \<le> amt (pay_max_amount p)"
  proof
    fix p assume "p \<in> set ps"
    then obtain i where "numbered_pay X K cap 0 loop_hash i = Some p"
      using each by (auto simp: list_all2_conv_all_nth in_set_conv_nth)
    then show "1 \<le> amt (pay_max_amount p)"
      using demo_pay_fields(7) [OF assms(1)] by (fastforce simp: numbered_pay_def amt_def)
  qed
  moreover have "\<exists>accs r. pay_all X 1100 ps (cluster_leader c) (tl (c4_engines c)) = Some (accs, r) \<and> length accs = ?n"
    if "?n \<le> 1000000"
  proof -
    have fits: "length ps \<le> 1000000" "length ps + 0 \<le> unat ?stop" "(1000 :: u64) \<le> 1100" "(1100 :: u64) \<le> 601000"
      using that e(2) n by simp_all
    show ?thesis using loop_paid [OF assms(1) cap(2) r each [folded n] fits] n by metis
  qed
  moreover have "pay_all X 1100 ps (cluster_leader c) (tl (c4_engines c)) = None" if "1000000 < ?n"
    using loop_overspent [OF assms(1) cap(2) r each [folded n], of 1100] that e(2) n by simp
  ultimately show ?thesis using that e(1) cap(1) c ps n by blast
qed

text \<open>The payment demonstration ends well exactly when it is asked for at least one payment and at most
  as many as the capability's maximum covers, and then it reports the rest of the maximum.\<close>

lemma pay_sim_exact:
  assumes "crypto_ok X"
  shows "pay_sim X D K pays = (if 0 < pays \<and> unat pays \<le> 1000000
    then Some \<lparr> pr_pays = pays, pr_remaining = 1000000 - ucast pays \<rparr> else None)"
proof (cases "unat pays + 10 < 2 ^ 64")
  case True
  have pos: "0 < pays \<longleftrightarrow> unat pays \<noteq> 0" by (simp add: word_less_nat_alt)
  show ?thesis
  proof (rule loop_setup [OF assms True, of K D])
    fix cap c ps
    assume set_up: "chk_add pays 10 = Some (pays + 10)" "demo_capability X K 1000000 1000000 5 (pays + 10) = Some cap"
      "demo_cluster X D K cap = Some c" "those (map (loop_pay X K cap) (loop_indices pays)) = Some ps" "length ps = unat pays"
      "unat pays \<le> 1000000 \<Longrightarrow> \<exists>accs r. pay_all X 1100 ps (cluster_leader c) (tl (c4_engines c)) = Some (accs, r) \<and> length accs = unat pays"
      "1000000 < unat pays \<Longrightarrow> pay_all X 1100 ps (cluster_leader c) (tl (c4_engines c)) = None"
    then show ?thesis using pos by (cases "unat pays \<le> 1000000") (auto simp: pay_sim_def)
  qed
next
  case False
  then show ?thesis by (simp add: pay_sim_def chk_add_def)
qed

definition sample_keys :: demo_keys where
  "sample_keys = \<lparr> dk_platform = Keypair 1, dk_issuer = 2, dk_issuer_pq = PqKeypair [1], dk_agent = Keypair 4,
     dk_edge = Keypair 5, dk_service = Keypair 6, dk_witnesses = (\<lambda>j. Keypair (word_of_nat (10 + j))),
     dk_shard = (\<lambda>i. 20 + ucast i), dk_global = (\<lambda>i. 30 + ucast i) \<rparr>"

lemma pay_sim_exact_witness:
  "pay_sim sample_crypto (\<lambda>_. None) sample_keys 3 = Some \<lparr> pr_pays = 3, pr_remaining = 999997 \<rparr>"
  using pay_sim_exact [OF sample_crypto_ok, of "\<lambda>_. None" sample_keys 3] by simp

section \<open>Payments under a checkpoint (checkpoint_sim.rs)\<close>

text \<open>The loop: each accepted payment is completed with a service receipt and filed.\<close>

fun prove_all ::
  "crypto \<Rightarrow> demo_keys \<Rightarrow> (u64 \<times> pay) list \<Rightarrow> shard_inner \<Rightarrow> shard_inner list \<Rightarrow> receipt_log \<Rightarrow> receipt_log option" where
  "prove_all X K [] l fs log = Some log"
| "prove_all X K ((i, p) # ips) l fs log =
     (case cluster_pay X p 1100 l fs of
        (Ok acc t, fs') \<Rightarrow> do {
          (_, log') \<leftarrow> unwrap (complete_payment_proof X p acc (dk_edge K) (filled (ucast i)) (AmountMicros 1) (dk_service K) log);
          prove_all X K ips t fs' log' }
      | _ \<Rightarrow> None)"

definition sim_witnesses :: "crypto \<Rightarrow> demo_keys \<Rightarrow> nat \<Rightarrow> signed_checkpoint \<Rightarrow> witnessed_checkpoint option" where
  "sim_witnesses X K n cp = do {
     sigs \<leftarrow> those (map (\<lambda>j. unwrap_sum (countersign X (dk_witnesses K j) cp)) [0..<n]);
     Some \<lparr> wc_checkpoint = cp, wc_witness_sigs = sigs \<rparr> }"

record checkpoint_report =
  cr_pays :: u64
  cr_height :: u64
  cr_root :: b32
  cr_witnesses :: nat

text \<open>What follows the loop.\<close>

definition checkpoint_end :: "crypto \<Rightarrow> demo_keys \<Rightarrow> u64 \<Rightarrow> receipt_log \<Rightarrow> checkpoint_report option" where
  "checkpoint_end X K pays log = do {
     (cp, _) \<leftarrow> unwrap (force_seal X (dk_edge K) demo_shard (Epoch 1) 2000 (sealer_new pays (AmountMicros (- 1)), log));
     w \<leftarrow> sim_witnesses X K 3 cp;
     _ \<leftarrow> unwrap_sum (verify_witnessed X w 3);
     Some \<lparr> cr_pays = hd_tx_count (sc_header cp), cr_height = hd_height (sc_header cp),
            cr_root = hd_root (sc_header cp), cr_witnesses = length (wc_witness_sigs w) \<rparr> }"

definition checkpoint_sim :: "crypto \<Rightarrow> (bytes \<Rightarrow> wal_record option) \<Rightarrow> demo_keys \<Rightarrow> u64 \<Rightarrow> checkpoint_report option" where
  "checkpoint_sim X D K pays = do {
     seq_end \<leftarrow> chk_add pays 10;
     cap \<leftarrow> demo_capability X K 1000000 1000000 5 seq_end;
     c \<leftarrow> demo_cluster X D K cap;
     ps \<leftarrow> those (map (loop_pay X K cap) (loop_indices pays));
     log \<leftarrow> prove_all X K (zip (loop_indices pays) ps) (cluster_leader c) (tl (c4_engines c)) receipt_log_new;
     checkpoint_end X K pays log }"

lemma prove_all_fails: "pay_all X 1100 ps l fs = None \<Longrightarrow> length is = length ps \<Longrightarrow> prove_all X K (zip is ps) l fs log = None"
proof (induction ps arbitrary: "is" l fs log)
  case (Cons p ps)
  then obtain i js where "is" : "is = i # js" "length js = length ps" by (cases "is") auto
  show ?case
  proof (cases "cluster_pay X p 1100 l fs")
    case (Pair r fs')
    then show ?thesis
      using Cons.prems(1) Cons.IH [of _ fs' js] "is" by (cases r) (auto simp: unwrap_def Option.bind_eq_None_conv split: outcome.splits)
  qed
qed simp

lemma prove_all_total:
  assumes "crypto_ok X" and "pay_all X 1100 ps l fs = Some r" and "length is = length ps"
    and "\<forall>p \<in> set ps. 1 \<le> amt (pay_max_amount p)" and "rlog.accounts X log" and "amt (rl_exposure log) + length ps < 2 ^ 128"
  shows "\<exists>log'. prove_all X K (zip is ps) l fs log = Some log' \<and> rlog.accounts X log' \<and>
    length (rl_proofs log') = length (rl_proofs log) + length ps \<and> amt (rl_exposure log') = amt (rl_exposure log) + length ps"
  using assms(2-)
proof (induction ps arbitrary: "is" l fs log r)
  case (Cons p ps)
  obtain i js where "is" : "is = i # js" "length js = length ps" using Cons.prems(2) by (cases "is") auto
  obtain acc t fs' r' where pay: "cluster_pay X p 1100 l fs = (Ok acc t, fs')" and rest: "pay_all X 1100 ps t fs' = Some r'"
    using Cons.prems(1) by (auto split: prod.splits outcome.splits)
  have m: "amt (AmountMicros 1) \<le> amt (pay_max_amount p)" using Cons.prems(3) by (simp add: amt_def)
  have room: "amt (rl_exposure log) + amt (AmountMicros 1) < 2 ^ 128" using Cons.prems(5) by (simp add: amt_def)
  obtain pr log1 where pr: "complete_payment_proof X p acc (dk_edge K) (filled (ucast i)) (AmountMicros 1) (dk_service K) log = Ok pr log1"
    using complete_payment_proof_total [OF assms(1) m room] by blast
  then have app: "log_append X pr log = Ok () log1" and cost: "sr_actual_amount (pp_service pr) = AmountMicros 1"
    by (auto simp: complete_payment_proof_Ok service_part_def attach_service_def)
  have log1: "amt (rl_exposure log1) = amt (rl_exposure log) + 1" "length (rl_proofs log1) = length (rl_proofs log) + 1"
    using rlog.append_exposure [OF app] cost app by (auto simp: log_append_Ok actual_cost_def amt_def)
  show ?case
    using Cons.IH [OF rest "is"(2), of log1] Cons.prems(3,5) rlog.accounts_append [OF Cons.prems(4) app] log1 pay pr "is"(1) by simp
qed simp

lemma sim_witnesses_total:
  assumes "crypto_ok X" and "verify_signed_checkpoint X cp = Inr ()"
    and "distinct (map (\<lambda>j. verifying_key_bytes X (dk_witnesses K j)) [0..<n])"
  obtains sigs where "sim_witnesses X K n cp = Some \<lparr> wc_checkpoint = cp, wc_witness_sigs = sigs \<rparr>"
    and "verify_witnessed X \<lparr> wc_checkpoint = cp, wc_witness_sigs = sigs \<rparr> n = Inr ()" and "length sigs = n"
proof -
  let ?kps = "map (dk_witnesses K) [0..<n]"
  obtain sigs where sigs: "list_all2 (\<lambda>w sig. countersign X w cp = Inr sig) ?kps sigs"
    by (rule countersign_all [OF assms(1,2)])
  have "those (map (\<lambda>w. unwrap_sum (countersign X w cp)) kps) = Some ss"
    if "list_all2 (\<lambda>w sig. countersign X w cp = Inr sig) kps ss" for kps ss
    using that by (induction rule: list_all2_induct) simp_all
  from this [OF sigs] have "sim_witnesses X K n cp = Some \<lparr> wc_checkpoint = cp, wc_witness_sigs = sigs \<rparr>"
    by (simp add: sim_witnesses_def o_def del: upt_Suc)
  moreover have "length sigs = n" using list_all2_lengthD [OF sigs] by simp
  ultimately show ?thesis
    using that countersigned_verifies [OF assms(1,2) sigs, of n] assms(3) by (simp add: o_def)
qed

lemma checkpoint_end_report:
  assumes "crypto_ok X" and "distinct (map (\<lambda>j. verifying_key_bytes X (dk_witnesses K j)) [0..<3])"
  shows "map_option (\<lambda>r. (cr_pays r, cr_height r, cr_witnesses r)) (checkpoint_end X K pays log) =
    (if rl_proofs log = [] then None else Some (word_of_nat (length (rl_proofs log)), 1, 3))"
proof (cases "rl_proofs log = []")
  case False
  let ?sealer = "sealer_new pays (AmountMicros (- 1))"
  obtain cp st where seal: "force_seal X (dk_edge K) demo_shard (Epoch 1) 2000 (?sealer, log) = Ok cp st"
    by (rule force_seal_total [OF assms(1) False, of ?sealer]) (simp_all add: sealer_new_def)
  obtain sigs where "sim_witnesses X K 3 cp = Some \<lparr> wc_checkpoint = cp, wc_witness_sigs = sigs \<rparr>"
    and "verify_witnessed X \<lparr> wc_checkpoint = cp, wc_witness_sigs = sigs \<rparr> 3 = Inr ()" and "length sigs = 3"
    by (rule sim_witnesses_total [OF assms(1) force_seal_verifies [OF assms(1) seal] assms(2)])
  then show ?thesis
    using False seal force_seal_seals(1,2) [OF seal] sealer_new_def [of pays "AmountMicros (- 1)"]
    by (simp add: checkpoint_end_def seals_def)
qed (simp add: checkpoint_end_def force_seal_def log_is_empty_def)

text \<open>The checkpoint demonstration, run with three different witness keys, ends well exactly when
  the payment demonstration does; the checkpoint is the first, counts all payments, and carries
  three countersignatures that verify.\<close>

lemma checkpoint_sim_exact:
  assumes "crypto_ok X" and "distinct (map (\<lambda>j. verifying_key_bytes X (dk_witnesses K j)) [0..<3])"
  shows "map_option (\<lambda>r. (cr_pays r, cr_height r, cr_witnesses r)) (checkpoint_sim X D K pays) =
    (if 0 < pays \<and> unat pays \<le> 1000000 then Some (pays, 1, 3) else None)"
proof (cases "unat pays + 10 < 2 ^ 64")
  case True
  have pos: "0 < pays \<longleftrightarrow> unat pays \<noteq> 0" by (simp add: word_less_nat_alt)
  have new: "amt (rl_exposure receipt_log_new) = 0" "rl_proofs receipt_log_new = []" by (simp_all add: receipt_log_new_def)
  show ?thesis
  proof (rule loop_setup [OF assms(1) True, of K D])
    fix cap c ps
    let ?l = "cluster_leader c" and ?fs = "tl (c4_engines c)"
    let ?prove = "prove_all X K (zip (loop_indices pays) ps) ?l ?fs receipt_log_new"
    assume set_up: "chk_add pays 10 = Some (pays + 10)" "demo_capability X K 1000000 1000000 5 (pays + 10) = Some cap"
      "demo_cluster X D K cap = Some c" "those (map (loop_pay X K cap) (loop_indices pays)) = Some ps"
    then have sim: "checkpoint_sim X D K pays = ?prove \<bind> checkpoint_end X K pays"
      by (simp add: checkpoint_sim_def)
    assume n: "length ps = unat pays" and m: "\<forall>p \<in> set ps. 1 \<le> amt (pay_max_amount p)"
    have idx: "length (loop_indices pays) = length ps" by (simp add: loop_indices_def n del: upt_Suc)
    assume "unat pays \<le> 1000000 \<Longrightarrow> \<exists>accs r. pay_all X 1100 ps ?l ?fs = Some (accs, r) \<and> length accs = unat pays"
      and "1000000 < unat pays \<Longrightarrow> pay_all X 1100 ps ?l ?fs = None"
    then consider (paid) r where "unat pays \<le> 1000000" "pay_all X 1100 ps ?l ?fs = Some r"
      | (overspent) "1000000 < unat pays" "pay_all X 1100 ps ?l ?fs = None"
      by (metis not_le)
    then show ?thesis
    proof cases
      case paid
      obtain log where "?prove = Some log" "length (rl_proofs log) = unat pays"
        using prove_all_total [OF assms(1) paid(2) idx m rlog.accounts_new, of K] paid(1) new n by auto
      then show ?thesis using checkpoint_end_report [OF assms, of pays log] paid(1) pos by (auto simp: sim)
    next
      case overspent
      then show ?thesis using prove_all_fails [OF overspent(2) idx] by (simp add: sim)
    qed
  qed
next
  case False
  then show ?thesis by (simp add: checkpoint_sim_def chk_add_def)
qed

lemma sample_witness_keys: "distinct (map (\<lambda>j. verifying_key_bytes sample_crypto (dk_witnesses sample_keys j)) [0..<3])"
  by (simp add: sample_keys_def verifying_key_bytes_def verifying_key_def sample_crypto_def sample_public_def upt_rec)

lemma checkpoint_sim_sample:
  "\<exists>r. checkpoint_sim sample_crypto (\<lambda>_. None) sample_keys 3 = Some r \<and> cr_pays r = 3 \<and> cr_witnesses r = 3"
  using checkpoint_sim_exact [OF sample_crypto_ok sample_witness_keys, of "\<lambda>_. None" 3] by auto

end
