(* ===== verification/Transport.thy ===== *)
theory Transport
  imports Net
begin

text \<open>
  The set-up of QUIC endpoints (\<open>net/src/quic.rs\<close>, first part): the transport identity, and what a
  server and a client endpoint are configured to do. \<open>rcgen\<close>, \<open>rustls\<close> and \<open>quinn\<close> are the record
  \<open>tls_lib\<close> of functions; a \<open>Box<dyn Error>\<close> is its message. The state is the slot of the process
  that holds its cryptography provider.
\<close>

section \<open>The libraries\<close>

text \<open>
  \<open>tl_self_signed\<close>: \<open>rcgen\<close>, with the randomness it draws fixed. \<open>tl_feature_provider\<close>: the provider
  that the crate features of \<open>rustls\<close> determine, if they determine one. \<open>tl_single_cert\<close> checks a chain
  against its key; \<open>tl_quic_server\<close> and \<open>tl_quic_client\<close> check that a configuration suits QUIC;
  \<open>tl_trust_anchor\<close> reads a certificate as a root; \<open>tl_bind\<close> opens the socket and gives its address.
\<close>

record ('c, 'k) server_crypto =
  sv_client_auth :: bool
  sv_cert_chain :: "'c list"
  sv_key :: 'k
  sv_max_early_data :: u32
  sv_alpn :: "bytes list"

record 'a client_crypto =
  cl_roots :: "'a list"
  cl_client_auth :: bool
  cl_alpn :: "bytes list"
  cl_early_data :: bool

record ('c, 'k, 'a) tls_lib =
  tl_self_signed :: "string list \<Rightarrow> string + 'c \<times> 'k"
  tl_feature_provider :: "string option"
  tl_single_cert :: "'c list \<Rightarrow> 'k \<Rightarrow> string + unit"
  tl_quic_server :: "('c, 'k) server_crypto \<Rightarrow> string + unit"
  tl_quic_client :: "'a client_crypto \<Rightarrow> string + unit"
  tl_trust_anchor :: "'c \<Rightarrow> string + 'a"
  tl_bind :: "string \<Rightarrow> string + string"

type_synonym provider_slot = "string option"

record ('c, 'k) server_config =
  qs_crypto :: "('c, 'k) server_crypto"
  qs_max_bidi_streams :: u32

record ('c, 'k, 'a) quic_endpoint =
  ep_local_addr :: string
  ep_server :: "('c, 'k) server_config option"
  ep_client :: "'a client_crypto option"

text \<open>The \<open>?\<close> operator on a library call, which leaves the state alone.\<close>

definition try_lib :: "'e + 'a \<Rightarrow> ('a \<Rightarrow> 's \<Rightarrow> ('s, 'e, 'b) outcome) \<Rightarrow> 's \<Rightarrow> ('s, 'e, 'b) outcome" where
  "try_lib r k s = (case r of Inl e \<Rightarrow> Err e s | Inr a \<Rightarrow> k a s)"

lemma try_lib_simps [simp]: "try_lib (Inl e) k s = Err e s" "try_lib (Inr a) k s = k a s"
  by (simp_all add: try_lib_def)

lemma try_lib_Ok: "try_lib r k s = Ok b t \<longleftrightarrow> (\<exists>a. r = Inr a \<and> k a s = Ok b t)"
  by (cases r) simp_all

text \<open>
  \<open>ServerConfig::builder()\<close> and \<open>ClientConfig::builder()\<close> take the installed provider, else install
  the one the features determine, else panic.
\<close>

definition with_provider ::
  "('c, 'k, 'a) tls_lib \<Rightarrow> (provider_slot \<Rightarrow> (provider_slot, string, 'b) outcome) \<Rightarrow> provider_slot
   \<Rightarrow> (provider_slot, string, 'b) outcome" where
  "with_provider T k p =
     (case p of
        Some _ \<Rightarrow> k p
      | None \<Rightarrow> (case tl_feature_provider T of None \<Rightarrow> Panic | Some f \<Rightarrow> k (Some f)))"

section \<open>Endpoints\<close>

text \<open>A provider that is there already stays; the error of \<open>install_default\<close> is dropped.\<close>

definition install_crypto_provider :: "provider_slot \<Rightarrow> provider_slot" where
  "install_crypto_provider p = (case p of None \<Rightarrow> Some ''ring'' | Some q \<Rightarrow> Some q)"

definition generate_transport_tls ::
  "('c, 'k, 'a) tls_lib \<Rightarrow> provider_slot \<Rightarrow> (provider_slot, string, 'c \<times> 'k) outcome" where
  "generate_transport_tls T p = try_lib (tl_self_signed T [''localhost'']) Ok (install_crypto_provider p)"

definition alpn_seef :: bytes where
  "alpn_seef = map (\<lambda>c. word_of_nat (of_char c)) ''blockai-seef/1''"

definition make_server_endpoint ::
  "('c, 'k, 'a) tls_lib \<Rightarrow> string \<Rightarrow> provider_slot \<Rightarrow> (provider_slot, string, ('c, 'k, 'a) quic_endpoint \<times> 'c) outcome" where
  "make_server_endpoint T addr p =
     and_then (generate_transport_tls T p) (\<lambda>(cert, key).
     with_provider T (
     try_lib (tl_single_cert T [cert] key) (\<lambda>_.
     let server_crypto = \<lparr> sv_client_auth = False, sv_cert_chain = [cert], sv_key = key,
           sv_max_early_data = - 1, sv_alpn = [alpn_seef] \<rparr>
      in try_lib (tl_quic_server T server_crypto) (\<lambda>_.
     let server_config = \<lparr> qs_crypto = server_crypto, qs_max_bidi_streams = 16 \<rparr>
      in try_lib (tl_bind T addr) (\<lambda>local.
     Ok (\<lparr> ep_local_addr = local, ep_server = Some server_config, ep_client = None \<rparr>, cert))))))"

definition make_client_endpoint ::
  "('c, 'k, 'a) tls_lib \<Rightarrow> 'c \<Rightarrow> provider_slot \<Rightarrow> (provider_slot, string, ('c, 'k, 'a) quic_endpoint) outcome" where
  "make_client_endpoint T server_cert =
     try_lib (tl_trust_anchor T server_cert) (\<lambda>anchor.
     with_provider T (
     let client_crypto = \<lparr> cl_roots = [anchor], cl_client_auth = False, cl_alpn = [alpn_seef], cl_early_data = True \<rparr>
      in try_lib (tl_quic_client T client_crypto) (\<lambda>_.
     try_lib (tl_bind T ''0.0.0.0:0'') (\<lambda>local.
     Ok \<lparr> ep_local_addr = local, ep_server = None, ep_client = Some client_crypto \<rparr>))))"

section \<open>A server and its client\<close>

text \<open>The configurations, as functions of what the libraries returned.\<close>

definition server_endpoint :: "'c \<Rightarrow> 'k \<Rightarrow> string \<Rightarrow> ('c, 'k, 'a) quic_endpoint" where
  "server_endpoint cert key local = \<lparr> ep_local_addr = local,
     ep_server = Some \<lparr> qs_crypto = \<lparr> sv_client_auth = False, sv_cert_chain = [cert], sv_key = key,
       sv_max_early_data = - 1, sv_alpn = [alpn_seef] \<rparr>, qs_max_bidi_streams = 16 \<rparr>,
     ep_client = None \<rparr>"

definition client_endpoint :: "'a \<Rightarrow> string \<Rightarrow> ('c, 'k, 'a) quic_endpoint" where
  "client_endpoint anchor local = \<lparr> ep_local_addr = local, ep_server = None,
     ep_client = Some \<lparr> cl_roots = [anchor], cl_client_auth = False, cl_alpn = [alpn_seef], cl_early_data = True \<rparr> \<rparr>"

lemma with_provider_Ok:
  "with_provider T k p = Ok b q \<longleftrightarrow> (\<exists>f. (p = Some f \<or> p = None \<and> tl_feature_provider T = Some f) \<and> k (Some f) = Ok b q)"
  by (auto simp: with_provider_def split: option.splits)

lemma install_Some: "\<exists>f. install_crypto_provider p = Some f"
  by (simp add: install_crypto_provider_def split: option.splits)

lemma make_server_endpoint_Ok:
  assumes "make_server_endpoint T addr p = Ok (ep, cert) q"
  shows "\<exists>key local. tl_self_signed T [''localhost''] = Inr (cert, key) \<and> tl_bind T addr = Inr local \<and>
    tl_single_cert T [cert] key = Inr () \<and> ep = server_endpoint cert key local \<and> q = install_crypto_provider p"
proof -
  obtain f where f: "install_crypto_provider p = Some f" using install_Some by blast
  obtain cert' key where id: "tl_self_signed T [''localhost''] = Inr (cert', key)"
    using assms by (auto simp: make_server_endpoint_def generate_transport_tls_def and_then_Ok try_lib_Ok)
  show ?thesis
    using assms
    by (auto simp: make_server_endpoint_def generate_transport_tls_def id f try_lib_Ok with_provider_Ok server_endpoint_def Let_def)
qed

lemma make_client_endpoint_Ok:
  assumes "make_client_endpoint T cert p = Ok ep q"
  shows "\<exists>anchor local. tl_trust_anchor T cert = Inr anchor \<and> tl_bind T ''0.0.0.0:0'' = Inr local \<and>
    ep = client_endpoint anchor local \<and> q \<noteq> None"
  using assms by (auto simp: make_client_endpoint_def try_lib_Ok with_provider_Ok client_endpoint_def Let_def)

text \<open>
  A client made for a server's certificate trusts that server and no other, both speak the one
  application protocol, no client certificate is asked for or offered, and early data is enabled on
  both sides: what keeps payments out of it is the admission policy alone.
\<close>

lemma endpoints_fit:
  assumes "make_server_endpoint T addr p = Ok (se, cert) q" and "make_client_endpoint T cert q = Ok ce r"
  obtains sc cc anchor where "ep_server se = Some sc" and "ep_client ce = Some cc" and "tl_trust_anchor T cert = Inr anchor"
    and "sv_cert_chain (qs_crypto sc) = [cert]" and "cl_roots cc = [anchor]" and "sv_alpn (qs_crypto sc) = cl_alpn cc"
    and "sv_client_auth (qs_crypto sc) = cl_client_auth cc" and "0 < sv_max_early_data (qs_crypto sc)" and "cl_early_data cc"
proof -
  obtain key local where "se = server_endpoint cert key local"
    using make_server_endpoint_Ok [OF assms(1)] by blast
  moreover obtain anchor local' where "tl_trust_anchor T cert = Inr anchor" "ce = client_endpoint anchor local'"
    using make_client_endpoint_Ok [OF assms(2)] by blast
  moreover have "(0 :: u32) < - 1" by (simp add: word_gt_0)
  ultimately show ?thesis using that by (simp add: server_endpoint_def client_endpoint_def)
qed

text \<open>
  Making a server never panics, and after it neither does making a client. A process that only makes
  a client relies on the crate features to determine a provider.
\<close>

lemma server_endpoint_no_panic: "make_server_endpoint T addr p \<noteq> Panic"
proof -
  obtain f where "install_crypto_provider p = Some f" using install_Some by blast
  then show ?thesis
    by (simp add: make_server_endpoint_def generate_transport_tls_def with_provider_def try_lib_def Let_def split: sum.splits)
qed

lemma client_endpoint_panics_iff:
  "make_client_endpoint T cert p = Panic \<longleftrightarrow>
     (\<exists>anchor. tl_trust_anchor T cert = Inr anchor) \<and> p = None \<and> tl_feature_provider T = None"
  by (auto simp: make_client_endpoint_def with_provider_def try_lib_def Let_def split: sum.splits option.splits)

lemma client_after_server:
  assumes "make_server_endpoint T addr p = Ok r q"
  shows "make_client_endpoint T cert q \<noteq> Panic"
proof -
  obtain ep c where "r = (ep, c)" by fastforce
  then have "q = install_crypto_provider p" using make_server_endpoint_Ok [of T addr p ep c q] assms by blast
  then show ?thesis by (simp add: client_endpoint_panics_iff install_crypto_provider_def split: option.splits)
qed

text \<open>A concrete instance: certificates are names, roots are the names trusted.\<close>

definition sample_tls :: "(string, nat, string) tls_lib" where
  "sample_tls = \<lparr> tl_self_signed = (\<lambda>names. Inr (hd names, 7)), tl_feature_provider = None,
     tl_single_cert = (\<lambda>_ _. Inr ()), tl_quic_server = (\<lambda>_. Inr ()), tl_quic_client = (\<lambda>_. Inr ()),
     tl_trust_anchor = Inr, tl_bind = Inr \<rparr>"

lemma sample_endpoints:
  "\<exists>se cert q ce. make_server_endpoint sample_tls ''127.0.0.1:0'' None = Ok (se, cert) q \<and>
     make_client_endpoint sample_tls cert q = Ok ce q \<and> make_client_endpoint sample_tls cert None = Panic"
  by (simp add: make_server_endpoint_def make_client_endpoint_def generate_transport_tls_def sample_tls_def
      install_crypto_provider_def with_provider_def Let_def)

end
