(* ===== verification/Seef_Sim.thy ===== *)
theory Seef_Sim
  imports Pay_Sims Replication Transport
begin

text \<open>
  The demonstrations that use the network frames and the global cluster:
  \<open>tools/src/bin/quic_sim.rs\<close>, \<open>l1_sim.rs\<close> and the vertical slice \<open>seef_sim.rs\<close>, from the
  attestation to the conservation check. A QUIC stream hands over the bytes written to it.
\<close>

section \<open>A frame over a stream (quic_sim.rs)\<close>

definition send_receive :: "crypto \<Rightarrow> (bytes \<Rightarrow> app_frame option) \<Rightarrow> app_frame \<Rightarrow> app_frame option" where
  "send_receive X R f = do {
     (_, sent) \<leftarrow> unwrap (send_frame X f \<lparr> ts_written = [], ts_fault = None \<rparr>);
     (g, _) \<leftarrow> unwrap (recv_admitted_frame R False \<lparr> rs_data = ts_written sent, rs_end = ''finished early'' \<rparr>);
     Some g }"

datatype quic_report = PayAmount u128 | ReadPath string

definition quic_pay :: "u128 \<Rightarrow> pay" where
  "quic_pay amount = unsigned_pay (CapabilityId (filled 1)) (Epoch 1) (AgentId (filled 2)) 1 amount
     (sat_mul amount 2) (filled 3) (filled 4) (replicate 64 0)"

definition quic_sim ::
  "('c, 'k, 'a) tls_lib \<Rightarrow> provider_slot \<Rightarrow> crypto \<Rightarrow> (bytes \<Rightarrow> app_frame option) \<Rightarrow> u128 \<Rightarrow> quic_report option" where
  "quic_sim T slot X R amount = do {
     ((server, cert), slot1) \<leftarrow> unwrap (make_server_endpoint T ''127.0.0.1:0'' slot);
     (client, _) \<leftarrow> unwrap (make_client_endpoint T cert slot1);
     f \<leftarrow> send_receive X R (PayFrame (quic_pay amount));
     Some (case f of PayFrame p \<Rightarrow> PayAmount (micros (pay_amount p)) | IdempotentRead path \<Rightarrow> ReadPath path) }"

lemma send_receive_same:
  assumes "frame_reader (X, R)" and "encode_frame X f = Inr bs"
  shows "send_receive X R f = Some f"
  using recv_encoded [OF assms, of "[]"] assms(2)
  by (cases f) (simp_all add: send_receive_def send_frame_def write_all_def recv_admitted_frame_def)

section \<open>Settling on the global cluster (l1_sim.rs)\<close>

definition submit_ok ::
  "crypto \<Rightarrow> wasm_host \<Rightarrow> l1_tx list \<Rightarrow> validator_inner \<times> validator_inner list
   \<Rightarrow> (commit_outcome \<times> validator_inner \<times> validator_inner list) option" where
  "submit_ok X H txs c =
     (case submit_round X H txs (fst c) (snd c) of (Ok out t, fs) \<Rightarrow> Some (out, t, fs) | _ \<Rightarrow> None)"

definition fund_txs :: "l1_tx list" where
  "fund_txs = [GenesisFund demo_account (AmountMicros 1000),
     AllocateShardAllowance demo_account demo_shard (AmountMicros 100)]"

definition global_demo :: "crypto \<Rightarrow> wasm_host \<Rightarrow> demo_keys \<Rightarrow> (validator_inner \<times> validator_inner list) option" where
  "global_demo X H K =
     (let vs = cluster4 X 2 (dk_global K) in map_option snd (submit_ok X H fund_txs (hd vs, tl vs)))"

record settle_report =
  st_applied :: nat
  st_supply :: u128
  st_available :: u128
  st_outstanding :: u128
  st_locked :: u128

definition settle_demo ::
  "crypto \<Rightarrow> wasm_host \<Rightarrow> witnessed_checkpoint \<Rightarrow> validator_inner \<times> validator_inner list \<Rightarrow> settle_report option" where
  "settle_demo X H w c = do {
     (out, l, _) \<leftarrow> submit_ok X H [CheckpointFinalized w demo_account] c;
     let gs = gv_state l;
     _ \<leftarrow> unwrap (check_conservation gs);
     available \<leftarrow> available_sum gs;
     outstanding \<leftarrow> shard_outstanding_sum gs;
     a \<leftarrow> fmlookup (gs_accounts gs) demo_account;
     Some \<lparr> st_applied = co_applied out, st_supply = micros (gs_total_supply gs), st_available = available,
            st_outstanding = outstanding, st_locked = micros (balance_locked a) \<rparr> }"

definition l1_pay :: "u128 \<Rightarrow> pay" where
  "l1_pay exposure = unsigned_pay (CapabilityId (filled 1)) (Epoch 1) (AgentId (filled 2)) 1 exposure exposure
     (filled 4) (filled 5) (replicate 64 6)"

definition l1_edge :: edge_accept where
  "l1_edge = \<lparr> ed_commit_index = 1, ed_tx_id = filled 7, ed_edge_signature = replicate 64 8 \<rparr>"

definition l1_sim :: "crypto \<Rightarrow> wasm_host \<Rightarrow> demo_keys \<Rightarrow> u128 \<Rightarrow> settle_report option" where
  "l1_sim X H K exposure = do {
     c \<leftarrow> global_demo X H K;
     (_, log) \<leftarrow> unwrap (complete_payment_proof X (l1_pay exposure) l1_edge (dk_edge K) (filled 9) (AmountMicros exposure)
       (dk_service K) receipt_log_new);
     (cp, _) \<leftarrow> unwrap (force_seal X (dk_edge K) demo_shard (Epoch 1) 1000 (sealer_new 1 (AmountMicros (- 1)), log));
     w \<leftarrow> sim_witnesses X K 2 cp;
     settle_demo X H w c }"

lemma chk_sum_single [simp]: "f k v < 2 ^ 128 \<Longrightarrow> chk_sum f (fmupd k v fmempty) = Some (word_of_nat (f k v))"
  using fm_sum_new [of fmempty k f v] chk_sum_fits [of f "fmupd k v fmempty"] by simp

text \<open>The ledger of the demonstrations: funded, with \<open>out\<close> in the shard's escrow and \<open>lk\<close> locked.\<close>

definition demo_ledger :: "u128 \<Rightarrow> u128 \<Rightarrow> global_state \<Rightarrow> bool" where
  "demo_ledger out lk gs \<longleftrightarrow> gs_ok gs \<and> gs_min_witnesses gs = 2 \<and> gs_total_supply gs = AmountMicros 1000 \<and>
     gs_accounts gs = fmupd demo_account
       ((new_human demo_account (AmountMicros 900))\<lparr> balance_locked := AmountMicros lk \<rparr>) fmempty \<and>
     gs_shard_outstanding gs = fmupd (shard_str demo_shard, demo_account) (AmountMicros out) fmempty"

lemma demo_ledger_sums:
  assumes "demo_ledger out lk gs"
  shows "available_sum gs = Some 900" and "shard_outstanding_sum gs = Some out"
    and "\<exists>a. fmlookup (gs_accounts gs) demo_account = Some a \<and> balance_locked a = AmountMicros lk"
    and "check_conservation gs = Ok () gs"
proof -
  have gs: "gs_accounts gs = fmupd demo_account ((new_human demo_account (AmountMicros 900))\<lparr> balance_locked := AmountMicros lk \<rparr>) fmempty"
    "gs_shard_outstanding gs = fmupd (shard_str demo_shard, demo_account) (AmountMicros out) fmempty"
    using assms by (simp_all add: demo_ledger_def)
  show "available_sum gs = Some 900" by (simp add: available_sum_def gs new_human_def amt_def)
  have "unat out < 2 ^ 128" using amt_less_pow [of "AmountMicros out"] by (simp add: amt_def)
  then show "shard_outstanding_sum gs = Some out" by (simp add: shard_outstanding_sum_def gs amt_def)
  show "\<exists>a. fmlookup (gs_accounts gs) demo_account = Some a \<and> balance_locked a = AmountMicros lk"
    by (simp add: gs)
  show "check_conservation gs = Ok () gs" using assms check_conservation_ok by (simp add: demo_ledger_def)
qed

lemma fund_txs_apply:
  obtains g where "apply_txs X H fund_txs (global_state_new 2) = Ok () g" and "demo_ledger 100 0 g" and "gs_finalized g = fmempty"
proof -
  obtain g1 where g1: "run_tx X H (GenesisFund demo_account (AmountMicros 1000)) (global_state_new 2) = Ok () g1"
    and a1: "gs_accounts g1 = fmupd demo_account (new_human demo_account (AmountMicros 1000)) fmempty"
      "gs_shard_outstanding g1 = fmempty" "gs_finalized g1 = fmempty" "gs_min_witnesses g1 = 2" "gs_total_supply g1 = AmountMicros 1000"
    by (simp add: genesis_fund_def Let_def global_state_new_def set_account_def push_event_def new_human_def)
  obtain g2 where g2: "run_tx X H (AllocateShardAllowance demo_account demo_shard (AmountMicros 100)) g1 = Ok () g2"
    and a2: "gs_accounts g2 = fmupd demo_account (new_human demo_account (AmountMicros 900)) fmempty"
      "gs_shard_outstanding g2 = fmupd (shard_str demo_shard, demo_account) (AmountMicros 100) fmempty"
      "gs_finalized g2 = fmempty" "gs_min_witnesses g2 = 2" "gs_total_supply g2 = AmountMicros 1000"
    using a1 by (simp add: allocate_shard_allowance_def Let_def account_of_def check_then_def set_account_def push_event_def
        new_human_def outstanding_of_def)
  note ok1 = run_tx_ok [OF gs_ok_new g1] note ok2 = run_tx_ok [OF ok1 g2]
  have "apply_txs X H fund_txs (global_state_new 2) = Ok () g2"
    by (simp add: fund_txs_def apply_tx_run [OF gs_ok_new] apply_tx_run [OF ok1] g1 [simplified] g2 [simplified])
  moreover have "demo_ledger 100 0 g2" using a2 ok2 by (simp add: demo_ledger_def new_human_def)
  ultimately show ?thesis using that a2(3) by blast
qed

lemma global_demo_total:
  assumes "crypto_ok X"
  obtains l fs where "global_demo X H K = Some (l, fs)" and "voting_team X l fs" and "unat (dm_next_round (gv_dag l)) = 1"
    and "demo_ledger 100 0 (gv_state l)" and "gs_finalized (gv_state l) = fmempty"
proof -
  let ?vs = "cluster4 X 2 (dk_global K)"
  have vs: "?vs = hd ?vs # tl ?vs" by (simp add: cluster4_def)
  have "kill_validator 4 f = f" if "f \<in> set (tl ?vs)" for f
    using that by (auto simp: cluster4_def kill_validator_def new_validator_def)
  then have same: "map (kill_validator 4) (tl ?vs) = tl ?vs" by (simp add: map_idI)
  note start = cluster4_voting_team [OF vs, of 4, unfolded same]
  obtain g where g: "apply_txs X H fund_txs (global_state_new 2) = Ok () g" "demo_ledger 100 0 g" "gs_finalized g = fmempty"
    by (rule fund_txs_apply)
  have room: "unat (dm_next_round (gv_dag (hd ?vs))) + 1 < 2 ^ 64" using start(3) by simp
  obtain out t fs' where "submit_round X H fund_txs (hd ?vs) (tl ?vs) = (Ok out t, fs')" and "voting_team X t fs'" and "gv_state t = g"
    and "unat (dm_next_round (gv_dag t)) = unat (dm_next_round (gv_dag (hd ?vs))) + 1"
    by (rule submit_round_commits [OF assms start(1) room, of H fund_txs g]) (use start(2) g(1) in simp_all)
  then show ?thesis using that [of t fs'] g start(3) by (simp add: global_demo_def Let_def submit_ok_def)
qed

lemma demo_checkpoint:
  assumes "demo_ledger 100 0 gs" and "gs_finalized gs = fmempty" and "verify_witnessed X w 2 = Inr ()"
    and "hd_shard_id (sc_header (wc_checkpoint w)) = demo_shard" and "hd_exposure (sc_header (wc_checkpoint w)) = AmountMicros e"
  shows "e \<le> 100 \<Longrightarrow> \<exists>g. apply_txs X H [CheckpointFinalized w demo_account] gs = Ok () g \<and> demo_ledger (100 - e) e g"
    and "\<not> e \<le> 100 \<Longrightarrow> \<exists>err. apply_txs X H [CheckpointFinalized w demo_account] gs = Err err gs"
proof -
  have ok: "gs_ok gs" and gs: "gs_min_witnesses gs = 2" "gs_total_supply gs = AmountMicros 1000"
    "gs_accounts gs = fmupd demo_account ((new_human demo_account (AmountMicros 900))\<lparr> balance_locked := AmountMicros 0 \<rparr>) fmempty"
    "gs_shard_outstanding gs = fmupd (shard_str demo_shard, demo_account) (AmountMicros 100) fmempty"
    using assms(1) by (simp_all add: demo_ledger_def)
  have run: "apply_tx X H (CheckpointFinalized w demo_account) gs = apply_checkpoint X w demo_account gs"
    by (simp add: apply_tx_run [OF ok])
  note def = apply_checkpoint_def [of X w demo_account gs, unfolded gs(1) assms(3-5) Let_def, simplified]
  show "\<exists>g. apply_txs X H [CheckpointFinalized w demo_account] gs = Ok () g \<and> demo_ledger (100 - e) e g" if le: "e \<le> 100"
  proof -
    obtain g where g: "apply_checkpoint X w demo_account gs = Ok () g"
      and "gs_min_witnesses g = 2" "gs_total_supply g = AmountMicros 1000"
      "gs_accounts g = fmupd demo_account ((new_human demo_account (AmountMicros 900))\<lparr> balance_locked := AmountMicros e \<rparr>) fmempty"
      "gs_shard_outstanding g = fmupd (shard_str demo_shard, demo_account) (AmountMicros (100 - e)) fmempty"
      using le by (simp add: def gs assms(2) account_of_def check_then_def set_account_def push_event_def new_human_def not_less)
    then show ?thesis using apply_tx_ok [OF ok run [unfolded g]] by (simp add: run demo_ledger_def)
  qed
  show "\<exists>err. apply_txs X H [CheckpointFinalized w demo_account] gs = Err err gs" if "\<not> e \<le> 100"
    using that by (simp add: run def gs assms(2) not_le)
qed

lemma settle_demo_exact:
  assumes "crypto_ok X" and "voting_team X l fs" and "unat (dm_next_round (gv_dag l)) = 1"
    and "demo_ledger 100 0 (gv_state l)" and "gs_finalized (gv_state l) = fmempty" and "verify_witnessed X w 2 = Inr ()"
    and "hd_shard_id (sc_header (wc_checkpoint w)) = demo_shard" and "hd_exposure (sc_header (wc_checkpoint w)) = AmountMicros e"
  shows "settle_demo X H w (l, fs) = (if e \<le> 100 then Some \<lparr> st_applied = 1, st_supply = 1000, st_available = 900,
    st_outstanding = 100 - e, st_locked = e \<rparr> else None)"
proof -
  let ?txs = "[CheckpointFinalized w demo_account]"
  have room: "unat (dm_next_round (gv_dag l)) + 1 < 2 ^ 64" using assms(3) by simp
  note ck = demo_checkpoint [OF assms(4-8), where H = H]
  show ?thesis
  proof (cases "e \<le> 100")
    case True
    obtain g where g: "apply_txs X H ?txs (gv_state l) = Ok () g" "demo_ledger (100 - e) e g" using ck(1) [OF True] by blast
    obtain out t fs' where r: "submit_round X H ?txs l fs = (Ok out t, fs')" "gv_state t = g" "co_applied out = length ?txs"
      by (rule submit_round_commits [OF assms(1,2) room g(1)])
    have "micros (gs_total_supply g) = 1000" using g(2) by (simp add: demo_ledger_def)
    then show ?thesis
      using True r demo_ledger_sums [OF g(2)] by (auto simp: settle_demo_def submit_ok_def Let_def)
  next
    case False
    obtain err where "apply_txs X H ?txs (gv_state l) = Err err (gv_state l)" using ck(2) [OF False] by blast
    then obtain t where "fst (submit_round X H ?txs l fs) = Err err t"
      using submit_round_refused [OF assms(1,2) room] by blast
    then show ?thesis using False by (cases "submit_round X H ?txs l fs") (simp add: settle_demo_def submit_ok_def)
  qed
qed

text \<open>One payment of the right cost under one checkpoint of the demonstration's shard.\<close>

lemma one_proof_checkpoint:
  assumes "crypto_ok X" and "a \<le> m" and "pay_max_amount p = AmountMicros m"
    and "distinct (map (\<lambda>j. verifying_key_bytes X (dk_witnesses K j)) [0..<2])"
  obtains pr log cp st w where
    "complete_payment_proof X p acc (dk_edge K) h (AmountMicros a) (dk_service K) receipt_log_new = Ok pr log"
    and "force_seal X (dk_edge K) demo_shard (Epoch 1) at (sealer_new 1 (AmountMicros (- 1)), log) = Ok cp st"
    and "sim_witnesses X K 2 cp = Some w" and "verify_witnessed X w 2 = Inr ()" and "wc_checkpoint w = cp"
    and "hd_shard_id (sc_header cp) = demo_shard" and "hd_exposure (sc_header cp) = AmountMicros a"
proof -
  have m: "amt (AmountMicros a) \<le> amt (pay_max_amount p)" using assms(2,3) by (simp add: amt_def word_le_nat_alt)
  have room: "amt (rl_exposure receipt_log_new) + amt (AmountMicros a) < 2 ^ 128"
    using amt_less_pow [of "AmountMicros a"] by (simp add: receipt_log_new_def)
  obtain pr log where pr: "complete_payment_proof X p acc (dk_edge K) h (AmountMicros a) (dk_service K) receipt_log_new = Ok pr log"
    using complete_payment_proof_total [OF assms(1) m room] by blast
  then have app: "log_append X pr receipt_log_new = Ok () log" and cost: "sr_actual_amount (pp_service pr) = AmountMicros a"
    by (auto simp: complete_payment_proof_Ok service_part_def attach_service_def)
  have "rl_proofs log \<noteq> []" using app by (auto simp: log_append_Ok)
  then obtain cp st where seal: "force_seal X (dk_edge K) demo_shard (Epoch 1) at (sealer_new 1 (AmountMicros (- 1)), log) = Ok cp st"
    by (rule force_seal_total [OF assms(1), of log "sealer_new 1 (AmountMicros (- 1))"]) (simp_all add: sealer_new_def)
  obtain sigs where w: "sim_witnesses X K 2 cp = Some \<lparr> wc_checkpoint = cp, wc_witness_sigs = sigs \<rparr>"
    "verify_witnessed X \<lparr> wc_checkpoint = cp, wc_witness_sigs = sigs \<rparr> 2 = Inr ()"
    by (rule sim_witnesses_total [OF assms(1) force_seal_verifies [OF assms(1) seal] assms(4)])
  have "amt (rl_exposure log) = amt (AmountMicros a)"
    using rlog.append_exposure [OF app] cost by (simp add: actual_cost_def receipt_log_new_def amt_def)
  then have "rl_exposure log = AmountMicros a" by (cases "rl_exposure log") (simp add: amt_def word_unat_eq_iff)
  then show ?thesis
    using that [OF pr seal w] force_seal_seals(1,3) [OF seal] by (simp add: seals_def)
qed

text \<open>The global demonstration, run with two different witness keys, ends well exactly when the
  exposure is covered by the shard's escrow of 100; it then reports one applied transaction, the
  supply of 1000 and the exposure moved from the escrow to the account's locked balance.\<close>

lemma l1_sim_exact:
  assumes "crypto_ok X" and "distinct (map (\<lambda>j. verifying_key_bytes X (dk_witnesses K j)) [0..<2])"
  shows "l1_sim X H K exposure = (if exposure \<le> 100 then Some \<lparr> st_applied = 1, st_supply = 1000, st_available = 900,
    st_outstanding = 100 - exposure, st_locked = exposure \<rparr> else None)"
proof -
  obtain l fs where g: "global_demo X H K = Some (l, fs)" "voting_team X l fs" "unat (dm_next_round (gv_dag l)) = 1"
    "demo_ledger 100 0 (gv_state l)" "gs_finalized (gv_state l) = fmempty"
    by (rule global_demo_total [OF assms(1)])
  have m: "pay_max_amount (l1_pay exposure) = AmountMicros exposure" by (simp add: l1_pay_def unsigned_pay_def)
  show ?thesis
  proof (rule one_proof_checkpoint [OF assms(1) order_refl m assms(2), of l1_edge "filled 9" 1000])
    fix pr log cp st w
    assume "complete_payment_proof X (l1_pay exposure) l1_edge (dk_edge K) (filled 9) (AmountMicros exposure) (dk_service K)
        receipt_log_new = Ok pr log"
      and "force_seal X (dk_edge K) demo_shard (Epoch 1) 1000 (sealer_new 1 (AmountMicros (- 1)), log) = Ok cp st"
      and "sim_witnesses X K 2 cp = Some w" and w: "verify_witnessed X w 2 = Inr ()" "wc_checkpoint w = cp"
      "hd_shard_id (sc_header cp) = demo_shard" "hd_exposure (sc_header cp) = AmountMicros exposure"
    then have "l1_sim X H K exposure = settle_demo X H w (l, fs)" by (simp add: l1_sim_def g(1))
    also have "\<dots> = (if exposure \<le> 100 then Some \<lparr> st_applied = 1, st_supply = 1000, st_available = 900,
        st_outstanding = 100 - exposure, st_locked = exposure \<rparr> else None)"
      using w by (intro settle_demo_exact [OF assms(1) g(2-5)]) simp_all
    finally show ?thesis .
  qed
qed

section \<open>The vertical slice (seef_sim.rs)\<close>

record seef_report =
  se_amount :: u128
  se_commit_index :: u64
  se_settled :: settle_report

definition seef_sim ::
  "crypto \<Rightarrow> (bytes \<Rightarrow> wal_record option) \<Rightarrow> (bytes \<Rightarrow> app_frame option) \<Rightarrow> wasm_host \<Rightarrow> demo_keys \<Rightarrow> u128
   \<Rightarrow> seef_report option" where
  "seef_sim X D R H K amount = do {
     cap \<leftarrow> demo_capability X K 1000 100 amount 100;
     _ \<leftarrow> unwrap_sum (verify_capability_hybrid X cap);
     p0 \<leftarrow> demo_pay X K cap 1 amount amount (filled 4);
     f \<leftarrow> send_receive X R (PayFrame p0);
     p \<leftarrow> (case f of PayFrame q \<Rightarrow> Some q | IdempotentRead _ \<Rightarrow> None);
     c \<leftarrow> demo_cluster X D K cap;
     (accs, _) \<leftarrow> pay_all X 1100 [p] (cluster_leader c) (tl (c4_engines c));
     (_, log) \<leftarrow> unwrap (complete_payment_proof X p (hd accs) (dk_edge K) (filled 9) (AmountMicros amount)
       (dk_service K) receipt_log_new);
     (cp, _) \<leftarrow> unwrap (force_seal X (dk_edge K) demo_shard (Epoch 1) 2000 (sealer_new 1 (AmountMicros (- 1)), log));
     w \<leftarrow> sim_witnesses X K 2 cp;
     g \<leftarrow> global_demo X H K;
     s \<leftarrow> settle_demo X H w g;
     Some \<lparr> se_amount = amount, se_commit_index = ed_commit_index (hd accs), se_settled = s \<rparr> }"

text \<open>The writer is compact enough for the demonstrations' payments, whatever their numbers.\<close>

definition demo_pays_fit :: "crypto \<Rightarrow> bool" where
  "demo_pays_fit X \<longleftrightarrow> (\<forall>p. pay_service_id p = ''inference/x'' \<and> pay_currency p = ''EURC'' \<and>
     length (pay_agent_signature p) = 64 \<longrightarrow> (\<exists>bs. encode_frame X (PayFrame p) = Inr bs))"

lemma demo_pay_travels:
  assumes "crypto_ok X" and "frame_reader (X, R)" and "demo_pays_fit X" and "demo_pay X K cap sq amount m h = Some p"
  shows "send_receive X R (PayFrame p) = Some (PayFrame p)"
proof -
  have "length (pay_agent_signature p) = 64"
    using assms(4) crypto_sign_length [OF assms(1)]
    by (auto simp: demo_pay_def Let_def attach_pay_def sign_pay_def sign_item_def split: sum.splits)
  then obtain bs where "encode_frame X (PayFrame p) = Inr bs"
    using assms(3) demo_pay_fields(5,8) [OF assms(1,4)] unfolding demo_pays_fit_def by blast
  then show ?thesis by (rule send_receive_same [OF assms(2)])
qed

text \<open>The cluster of the vertical slice accepts the payment exactly within the capability's total.\<close>

lemma seef_payment:
  assumes "crypto_ok X" and cap: "demo_cap X K 100 amount 100 cap" and p: "demo_pay X K cap 1 amount amount h = Some p"
    and r: "ready X cap (activated_state cap shard_state_new) demo_shard (verifying_key X (keypair_from_bytes (dk_issuer K)))
      (dk_shard K) 4 l fs"
  shows "amount \<le> 100 \<Longrightarrow> \<exists>acc g. pay_all X 1100 [p] l fs = Some ([acc], g) \<and> ed_commit_index acc = 1"
    and "\<not> amount \<le> 100 \<Longrightarrow> pay_all X 1100 [p] l fs = None"
proof -
  let ?st = "activated_state cap shard_state_new"
  have fields: "cap_epoch cap = Epoch 1" "cap_maximum_total cap = AmountMicros 100" "cap_sequence_start cap = Sequence 1"
    "cap_sequence_end cap = Sequence 100"
    using cap by (simp_all add: demo_cap_def)
  have st: "ss_commit_index ?st = 0" "epoch_state_of ?st (Epoch 1) = Active" "\<not> is_consumed ?st i e q"
    "fmlookup (ss_capabilities ?st) (cap_capability_id cap) = Some \<lparr> ac_remaining = AmountMicros 100,
       ac_sequence_start = Sequence 1, ac_sequence_end = Sequence 100, ac_epoch = Epoch 1 \<rparr>" for i e q
    by (simp_all add: activated_state_def activate_capability_def shard_state_new_def epoch_state_of_def is_consumed_def fields)
  note l = ready_fields [OF r]
  have valid: "validate_pay X l p 1100 = Inr () \<longleftrightarrow> amount \<le> 100"
    using demo_pay_valid [OF assms(1) cap p l(2-4), of 1100] st by (simp add: l(1) remaining_of_def)
  show "pay_all X 1100 [p] l fs = None" if "\<not> amount \<le> 100"
    using that valid by (intro pay_all_refuses) simp
  assume le: "amount \<le> 100"
  have "body_consumable (pay_body_of X p) ?st"
    using st le demo_pay_fields(1-3,6) [OF assms(1) p] fields
    by (simp add: body_consumable_def consumable_def pay_body_of_def body_from_pay_def amt_def word_le_nat_alt)
  then obtain acc t fs' where "cluster_pay X p 1100 l fs = (Ok acc t, fs')" and "ed_commit_index acc = ss_commit_index ?st + 1"
    using ready_pays [OF assms(1) r] valid le by metis
  then show "\<exists>acc g. pay_all X 1100 [p] l fs = Some ([acc], g) \<and> ed_commit_index acc = 1" by (simp add: st)
qed

text \<open>C8: The vertical slice, run with two different witness keys, works from end to end exactly for the
  amounts the capability covers: the payment is sealed into a frame, admitted, authorised by the
  shard as its first commit, proved, checkpointed, countersigned and finalised on the global
  ledger, where the amount has moved from the shard's escrow to the account's locked balance.\<close>

theorem seef_sim_exact:
  assumes "crypto_ok X" and "frame_reader (X, R)" and "demo_pays_fit X"
    and "distinct (map (\<lambda>j. verifying_key_bytes X (dk_witnesses K j)) [0..<2])"
  shows "seef_sim X D R H K amount = (if amount \<le> 100 then Some \<lparr> se_amount = amount, se_commit_index = 1,
    se_settled = \<lparr> st_applied = 1, st_supply = 1000, st_available = 900, st_outstanding = 100 - amount, st_locked = amount \<rparr> \<rparr>
    else None)"
proof -
  obtain cap where cap: "demo_capability X K 1000 100 amount 100 = Some cap" "demo_cap X K 100 amount 100 cap"
    by (rule demo_capability_total [OF assms(1), of 100 1000]) simp_all
  obtain p where p: "demo_pay X K cap 1 amount amount (filled 4) = Some p" by (rule demo_pay_total [OF assms(1)])
  obtain c where c: "demo_cluster X D K cap = Some c"
    and r: "ready X cap (activated_state cap shard_state_new) demo_shard (verifying_key X (keypair_from_bytes (dk_issuer K)))
      (dk_shard K) 4 (cluster_leader c) (tl (c4_engines c))"
    by (rule demo_cluster_ready [OF assms(1) cap(2)])
  obtain l fs where g: "global_demo X H K = Some (l, fs)" "voting_team X l fs" "unat (dm_next_round (gv_dag l)) = 1"
    "demo_ledger 100 0 (gv_state l)" "gs_finalized (gv_state l) = fmempty"
    by (rule global_demo_total [OF assms(1)])
  have hybrid: "verify_capability_hybrid X cap = Inr ()" using cap(2) by (simp add: demo_cap_def)
  note travels = demo_pay_travels [OF assms(1-3) p]
  show ?thesis
  proof (cases "amount \<le> 100")
    case True
    obtain acc e where pay: "pay_all X 1100 [p] (cluster_leader c) (tl (c4_engines c)) = Some ([acc], e)" "ed_commit_index acc = 1"
      using seef_payment(1) [OF assms(1) cap(2) p r True] by blast
    show ?thesis
    proof (rule one_proof_checkpoint [OF assms(1) order_refl demo_pay_fields(7) [OF assms(1) p] assms(4), of acc "filled 9" 2000])
      fix pr log cp st w
      assume run: "complete_payment_proof X p acc (dk_edge K) (filled 9) (AmountMicros amount) (dk_service K) receipt_log_new = Ok pr log"
        "force_seal X (dk_edge K) demo_shard (Epoch 1) 2000 (sealer_new 1 (AmountMicros (- 1)), log) = Ok cp st"
        "sim_witnesses X K 2 cp = Some w"
      assume w: "verify_witnessed X w 2 = Inr ()" "wc_checkpoint w = cp"
        "hd_shard_id (sc_header cp) = demo_shard" "hd_exposure (sc_header cp) = AmountMicros amount"
      have "settle_demo X H w (l, fs) = Some \<lparr> st_applied = 1, st_supply = 1000, st_available = 900,
          st_outstanding = 100 - amount, st_locked = amount \<rparr>"
        using w True settle_demo_exact [OF assms(1) g(2-5), of w amount H] by simp
      then show ?thesis using True run pay by (simp add: seef_sim_def cap(1) hybrid p travels c g(1) del: pay_all.simps)
    qed
  next
    case False
    then show ?thesis
      using seef_payment(2) [OF assms(1) cap(2) p r] by (simp add: seef_sim_def cap(1) hybrid p travels c del: pay_all.simps)
  qed
qed

text \<open>Once its endpoints are made, the network demonstration hands the payment it sends to the server
  unchanged, and the server prints its amount.\<close>

lemma quic_sim_prints:
  assumes "frame_reader (X, R)" and "encode_frame X (PayFrame (quic_pay amount)) = Inr bs"
    and "make_server_endpoint T ''127.0.0.1:0'' slot = Ok (server, cert) slot1" and "make_client_endpoint T cert slot1 = Ok client slot2"
  shows "quic_sim T slot X R amount = Some (PayAmount amount)"
  using assms(3,4) by (simp add: quic_sim_def send_receive_same [OF assms(1,2)]) (simp add: quic_pay_def unsigned_pay_def)

text \<open>The sample writer is compact enough.\<close>

lemma length_enc_octets: "length (concat (map ((\<lambda>x. 1 # enc x) \<circ> c_u8) bs)) = 18 * length bs"
  by (induction bs) (simp_all add: c_u8_def)

lemma sample_pays_fit: "demo_pays_fit sample_crypto"
  unfolding demo_pays_fit_def
proof (intro allI impI)
  fix p :: pay
  assume p: "pay_service_id p = ''inference/x'' \<and> pay_currency p = ''EURC'' \<and> length (pay_agent_signature p) = 64"
  have "length (enc (ser_frame (PayFrame p))) \<le> max_frame"
    using p by (simp add: ser_pay_def variant_def c_b32_def c_bytes_def max_frame_def length_enc_octets c_epoch_def c_seq_def
        c_amount_def c_u64_def)
  moreover have "encode_cbor sample_crypto v = Inr (enc v)" for v by (simp add: encode_cbor_def sample_crypto_def)
  ultimately show "\<exists>bs. encode_frame sample_crypto (PayFrame p) = Inr bs"
    by (simp add: encode_frame_def del: ser_frame.simps enc.simps)
qed

lemma seef_sim_exact_witness:
  "seef_sim sample_crypto (\<lambda>_. None) sample_frame_read sample_wasm sample_keys 10 = Some \<lparr> se_amount = 10, se_commit_index = 1,
    se_settled = \<lparr> st_applied = 1, st_supply = 1000, st_available = 900, st_outstanding = 90, st_locked = 10 \<rparr> \<rparr>
   \<and> seef_sim sample_crypto (\<lambda>_. None) sample_frame_read sample_wasm sample_keys 101 = None"
proof -
  have keys: "distinct (map (\<lambda>j. verifying_key_bytes sample_crypto (dk_witnesses sample_keys j)) [0..<2])"
    by (simp add: sample_keys_def verifying_key_bytes_def verifying_key_def sample_crypto_def sample_public_def upt_rec)
  note exact = seef_sim_exact [OF sample_crypto_ok sample_frame_reader sample_pays_fit keys, of "\<lambda>_. None" sample_wasm]
  show ?thesis using exact [of 10] exact [of 101] by simp
qed

end
