(* ===== verification/Bench.thy ===== *)
theory Bench
  imports Pay_Sims
begin

text \<open>
  The benchmark \<open>shard/benches/pay_authorize.rs\<close>: one set-up, and a closure that is called again and
  again, each time with a payment of the next sequence number, which starts at two because the
  counter is advanced before it is used. How often the closure is called is the business of the
  benchmark library, so it is an argument; what is measured is left out.
\<close>

definition bench_pay :: "crypto \<Rightarrow> demo_keys \<Rightarrow> spend_capability \<Rightarrow> nat \<Rightarrow> pay option" where
  "bench_pay X K cap i =
     (if i + 1 < 2 ^ 64 then demo_pay X K cap (word_of_nat (i + 1)) 1 5 (filled 4) else None)"

text \<open>\<open>None\<close>: one of the calls of \<open>unwrap\<close> and \<open>expect\<close> fails. Otherwise the accepted payments.\<close>

definition bench_pay_authorize ::
  "crypto \<Rightarrow> (bytes \<Rightarrow> wal_record option) \<Rightarrow> demo_keys \<Rightarrow> nat \<Rightarrow> edge_accept list option" where
  "bench_pay_authorize X D K iters = do {
     cap \<leftarrow> demo_capability X K 1000000 1000000 5 1000000;
     c \<leftarrow> demo_cluster X D K cap;
     ps \<leftarrow> those (map (bench_pay X K cap) [1..<Suc iters]);
     (accs, _) \<leftarrow> pay_all X 2000 ps (cluster_leader c) (tl (c4_engines c));
     Some accs }"

lemma bench_pay_numbered:
  "iters < 1000000 \<Longrightarrow> map (bench_pay X K cap) [1..<Suc iters] = map (numbered_pay X K cap 1 (\<lambda>_. filled 4)) [1..<Suc iters]"
  by (rule map_cong) (simp_all add: bench_pay_def numbered_pay_def del: upt_Suc)

text \<open>
  The capability covers a million units and sequence numbers up to a million, of which the first is
  skipped: 999,999 iterations all succeed.
\<close>

lemma bench_pays_all:
  assumes "crypto_ok X" and "iters < 1000000"
  obtains accs where "bench_pay_authorize X D K iters = Some accs" and "length accs = iters"
proof -
  obtain cap where cap: "demo_capability X K 1000000 1000000 5 1000000 = Some cap" "demo_cap X K 1000000 5 1000000 cap"
    by (rule demo_capability_total [OF assms(1) order_refl])
  obtain c where c: "demo_cluster X D K cap = Some c"
    and r: "ready X cap (activated_state cap shard_state_new) demo_shard (verifying_key X (keypair_from_bytes (dk_issuer K)))
      (dk_shard K) 4 (cluster_leader c) (tl (c4_engines c))"
    by (rule demo_cluster_ready [OF assms(1) cap(2)])
  obtain ps where ps: "those (map (bench_pay X K cap) [1..<Suc iters]) = Some ps"
    and each: "list_all2 (\<lambda>i p. numbered_pay X K cap 1 (\<lambda>_. filled 4) i = Some p) [1..<Suc iters] ps"
    unfolding bench_pay_numbered [OF assms(2)] by (rule numbered_pays_total [OF assms(1)])
  have n: "length ps = iters" using list_all2_lengthD [OF each] by (simp del: upt_Suc)
  have fits: "length ps \<le> 1000000" "length ps + 1 \<le> unat (1000000 :: u64)" "(1000 :: u64) \<le> 2000" "(2000 :: u64) \<le> 601000"
    using assms(2) n by simp_all
  obtain accs r' where "pay_all X 2000 ps (cluster_leader c) (tl (c4_engines c)) = Some (accs, r')" "length accs = iters"
    using loop_paid [OF assms(1) cap(2) r each [folded n] fits] n by metis
  then show ?thesis using that cap(1) c ps by (simp add: bench_pay_authorize_def del: upt_Suc)
qed

end
