(* ===== verification/Global_Cluster.thy ===== *)
theory Global_Cluster
  imports Consensus_Theorems
begin

text \<open>
  The global validators together: submissions running on any of them, interleaved with their
  pumps (\<open>consensus/src/bft.rs\<close>, \<open>submit_and_commit\<close> between two acquisitions of its mutex, and
  \<open>cluster4\<close>). The network may delay, reorder and repeat what a validator sent, but it makes up
  nothing. The invariant follows votes to the validators that filed the block, and keeps every
  ledger good.
\<close>

section \<open>Submissions\<close>

datatype submission =
    AwaitVotes dag_block b32 "(u8, bytes) fmap"
  | Committed commit_outcome

definition submission_begin :: "crypto \<Rightarrow> l1_tx list \<Rightarrow> validator_inner \<Rightarrow> submission consensus" where
  "submission_begin X txs s =
     and_then (submit_propose X txs s) (\<lambda>(b, d) s1.
       Ok (AwaitVotes b d (fmupd (gv_id s1) (global_sign_digest X (gv_key s1) d) fmempty)) s1)"

fun submission_step :: "crypto \<Rightarrow> wasm_host \<Rightarrow> submission \<Rightarrow> validator_inner \<Rightarrow> submission consensus" where
  "submission_step X H (AwaitVotes b d votes) s =
     (if fcard (fmdom votes) < 3
      then and_then (collect_votes X H d (gv_inbox s) votes s) (\<lambda>v s1. Ok (AwaitVotes b d v) s1)
      else and_then (apply_block_txs X H b (global_broadcast (MsgCommit d (sorted_list_of_fmap votes)) s)) (\<lambda>_ s1.
        Ok (Committed \<lparr> co_digest = d, co_applied = length (db_txs b), co_height_hint = db_round b \<rparr>) s1))"
| "submission_step X H (Committed out) s = Ok (Committed out) s"

section \<open>The system\<close>

record global_cluster =
  gc_nodes :: "(u8, validator_inner) fmap"
  gc_tasks :: "(nat, u8 \<times> submission) fmap"

definition put_node :: "u8 \<Rightarrow> validator_inner \<Rightarrow> global_cluster \<Rightarrow> global_cluster" where
  "put_node i s C = C\<lparr> gc_nodes := fmupd i s (gc_nodes C) \<rparr>"

definition put_task :: "nat \<Rightarrow> u8 \<Rightarrow> submission \<Rightarrow> global_cluster \<Rightarrow> global_cluster" where
  "put_task k i t C = C\<lparr> gc_tasks := fmupd k (i, t) (gc_tasks C) \<rparr>"

text \<open>
  A dispute refused for a defendant without an account strands its bond
  (\<open>stranded_bond_halts_ledger\<close>); the runs considered submit no such refusal.
\<close>

definition safe_tx :: "l1_tx \<Rightarrow> bool" where
  "safe_tx tx \<longleftrightarrow> (\<forall>i. tx \<noteq> ResolveDispute i False)"

inductive global_step :: "crypto \<Rightarrow> wasm_host \<Rightarrow> global_cluster \<Rightarrow> global_cluster \<Rightarrow> bool" for X H where
  Deliver: "fmlookup (gc_nodes C) i = Some s \<Longrightarrow> fmlookup (gc_nodes C) j = Some r \<Longrightarrow> i |\<in>| gv_outboxes r \<Longrightarrow>
     m \<in> set (gv_sent r) \<Longrightarrow> global_step X H C (put_node i (global_deliver [m] s) C)"
| Pump: "fmlookup (gc_nodes C) i = Some s \<Longrightarrow> outcome_state (global_pump X H s) = Some t \<Longrightarrow>
     global_step X H C (put_node i t C)"
| Kill: "fmlookup (gc_nodes C) i = Some s \<Longrightarrow> global_step X H C (put_node i (global_kill s) C)"
| Submit: "fmlookup (gc_nodes C) i = Some s \<Longrightarrow> list_all safe_tx txs \<Longrightarrow> submission_begin X txs s = Ok task t \<Longrightarrow>
     fmlookup (gc_tasks C) k = None \<Longrightarrow> global_step X H C (put_task k i task (put_node i t C))"
| Step: "fmlookup (gc_tasks C) k = Some (i, task) \<Longrightarrow> fmlookup (gc_nodes C) i = Some s \<Longrightarrow>
     submission_step X H task s = Ok task' t \<Longrightarrow> global_step X H C (put_task k i task' (put_node i t C))"
| Fail: "fmlookup (gc_tasks C) k = Some (i, task) \<Longrightarrow> fmlookup (gc_nodes C) i = Some s \<Longrightarrow>
     submission_step X H task s = Err e t \<Longrightarrow> global_step X H C (put_node i t C)"

definition global_start :: "crypto \<Rightarrow> nat \<Rightarrow> (u8 \<Rightarrow> b32) \<Rightarrow> global_cluster" where
  "global_start X w secrets =
     \<lparr> gc_nodes = fmap_of_list (map (\<lambda>s. (gv_id s, s)) (cluster4 X w secrets)), gc_tasks = fmempty \<rparr>"

inductive global_reachable :: "crypto \<Rightarrow> wasm_host \<Rightarrow> global_cluster \<Rightarrow> bool" for X H where
  start: "global_reachable X H (global_start X w secrets)"
| step: "global_reachable X H C \<Longrightarrow> global_step X H C C' \<Longrightarrow> global_reachable X H C'"

section \<open>What a validator keeps\<close>

definition block_safe :: "dag_block \<Rightarrow> bool" where
  "block_safe b \<longleftrightarrow> list_all safe_tx (db_txs b)"

fun msg_safe :: "global_message \<Rightarrow> bool" where
  "msg_safe (MsgPropose b l) = block_safe b"
| "msg_safe _ = True"

definition filed :: "b32 \<Rightarrow> validator_inner \<Rightarrow> bool" where
  "filed d s \<longleftrightarrow> d |\<in>| fmdom (dm_blocks (gv_dag s))"

text \<open>The ledger is good, blocks are safe, and a vote is only sent for a block one has filed.\<close>

definition sound :: "validator_inner \<Rightarrow> bool" where
  "sound s \<longleftrightarrow> gs_ok (gv_state s) \<and> fmpred (\<lambda>_. block_safe) (dm_blocks (gv_dag s)) \<and> list_all msg_safe (gv_sent s) \<and>
     (\<forall>d v sig. MsgVote d v sig \<in> set (gv_sent s) \<longrightarrow> v = gv_id s \<and> filed d s)"

definition advances :: "validator_inner \<Rightarrow> validator_inner \<Rightarrow> bool" where
  "advances s t \<longleftrightarrow> gv_id t = gv_id s \<and> gv_outboxes t = gv_outboxes s \<and> (\<forall>d. filed d s \<longrightarrow> filed d t) \<and>
     set (gv_sent s) \<subseteq> set (gv_sent t) \<and> (sound s \<longrightarrow> sound t)"

lemma advances_trans: "advances r s \<Longrightarrow> advances s t \<Longrightarrow> advances r t"
  by (auto simp: advances_def)

lemma advances_frame [simp, intro]:
  "advances s s" "advances s (s\<lparr> gv_inbox := ms \<rparr>)" "advances s (global_kill s)" "advances s (global_deliver ms s)"
  "advances s (global_broadcast (MsgCommit d votes) s)"
  by (auto simp: advances_def sound_def filed_def global_kill_def global_deliver_def global_broadcast_def)

lemma apply_safe_good:
  assumes "safe_tx tx" and "gs_ok gs" and "outcome_state (apply_tx X H tx gs) = Some s"
  shows "gs_ok s"
proof (cases "run_tx X H tx gs")
  case (Ok u t)
  then show ?thesis using run_tx_ok [OF assms(2) Ok] assms(2,3) by (simp add: apply_tx_run)
next
  case (Err e t)
  have "escrow_ok gs" using assms(2) by (simp add: gs_ok_def)
  then have "t = gs" using run_tx_Err [OF _ Err] assms(1) unfolding safe_tx_def by blast
  then show ?thesis using assms(2,3) Err by (simp add: apply_tx_run)
qed (use assms in \<open>simp add: apply_tx_run\<close>)

lemma apply_txs_good:
  "list_all safe_tx txs \<Longrightarrow> gs_ok gs \<Longrightarrow> outcome_state (apply_txs X H txs gs) = Some g \<Longrightarrow> gs_ok g"
proof (induction txs arbitrary: gs)
  case (Cons tx txs)
  have good: "gs_ok m" if "outcome_state (apply_tx X H tx gs) = Some m" for m
    using apply_safe_good [OF _ Cons.prems(2) that] Cons.prems(1) by simp
  show ?case
    using Cons good by (cases "apply_tx X H tx gs") (auto split: if_splits)
qed simp

lemma apply_block_advances:
  assumes "block_safe b" and "outcome_state (apply_block_txs X H b s) = Some t"
  shows "advances s t \<and> gv_inbox t = gv_inbox s"
proof -
  obtain g where g: "outcome_state (apply_txs X H (db_txs b) (gv_state s)) = Some g" and t: "t = s\<lparr> gv_state := g \<rparr>"
    using assms(2) by (auto simp: apply_block_txs_def split: outcome.splits)
  then show ?thesis
    using apply_txs_good [OF _ _ g] assms(1) by (auto simp: advances_def sound_def filed_def block_safe_def)
qed

lemma file_and_vote_advances:
  assumes "block_safe b" and "dag_insert X b m = Some (m', d)" and "dm_blocks m = dm_blocks (gv_dag s)"
  shows "advances s (global_broadcast (MsgVote d (gv_id s) sig) (s\<lparr> gv_dag := m' \<rparr>))"
  using assms
  by (auto simp: advances_def sound_def filed_def global_broadcast_def dag_insert_def Let_def split: option.splits) blast

lemma handle_msg_advances:
  assumes "msg_safe m" and "outcome_state (handle_msg X H m s) = Some t" and "fmpred (\<lambda>_. block_safe) (dm_blocks (gv_dag s))"
  shows "advances s t \<and> gv_inbox t = gv_inbox s"
proof (cases "gv_alive s")
  case alive: True
  show ?thesis
  proof (cases m)
    case (MsgPropose b l)
    then obtain m' d where "dag_insert X b (gv_dag s) = Some (m', d)"
      and t: "t = global_broadcast (MsgVote d (gv_id s) (global_sign_digest X (gv_key s) d)) (s\<lparr> gv_dag := m' \<rparr>)"
      using assms(2) alive by (cases "dag_insert X b (gv_dag s)") (auto simp: handle_msg_def global_handle_propose_def)
    then show ?thesis
      using file_and_vote_advances [of b X "gv_dag s" m' d s] assms(1) MsgPropose by (simp add: global_broadcast_def)
  next
    case (MsgCommit d votes)
    show ?thesis
    proof (cases "3 \<le> global_count_good X s d votes \<and> fmlookup (dm_blocks (gv_dag s)) d \<noteq> None")
      case True
      then obtain b where b: "fmlookup (dm_blocks (gv_dag s)) d = Some b" by auto
      then have "block_safe b" using assms(3) by (auto simp: fmpred_iff)
      moreover have "outcome_state (apply_block_txs X H b s) = Some t"
        using assms(2) alive MsgCommit True b by (simp add: handle_msg_def global_handle_commit_def)
      ultimately show ?thesis by (rule apply_block_advances)
    next
      case False
      then have "t = s" using assms(2) alive MsgCommit
        by (auto simp: handle_msg_def global_handle_commit_def split: if_splits)
      then show ?thesis by simp
    qed
  qed (use assms alive in \<open>simp add: handle_msg_def\<close>)
qed (use assms in \<open>simp add: handle_msg_def\<close>)

lemma sound_blocks: "sound s \<Longrightarrow> fmpred (\<lambda>_. block_safe) (dm_blocks (gv_dag s))"
  by (simp add: sound_def)

lemma sound_inbox [simp]: "sound (s\<lparr> gv_inbox := ms \<rparr>) = sound s"
  by (simp add: sound_def filed_def)

lemma advances_inbox: "advances (s\<lparr> gv_inbox := ms \<rparr>) t = advances s t"
  by (simp add: advances_def filed_def)

lemma drain_advances:
  "list_all msg_safe ms \<Longrightarrow> sound s \<Longrightarrow> global_drain X H ms s = Ok u t \<Longrightarrow> advances s t \<and> gv_inbox t = []"
proof (induction ms arbitrary: s)
  case (Cons m ms)
  then obtain s1 where h: "outcome_state (handle_msg X H m (s\<lparr> gv_inbox := ms \<rparr>)) = Some s1" and d: "global_drain X H ms s1 = Ok u t"
    by (auto simp: and_then_Ok ignore_err_Ok)
  have a: "advances s s1"
    using handle_msg_advances [OF _ h] sound_blocks [of "s\<lparr> gv_inbox := ms \<rparr>"] Cons.prems(1,2) by (simp add: advances_inbox)
  then have "sound s1" using Cons.prems(2) by (simp add: advances_def)
  then show ?case using Cons.IH [OF _ _ d] Cons.prems(1) advances_trans [OF a] by auto
qed auto

lemma pump_advances:
  assumes "list_all msg_safe (gv_inbox s)" and "sound s" and "outcome_state (global_pump X H s) = Some t"
  shows "advances s t \<and> set (gv_inbox t) \<subseteq> set (gv_inbox s)"
proof (cases "gv_alive s")
  case True
  have "\<exists>u. global_drain X H ms r = Ok u t" if "outcome_state (global_drain X H ms r) = Some t" for ms r
    using that
  proof (induction ms arbitrary: r)
    case (Cons m ms)
    then show ?case
      by (cases "handle_msg X H m (r\<lparr> gv_inbox := ms \<rparr>)") auto
  qed simp
  then obtain u where "global_drain X H (gv_inbox s) s = Ok u t"
    using assms(3) True by (auto simp: global_pump_def)
  then show ?thesis using drain_advances [OF assms(1,2)] by auto
qed (use assms(3) in \<open>simp add: global_pump_def\<close>)

lemma collect_advances:
  "list_all msg_safe ms \<Longrightarrow> sound s \<Longrightarrow> collect_votes X H d ms votes s = Ok votes' t \<Longrightarrow>
     advances s t \<and> gv_inbox t = [] \<and>
     (\<forall>v. v |\<in>| fmdom votes' \<longrightarrow> v |\<in>| fmdom votes \<or> (\<exists>sig. MsgVote d v sig \<in> set ms))"
proof (induction ms arbitrary: votes s)
  case (Cons m ms)
  show ?case
  proof (cases "\<exists>v sig. m = MsgVote d v sig")
    case True
    then obtain v sig where m: "m = MsgVote d v sig" by blast
    let ?w = "if global_good_vote X (s\<lparr> gv_inbox := ms \<rparr>) d v sig then fmupd v sig votes else votes"
    have "collect_votes X H d ms ?w (s\<lparr> gv_inbox := ms \<rparr>) = Ok votes' t" using Cons.prems(3) by (simp add: m Let_def)
    then show ?thesis
      using Cons.IH [of "s\<lparr> gv_inbox := ms \<rparr>" ?w] Cons.prems(1,2) by (auto simp: m advances_inbox split: if_splits)
  next
    case False
    then obtain s1 where h: "outcome_state (handle_msg X H m (s\<lparr> gv_inbox := ms \<rparr>)) = Some s1"
      and c: "collect_votes X H d ms votes s1 = Ok votes' t"
      using Cons.prems(3) by (auto simp: Let_def and_then_Ok ignore_err_Ok split: global_message.splits if_splits)
    have a: "advances s s1"
      using handle_msg_advances [OF _ h] sound_blocks [of "s\<lparr> gv_inbox := ms \<rparr>"] Cons.prems(1,2) by (simp add: advances_inbox)
    then have "sound s1" using Cons.prems(2) by (simp add: advances_def)
    then show ?thesis using Cons.IH [OF _ _ c] Cons.prems(1) advances_trans [OF a] by auto
  qed
qed auto

lemma collect_votes_no_Err: "collect_votes X H d ms votes s \<noteq> Err e t"
proof (induction ms arbitrary: votes s)
  case (Cons m ms)
  have "and_then (ignore_err r) (\<lambda>_ s1. collect_votes X H d ms votes s1) \<noteq> Err e t" for r votes
    using Cons.IH by (cases r) auto
  then show ?case using Cons.IH by (cases m) (auto simp: Let_def)
qed simp

lemma begin_advances:
  assumes "list_all safe_tx txs" and "submission_begin X txs s = Ok task t"
  obtains b d where "task = AwaitVotes b d (fmupd (gv_id s) (global_sign_digest X (gv_key s) d) fmempty)"
    and "block_safe b" and "filed d t" and "advances s t" and "gv_inbox t = gv_inbox s"
proof -
  obtain m b d where p: "dag_propose X (gv_id s) txs (gv_dag s) = Some (m, b)" and d: "block_digest X b = Some d"
    and t: "t = global_broadcast (MsgVote d (gv_id s) (global_sign_digest X (gv_key s) d))
      (global_broadcast (MsgPropose b (gv_id s)) (s\<lparr> gv_dag := m \<rparr>))"
    and task: "task = AwaitVotes b d (fmupd (gv_id s) (global_sign_digest X (gv_key s) d) fmempty)"
    using assms(2)
    by (auto simp: submission_begin_def submit_propose_def Let_def outcome_iff global_broadcast_def split: if_splits)
  have b: "block_safe b" "dm_blocks m = fmupd d b (dm_blocks (gv_dag s))"
    using p d assms(1) by (auto simp: dag_propose_def dag_insert_def Let_def block_safe_def split: option.splits)
  have "advances s t"
    using b by (auto simp: advances_def sound_def filed_def t global_broadcast_def)
  moreover have "filed d t" by (simp add: filed_def t b global_broadcast_def)
  ultimately show ?thesis using that [OF task b(1)] by (simp add: t global_broadcast_def)
qed

section \<open>What the cluster keeps\<close>

definition filed_at :: "global_cluster \<Rightarrow> b32 \<Rightarrow> u8 \<Rightarrow> bool" where
  "filed_at C d v \<longleftrightarrow> (\<exists>s. fmlookup (gc_nodes C) v = Some s \<and> filed d s)"

fun arrived_ok :: "global_cluster \<Rightarrow> global_message \<Rightarrow> bool" where
  "arrived_ok C (MsgPropose b l) = block_safe b"
| "arrived_ok C (MsgVote d v sig) = filed_at C d v"
| "arrived_ok C (MsgCommit d votes) = True"

fun submission_ok :: "global_cluster \<Rightarrow> submission \<Rightarrow> bool" where
  "submission_ok C (AwaitVotes b d votes) = (block_safe b \<and> (\<forall>v. v |\<in>| fmdom votes \<longrightarrow> filed_at C d v))"
| "submission_ok C (Committed out) = (\<exists>V. 3 \<le> fcard V \<and> (\<forall>v. v |\<in>| V \<longrightarrow> filed_at C (co_digest out) v))"

definition global_ok :: "global_cluster \<Rightarrow> bool" where
  "global_ok C \<longleftrightarrow>
     (\<forall>i s. fmlookup (gc_nodes C) i = Some s \<longrightarrow>
        gv_id s = i \<and> sound s \<and> (\<forall>m \<in> set (gv_inbox s). arrived_ok C m)) \<and>
     (\<forall>k i t. fmlookup (gc_tasks C) k = Some (i, t) \<longrightarrow> submission_ok C t)"

lemma arrived_safe: "\<forall>m \<in> set ms. arrived_ok C m \<Longrightarrow> list_all msg_safe ms"
proof -
  have "arrived_ok C m \<Longrightarrow> msg_safe m" for m by (cases m) simp_all
  then show "\<forall>m \<in> set ms. arrived_ok C m \<Longrightarrow> list_all msg_safe ms" by (auto simp: list_all_iff)
qed

lemma filed_at_put_node:
  "fmlookup (gc_nodes C) i = Some s \<Longrightarrow> advances s t \<Longrightarrow> filed_at C d v \<Longrightarrow> filed_at (put_node i t C) d v"
  by (auto simp: filed_at_def put_node_def advances_def)

lemma arrived_ok_put_node:
  "fmlookup (gc_nodes C) i = Some s \<Longrightarrow> advances s t \<Longrightarrow> arrived_ok C m \<Longrightarrow> arrived_ok (put_node i t C) m"
  using filed_at_put_node [of C i s t] by (cases m) simp_all

lemma submission_ok_put_node:
  assumes "fmlookup (gc_nodes C) i = Some s" and "advances s t" and "submission_ok C task"
  shows "submission_ok (put_node i t C) task"
proof (cases task)
  case (AwaitVotes b d votes)
  then show ?thesis using assms(3) filed_at_put_node [OF assms(1,2)] by auto
next
  case (Committed out)
  then obtain V where "3 \<le> fcard V" "\<forall>v. v |\<in>| V \<longrightarrow> filed_at C (co_digest out) v" using assms(3) by auto
  then show ?thesis using filed_at_put_node [OF assms(1,2)] unfolding Committed by (auto intro!: exI [of _ V])
qed

lemma global_ok_put_node:
  assumes ok: "global_ok C" and s: "fmlookup (gc_nodes C) i = Some s" and a: "advances s t"
    and inbox: "\<forall>m \<in> set (gv_inbox t). arrived_ok C m"
  shows "global_ok (put_node i t C)"
proof -
  have t: "gv_id t = i" "sound t" using ok s a by (auto simp: global_ok_def advances_def)
  note keep = arrived_ok_put_node [OF s a]
  have "gv_id u = j \<and> sound u \<and> (\<forall>m \<in> set (gv_inbox u). arrived_ok (put_node i t C) m)"
    if "fmlookup (gc_nodes (put_node i t C)) j = Some u" for j u
  proof (cases "j = i")
    case True
    then show ?thesis using that t inbox keep by (simp add: put_node_def)
  next
    case False
    then have "fmlookup (gc_nodes C) j = Some u" using that by (simp add: put_node_def)
    then show ?thesis using ok keep by (auto simp: global_ok_def)
  qed
  moreover have "submission_ok (put_node i t C) task" if "fmlookup (gc_tasks (put_node i t C)) k = Some (j, task)" for k j task
    using that ok submission_ok_put_node [OF s a] by (auto simp: global_ok_def put_node_def)
  ultimately show ?thesis by (simp add: global_ok_def)
qed

lemma global_ok_put_task:
  assumes "global_ok C" and "submission_ok C task"
  shows "global_ok (put_task k i task C)"
proof -
  have f: "filed_at (put_task k i task C) = filed_at C" by (simp add: filed_at_def put_task_def fun_eq_iff)
  have "arrived_ok (put_task k i task C) m = arrived_ok C m" for m by (cases m) (simp_all add: f)
  moreover have "submission_ok (put_task k i task C) t = submission_ok C t" for t by (cases t) (simp_all add: f)
  ultimately show ?thesis
    using assms by (auto simp: global_ok_def) (auto simp: put_task_def split: if_splits)
qed

text \<open>One step of a submission, whatever its outcome.\<close>

lemma submission_step_ok:
  assumes ok: "global_ok C" and s: "fmlookup (gc_nodes C) i = Some s" and task: "submission_ok C task"
    and r: "submission_step X H task s = r" and t: "outcome_state r = Some t"
  shows "advances s t" and "set (gv_inbox t) \<subseteq> set (gv_inbox s)"
    and "r = Ok task' t \<Longrightarrow> submission_ok (put_node i t C) task'"
proof -
  have sound: "sound s" and inbox: "\<forall>m \<in> set (gv_inbox s). arrived_ok C m" using ok s by (auto simp: global_ok_def)
  have "advances s t \<and> set (gv_inbox t) \<subseteq> set (gv_inbox s) \<and> (r = Ok task' t \<longrightarrow> submission_ok (put_node i t C) task')"
  proof (cases task)
    case (Committed out)
    then have eq: "s = t" "r = Ok task t" using r t by auto
    then show ?thesis using submission_ok_put_node [OF s advances_frame(1) task] by auto
  next
    case (AwaitVotes b d votes)
    have b: "block_safe b" and v: "v |\<in>| fmdom votes \<Longrightarrow> filed_at C d v" for v using task AwaitVotes by auto
    show ?thesis
    proof (cases "fcard (fmdom votes) < 3")
      case True
      then have eq: "r = and_then (collect_votes X H d (gv_inbox s) votes s) (\<lambda>v s1. Ok (AwaitVotes b d v) s1)"
        using r AwaitVotes by simp
      show ?thesis
      proof (cases "collect_votes X H d (gv_inbox s) votes s")
        case (Ok votes' u)
        then have u: "u = t" using eq t by simp
        note c = collect_advances [OF arrived_safe [OF inbox] sound Ok, unfolded u]
        have "filed_at C d w" if "w |\<in>| fmdom votes'" for w
          using that c v inbox by (metis arrived_ok.simps(2))
        then have "filed_at (put_node i t C) d w" if "w |\<in>| fmdom votes'" for w
          using that filed_at_put_node [OF s] c by blast
        then show ?thesis using c b eq Ok by auto
      next
        case (Err e u)
        then show ?thesis using collect_votes_no_Err by blast
      qed (use eq t in simp)
    next
      case False
      let ?s = "global_broadcast (MsgCommit d (sorted_list_of_fmap votes)) s"
      have eq: "r = and_then (apply_block_txs X H b ?s) (\<lambda>_ s1.
          Ok (Committed \<lparr> co_digest = d, co_applied = length (db_txs b), co_height_hint = db_round b \<rparr>) s1)"
        using False r AwaitVotes by simp
      have "outcome_state (apply_block_txs X H b ?s) = Some t" using eq t by (cases "apply_block_txs X H b ?s") auto
      from apply_block_advances [OF b this] have a: "advances s t" "gv_inbox t = gv_inbox s"
        using advances_trans [OF advances_frame(5)] by (auto simp: global_broadcast_def)
      have "\<exists>V. 3 \<le> fcard V \<and> (\<forall>v. v |\<in>| V \<longrightarrow> filed_at (put_node i t C) d v)"
        using False v filed_at_put_node [OF s a(1)] by (intro exI [of _ "fmdom votes"]) simp
      then show ?thesis using a eq by (cases "apply_block_txs X H b ?s") auto
    qed
  qed
  then show "advances s t" and "set (gv_inbox t) \<subseteq> set (gv_inbox s)"
    and "r = Ok task' t \<Longrightarrow> submission_ok (put_node i t C) task'" by blast+
qed

lemma global_ok_start: "global_ok (global_start X w secrets)"
proof -
  have "gv_id s = i \<and> sound s \<and> gv_inbox s = []"
    if "fmlookup (gc_nodes (global_start X w secrets)) i = Some s" for i s
  proof -
    have "gv_id s = i" "s \<in> set (cluster4 X w secrets)"
      using that by (auto simp: global_start_def fmlookup_of_list dest!: map_of_SomeD)
    then show ?thesis by (auto simp: cluster4_def new_validator_def sound_def dag_new_def)
  qed
  moreover have "gc_tasks (global_start X w secrets) = fmempty" by (simp add: global_start_def)
  ultimately show ?thesis unfolding global_ok_def by (metis empty_iff fmempty_lookup list.set(1) option.distinct(1))
qed

lemma global_ok_step: "global_step X H C C' \<Longrightarrow> global_ok C \<Longrightarrow> global_ok C'"
proof (induction rule: global_step.induct)
  case (Deliver C i s j r m)
  have r: "gv_id r = j" "sound r" and inbox: "\<forall>m \<in> set (gv_inbox s). arrived_ok C m"
    using Deliver(2,1,5) by (auto simp: global_ok_def)
  have "arrived_ok C m"
  proof (cases m)
    case (MsgVote d v sig)
    then have "v = j \<and> filed d r" using r Deliver(4) unfolding sound_def by blast
    then show ?thesis using Deliver(2) by (auto simp: MsgVote filed_at_def)
  qed (use r(2) Deliver(4) in \<open>auto simp: sound_def list_all_iff\<close>)
  then show ?case
    using inbox by (intro global_ok_put_node [OF Deliver(5,1)]) (auto simp: global_deliver_def)
next
  case (Pump C i s t)
  have "sound s" "\<forall>m \<in> set (gv_inbox s). arrived_ok C m" using Pump(1,3) by (auto simp: global_ok_def)
  then show ?case using pump_advances [OF arrived_safe _ Pump(2)] by (intro global_ok_put_node [OF Pump(3,1)]) blast+
next
  case (Kill C i s)
  have "\<forall>m \<in> set (gv_inbox (global_kill s)). arrived_ok C m" using Kill by (auto simp: global_ok_def global_kill_def)
  then show ?case by (rule global_ok_put_node [OF Kill(2,1) advances_frame(3)])
next
  case (Submit C i s txs task t k)
  obtain b d where task: "task = AwaitVotes b d (fmupd (gv_id s) (global_sign_digest X (gv_key s) d) fmempty)"
    and b: "block_safe b" and t: "filed d t" "advances s t" "gv_inbox t = gv_inbox s"
    by (rule begin_advances [OF Submit(2,3)])
  have id: "gv_id s = i" and inbox: "\<forall>m \<in> set (gv_inbox t). arrived_ok C m" using Submit(1,5) t(3) by (auto simp: global_ok_def)
  have "submission_ok (put_node i t C) task" using b t(1) id by (simp add: task filed_at_def put_node_def)
  with global_ok_put_node [OF Submit(5,1) t(2) inbox]
  show ?case by (rule global_ok_put_task)
next
  case (Step C k i task s task' t)
  have task: "submission_ok C task" and inbox: "\<forall>m \<in> set (gv_inbox s). arrived_ok C m"
    using Step(1,2,4) by (auto simp: global_ok_def)
  have st: "outcome_state (Ok task' t :: submission consensus) = Some t" by simp
  note a = submission_step_ok [OF Step(4,2) task Step(3) st]
  show ?case
    using a inbox by (intro global_ok_put_task global_ok_put_node [OF Step(4,2)]) blast+
next
  case (Fail C k i task s e t)
  have task: "submission_ok C task" and inbox: "\<forall>m \<in> set (gv_inbox s). arrived_ok C m"
    using Fail(1,2,4) by (auto simp: global_ok_def)
  have st: "outcome_state (Err e t :: submission consensus) = Some t" by simp
  note a = submission_step_ok(1,2) [OF Fail(4,2) task Fail(3) st]
  show ?case using a inbox by (intro global_ok_put_node [OF Fail(4,2)]) blast+
qed

lemma reachable_global_ok: "global_reachable X H C \<Longrightarrow> global_ok C"
  by (induction rule: global_reachable.induct) (auto intro: global_ok_start global_ok_step)

section \<open>Theorems\<close>

text \<open>C11: In every reachable state of the global cluster, over all interleavings of submissions, pumps and
  kills and whatever the network delays, reorders or repeats, a committed submission has its block
  filed by at least three of the validators (submissions without a refusal of a dispute, as above).\<close>

theorem global_commit_held_by_quorum:
  assumes "global_reachable X H C" and "fmlookup (gc_tasks C) k = Some (i, Committed out)"
  shows "\<exists>V. 3 \<le> fcard V \<and> V |\<subseteq>| fmdom (gc_nodes C) \<and>
    (\<forall>v. v |\<in>| V \<longrightarrow> (\<exists>s. fmlookup (gc_nodes C) v = Some s \<and> co_digest out |\<in>| fmdom (dm_blocks (gv_dag s))))"
proof -
  have "submission_ok C (Committed out)" using reachable_global_ok [OF assms(1)] assms(2) unfolding global_ok_def by blast
  then obtain V where V: "3 \<le> fcard V" "\<forall>v. v |\<in>| V \<longrightarrow> filed_at C (co_digest out) v" by auto
  then show ?thesis by (intro exI [of _ V]) (auto simp: filed_at_def filed_def intro: fmdomI)
qed

text \<open>C12: In every reachable state every validator's ledger is good: money adds up to the supply, units to
  what was minted, escrow belongs to accounts, also where a block stopped at a failing transaction
  (submissions without a refusal of a dispute, as above).\<close>

theorem global_ledgers_stay_good:
  assumes "global_reachable X H C" and "fmlookup (gc_nodes C) i = Some s"
  shows "gs_ok (gv_state s)"
  using reachable_global_ok [OF assms(1)] assms(2) by (auto simp: global_ok_def sound_def)

section \<open>A sample run\<close>

definition sample_node :: "u8 \<Rightarrow> validator_inner" where
  "sample_node i = new_validator sample_crypto 0 ucast i"

definition sample_vote :: "u8 \<Rightarrow> global_message" where
  "sample_vote i = MsgVote sample_digest i (global_sign_digest sample_crypto (keypair_from_bytes (ucast i)) sample_digest)"

text \<open>A follower files the proposal and votes.\<close>

lemma sample_follower:
  assumes "global_reachable sample_crypto H C" and "fmlookup (gc_nodes C) i = Some (sample_node i)" and "i \<in> {1, 2, 3}"
    and "fmlookup (gc_nodes C) 0 = Some r" and "MsgPropose sample_block 0 \<in> set (gv_sent r)" and "gv_outboxes r = {|1, 2, 3|}"
  obtains t where "global_reachable sample_crypto H (put_node i t C)" and "sample_vote i \<in> set (gv_sent t)" and "0 |\<in>| gv_outboxes t"
proof -
  let ?s = "sample_node i" and ?m = "MsgPropose sample_block 0"
  let ?C1 = "put_node i (global_deliver [?m] ?s) C"
  have "i |\<in>| gv_outboxes r" using assms(3,6) by auto
  then have r1: "global_reachable sample_crypto H ?C1"
    by (intro global_reachable.step [OF assms(1) global_step.Deliver [OF assms(2,4) _ assms(5)]])
  obtain m where m: "dag_insert sample_crypto sample_block (gv_dag ?s) = Some (m, sample_digest)"
    by (simp add: dag_insert_def sample_digest_def sample_block_digest Let_def)
  let ?t = "global_broadcast (sample_vote i) (?s\<lparr> gv_dag := m \<rparr>)"
  have s: "gv_alive ?s" "gv_inbox ?s = []" "gv_id ?s = i" "gv_key ?s = keypair_from_bytes (ucast i)" "gv_outboxes ?s = fset_of_list (removeAll i [0, 1, 2, 3])"
    by (simp_all add: sample_node_def new_validator_def)
  have "global_pump sample_crypto H (global_deliver [?m] ?s) = Ok () ?t"
    using s m
    by (simp add: global_pump_def global_deliver_def handle_msg_def global_handle_propose_def sample_vote_def global_broadcast_def)
  then have "global_step sample_crypto H ?C1 (put_node i ?t ?C1)"
    by (intro global_step.Pump [of _ _ "global_deliver [?m] ?s"]) (simp_all add: put_node_def)
  then have "global_reachable sample_crypto H (put_node i ?t ?C1)" by (rule global_reachable.step [OF r1])
  moreover have "put_node i ?t ?C1 = put_node i ?t C" by (simp add: put_node_def)
  moreover have "0 |\<in>| gv_outboxes ?t" using assms(3) s(5) by (auto simp: global_broadcast_def fset_of_list_elem)
  ultimately show ?thesis using that by (simp add: global_broadcast_def)
qed

lemma put_node_lookup [simp]:
  "fmlookup (gc_nodes (put_node i s C)) j = (if j = i then Some s else fmlookup (gc_nodes C) j)"
  "gc_tasks (put_node i s C) = gc_tasks C" "gc_nodes (put_task k i t C) = gc_nodes C"
  "fmlookup (gc_tasks (put_task k i t C)) l = (if l = k then Some (i, t) else fmlookup (gc_tasks C) l)"
  by (simp_all add: put_node_def put_task_def)

lemma sample_start_nodes: "i \<in> {0, 1, 2, 3} \<Longrightarrow> fmlookup (gc_nodes (global_start sample_crypto 0 ucast)) i = Some (sample_node i)"
  by (auto simp: global_start_def cluster4_def new_validator_def sample_node_def fmlookup_of_list)

text \<open>Validator 0 submits, validators 1 and 2 vote, and validator 0 commits.\<close>

lemma sample_commit_reachable:
  obtains C s where "global_reachable sample_crypto sample_wasm C" and "fmlookup (gc_nodes C) 0 = Some s"
    and "fmlookup (gc_tasks C) 0 = Some (0, Committed \<lparr> co_digest = sample_digest, co_applied = 1, co_height_hint = 0 \<rparr>)"
    and "supply_of (gv_state s) = 5"
proof -
  let ?X = sample_crypto and ?H = sample_wasm and ?d = sample_digest
  let ?sig = "\<lambda>i. global_sign_digest ?X (keypair_from_bytes i) ?d"
  let ?s1 = "(sample_node 0)\<lparr> gv_dag := sample_dag, gv_sent := [MsgPropose sample_block 0, MsgVote ?d 0 (?sig 0)] \<rparr>"
  let ?C0 = "global_start ?X 0 ucast" and ?tx = "GenesisFund (AccountId 1) (AmountMicros 5)"
  let ?T1 = "AwaitVotes sample_block ?d (fmupd 0 (?sig 0) fmempty)"
  let ?C1 = "put_task 0 0 ?T1 (put_node 0 ?s1 ?C0)"
  have d: "block_digest ?X sample_block = Some ?d" by (simp add: sample_digest_def sample_block_digest)
  have "dag_propose ?X 0 [?tx] dag_new = Some (sample_dag, sample_block)"
    using d by (simp add: dag_propose_def dag_insert_def dag_new_def sample_dag_def chk_add_def sample_block_def Let_def)
  then have "submission_begin ?X [?tx] (sample_node 0) = Ok ?T1 ?s1"
    using d by (simp add: submission_begin_def submit_propose_def sample_node_def new_validator_def global_broadcast_def Let_def)
  then have "global_step ?X ?H ?C0 ?C1"
    by (intro global_step.Submit [OF sample_start_nodes]) (simp_all add: safe_tx_def, simp add: global_start_def)
  then have r1: "global_reachable ?X ?H ?C1" by (rule global_reachable.step [OF global_reachable.start])
  have s1: "MsgPropose sample_block 0 \<in> set (gv_sent ?s1)" "gv_outboxes ?s1 = {|1, 2, 3|}"
    by (simp_all add: sample_node_def new_validator_def)
  obtain t1 where r2: "global_reachable ?X ?H (put_node 1 t1 ?C1)" and t1: "sample_vote 1 \<in> set (gv_sent t1)" "0 |\<in>| gv_outboxes t1"
    by (rule sample_follower [OF r1 _ _ _ s1, of 1]) (simp_all add: sample_start_nodes)
  let ?C2 = "put_node 1 t1 ?C1"
  obtain t2 where r3: "global_reachable ?X ?H (put_node 2 t2 ?C2)" and t2: "sample_vote 2 \<in> set (gv_sent t2)" "0 |\<in>| gv_outboxes t2"
    by (rule sample_follower [OF r2 _ _ _ s1, of 2]) (simp_all add: sample_start_nodes)
  let ?C3 = "put_node 2 t2 ?C2" and ?s2 = "global_deliver [sample_vote 1] ?s1"
  let ?C4 = "put_node 0 ?s2 ?C3" and ?s3 = "global_deliver [sample_vote 2] ?s2"
  let ?C5 = "put_node 0 ?s3 ?C4"
  have r4: "global_reachable ?X ?H ?C4"
    by (rule global_reachable.step [OF r3], rule global_step.Deliver [of _ 0 ?s1 1 t1]) (simp_all add: t1)
  have r5: "global_reachable ?X ?H ?C5"
    by (rule global_reachable.step [OF r4], rule global_step.Deliver [of _ 0 ?s2 2 t2]) (simp_all add: t2)
  have inbox: "gv_inbox ?s3 = [MsgVote ?d 1 (?sig 1), MsgVote ?d 2 (?sig 2)]"
    by (simp add: global_deliver_def sample_node_def new_validator_def sample_vote_def)
  have "same_voter (sample_validator 0) ?s3" by (simp add: same_voter_def sample_validator_def sample_node_def global_deliver_def)
  then have good: "global_good_vote ?X ?s3 = global_good_vote ?X (sample_validator 0)" by (rule same_voter_good)
  let ?V = "fmupd 2 (?sig 2) (fmupd 1 (?sig 1) (fmupd 0 (?sig 0) fmempty))" and ?s4 = "?s3\<lparr> gv_inbox := [] \<rparr>"
  let ?T2 = "AwaitVotes sample_block ?d ?V"
  have collected: "collect_votes ?X ?H ?d (gv_inbox ?s3) (fmupd 0 (?sig 0) fmempty) ?s3 = Ok ?V ?s4"
    unfolding inbox using sample_peer_vote [of ?d] by (intro collect_two_votes) (simp_all add: good)
  have "fcard (fmdom (fmupd 0 (?sig 0) (fmempty :: (u8, bytes) fmap))) < 3" by (simp add: fcard.rep_eq)
  then have one: "submission_step ?X ?H ?T1 ?s3 = Ok ?T2 ?s4"
    by (simp only: submission_step.simps collected and_then_simps if_True)
  have r6: "global_reachable ?X ?H (put_task 0 0 ?T2 (put_node 0 ?s4 ?C5))"
    by (rule global_reachable.step [OF r5 global_step.Step [OF _ _ one]]) simp_all
  obtain g where g: "apply_txs ?X ?H [?tx] (global_state_new 0) = Ok () g" and sup: "supply_of g = 5"
    using genesis_applies [OF gs_ok_new, of 0 "AmountMicros 5" ?X ?H "AccountId 1"]
    by (auto simp: supply_of_def global_state_new_def)
  let ?s5 = "(global_broadcast (MsgCommit ?d (sorted_list_of_fmap ?V)) ?s4)\<lparr> gv_state := g \<rparr>"
  have "gv_state (global_broadcast (MsgCommit ?d (sorted_list_of_fmap ?V)) ?s4) = global_state_new 0"
    by (simp add: global_broadcast_def global_deliver_def sample_node_def new_validator_def)
  moreover have "db_txs sample_block = [?tx]" "db_round sample_block = 0" by (simp_all add: sample_block_def)
  ultimately have two: "submission_step ?X ?H ?T2 ?s4 =
      Ok (Committed \<lparr> co_digest = ?d, co_applied = 1, co_height_hint = 0 \<rparr>) ?s5"
    using g by (simp add: fcard.rep_eq apply_block_txs_def)
  have "global_reachable ?X ?H (put_task 0 0 (Committed \<lparr> co_digest = ?d, co_applied = 1, co_height_hint = 0 \<rparr>)
      (put_node 0 ?s5 (put_task 0 0 ?T2 (put_node 0 ?s4 ?C5))))"
    by (rule global_reachable.step [OF r6 global_step.Step [OF _ _ two]]) simp_all
  then show ?thesis by (rule that [of _ ?s5]) (simp_all add: sup)
qed

lemma global_commit_held_by_quorum_witness:
  "\<exists>C V. global_reachable sample_crypto sample_wasm C \<and> 3 \<le> fcard V \<and>
    (\<forall>v. v |\<in>| V \<longrightarrow> (\<exists>s. fmlookup (gc_nodes C) v = Some s \<and> sample_digest |\<in>| fmdom (dm_blocks (gv_dag s))))"
proof -
  obtain C and s :: validator_inner where C: "global_reachable sample_crypto sample_wasm C"
    "fmlookup (gc_tasks C) 0 = Some (0, Committed \<lparr> co_digest = sample_digest, co_applied = 1, co_height_hint = 0 \<rparr>)"
    by (rule sample_commit_reachable)
  show ?thesis using global_commit_held_by_quorum [OF C] C(1) by auto
qed

lemma global_ledgers_stay_good_witness:
  "\<exists>C s. global_reachable sample_crypto sample_wasm C \<and> fmlookup (gc_nodes C) 0 = Some s \<and> gs_ok (gv_state s) \<and> supply_of (gv_state s) = 5"
proof -
  obtain C s where C: "global_reachable sample_crypto sample_wasm C" "fmlookup (gc_nodes C) 0 = Some s" "supply_of (gv_state s) = 5"
    by (rule sample_commit_reachable)
  show ?thesis using global_ledgers_stay_good [OF C(1,2)] C by blast
qed

end
