(* ===== verification/Cluster_Invariant.thy ===== *)
theory Cluster_Invariant
  imports Cluster
begin

text \<open>
  Invariants of a shard's cluster that depend on which payments its validators were told to
  commit. The locale \<open>sourced_invariant\<close> is the contract for one validator: what an invariant must
  keep under the primitive steps, so that every operation keeps it when the commits it handles
  are taken from a set. The locale \<open>cluster_invariant\<close> is the contract for the whole cluster: such
  an invariant, taken over the payments proposed so far, then holds at every validator, and an
  accepted payment is a proposed one that a quorum has consumed.
\<close>

section \<open>Where a validator's payments come from\<close>

section \<open>Where a validator's payments come from\<close>

definition commits :: "bft_message list \<Rightarrow> pay_commit_body set" where
  "commits ms = {b. \<exists>vs. Commit b vs \<in> set ms}"

lemma commits_simps [simp]:
  "commits [] = {}" "commits (ms @ ns) = commits ms \<union> commits ns"
  "commits (m # ms) = (case m of Commit b vs \<Rightarrow> insert b (commits ms) | _ \<Rightarrow> commits ms)"
  by (auto simp: commits_def split: bft_message.splits)

lemma commits_mono: "set ms \<subseteq> set ns \<Longrightarrow> commits ms \<subseteq> commits ns"
  by (auto simp: commits_def)

text \<open>
  The contract of an invariant that depends on which payments a validator is told to commit. The
  parameter \<open>B\<close> is the set they are taken from.
\<close>

locale sourced_invariant =
  fixes X :: crypto
    and I :: "pay_commit_body set \<Rightarrow> shard_inner \<Rightarrow> bool"
  assumes inbox: "I B s \<Longrightarrow> I B (s\<lparr> si_inbox := ms \<rparr>)"
    and say: "I B s \<Longrightarrow> \<not> is_ack m \<Longrightarrow> commits [m] \<subseteq> B \<Longrightarrow> I B (broadcast m s)"
    and ack: "I B s \<Longrightarrow> b \<in> B \<Longrightarrow> body_digest X b = Some d \<Longrightarrow> body_consumed b s \<Longrightarrow>
      I B (broadcast (DurableAck d (engine_id s)) s)"
    and commit: "I B s \<Longrightarrow> b \<in> B \<Longrightarrow> outcome_state (commit_once X b s) = Some t \<Longrightarrow> I B t"
    and fence: "I B s \<Longrightarrow> outcome_state (fence_once X ep s) = Some t \<Longrightarrow> I B t"
begin

lemma keeps_commit_ack:
  assumes "I B s" and "b \<in> B" and "body_digest X b = Some d"
    and "outcome_state (and_then (commit_once X b s) (\<lambda>_ s1. Ok () (broadcast (DurableAck d (engine_id s1)) s1))) = Some t"
  shows "I B t"
proof -
  consider e where "commit_once X b s = Err e t"
    | m where "commit_once X b s = Ok () m" "t = broadcast (DurableAck d (engine_id m)) m"
    using assms(4) by (auto simp: and_then_state)
  then show ?thesis
  proof cases
    case 1
    then show ?thesis using commit [OF assms(1,2)] by simp
  next
    case 2
    then have "I B m" using commit [OF assms(1,2)] by simp
    then show ?thesis using ack [OF _ assms(2,3)] growing.commit_consumes 2 by blast
  qed
qed

lemma keeps_dispatch:
  assumes "I B s" and "commits [m] \<subseteq> B" and "outcome_state (dispatch X m s) = Some t"
  shows "I B t"
proof (cases m)
  case (Propose b p l now)
  then show ?thesis using assms say by (auto simp: handle_propose_def ret_or_panic_state split: if_splits)
next
  case (Commit b votes)
  then have "b \<in> B" using assms(2) by simp
  then show ?thesis
    using assms(1,3) Commit keeps_commit_ack by (auto simp: handle_commit_def ret_or_panic_state split: if_splits)
next
  case (FenceCommit ep vs)
  then consider e where "fence_once X ep s = Err e t"
    | r where "fence_once X ep s = Ok () r" "t = broadcast (FenceDurableAck ep (engine_id r)) r"
    using assms(3) by (auto simp: handle_fence_commit_def and_then_state)
  then show ?thesis
  proof cases
    case 1
    then show ?thesis using fence [OF assms(1), of ep t] by simp
  next
    case 2
    then have "I B r" using fence [OF assms(1), of ep r] by simp
    then show ?thesis using say 2(2) by simp
  qed
qed (use assms say in auto)

lemma keeps_message: "I B s \<Longrightarrow> commits [m] \<subseteq> B \<Longrightarrow> outcome_state (handle_message X m s) = Some t \<Longrightarrow> I B t"
  using keeps_dispatch by (auto simp: handle_message_def split: if_splits)

text \<open>A loop over the inbox keeps it when every message that is handled is taken from the set.\<close>

lemma keeps_message_then:
  assumes "I B s" and "commits [m] \<subseteq> B"
    and "outcome_state (and_then (handle_message X m (s\<lparr> si_inbox := ms \<rparr>)) (\<lambda>_ r. k r)) = Some t"
    and "\<And>r. I B r \<Longrightarrow> outcome_state (k r) = Some t \<Longrightarrow> I B t"
  shows "I B t"
proof -
  let ?r = "handle_message X m (s\<lparr> si_inbox := ms \<rparr>)"
  have kept: "I B r" if "outcome_state ?r = Some r" for r
    using keeps_message [OF inbox [OF assms(1)] assms(2) that] .
  consider e where "?r = Err e t" | r where "?r = Ok () r" "outcome_state (k r) = Some t"
    using assms(3) by (auto simp: and_then_state)
  then show ?thesis
  proof cases
    case 1
    then show ?thesis using kept [of t] by simp
  next
    case 2
    then show ?thesis using kept [of r] assms(4) by simp
  qed
qed

lemma commits_Cons: "commits (m # ms) \<subseteq> B \<Longrightarrow> commits [m] \<subseteq> B \<and> commits ms \<subseteq> B"
  by (auto simp: commits_def)

lemma keeps_drain: "I B s \<Longrightarrow> commits ms \<subseteq> B \<Longrightarrow> outcome_state (drain X ms s) = Some t \<Longrightarrow> I B t"
proof (induction ms arbitrary: s)
  case (Cons m ms)
  note c = commits_Cons [OF Cons.prems(2)]
  show ?case
    by (rule keeps_message_then [OF Cons.prems(1) conjunct1 [OF c], of ms "drain X ms"])
      (use Cons.IH Cons.prems(3) c in \<open>simp_all\<close>)
qed (auto intro: inbox)

lemma keeps_pump: "I B s \<Longrightarrow> commits (si_inbox s) \<subseteq> B \<Longrightarrow> outcome_state (pump X s) = Some t \<Longrightarrow> I B t"
  using keeps_drain by (auto simp: pump_def split: if_splits)

lemma keeps_take_votes:
  "I B s \<Longrightarrow> commits ms \<subseteq> B \<Longrightarrow> outcome_state (take_votes X d ms votes s) = Some t \<Longrightarrow> I B t"
proof (induction ms arbitrary: votes s)
  case (Cons m ms)
  note c = commits_Cons [OF Cons.prems(2)]
  consider v where "outcome_state (take_votes X d ms v (s\<lparr> si_inbox := ms \<rparr>)) = Some t"
    | "outcome_state (and_then (handle_message X m (s\<lparr> si_inbox := ms \<rparr>)) (\<lambda>_ r. take_votes X d ms votes r)) = Some t"
    using Cons.prems(3) by (cases m) (auto simp: Let_def split: if_splits)
  then show ?case
  proof cases
    case 1
    then show ?thesis using Cons.IH inbox [OF Cons.prems(1)] c by blast
  next
    case 2
    show ?thesis
      by (rule keeps_message_then [OF Cons.prems(1) conjunct1 [OF c] 2]) (use Cons.IH c in blast)
  qed
qed (auto intro: inbox)

lemma keeps_take_acks:
  "I B s \<Longrightarrow> commits ms \<subseteq> B \<Longrightarrow> outcome_state (take_acks X d ms acks s) = Some t \<Longrightarrow> I B t"
proof (induction ms arbitrary: acks s)
  case (Cons m ms)
  note c = commits_Cons [OF Cons.prems(2)]
  consider a where "outcome_state (take_acks X d ms a (s\<lparr> si_inbox := ms \<rparr>)) = Some t"
    | "outcome_state (and_then (handle_message X m (s\<lparr> si_inbox := ms \<rparr>)) (\<lambda>_ r. take_acks X d ms acks r)) = Some t"
    using Cons.prems(3) by (cases m) (auto simp: Let_def split: if_splits)
  then show ?case
  proof cases
    case 1
    then show ?thesis using Cons.IH inbox [OF Cons.prems(1)] c by blast
  next
    case 2
    show ?thesis
      by (rule keeps_message_then [OF Cons.prems(1) conjunct1 [OF c] 2]) (use Cons.IH c in blast)
  qed
qed (auto intro: inbox)

lemma keeps_pay_commit:
  assumes "I B s" and "b \<in> B" and "body_digest X b = Some d" and "outcome_state (pay_commit X b d votes s) = Some t"
  shows "I B t"
  using keeps_commit_ack [OF say [OF assms(1), of "Commit b (vote_list votes)"] assms(2,3), of t] assms(2,4)
  by (simp add: pay_commit_def)

lemma keeps_pay_propose:
  assumes "I B s" and "outcome_state (pay_propose X p now s) = Some t"
  shows "I B t"
proof -
  have "I B (broadcast (Vote d v sig) (broadcast (Propose b p w now) s))" for d v sig b w
    using say [OF say [OF assms(1)]] by simp
  then show ?thesis
    using assms by (auto simp: pay_propose_def Let_def ret_or_panic_state split: if_splits sum.splits)
qed

text \<open>A fence round that collects no acknowledgements, as in the cluster's step.\<close>

lemma keeps_fence_epoch:
  assumes "I B s" and "outcome_state (engine_fence_epoch X [] ep s) = Some t"
  shows "I B t"
proof -
  let ?s0 = "broadcast (FenceCommit ep [engine_id s]) s"
  have s0: "I B ?s0" using say [OF assms(1)] by simp
  consider "t = s" | e where "fence_once X ep ?s0 = Err e t"
    | r where "fence_once X ep ?s0 = Ok () r" "t = broadcast (FenceDurableAck ep (engine_id r)) r"
    using assms(2) by (auto simp: engine_fence_epoch_def Let_def and_then_state split: if_splits)
  then show ?thesis
  proof cases
    case 1
    then show ?thesis using assms(1) by simp
  next
    case 2
    then show ?thesis using fence [OF s0, of ep t] by simp
  next
    case 3
    then have "I B r" using fence [OF s0, of ep r] by simp
    then show ?thesis using say 3(2) by simp
  qed
qed
text \<open>The waiting loops take their messages from the inbox and from what arrives meanwhile.\<close>

lemma keeps_vote_wait:
  assumes "I B s" and "commits (si_inbox s @ concat rounds) \<subseteq> B"
    and "outcome_state (vote_wait X d need rounds votes s) = Some t"
  shows "I B t"
  using assms
proof (induction rounds arbitrary: votes s)
  case (Cons ms rounds)
  let ?s = "deliver ms s" and ?r = "take_votes X d (si_inbox (deliver ms s)) votes (deliver ms s)"
  have s: "I B ?s" "commits (si_inbox ?s) \<subseteq> B" using inbox [OF Cons.prems(1)] Cons.prems(2) by (simp_all add: deliver_def)
  have kept: "I B r" if "outcome_state ?r = Some r" for r by (rule keeps_take_votes [OF s that])
  consider "t = s" | e where "?r = Err e t" | v r where "?r = Ok v r" "outcome_state (vote_wait X d need rounds v r) = Some t"
    using Cons.prems(3) by (auto simp: Let_def and_then_state split: if_splits)
  then show ?case
  proof cases
    case 3
    have "commits (si_inbox r @ concat rounds) \<subseteq> B" using take_votes_inbox [OF 3(1)] Cons.prems(2) by simp
    then show ?thesis using Cons.IH [OF _ _ 3(2)] kept [of r] 3(1) by simp
  qed (use Cons.prems(1) kept [of t] in simp_all)
qed (auto split: if_splits)

lemma keeps_ack_wait:
  assumes "I B s" and "commits (si_inbox s @ concat rounds) \<subseteq> B"
    and "outcome_state (ack_wait X d need rounds acks s) = Some t"
  shows "I B t"
  using assms
proof (induction rounds arbitrary: acks s)
  case (Cons ms rounds)
  let ?s = "deliver ms s" and ?r = "take_acks X d (si_inbox (deliver ms s)) acks (deliver ms s)"
  have s: "I B ?s" "commits (si_inbox ?s) \<subseteq> B" using inbox [OF Cons.prems(1)] Cons.prems(2) by (simp_all add: deliver_def)
  have kept: "I B r" if "outcome_state ?r = Some r" for r by (rule keeps_take_acks [OF s that])
  consider "t = s" | e where "?r = Err e t" | v r where "?r = Ok v r" "outcome_state (ack_wait X d need rounds v r) = Some t"
    using Cons.prems(3) by (auto simp: Let_def and_then_state split: if_splits)
  then show ?case
  proof cases
    case 3
    have "set (si_inbox r) \<subseteq> set (si_inbox ?s)" using take_acks_state_inbox [of X d "si_inbox ?s" acks ?s r] 3(1) by simp
    from commits_mono [OF this] have "commits (si_inbox r @ concat rounds) \<subseteq> B" using s(2) Cons.prems(2) by simp
    then show ?thesis using Cons.IH [OF _ _ 3(2)] kept [of r] 3(1) by simp
  qed (use Cons.prems(1) kept [of t] in simp_all)
qed (auto split: if_splits)

end

lemma sourced_invariant_conj:
  assumes "sourced_invariant X I" and "sourced_invariant X J"
  shows "sourced_invariant X (\<lambda>B s. I B s \<and> J B s)"
proof unfold_locales
  show "I B t \<and> J B t" if "I B s \<and> J B s" "b \<in> B" "outcome_state (commit_once X b s) = Some t" for B s b t
    using that assms [THEN sourced_invariant.commit] by blast
  show "I B t \<and> J B t" if "I B s \<and> J B s" "outcome_state (fence_once X ep s) = Some t" for B s ep t
    using that assms [THEN sourced_invariant.fence] by blast
qed (use assms [THEN sourced_invariant.inbox] assms [THEN sourced_invariant.say] assms [THEN sourced_invariant.ack] in simp_all)

section \<open>Keys of payments\<close>

definition body_key :: "pay_commit_body \<Rightarrow> consume_key" where
  "body_key b = consume_key_of (pb_capability_id b) (pb_epoch b) (pb_sequence b)"

lemma consumed_key: "body_consumed b s \<longleftrightarrow> body_key b |\<in>| ss_consumed (si_state s)"
  by (simp add: body_consumed_def is_consumed_def body_key_def)

section \<open>The cluster\<close>

text \<open>The payments proposed so far: what the validators have sent is never taken back.\<close>

definition proposed :: "shard_cluster \<Rightarrow> pay_commit_body set" where
  "proposed C = {b. \<exists>i s p l now. fmlookup (cl_nodes C) i = Some s \<and> Propose b p l now \<in> set (si_sent s)}"

definition says :: "shard_inner \<Rightarrow> shard_inner \<Rightarrow> bool" where
  "says s t \<longleftrightarrow> set (si_sent s) \<subseteq> set (si_sent t)"

interpretation sending: engine_contract X says says for X
proof unfold_locales
  show "says s t" if "commit_once X b s = Ok () t" for X s t b
    using commit_once_silent(1) [OF that] by (simp add: says_def)
  show "says s t" if "commit_once X b s = Err e t" for X s t b e
    using commit_once_silent(2) [OF that] by (simp add: says_def)
  show "says s t" if "fence_once X ep s = Ok () t" for X s t ep
    using fence_once_silent(1) [OF that] by (simp add: says_def)
  show "says s t" if "fence_once X ep s = Err e t" for X s t ep e
    using fence_once_silent(2) [OF that] by (simp add: says_def)
  show "says s t" if "engine_activate X c s = Ok () t" for X s t c
    using engine_activate_silent(1) [OF that] by (simp add: says_def)
  show "says s t" if "engine_activate X c s = Err e t" for X s t c e
    using engine_activate_silent(2) [OF that] by (simp add: says_def)
qed (auto simp: says_def broadcast_def)

definition held :: "crypto \<Rightarrow> shard_cluster \<Rightarrow> b32 \<Rightarrow> u8 \<Rightarrow> bool" where
  "held X C d v \<longleftrightarrow> (\<exists>s. \<exists>b \<in> proposed C. fmlookup (cl_nodes C) v = Some s \<and> body_digest X b = Some d \<and> body_consumed b s)"

definition inbox_sound :: "crypto \<Rightarrow> shard_cluster \<Rightarrow> bft_message list \<Rightarrow> bool" where
  "inbox_sound X C ms \<longleftrightarrow> commits ms \<subseteq> proposed C \<and> (\<forall>d v. DurableAck d v \<in> set ms \<longrightarrow> held X C d v)"

fun task_sound :: "crypto \<Rightarrow> shard_cluster \<Rightarrow> u8 \<Rightarrow> pay_task \<Rightarrow> bool" where
  "task_sound X C i (CollectVotes b d need votes) = (b \<in> proposed C \<and> body_digest X b = Some d)"
| "task_sound X C i (CollectAcks b d need acks) =
     (b \<in> proposed C \<and> body_digest X b = Some d \<and> i \<in> set acks \<and> (\<forall>v \<in> set acks. held X C d v))"
| "task_sound X C i (Accepted b d need acks acc) =
     (b \<in> proposed C \<and> body_digest X b = Some d \<and> i \<in> set acks \<and> (\<forall>v \<in> set acks. held X C d v))"

lemma proposed_set_node:
  assumes "fmlookup (cl_nodes C) i = Some s" and "says s t"
  shows "proposed C \<subseteq> proposed (set_node i t C)"
proof
  fix b assume "b \<in> proposed C"
  then obtain j r p l now where "fmlookup (cl_nodes C) j = Some r" "Propose b p l now \<in> set (si_sent r)"
    by (auto simp: proposed_def)
  then have "fmlookup (cl_nodes (set_node i t C)) j = Some (if j = i then t else r)"
    and "Propose b p l now \<in> set (si_sent (if j = i then t else r))"
    using assms by (auto simp: set_node_def says_def)
  then show "b \<in> proposed (set_node i t C)" unfolding proposed_def by blast
qed

lemma held_set_node:
  assumes "fmlookup (cl_nodes C) i = Some s" and "says s t" and "grows s t" and "held X C d v"
  shows "held X (set_node i t C) d v"
proof -
  obtain r b where "b \<in> proposed C" "fmlookup (cl_nodes C) v = Some r" "body_digest X b = Some d" "body_consumed b r"
    using assms(4) by (auto simp: held_def)
  moreover have "fmlookup (cl_nodes (set_node i t C)) v = Some (if v = i then t else r)"
    using calculation(2) by (simp add: set_node_def)
  moreover have "body_consumed b (if v = i then t else r)"
    using calculation(2,4) assms(1,3) by (auto simp: grows_def)
  ultimately show ?thesis using proposed_set_node [OF assms(1,2)] unfolding held_def by blast
qed

lemma task_sound_set_node:
  assumes "fmlookup (cl_nodes C) i = Some s" and "says s t" and "grows s t" and "task_sound X C j task"
  shows "task_sound X (set_node i t C) j task"
  using assms(4) held_set_node [OF assms(1-3)] proposed_set_node [OF assms(1,2)] by (cases task) auto

lemma inbox_sound_set_node:
  assumes "fmlookup (cl_nodes C) i = Some s" and "says s t" and "grows s t" and "inbox_sound X C ms"
  shows "inbox_sound X (set_node i t C) ms"
  using assms(4) held_set_node [OF assms(1-3)] proposed_set_node [OF assms(1,2)] unfolding inbox_sound_def by blast

lemma take_acks_keeps: "take_acks X d ms acks s = Ok acks' t \<Longrightarrow> set acks \<subseteq> set acks'"
proof (induction ms arbitrary: acks s)
  case (Cons m ms)
  show ?case
  proof (cases "\<exists>v. m = DurableAck d v")
    case True
    then obtain v where "take_acks X d ms (add_ack v acks) (s\<lparr> si_inbox := ms \<rparr>) = Ok acks' t" using Cons.prems by auto
    then have "set (add_ack v acks) \<subseteq> set acks'" by (rule Cons.IH)
    then show ?thesis by (auto simp: add_ack_def split: if_splits)
  next
    case False
    then obtain r where "take_acks X d ms acks r = Ok acks' t"
      using Cons.prems by (cases m) (auto simp: Let_def and_then_iff split: if_splits)
    then show ?thesis by (rule Cons.IH)
  qed
qed simp

lemma held_own:
  assumes "b \<in> proposed C" and "body_digest X b = Some d" and "body_consumed b t"
    and "fmlookup (cl_nodes C) i = Some s" and "says s t"
  shows "held X (set_node i t C) d i"
proof -
  have "b \<in> proposed (set_node i t C)" using proposed_set_node [OF assms(4,5)] assms(1) by blast
  moreover have "fmlookup (cl_nodes (set_node i t C)) i = Some t" by (simp add: set_node_def)
  ultimately show ?thesis using assms(2,3) unfolding held_def by blast
qed

text \<open>
  What a validator has said: the payments it told others to commit are among the proposed ones,
  and it acknowledged only what it has consumed.
\<close>

definition told :: "crypto \<Rightarrow> pay_commit_body set \<Rightarrow> shard_inner \<Rightarrow> bool" where
  "told X B s \<longleftrightarrow> commits (si_sent s) \<subseteq> B \<and>
     (\<forall>d v. DurableAck d v \<in> set (si_sent s) \<longrightarrow>
        v = engine_id s \<and> (\<exists>b \<in> B. body_digest X b = Some d \<and> body_consumed b s))"

lemma told_mono: "told X B s \<Longrightarrow> B \<subseteq> B' \<Longrightarrow> told X B' s"
  unfolding told_def by blast

lemma told_cong: "told X B s \<Longrightarrow> si_state t = si_state s \<Longrightarrow> si_sent t = si_sent s \<Longrightarrow> si_cfg t = si_cfg s \<Longrightarrow> told X B t"
  by (simp add: told_def body_consumed_def engine_id_def)

lemma told_grows:
  assumes "told X B s" and "grows s t" and "si_sent t = si_sent s"
  shows "told X B t"
proof -
  have id: "engine_id t = engine_id s" using assms(2) by (simp add: grows_def engine_id_def)
  have "body_consumed b s \<Longrightarrow> body_consumed b t" for b using assms(2) by (simp add: grows_def)
  then show ?thesis using assms(1) unfolding told_def id assms(3) by blast
qed

lemma told_activate:
  assumes "told X B s" and "outcome_state (engine_activate X cap s) = Some t"
  shows "told X B t"
  using assms(2) engine_activate_silent growing.activate_Ok growing.activate_Err
  by (auto elim!: outcome_state_cases intro!: told_grows [OF assms(1)])

lemma told_sourced: "sourced_invariant X (told X)"
proof unfold_locales
  show "told X B (s\<lparr> si_inbox := ms \<rparr>)" if "told X B s" for B s ms by (rule told_cong [OF that]) simp_all
  show "told X B (broadcast m s)" if "told X B s" "\<not> is_ack m" "commits [m] \<subseteq> B" for B s m
    using that by (cases m) (auto simp: told_def broadcast_def body_consumed_def engine_id_def)
  show "told X B (broadcast (DurableAck d (engine_id s)) s)"
    if "told X B s" "b \<in> B" "body_digest X b = Some d" "body_consumed b s" for B s b d
    using that by (auto simp: told_def broadcast_def body_consumed_def engine_id_def)
  show "told X B t" if "told X B s" "b \<in> B" "outcome_state (commit_once X b s) = Some t" for B s b t
    using that(3) commit_once_silent growing.commit_Ok growing.commit_Err
    by (auto elim!: outcome_state_cases intro!: told_grows [OF that(1)])
  show "told X B t" if "told X B s" "outcome_state (fence_once X ep s) = Some t" for B s ep t
    using that(2) fence_once_silent growing.fence_Ok growing.fence_Err
    by (auto elim!: outcome_state_cases intro!: told_grows [OF that(1)])
qed

section \<open>Invariants of the cluster\<close>

text \<open>
  The contract: the invariant implies that what the validator said is true, it survives more
  proposals and a kill, and activations keep it as far as the relation \<open>A\<close> allows them.
\<close>

locale cluster_invariant = sourced_invariant X I
  for X :: crypto
    and I :: "pay_commit_body set \<Rightarrow> shard_inner \<Rightarrow> bool" +
  fixes A :: "shard_inner \<Rightarrow> shard_inner \<Rightarrow> bool"
  assumes mono: "I B s \<Longrightarrow> B \<subseteq> B' \<Longrightarrow> I B' s"
    and truthful: "I B s \<Longrightarrow> told X B s"
    and killed: "I B s \<Longrightarrow> I B (kill s)"
    and activated: "I B s \<Longrightarrow> outcome_state (engine_activate X cap s) = Some t \<Longrightarrow> A s t \<Longrightarrow> I B t"
begin

definition cluster_sound :: "shard_cluster \<Rightarrow> bool" where
  "cluster_sound C \<longleftrightarrow>
     (\<forall>i s. fmlookup (cl_nodes C) i = Some s \<longrightarrow> I (proposed C) s \<and> inbox_sound X C (si_inbox s)) \<and>
     (\<forall>k i t. fmlookup (cl_tasks C) k = Some (i, t) \<longrightarrow> task_sound X C i t)"

lemma cluster_sound_start:
  assumes "cluster_start C" and "\<And>i s. fmlookup (cl_nodes C) i = Some s \<Longrightarrow> I (proposed C) s"
  shows "cluster_sound C"
  using assms by (auto simp: cluster_sound_def cluster_start_def inbox_sound_def)

lemma cluster_sound_set_node:
  assumes ok: "cluster_sound C" and s: "fmlookup (cl_nodes C) i = Some s" and m: "says s t" "grows s t"
    and t: "I (proposed (set_node i t C)) t" "inbox_sound X C (si_inbox t)"
  shows "cluster_sound (set_node i t C)"
proof -
  have "I (proposed (set_node i t C)) u \<and> inbox_sound X (set_node i t C) (si_inbox u)"
    if "fmlookup (cl_nodes (set_node i t C)) j = Some u" for j u
  proof (cases "j = i")
    case True
    then have "u = t" using that by (simp add: set_node_def)
    then show ?thesis using t inbox_sound_set_node [OF s m] by simp
  next
    case False
    then have "I (proposed C) u" "inbox_sound X C (si_inbox u)"
      using that ok by (auto simp: cluster_sound_def set_node_def)
    then show ?thesis
      using inbox_sound_set_node [OF s m] mono [OF _ proposed_set_node [OF s m(1)]] by blast
  qed
  moreover have "task_sound X (set_node i t C) j task"
    if "fmlookup (cl_tasks (set_node i t C)) k = Some (j, task)" for k j task
    using that ok task_sound_set_node [OF s m] by (auto simp: cluster_sound_def) (simp add: set_node_def)
  ultimately show ?thesis unfolding cluster_sound_def by blast
qed

text \<open>A step that proposes nothing new is judged by what was proposed before.\<close>

lemma cluster_sound_quiet:
  assumes ok: "cluster_sound C" and s: "fmlookup (cl_nodes C) i = Some s" and m: "says s t" "grows s t"
    and t: "I (proposed C) t" "set (si_inbox t) \<subseteq> set (si_inbox s)"
  shows "cluster_sound (set_node i t C)"
proof (rule cluster_sound_set_node [OF ok s m])
  show "I (proposed (set_node i t C)) t" by (rule mono [OF t(1) proposed_set_node [OF s m(1)]])
  show "inbox_sound X C (si_inbox t)"
    using ok s t(2) commits_mono [OF t(2)] unfolding cluster_sound_def inbox_sound_def by blast
qed

lemma cluster_sound_set_task:
  assumes "cluster_sound C" and "task_sound X C i task"
  shows "cluster_sound (set_task k i task C)"
proof -
  have n: "cl_nodes (set_task k i task C) = cl_nodes C" by (simp add: set_task_def)
  then have p: "proposed (set_task k i task C) = proposed C" by (simp add: proposed_def)
  have h: "held X (set_task k i task C) = held X C" by (simp add: held_def n p fun_eq_iff)
  have t: "task_sound X (set_task k i task C) j u = task_sound X C j u" for j u by (cases u) (simp_all add: p h)
  have "inbox_sound X (set_task k i task C) = inbox_sound X C" by (simp add: inbox_sound_def p h fun_eq_iff)
  then show ?thesis
    using assms by (auto simp: cluster_sound_def n p t) (auto simp: set_task_def split: if_splits)
qed

lemma sound_begin:
  assumes ok: "cluster_sound C" and s: "fmlookup (cl_nodes C) i = Some s" and b: "task_begin X p now s = Ok task t"
  shows "cluster_sound (set_task k i task (set_node i t C))"
proof -
  obtain b d own where pp: "pay_propose X p now s = Ok (b, d) t" and task: "task = CollectVotes b d (need_of t) own"
    using b by (auto simp: task_begin_def and_then_iff split: prod.splits)
  have t: "body_digest X b = Some d" "si_inbox t = si_inbox s" "Propose b p (engine_id s) now \<in> set (si_sent t)"
    using pp by (auto simp: pay_propose_Ok broadcast_def)
  have m: "says s t" "grows s t"
    using sending.holds_pay_propose [of s X p now] growing.holds_pay_propose [of s X p now] pp by simp_all
  have sound: "I (proposed C) s" "inbox_sound X C (si_inbox s)" using ok s by (auto simp: cluster_sound_def)
  have "I (proposed C) t" using keeps_pay_propose [OF sound(1), of p now t] pp by simp
  then have "cluster_sound (set_node i t C)" using cluster_sound_quiet [OF ok s m] t(2) by simp
  moreover have "b \<in> proposed (set_node i t C)"
  proof -
    have "fmlookup (cl_nodes (set_node i t C)) i = Some t" by (simp add: set_node_def)
    then show ?thesis using t(3) unfolding proposed_def by blast
  qed
  ultimately show ?thesis using cluster_sound_set_task task t(1) by simp
qed

lemma sound_step_votes:
  assumes ok: "cluster_sound C" and s: "fmlookup (cl_nodes C) i = Some s" and id: "engine_id s = i"
    and task: "task_sound X C i (CollectVotes b d need votes)"
    and r: "outcome_state (task_step X (CollectVotes b d need votes) s) = Some t"
  shows "cluster_sound (set_node i t C)"
    and "task_step X (CollectVotes b d need votes) s = Ok task' t \<Longrightarrow> task_sound X (set_node i t C) i task'"
proof -
  have b: "b \<in> proposed C" "body_digest X b = Some d" using task by simp_all
  have sound: "I (proposed C) s" "commits (si_inbox s) \<subseteq> proposed C"
    using ok s by (auto simp: cluster_sound_def inbox_sound_def)
  note own = held_own [OF b _ s]
  show "cluster_sound (set_node i t C)"
  proof (cases "fcard (fmdom votes) < need")
    case True
    then have v: "outcome_state (take_votes X d (si_inbox s) votes s) = Some t" using r by (auto simp: and_then_state)
    have "says s t" "grows s t"
      using sending.holds_take_votes [of s X d "si_inbox s" votes] growing.holds_take_votes [of s X d "si_inbox s" votes] v
      by (auto elim!: outcome_state_cases)
    then show ?thesis
      using cluster_sound_quiet [OF ok s] keeps_take_votes [OF sound v] take_votes_state_inbox [OF v] by blast
  next
    case False
    then have c: "outcome_state (pay_commit X b d votes s) = Some t" using r by (auto simp: and_then_state)
    have "says s t" "grows s t"
      using sending.holds_pay_commit [OF b(2), of s votes] growing.holds_pay_commit [OF b(2), of s votes] c
      by (auto elim!: outcome_state_cases)
    then show ?thesis
      using cluster_sound_quiet [OF ok s] keeps_pay_commit [OF sound(1) b c] pay_commit_state_inbox [OF c] by simp
  qed
  assume step: "task_step X (CollectVotes b d need votes) s = Ok task' t"
  show "task_sound X (set_node i t C) i task'"
  proof (cases "fcard (fmdom votes) < need")
    case True
    then obtain v where v: "take_votes X d (si_inbox s) votes s = Ok v t" and task': "task' = CollectVotes b d need v"
      using step by (auto simp: and_then_iff)
    have "says s t" using sending.holds_take_votes [of s X d "si_inbox s" votes] v by simp
    then show ?thesis using task' b proposed_set_node [OF s] by auto
  next
    case False
    then have c: "pay_commit X b d votes s = Ok () t" and task': "task' = CollectAcks b d need [engine_id t]"
      using step by (auto simp: and_then_iff)
    have m: "says s t" "grows s t"
      using sending.holds_pay_commit [OF b(2), of s votes] growing.holds_pay_commit [OF b(2), of s votes] c by simp_all
    then have "engine_id t = i" using id by (simp add: grows_def engine_id_def)
    then show ?thesis
      using task' b own [OF pay_commit_consumes [OF c] m(1)] proposed_set_node [OF s m(1)] by auto
  qed
qed

lemma sound_step_acks:
  assumes ok: "cluster_sound C" and s: "fmlookup (cl_nodes C) i = Some s"
    and task: "task_sound X C i (CollectAcks b d need acks)" and dist: "distinct acks"
    and r: "outcome_state (task_step X (CollectAcks b d need acks) s) = Some t"
  shows "cluster_sound (set_node i t C)"
    and "task_step X (CollectAcks b d need acks) s = Ok task' t \<Longrightarrow> task_sound X (set_node i t C) i task'"
proof -
  have sound: "I (proposed C) s" "commits (si_inbox s) \<subseteq> proposed C" "inbox_sound X C (si_inbox s)"
    using ok s by (auto simp: cluster_sound_def inbox_sound_def)
  have m: "says s t \<and> grows s t \<and> I (proposed C) t \<and> set (si_inbox t) \<subseteq> set (si_inbox s)"
  proof (cases "length acks < need")
    case True
    then have v: "outcome_state (take_acks X d (si_inbox s) acks s) = Some t" using r by (auto simp: and_then_state)
    have "says s t" "grows s t"
      using sending.holds_take_acks [of s X d "si_inbox s" acks] growing.holds_take_acks [of s X d "si_inbox s" acks] v
      by (auto elim!: outcome_state_cases)
    then show ?thesis using keeps_take_acks [OF sound(1,2) v] take_acks_state_inbox [OF v] by blast
  next
    case False
    then show ?thesis using r sending.R_refl growing.R_refl sound(1) by simp
  qed
  then show "cluster_sound (set_node i t C)" using cluster_sound_quiet [OF ok s] by blast
  assume step: "task_step X (CollectAcks b d need acks) s = Ok task' t"
  have more: "set a \<subseteq> set acks \<union> {v. DurableAck d v \<in> set (si_inbox s)} \<and> set acks \<subseteq> set a"
    if "take_acks X d (si_inbox s) acks s = Ok a t" for a
    using take_acks_sources [OF that dist] take_acks_keeps [OF that] by blast
  have heldi: "\<forall>v \<in> set acks \<union> {v. DurableAck d v \<in> set (si_inbox s)}. held X (set_node i t C) d v"
    using task sound(3) m held_set_node [OF s] unfolding inbox_sound_def by auto
  have b: "b \<in> proposed (set_node i t C)" "body_digest X b = Some d" "i \<in> set acks"
    using task m proposed_set_node [OF s] by auto
  show "task_sound X (set_node i t C) i task'"
  proof (cases "length acks < need")
    case True
    then obtain a where "take_acks X d (si_inbox s) acks s = Ok a t" "task' = CollectAcks b d need a"
      using step by (auto simp: and_then_iff)
    then show ?thesis using more heldi b by auto
  next
    case False
    then show ?thesis using step heldi b by auto
  qed
qed

lemma cluster_sound_step:
  assumes step: "cluster_step X C C'" and ok: "cluster_sound C" and wired: "cluster_ok X C"
    and orderly: "\<forall>i s t. fmlookup (cl_nodes C) i = Some s \<longrightarrow> fmlookup (cl_nodes C') i = Some t \<longrightarrow> A s t"
  shows "cluster_sound C'"
proof -
  have sound: "I (proposed C) s" "commits (si_inbox s) \<subseteq> proposed C" "inbox_sound X C (si_inbox s)"
    if "fmlookup (cl_nodes C) i = Some s" for i s
    using ok that by (auto simp: cluster_sound_def inbox_sound_def)
  have id: "engine_id s = i" if "fmlookup (cl_nodes C) i = Some s" for i s
    using wired that by (auto simp: cluster_ok_def wired_def)
  show ?thesis
    using step
  proof cases
    case (Deliver i s j r m)
    have j: "I (proposed C) r" "engine_id r = j" using sound(1) id Deliver(3) by auto
    have "says s (deliver [m] s)" "grows s (deliver [m] s)" by (rule sending.holds_deliver growing.holds_deliver)+
    moreover have "I (proposed C) (deliver [m] s)"
      unfolding deliver_def by (rule inbox [OF sound(1) [OF Deliver(2)]])
    moreover have "held X C d v" if "DurableAck d v = m" for d v
    proof -
      have "v = j \<and> (\<exists>b \<in> proposed C. body_digest X b = Some d \<and> body_consumed b r)"
        using truthful [OF j(1)] j(2) that Deliver(5) unfolding told_def by blast
      then show ?thesis using Deliver(3) unfolding held_def by blast
    qed
    moreover have "commits [m] \<subseteq> proposed C"
      using truthful [OF j(1)] Deliver(5) unfolding told_def by (auto simp: commits_def)
    ultimately have "cluster_sound (set_node i (deliver [m] s) C)"
      using sound(3) [OF Deliver(2)] mono [OF _ proposed_set_node [OF Deliver(2)]]
      by (intro cluster_sound_set_node [OF ok Deliver(2)]) (auto simp: inbox_sound_def deliver_def)
    then show ?thesis using Deliver(1) by simp
  next
    case (Pump i s t)
    have "says s t" "grows s t"
      using sending.holds_pump [of s X] growing.holds_pump [of s X] Pump(3) by (auto elim!: outcome_state_cases)
    then show ?thesis
      using cluster_sound_quiet [OF ok Pump(2)] keeps_pump [OF sound(1,2) [OF Pump(2)] Pump(3)]
        pump_inbox [OF Pump(3)] Pump(1) by blast
  next
    case (Activate i s cap t)
    have "says s t" "grows s t"
      using sending.holds_activate [of s X cap] growing.holds_activate [of s X cap] Activate(3) by (auto elim!: outcome_state_cases)
    moreover have "A s t" using orderly Activate(1,2) by (simp add: set_node_def)
    ultimately show ?thesis
      using cluster_sound_quiet [OF ok Activate(2)] activated [OF sound(1) [OF Activate(2)] Activate(3)]
        activate_inbox [OF Activate(3)] Activate(1) by simp
  next
    case (FenceStep i s ep t)
    have "says s t" "grows s t"
      using sending.holds_fence_epoch [of s X "[]" ep] growing.holds_fence_epoch [of s X "[]" ep] FenceStep(3)
      by (auto elim!: outcome_state_cases)
    then show ?thesis
      using cluster_sound_quiet [OF ok FenceStep(2)] keeps_fence_epoch [OF sound(1) [OF FenceStep(2)] FenceStep(3)]
        fence_epoch_inbox [OF FenceStep(3)] FenceStep(1) by simp
  next
    case (Kill i s)
    have "says s (kill s)" "grows s (kill s)" by (simp_all add: says_def grows_def kill_def body_consumed_def)
    moreover have "I (proposed C) (kill s)"
      by (rule killed [OF sound(1) [OF Kill(2)]])
    ultimately show ?thesis using cluster_sound_quiet [OF ok Kill(2)] Kill(1) by (simp add: kill_def)
  next
    case (Begin i s p now task t k)
    then show ?thesis using sound_begin [OF ok] by blast
  next
    case (Step k i task s task' t)
    have task: "task_sound X C i task" using ok Step(2) by (auto simp: cluster_sound_def)
    have "cluster_sound (set_node i t C) \<and> task_sound X (set_node i t C) i task'"
    proof (cases task)
      case (CollectVotes b d need votes)
      then show ?thesis
        using sound_step_votes [OF ok Step(3) id [OF Step(3)]] task Step(4) by (metis outcome_state.simps(1))
    next
      case (CollectAcks b d need acks)
      have "distinct acks" using wired Step(2) CollectAcks by (fastforce simp: cluster_ok_def)
      then show ?thesis
        using sound_step_acks [OF ok Step(3)] task Step(4) CollectAcks by (metis outcome_state.simps(1))
    next
      case (Accepted b d need acks acc)
      then have "t = s" "task' = task" using Step(4) by auto
      then show ?thesis
        using cluster_sound_quiet [OF ok Step(3) sending.R_refl growing.R_refl sound(1) [OF Step(3)]]
          task_sound_set_node [OF Step(3) sending.R_refl growing.R_refl task] by simp
    qed
    then show ?thesis using cluster_sound_set_task Step(1) by blast
  next
    case (Fail k i task s e t)
    have task: "task_sound X C i task" using ok Fail(2) by (auto simp: cluster_sound_def)
    have r: "outcome_state (task_step X task s) = Some t" using Fail(4) by simp
    show ?thesis
    proof (cases task)
      case (CollectVotes b d need votes)
      then show ?thesis using sound_step_votes(1) [OF ok Fail(3) id [OF Fail(3)]] task r Fail(1) by blast
    next
      case (CollectAcks b d need acks)
      have "distinct acks" using wired Fail(2) CollectAcks by (fastforce simp: cluster_ok_def)
      then show ?thesis using sound_step_acks(1) [OF ok Fail(3)] task r CollectAcks Fail(1) by blast
    next
      case (Accepted b d need acks acc)
      then show ?thesis using Fail(4) by simp
    qed
  qed
qed

text \<open>
  An accepted payment was proposed, and a quorum of distinct validators has consumed it when no
  two proposed payments have the same digest.
\<close>

lemma accepted_held:
  assumes "cluster_sound C" and "cluster_ok X C" and "inj_on (body_digest X) (proposed C)"
    and "fmlookup (cl_tasks C) k = Some (i, Accepted b d need acks acc)"
  shows "b \<in> proposed C" and "i \<in> set acks" and "distinct acks"
    and "quorum_threshold (fcard (fmdom (cl_nodes C))) \<le> length acks"
    and "v \<in> set acks \<Longrightarrow> \<exists>s. fmlookup (cl_nodes C) v = Some s \<and> I (proposed C) s \<and> body_consumed b s"
proof -
  have t: "task_sound X C i (Accepted b d need acks acc)" using assms(1,4) unfolding cluster_sound_def by blast
  have u: "task_ok X C (Accepted b d need acks acc)" using assms(2,4) unfolding cluster_ok_def by blast
  show "b \<in> proposed C" "i \<in> set acks" "distinct acks"
    "quorum_threshold (fcard (fmdom (cl_nodes C))) \<le> length acks" using t u by simp_all
  assume "v \<in> set acks"
  then have "held X C d v" using t by simp
  then obtain s b' where s: "fmlookup (cl_nodes C) v = Some s" "b' \<in> proposed C" "body_digest X b' = Some d" "body_consumed b' s"
    by (auto simp: held_def)
  have "b' = b" using inj_onD [OF assms(3)] s(2,3) t by simp
  moreover have "I (proposed C) s" using assms(1) s(1) by (auto simp: cluster_sound_def)
  ultimately show "\<exists>s. fmlookup (cl_nodes C) v = Some s \<and> I (proposed C) s \<and> body_consumed b s" using s by blast
qed

end

end
