(* ===== verification/Cluster_Spending.thy ===== *)
theory Cluster_Spending
  imports Cluster_Invariant
begin

text \<open>
  What a whole shard can accept on one capability. Each validator deducts only what it has itself
  recorded, and an acceptance needs only a quorum of them, so validators that lead payments at the same time
  can together accept more than the capability's maximum; the excess is bounded by the ratio of
  the cluster to its quorum, and a single validator that leads never exceeds the maximum.
  The invariant behind this says which payments a ledger has recorded: proposed ones,
  no key twice, and with what is left never more than the capability grants.
\<close>

section \<open>What a validator has recorded\<close>

text \<open>What the payments of a set take from a capability, and what the validator knows it grants.\<close>

definition body_total :: "capability_id \<Rightarrow> pay_commit_body set \<Rightarrow> nat" where
  "body_total c S = (\<Sum>b \<in> {b \<in> S. pb_capability_id b = c}. amt (pb_amount b))"

definition known_maximum :: "capability_id \<Rightarrow> shard_inner \<Rightarrow> nat" where
  "known_maximum c s = (case fmlookup (si_capabilities s) c of None \<Rightarrow> 0 | Some cap \<Rightarrow> amt (cap_maximum_total cap))"

definition recorded :: "pay_commit_body set \<Rightarrow> shard_inner \<Rightarrow> bool" where
  "recorded S s \<longleftrightarrow> finite S \<and> inj_on body_key S \<and> fset (ss_consumed (si_state s)) = body_key ` S \<and>
     (\<forall>c. body_total c S + left (si_state s) c \<le> known_maximum c s)"

definition node_sound :: "crypto \<Rightarrow> pay_commit_body set \<Rightarrow> shard_inner \<Rightarrow> bool" where
  "node_sound X B s \<longleftrightarrow> told X B s \<and> (\<exists>S \<subseteq> B. recorded S s)"

lemma node_sound_recorded:
  assumes "node_sound X B s"
  obtains S where "S \<subseteq> B" and "recorded S s"
  using assms unfolding node_sound_def by blast
lemma node_sound_mono: "node_sound X B s \<Longrightarrow> B \<subseteq> B' \<Longrightarrow> node_sound X B' s"
  unfolding node_sound_def by (meson told_mono order_trans)

lemma recorded_cong:
  "si_state t = si_state s \<Longrightarrow> si_capabilities t = si_capabilities s \<Longrightarrow> recorded S t = recorded S s"
  by (simp add: recorded_def known_maximum_def)

lemma node_sound_cong:
  assumes "node_sound X B s" and "si_state t = si_state s" and "si_capabilities t = si_capabilities s"
    and "si_sent t = si_sent s" and "si_cfg t = si_cfg s"
  shows "node_sound X B t"
  using assms told_cong [OF _ assms(2,4,5)] recorded_cong [OF assms(2,3)] by (simp add: node_sound_def)

lemma body_total_insert:
  assumes "finite S" and "b \<notin> S"
  shows "body_total c (insert b S) = body_total c S + (if c = pb_capability_id b then amt (pb_amount b) else 0)"
proof -
  have "{x \<in> insert b S. pb_capability_id x = c} =
      (if c = pb_capability_id b then insert b {x \<in> S. pb_capability_id x = c} else {x \<in> S. pb_capability_id x = c})"
    by auto
  then show ?thesis using assms by (simp add: body_total_def)
qed

lemma recorded_commit:
  assumes "recorded S s" and "body_consumable b (si_state s)"
    and "si_state t = consumed_state b (si_state s)" and "si_capabilities t = si_capabilities s"
  shows "recorded (insert b S) t"
proof -
  have c: "consumable (si_state s) (pb_capability_id b) (pb_epoch b) (pb_sequence b) (pb_amount b)"
    using assms(2) by (simp add: body_consumable_def)
  then have new: "body_key b \<notin> body_key ` S"
    using assms(1) by (auto simp: recorded_def consumable_def is_consumed_def body_key_def)
  then have "b \<notin> S" by blast
  have "body_total k (insert b S) + left (si_state t) k \<le> known_maximum k t" for k
  proof -
    have "body_total k (insert b S) + left (si_state t) k = body_total k S + left (si_state s) k"
      using assms(1) \<open>b \<notin> S\<close> left_after [OF c, of k] by (auto simp: recorded_def body_total_insert assms(3) consumed_state_def)
    then show ?thesis using assms(1,4) by (simp add: recorded_def known_maximum_def)
  qed
  moreover have "inj_on body_key (insert b S)" using assms(1) new by (auto simp: recorded_def)
  ultimately show ?thesis
    using assms(1) by (simp add: recorded_def assms(3) consumed_state_def body_key_def [of b])
qed

lemma recorded_fence:
  assumes "recorded S s" and "fence_once X ep s = Ok u t"
  shows "recorded S t"
  using assms by (auto simp: fence_once_Ok recorded_def known_maximum_def fence_epoch_def left_def
      dest: append_record_frame split: if_splits)

text \<open>Which set was recorded may change with a step that records.\<close>

lemma recorded_sourced: "sourced_invariant X (\<lambda>B s. \<exists>S \<subseteq> B. recorded S s)"
proof unfold_locales
  have keep: "\<exists>S \<subseteq> B. recorded S t"
    if "\<exists>S \<subseteq> B. recorded S s" "si_state t = si_state s" "si_capabilities t = si_capabilities s" for B s t
    using that recorded_cong [OF that(2,3)] by blast
  show "\<exists>S \<subseteq> B. recorded S (s\<lparr> si_inbox := ms \<rparr>)" if "\<exists>S \<subseteq> B. recorded S s" for B s ms
    by (rule keep [OF that]) simp_all
  show "\<exists>S \<subseteq> B. recorded S (broadcast m s)" if "\<exists>S \<subseteq> B. recorded S s" for B s m
    by (rule keep [OF that]) (simp_all add: broadcast_def)
  show "\<exists>S \<subseteq> B. recorded S (broadcast (DurableAck d (engine_id s)) s)" if "\<exists>S \<subseteq> B. recorded S s" for B s d
    by (rule keep [OF that]) (simp_all add: broadcast_def)
  show "\<exists>S \<subseteq> B. recorded S t" if a: "\<exists>S \<subseteq> B. recorded S s" "b \<in> B" "outcome_state (commit_once X b s) = Some t" for B s b t
    using a(3)
  proof (rule outcome_state_cases)
    fix e assume "commit_once X b s = Err e t"
    then obtain io w where "t = s\<lparr> si_io := io, si_wal := w \<rparr>"
      by (auto simp: commit_once_def dest!: durable_commit_Err split: if_splits)
    then show ?thesis by (intro keep [OF a(1)]) simp_all
  next
    fix u assume c: "commit_once X b s = Ok u t"
    show ?thesis
    proof (cases "body_consumed b s")
      case True
      then show ?thesis using c a(1) by (simp add: commit_once_def)
    next
      case False
      then obtain m where m: "append_record X (pay_record b) s = Ok () m" "body_consumable b (si_state s)"
        "t = m\<lparr> si_state := consumed_state b (si_state s) \<rparr>"
        using c by (auto simp: commit_once_def durable_commit_Ok)
      obtain S where "S \<subseteq> B" "recorded S s" using a(1) by blast
      then have "insert b S \<subseteq> B" "recorded (insert b S) t"
        using recorded_commit [of S s b t] a(2) m append_record_frame [OF m(1)] by simp_all
      then show ?thesis by blast
    qed
  qed
  show "\<exists>S \<subseteq> B. recorded S t" if a: "\<exists>S \<subseteq> B. recorded S s" "outcome_state (fence_once X ep s) = Some t" for B s ep t
    using a(2)
  proof (rule outcome_state_cases)
    fix e assume "fence_once X ep s = Err e t"
    then obtain io w where "t = s\<lparr> si_io := io, si_wal := w \<rparr>" by (auto dest!: fence_once_Err)
    then show ?thesis by (intro keep [OF a(1)]) simp_all
  qed (use a(1) recorded_fence in blast)
qed

interpretation sourced: sourced_invariant X "node_sound X" for X
  unfolding node_sound_def by (rule sourced_invariant_conj [OF told_sourced recorded_sourced])

text \<open>
  Activation. A validator that activates a capability it knows sets what is left to the maximum
  again; \<open>no_regrant\<close> rules that out where something was spent.
\<close>

definition no_regrant :: "shard_inner \<Rightarrow> shard_inner \<Rightarrow> bool" where
  "no_regrant s t \<longleftrightarrow> (\<forall>c cap. fmlookup (si_capabilities s) c = Some cap \<longrightarrow>
     fmlookup (si_capabilities t) c = Some cap \<and> left (si_state t) c \<le> left (si_state s) c)"

lemma recorded_activate:
  assumes S: "recorded S s" and act: "engine_activate X cap s = Ok u t" and orderly: "no_regrant s t"
  shows "recorded S t"
proof -
  let ?c = "cap_capability_id cap"
  obtain m where m: "append_record X (activation_record cap) s = Ok () m"
    and t: "t = m\<lparr> si_state := activated_state cap (si_state s), si_capabilities := fmupd ?c cap (si_capabilities s) \<rparr>"
    using act by (auto simp: engine_activate_Ok)
  have cap: "known_maximum c t = (if c = ?c then amt (cap_maximum_total cap) else known_maximum c s)"
    and left: "left (si_state t) c = (if c = ?c then amt (cap_maximum_total cap) else left (si_state s) c)" for c
    by (simp_all add: t known_maximum_def activated_state_def)
  have old: "body_total ?c S + left (si_state s) ?c \<le> known_maximum ?c s" using S unfolding recorded_def by blast
  have "body_total ?c S + left (si_state t) ?c \<le> known_maximum ?c t"
  proof (cases "fmlookup (si_capabilities s) ?c")
    case None
    then have "body_total ?c S = 0" using old by (simp add: known_maximum_def)
    then show ?thesis by (simp add: cap left)
  next
    case (Some cap')
    then have "left (si_state t) ?c \<le> left (si_state s) ?c" "known_maximum ?c t = known_maximum ?c s"
      using orderly by (auto simp: no_regrant_def known_maximum_def)
    then show ?thesis using old by linarith
  qed
  then have "body_total c S + left (si_state t) c \<le> known_maximum c t" for c
    using S by (simp add: recorded_def cap left)
  moreover have "ss_consumed (si_state t) = ss_consumed (si_state s)"
    by (simp add: t activated_state_def activate_capability_def)
  ultimately show ?thesis using S by (simp add: recorded_def)
qed

lemma node_sound_activate:
  assumes "node_sound X B s" and "outcome_state (engine_activate X cap s) = Some t" and "no_regrant s t"
  shows "node_sound X B t"
proof -
  have told: "told X B t" using assms(1) told_activate [OF _ assms(2)] by (simp add: node_sound_def)
  obtain S where S: "S \<subseteq> B" "recorded S s" using assms(1) by (rule node_sound_recorded)
  consider e where "engine_activate X cap s = Err e t" | u where "engine_activate X cap s = Ok u t"
    using assms(2) by (rule outcome_state_cases)
  then have "recorded S t"
  proof cases
    case 1
    then obtain io w where "t = s\<lparr> si_io := io, si_wal := w \<rparr>" by (auto dest!: engine_activate_Err)
    then show ?thesis using recorded_cong [of t s S] S(2) by simp
  qed (use recorded_activate [OF S(2) _ assms(3)] in blast)
  then show ?thesis using told S(1) unfolding node_sound_def by blast
qed

interpretation spending: cluster_invariant X "node_sound X" no_regrant for X
proof unfold_locales
  show "node_sound X B' s" if "node_sound X B s" "B \<subseteq> B'" for X B B' s by (rule node_sound_mono [OF that])
  show "told X B s" if "node_sound X B s" for X B s using that by (simp add: node_sound_def)
  show "node_sound X B (kill s)" if "node_sound X B s" for X B s
    by (rule node_sound_cong [OF that]) (simp_all add: kill_def)
  show "node_sound X B t" if "node_sound X B s" "outcome_state (engine_activate X cap s) = Some t" "no_regrant s t"
    for X B s cap t by (rule node_sound_activate [OF that])
qed

section \<open>Runs without renewed grants\<close>

text \<open>
  The cluster starts with validators that have consumed nothing and hold no more than the
  capabilities they know grant; no step grants a validator a capability a second time.
\<close>

definition fresh_node_state :: "shard_inner \<Rightarrow> bool" where
  "fresh_node_state s \<longleftrightarrow> ss_consumed (si_state s) = {||} \<and> (\<forall>c. left (si_state s) c \<le> known_maximum c s)"

inductive orderly_reachable :: "crypto \<Rightarrow> shard_cluster \<Rightarrow> bool" for X where
  start: "cluster_start C \<Longrightarrow> (\<forall>i s. fmlookup (cl_nodes C) i = Some s \<longrightarrow> fresh_node_state s) \<Longrightarrow> orderly_reachable X C"
| step: "orderly_reachable X C \<Longrightarrow> cluster_step X C C' \<Longrightarrow>
     (\<forall>i s t. fmlookup (cl_nodes C) i = Some s \<longrightarrow> fmlookup (cl_nodes C') i = Some t \<longrightarrow> no_regrant s t) \<Longrightarrow>
     orderly_reachable X C'"

lemma orderly_is_reachable: "orderly_reachable X C \<Longrightarrow> cluster_reachable X C"
  by (induction rule: orderly_reachable.induct) (auto intro: cluster_reachable.intros)

lemma orderly_sound: "orderly_reachable X C \<Longrightarrow> spending.cluster_sound X C"
proof (induction rule: orderly_reachable.induct)
  case (start C)
  have "node_sound X (proposed C) s" if "fmlookup (cl_nodes C) i = Some s" for i s
  proof -
    have "recorded {} s" using start(2) that by (auto simp: recorded_def fresh_node_state_def body_total_def)
    moreover have "told X (proposed C) s" using start(1) that by (auto simp: told_def cluster_start_def)
    ultimately show ?thesis by (auto simp: node_sound_def)
  qed
  then show ?case by (rule spending.cluster_sound_start [OF start(1)])
next
  case (step C C')
  show ?case
    by (rule spending.cluster_sound_step
        [OF step.hyps(2) step.IH cluster_reachable_ok [OF orderly_is_reachable [OF step.hyps(1)]] step.hyps(3)])
qed

section \<open>Counting acceptances\<close>

definition accepted_by :: "shard_cluster \<Rightarrow> capability_id \<Rightarrow> u8 \<Rightarrow> pay_commit_body set" where
  "accepted_by C c i = {b. pb_capability_id b = c \<and>
     (\<exists>k d need acks acc. fmlookup (cl_tasks C) k = Some (i, Accepted b d need acks acc))}"

definition accepted :: "shard_cluster \<Rightarrow> capability_id \<Rightarrow> pay_commit_body set" where
  "accepted C c = (\<Union>i. accepted_by C c i)"

fun task_body :: "pay_task \<Rightarrow> pay_commit_body" where
  "task_body (CollectVotes b d need votes) = b"
| "task_body (CollectAcks b d need acks) = b"
| "task_body (Accepted b d need acks acc) = b"

lemma finite_accepted: "finite (accepted C c)"
proof (rule finite_subset)
  show "accepted C c \<subseteq> (task_body \<circ> snd) ` fset (fmran (cl_tasks C))"
  proof
    fix b assume "b \<in> accepted C c"
    then obtain i k d need acks acc where "fmlookup (cl_tasks C) k = Some (i, Accepted b d need acks acc)"
      by (auto simp: accepted_def accepted_by_def)
    then have "(i, Accepted b d need acks acc) \<in> fset (fmran (cl_tasks C))" by (rule fmranI)
    then show "b \<in> (task_body \<circ> snd) ` fset (fmran (cl_tasks C))" by (rule rev_image_eqI) simp
  qed
qed simp

text \<open>Each of many payments is with at least \<open>q\<close> of the validators, each of which holds at most \<open>M\<close>.\<close>

lemma quorum_counting:
  fixes f :: "'b \<Rightarrow> nat"
  assumes "finite A" and "finite N" and "\<And>b. b \<in> A \<Longrightarrow> q \<le> card {v \<in> N. P v b}"
    and "\<And>v. v \<in> N \<Longrightarrow> (\<Sum>b \<in> {b \<in> A. P v b}. f b) \<le> M"
  shows "q * (\<Sum>b \<in> A. f b) \<le> card N * M"
proof -
  have "q * (\<Sum>b \<in> A. f b) = (\<Sum>b \<in> A. q * f b)" by (rule sum_distrib_left)
  also have "\<dots> \<le> (\<Sum>b \<in> A. card {v \<in> N. P v b} * f b)" by (intro sum_mono mult_right_mono assms(3)) simp_all
  also have "\<dots> = (\<Sum>b \<in> A. \<Sum>v \<in> {v \<in> N. P v b}. f b)" by simp
  also have "\<dots> = (\<Sum>v \<in> N. \<Sum>b \<in> {b \<in> A. P v b}. f b)" by (rule sum.swap_restrict [OF assms(1,2)])
  also have "\<dots> \<le> (\<Sum>v \<in> N. M)" by (intro sum_mono assms(4))
  finally show ?thesis by simp
qed

text \<open>The proposed payments a validator has consumed are those it recorded.\<close>

lemma consumed_within_maximum:
  assumes "node_sound X B s" and "inj_on body_key B" and "A \<subseteq> B" and "\<forall>b \<in> A. body_consumed b s \<and> pb_capability_id b = c"
  shows "(\<Sum>b \<in> A. amt (pb_amount b)) \<le> known_maximum c s"
proof -
  obtain S where S: "S \<subseteq> B" "recorded S s" using assms(1) by (rule node_sound_recorded)
  have "b \<in> S" if "b \<in> A" for b
  proof -
    have "body_key b \<in> body_key ` S" using assms(4) that S(2) by (auto simp: consumed_key recorded_def)
    then show ?thesis using that assms(2,3) S(1) by (auto simp: inj_on_def)
  qed
  then have "A \<subseteq> {b \<in> S. pb_capability_id b = c}" using assms(4) by blast
  then have "(\<Sum>b \<in> A. amt (pb_amount b)) \<le> body_total c S"
    unfolding body_total_def using S(2) by (intro sum_mono2) (auto simp: recorded_def)
  also have "\<dots> \<le> known_maximum c s" using S(2) by (auto simp: recorded_def dest: add_leD1)
  finally show ?thesis .
qed

lemma accepted_consumed:
  assumes "orderly_reachable X C" and "inj_on (body_digest X) (proposed C)" and "b \<in> accepted_by C c i"
  obtains acks where "b \<in> proposed C" and "pb_capability_id b = c" and "i \<in> set acks" and "distinct acks"
    and "quorum_threshold (fcard (fmdom (cl_nodes C))) \<le> length acks"
    and "\<forall>v \<in> set acks. \<exists>s. fmlookup (cl_nodes C) v = Some s \<and> body_consumed b s"
proof -
  obtain k d need acks acc where k: "fmlookup (cl_tasks C) k = Some (i, Accepted b d need acks acc)"
    and c: "pb_capability_id b = c"
    using assms(3) by (auto simp: accepted_by_def)
  note a = spending.accepted_held
    [OF orderly_sound [OF assms(1)] cluster_reachable_ok [OF orderly_is_reachable [OF assms(1)]] assms(2) k]
  show ?thesis by (rule that [OF a(1) c a(2-4)]) (use a(5) in blast)
qed

lemma spending_bounded:
  assumes "orderly_reachable X C" and inj: "inj_on (body_digest X) (proposed C)" "inj_on body_key (proposed C)"
    and M: "\<And>v s. fmlookup (cl_nodes C) v = Some s \<Longrightarrow> known_maximum c s \<le> M"
  shows "quorum_threshold (fcard (fmdom (cl_nodes C))) * (\<Sum>b \<in> accepted C c. amt (pb_amount b)) \<le> fcard (fmdom (cl_nodes C)) * M"
    and "(\<Sum>b \<in> accepted_by C c i. amt (pb_amount b)) \<le> M"
proof -
  let ?N = "fset (fmdom (cl_nodes C))" and ?q = "quorum_threshold (fcard (fmdom (cl_nodes C)))"
  let ?P = "\<lambda>v b. \<exists>s. fmlookup (cl_nodes C) v = Some s \<and> body_consumed b s"
  have within: "(\<Sum>b \<in> A. amt (pb_amount b)) \<le> M"
    if v: "v \<in> ?N" "A \<subseteq> accepted C c" "\<forall>b \<in> A. ?P v b" for A v
  proof -
    obtain s where s: "fmlookup (cl_nodes C) v = Some s" using v(1) by (auto simp: fmlookup_dom_iff)
    have "b \<in> proposed C \<and> pb_capability_id b = c" if "b \<in> accepted C c" for b
      using that by (auto simp: accepted_def elim: accepted_consumed [OF assms(1) inj(1)])
    then have A: "A \<subseteq> proposed C" "\<forall>b \<in> A. body_consumed b s \<and> pb_capability_id b = c" using v(2,3) s by auto
    have "node_sound X (proposed C) s" using orderly_sound [OF assms(1)] s by (auto simp: spending.cluster_sound_def)
    then show ?thesis using consumed_within_maximum [OF _ inj(2) A] M [OF s] le_trans by blast
  qed
  have "?q \<le> card {v \<in> ?N. ?P v b}" if b: "b \<in> accepted C c" for b
  proof -
    obtain i where "b \<in> accepted_by C c i" using b by (auto simp: accepted_def)
    then obtain acks where a: "distinct acks" "?q \<le> length acks" "\<forall>v \<in> set acks. ?P v b"
      by (rule accepted_consumed [OF assms(1) inj(1)])
    then have "set acks \<subseteq> {v \<in> ?N. ?P v b}" by (auto dest: fmdomI)
    then have "card (set acks) \<le> card {v \<in> ?N. ?P v b}" by (intro card_mono) simp_all
    then show ?thesis using a distinct_card [OF a(1)] by simp
  qed
  then show "?q * (\<Sum>b \<in> accepted C c. amt (pb_amount b)) \<le> fcard (fmdom (cl_nodes C)) * M"
    using quorum_counting [OF finite_accepted, of ?N C c ?q ?P "\<lambda>b. amt (pb_amount b)" M] within
    by (simp add: fcard.rep_eq)
  have own: "i \<in> ?N \<and> ?P i b" if "b \<in> accepted_by C c i" for b
    using that by (auto elim!: accepted_consumed [OF assms(1) inj(1)] dest: fmdomI)
  show "(\<Sum>b \<in> accepted_by C c i. amt (pb_amount b)) \<le> M"
  proof (cases "accepted_by C c i = {}")
    case False
    then show ?thesis using within [of i "accepted_by C c i"] own by (auto simp: accepted_def)
  qed simp
qed

end
