(* ===== verification/Durability.thy ===== *)
theory Durability
  imports Cluster_Invariant Shard_Theorems
begin

text \<open>
  What is on disk when a payment is accepted: every payment key a validator has consumed since some
  point in time has the record of a payment with this key in the log behind that point. For one
  validator this says what an edge acceptance has left in its log, for a shard's cluster that a
  quorum has the accepted payment in its logs.
\<close>

section \<open>Records in the log\<close>

text \<open>The frame of the payment's \<open>ConsumePay\<close> record is in the file behind its old content \<open>w\<close>.\<close>

definition logged_after :: "bytes \<Rightarrow> crypto \<Rightarrow> pay_commit_body \<Rightarrow> shard_inner \<Rightarrow> bool" where
  "logged_after w X b s \<longleftrightarrow> (\<exists>u fr v. wal_frame X (pay_record b) = Inr fr \<and> si_wal s = w @ u @ fr @ v)"

definition extends :: "shard_inner \<Rightarrow> shard_inner \<Rightarrow> bool" where
  "extends s t \<longleftrightarrow> (\<exists>v. si_wal t = si_wal s @ v)"

lemma extends_same: "si_wal t = si_wal s \<Longrightarrow> extends s t"
  by (simp add: extends_def)

lemma logged_extends: "logged_after w X b s \<Longrightarrow> extends s t \<Longrightarrow> logged_after w X b t"
  unfolding logged_after_def extends_def by (metis append.assoc)

lemma wal_append_extends: "wal_append X io r f = Ok u g \<or> wal_append X io r f = Err e g \<Longrightarrow> \<exists>v. g = f @ v"
  by (auto simp: wal_append_def split: sum.splits option.splits)

lemma append_record_extends: "outcome_state (append_record X r s) = Some t \<Longrightarrow> extends s t"
  using wal_append_extends [of X _ r "si_wal s"]
  by (auto simp: append_record_def extends_def Let_def split: outcome.splits) fastforce+

lemma durable_commit_extends: "outcome_state (durable_commit X b s) = Some t \<Longrightarrow> extends s t"
proof -
  assume "outcome_state (durable_commit X b s) = Some t"
  then consider e where "append_record X (pay_record b) s = Err e t"
    | m where "append_record X (pay_record b) s = Ok () m" "outcome_state (consume_body b m) = Some t"
    by (auto simp: durable_commit_def and_then_state)
  then show ?thesis
  proof cases
    case 1
    then show ?thesis using append_record_extends [of X "pay_record b" s t] by simp
  next
    case 2
    have "si_wal t = si_wal m" using 2(2) by (auto simp: consume_body_def split: outcome.splits)
    then show ?thesis using append_record_extends [of X "pay_record b" s m] 2(1) by (simp add: extends_def)
  qed
qed

lemma commit_once_extends: "outcome_state (commit_once X b s) = Some t \<Longrightarrow> extends s t"
  using durable_commit_extends by (auto simp: commit_once_def extends_same split: if_splits)

lemma fence_once_extends: "outcome_state (fence_once X ep s) = Some t \<Longrightarrow> extends s t"
proof -
  assume "outcome_state (fence_once X ep s) = Some t"
  then consider "t = s" | e where "append_record X (FenceEpoch ep) s = Err e t"
    | m where "append_record X (FenceEpoch ep) s = Ok () m" "si_wal t = si_wal m"
    by (auto simp: fence_once_def and_then_state split: if_splits)
  then show ?thesis
    by cases (use append_record_extends [of X "FenceEpoch ep" s] in \<open>auto simp: extends_def\<close>)
qed

lemma activate_extends: "outcome_state (engine_activate X cap s) = Some t \<Longrightarrow> extends s t"
proof -
  assume "outcome_state (engine_activate X cap s) = Some t"
  then consider "t = s" | e where "append_record X (activation_record cap) s = Err e t"
    | m where "append_record X (activation_record cap) s = Ok () m" "si_wal t = si_wal m"
    by (auto simp: engine_activate_def activation_record_def and_then_state or_err_def split: if_splits sum.splits)
  then show ?thesis
    by cases (use append_record_extends [of X "activation_record cap" s] in \<open>auto simp: extends_def\<close>)
qed

interpretation appending: engine_contract X extends extends for X
proof unfold_locales
  show "extends s u" if "extends s t" "extends t u" for s t u using that by (auto simp: extends_def)
qed (auto simp: extends_same broadcast_def dest!: arg_cong [where f = outcome_state]
    intro: commit_once_extends fence_once_extends activate_extends)

section \<open>Consumed keys are in the log\<close>

text \<open>Every key that is not among the old ones \<open>K\<close> was consumed by a logged payment of the set.\<close>

definition booked :: "consume_key set \<Rightarrow> bytes \<Rightarrow> crypto \<Rightarrow> pay_commit_body set \<Rightarrow> shard_inner \<Rightarrow> bool" where
  "booked K w X B s \<longleftrightarrow> (\<exists>v. si_wal s = w @ v) \<and>
     (\<forall>k. k |\<in>| ss_consumed (si_state s) \<longrightarrow> k \<in> K \<or> (\<exists>b \<in> B. body_key b = k \<and> logged_after w X b s))"

lemma booked_keeps:
  assumes "booked K w X B s" and "extends s t" and "ss_consumed (si_state t) = ss_consumed (si_state s)"
  shows "booked K w X B t"
proof -
  have "\<exists>v. si_wal t = w @ v" using assms(1,2) by (auto simp: booked_def extends_def)
  moreover have "k \<in> K \<or> (\<exists>b \<in> B. body_key b = k \<and> logged_after w X b t)" if "k |\<in>| ss_consumed (si_state s)" for k
    using assms(1) that logged_extends [OF _ assms(2)] unfolding booked_def by blast
  ultimately show ?thesis unfolding booked_def assms(3) by blast
qed

lemma booked_mono: "booked K w X B s \<Longrightarrow> B \<subseteq> B' \<Longrightarrow> booked K w X B' s"
  unfolding booked_def by blast

lemma booked_commit:
  assumes "booked K w X B s" and "b \<in> B" and "durable_commit X b s = Ok u t"
  shows "booked K w X B t" and "logged_after w X b t"
proof -
  obtain m where m: "append_record X (pay_record b) s = Ok () m" "t = m\<lparr> si_state := consumed_state b (si_state s) \<rparr>"
    using assms(3) by (auto simp: durable_commit_Ok)
  obtain v fr where "wal_frame X (pay_record b) = Inr fr" "si_wal t = w @ v @ fr @ []"
    using m assms(1) by (auto simp: append_record_Ok booked_def)
  then show log: "logged_after w X b t" unfolding logged_after_def by blast
  have ext: "extends s t" using durable_commit_extends [of X b s t] assms(3) by simp
  then have "\<exists>v. si_wal t = w @ v" using assms(1) by (auto simp: booked_def extends_def)
  moreover have "k \<in> K \<or> (\<exists>b \<in> B. body_key b = k \<and> logged_after w X b t)" if k: "k |\<in>| ss_consumed (si_state t)" for k
  proof (cases "k = body_key b")
    case True
    then show ?thesis using log assms(2) by blast
  next
    case False
    then have "k |\<in>| ss_consumed (si_state s)" using k by (simp add: m(2) consumed_state_def body_key_def)
    then show ?thesis using assms(1) logged_extends [OF _ ext] unfolding booked_def by blast
  qed
  ultimately show "booked K w X B t" unfolding booked_def by blast
qed

lemma booked_sourced: "sourced_invariant X (booked K w X)"
proof unfold_locales
  show "booked K w X B t" if "booked K w X B s" "b \<in> B" "outcome_state (commit_once X b s) = Some t" for B s b t
    using that(3)
  proof (rule outcome_state_cases)
    fix e assume e: "commit_once X b s = Err e t"
    then have "ss_consumed (si_state t) = ss_consumed (si_state s)"
      by (auto simp: commit_once_def dest!: durable_commit_Err split: if_splits)
    then show ?thesis using booked_keeps [OF that(1) commit_once_extends [OF that(3)]] by blast
  next
    fix u assume "commit_once X b s = Ok u t"
    then show ?thesis using that(1) booked_commit [OF that(1,2), of u t] by (auto simp: commit_once_def split: if_splits)
  qed
  show "booked K w X B t" if "booked K w X B s" "outcome_state (fence_once X ep s) = Some t" for B s ep t
  proof (rule booked_keeps [OF that(1) fence_once_extends [OF that(2)]])
    show "ss_consumed (si_state t) = ss_consumed (si_state s)"
      using that(2) by (rule outcome_state_cases)
        (auto simp: fence_once_Ok fence_epoch_def dest: append_record_frame dest!: fence_once_Err split: if_splits)
  qed
qed (auto intro: booked_keeps simp: broadcast_def extends_same)

lemma booked_activate:
  assumes "booked K w X B s" and "outcome_state (engine_activate X cap s) = Some t"
  shows "booked K w X B t"
proof (rule booked_keeps [OF assms(1) activate_extends [OF assms(2)]])
  show "ss_consumed (si_state t) = ss_consumed (si_state s)"
    using assms(2) by (rule outcome_state_cases)
      (auto simp: engine_activate_Ok activated_state_def activate_capability_def dest!: engine_activate_Err)
qed


section \<open>One validator\<close>

text \<open>Keys consumed while a payment is handled come from it or from commits that arrive meanwhile.\<close>

lemma handle_pay_logged:
  assumes "handle_pay X vr ar p now s = Ok acc t"
  shows "\<exists>b \<in> insert (pay_body_of X p) (commits (si_inbox s @ concat vr)).
    body_key b = body_key (pay_body_of X p) \<and> logged_after (si_wal s) X b t"
proof -
  let ?b = "pay_body_of X p" and ?w = "si_wal s" and ?K = "fset (ss_consumed (si_state s))"
  let ?B = "insert ?b (commits (si_inbox s @ concat vr))"
  obtain d s1 votes s2 s3 acks where p1: "pay_propose X p now s = Ok (?b, d) s1"
    and vw: "vote_wait X d (need_of s1) vr (fmupd (engine_id s1) (sign_digest X (vc_key (si_cfg s1)) d) fmempty) s1
      = Ok votes s2"
    and pc: "pay_commit X ?b d votes s2 = Ok () s3"
    and aw: "ack_wait X d (need_of s1) ar [engine_id s3] s3 = Ok acks t"
    using assms by (auto simp: handle_pay_def Let_def and_then_iff pay_propose_Ok split: prod.splits)
  note keeps_propose = sourced_invariant.keeps_pay_propose [OF booked_sourced]
    and keeps_votes = sourced_invariant.keeps_vote_wait [OF booked_sourced]
    and keeps_say = sourced_invariant.say [OF booked_sourced]
  have "booked ?K ?w X ?B s" by (simp add: booked_def)
  then have s1: "booked ?K ?w X ?B s1" using keeps_propose [of ?K ?w X ?B s p now s1] p1 by simp
  have "si_inbox s1 = si_inbox s" using p1 by (auto simp: pay_propose_Ok)
  then have "commits (si_inbox s1 @ concat vr) \<subseteq> ?B" by (simp add: subset_insertI)
  from keeps_votes [OF s1 this arg_cong [OF vw, of outcome_state, unfolded outcome_state.simps]]
  have "booked ?K ?w X ?B s2" .
  then have s2: "booked ?K ?w X ?B (broadcast (Commit ?b (vote_list votes)) s2)" by (intro keeps_say) simp_all
  have new: "body_key ?b \<notin> ?K"
    using p1 consumed_not_valid [of X p s now] by (auto simp: pay_propose_Ok consumed_key)
  obtain m where m: "commit_once X ?b (broadcast (Commit ?b (vote_list votes)) s2) = Ok () m" and s3: "si_wal s3 = si_wal m"
    using pc by (auto simp: pay_commit_def and_then_iff broadcast_def)
  have "\<exists>b \<in> ?B. body_key b = body_key ?b \<and> logged_after ?w X b m"
  proof (cases "body_consumed ?b (broadcast (Commit ?b (vote_list votes)) s2)")
    case True
    then have "m = broadcast (Commit ?b (vote_list votes)) s2" using m by (simp add: commit_once_def)
    then show ?thesis using True s2 new unfolding booked_def consumed_key by blast
  next
    case False
    then show ?thesis using m booked_commit(2) [OF s2] by (auto simp: commit_once_def)
  qed
  moreover have "extends m t"
    using appending.holds_ack_wait [of s3 X d "need_of s1" ar "[engine_id s3]"] aw s3 by (simp add: extends_def)
  ultimately show ?thesis using logged_extends by blast
qed


text \<open>C17: An edge acceptance is only returned for a payment that validated, whose key is consumed in the
  validator's ledger and newly in its log: the log has grown by the payment's record, or, when a
  commit for the same key arrived meanwhile, by that one's. It is returned with valid votes of a
  quorum of distinct voters and durable acknowledgements from a quorum of distinct validators; it
  names the payment's transaction id and carries the validator's signature over the digest and
  the commit index.\<close>

theorem edge_acceptance_backed:
  assumes "crypto_ok X" and "handle_pay X vr ar p now s = Ok acc t"
  shows "(\<exists>cap. authorised X s p now cap) \<and> body_consumed (pay_body_of X p) t \<and>
    (\<exists>b \<in> insert (pay_body_of X p) (commits (si_inbox s @ concat vr)).
       body_key b = body_key (pay_body_of X p) \<and> logged_after (si_wal s) X b t) \<and>
    ed_tx_id acc = tx_id X p \<and> ed_commit_index acc = ss_commit_index (si_state t) \<and>
    (\<exists>d votes acks. accepted_with X (si_inbox s @ concat vr @ concat ar) (pay_body_of X p) s d votes acks \<and>
       ed_edge_signature acc = sign_edge_accept X (vc_key (si_cfg s)) d (ed_commit_index acc))"
  using handle_pay_Ok [OF assms] handle_pay_logged [OF assms(2)] validate_pay_Inr [of X s p now] by blast

lemma edge_acceptance_backed_witness:
  "\<exists>t. body_consumed sample_body t \<and> logged_after (si_wal sample_engine) sample_crypto sample_body t"
proof -
  obtain acc t where "handle_pay sample_crypto [] [] (sample_pay 3 20 0) 5 sample_engine = Ok acc t"
    using sample_handle_pay [of 20 3 0] by auto
  from edge_acceptance_backed [OF sample_crypto_ok this] show ?thesis by (auto simp: sample_engine_fields)
qed

section \<open>The cluster\<close>

text \<open>What was said is true, and what was consumed is in the log.\<close>

definition node_books :: "crypto \<Rightarrow> pay_commit_body set \<Rightarrow> shard_inner \<Rightarrow> bool" where
  "node_books X B s \<longleftrightarrow> told X B s \<and> booked {} [] X B s"

interpretation books: sourced_invariant X "node_books X" for X
  unfolding node_books_def by (rule sourced_invariant_conj [OF told_sourced booked_sourced])

interpretation booking: cluster_invariant X "node_books X" "\<lambda>_ _. True" for X
proof unfold_locales
  show "node_books X B' s" if "node_books X B s" "B \<subseteq> B'" for X B B' s
    using that told_mono booked_mono unfolding node_books_def by metis
  show "told X B s" if "node_books X B s" for X B s using that by (simp add: node_books_def)
  show "node_books X B (kill s)" if "node_books X B s" for X B s
    using that told_cong [of X B s "kill s"] booked_keeps [of "{}" "[]" X B s "kill s"]
    by (simp add: node_books_def kill_def extends_same)
  show "node_books X B t" if "node_books X B s" "outcome_state (engine_activate X cap s) = Some t" for X B s cap t
    using that told_activate booked_activate unfolding node_books_def by blast
qed

lemma run_reachable:
  assumes "(cluster_step X)\<^sup>*\<^sup>* C0 C" and "cluster_start C0"
  shows "cluster_reachable X C"
  using assms by (induction rule: rtranclp_induct) (auto intro: cluster_reachable.intros)

lemma run_books:
  assumes "(cluster_step X)\<^sup>*\<^sup>* C0 C" and "cluster_start C0"
    and "\<forall>i s. fmlookup (cl_nodes C0) i = Some s \<longrightarrow> ss_consumed (si_state s) = {||}"
  shows "booking.cluster_sound X C"
  using assms(1)
proof (induction rule: rtranclp_induct)
  case base
  have "node_books X (proposed C0) s" if "fmlookup (cl_nodes C0) i = Some s" for i s
    using assms(2,3) that by (auto simp: node_books_def told_def booked_def cluster_start_def)
  then show ?case by (rule booking.cluster_sound_start [OF assms(2)])
next
  case (step C C')
  show ?case
    by (rule booking.cluster_sound_step [OF step.hyps(2) step.IH cluster_reachable_ok [OF run_reachable [OF step.hyps(1) assms(2)]]]) simp
qed

text \<open>C3: Let a shard's cluster start with validators that have consumed nothing, the agents sign no
  sequence number twice and the proposed payments have different digests. Then in every state the
  cluster reaches, whatever the interleaving of messages, pumps, kills, fences and concurrent
  payments, an edge acceptance means that a quorum of distinct validators, the accepting one among
  them, has this very payment in its log and its key consumed in its ledger.\<close>

theorem edge_acceptance_held_by_quorum:
  assumes "cluster_start C0" and "\<forall>i s. fmlookup (cl_nodes C0) i = Some s \<longrightarrow> ss_consumed (si_state s) = {||}"
    and "(cluster_step X)\<^sup>*\<^sup>* C0 C" and "inj_on (body_digest X) (proposed C)" and "inj_on body_key (proposed C)"
    and "fmlookup (cl_tasks C) k = Some (i, Accepted b d need acks acc)"
  shows "\<exists>V. i \<in> V \<and> V \<subseteq> fset (fmdom (cl_nodes C)) \<and> quorum_threshold (card (fset (fmdom (cl_nodes C)))) \<le> card V \<and>
    (\<forall>v \<in> V. \<exists>s. fmlookup (cl_nodes C) v = Some s \<and> logged_after [] X b s \<and> body_consumed b s)"
proof -
  note a = booking.accepted_held
    [OF run_books [OF assms(3,1,2)] cluster_reachable_ok [OF run_reachable [OF assms(3,1)]] assms(4,6)]
  have held: "\<exists>s. fmlookup (cl_nodes C) v = Some s \<and> logged_after [] X b s \<and> body_consumed b s" if v: "v \<in> set acks" for v
  proof -
    obtain s where s: "fmlookup (cl_nodes C) v = Some s" "node_books X (proposed C) s" "body_consumed b s"
      using a(5) [OF v] by blast
    then obtain b' where "b' \<in> proposed C" "body_key b' = body_key b" "logged_after [] X b' s"
      unfolding node_books_def booked_def consumed_key by blast
    then show ?thesis using s inj_onD [OF assms(5)] a(1) by blast
  qed
  show ?thesis
    by (rule exI [of _ "set acks"]) (use a(2-4) held in \<open>auto simp: distinct_card fcard.rep_eq intro: fmdomI\<close>)
qed

lemma sample_proposed:
  assumes "pay_commit sample_crypto sample_body d (own_votes sample_crypto d sample_engine) (sample_proposer d) = Ok () s"
  shows "proposed (sample_accepted d s) = {sample_body}"
proof -
  have "si_sent s = si_sent (sample_proposer d) @
      [Commit sample_body (vote_list (own_votes sample_crypto d sample_engine)), DurableAck d (engine_id sample_engine)]"
    using pay_commit_sent [OF assms] by simp
  then show ?thesis
    by (auto simp: proposed_def set_task_def set_node_def sample_cluster_def after_propose_def broadcast_def sample_engine_fields)
qed

lemma sample_run:
  obtains d s where "(cluster_step sample_crypto)\<^sup>*\<^sup>* sample_cluster (sample_accepted d s)"
    and "pay_commit sample_crypto sample_body d (own_votes sample_crypto d sample_engine) (sample_proposer d) = Ok () s"
  by (rule sample_cluster_run) (meson converse_rtranclp_into_rtranclp rtranclp.rtrancl_refl)

lemma edge_acceptance_held_by_quorum_witness:
  "\<exists>(C :: shard_cluster) V. quorum_threshold (card (fset (fmdom (cl_nodes C)))) \<le> card V \<and>
    (\<forall>v \<in> V. \<exists>s. fmlookup (cl_nodes C) v = Some s \<and> logged_after [] sample_crypto sample_body s)"
proof -
  obtain d s where run: "(cluster_step sample_crypto)\<^sup>*\<^sup>* sample_cluster (sample_accepted d s)"
    and c: "pay_commit sample_crypto sample_body d (own_votes sample_crypto d sample_engine) (sample_proposer d) = Ok () s"
    by (rule sample_run)
  let ?C = "sample_accepted d s"
  have fresh: "\<forall>i s. fmlookup (cl_nodes sample_cluster) i = Some s \<longrightarrow> ss_consumed (si_state s) = {||}"
    by (simp add: sample_cluster_def sample_engine_fields activated_state_def activate_capability_def shard_state_new_def)
  have prs: "proposed ?C = {sample_body}" by (rule sample_proposed [OF c])
  have inj: "inj_on (body_digest sample_crypto) (proposed ?C)" "inj_on body_key (proposed ?C)" unfolding prs by simp_all
  have "fmlookup (cl_tasks ?C) 0 = Some (0, Accepted sample_body d 1 [engine_id s] (pay_finish sample_crypto sample_body d s))"
    by (simp add: set_task_def)
  from edge_acceptance_held_by_quorum [OF sample_cluster_start fresh run inj this] show ?thesis by blast
qed

end
