(* ===== verification/Cluster_Theorems.thy ===== *)
theory Cluster_Theorems
  imports Cluster_Spending Durability
begin

text \<open>
  What a shard with several validators that lead payments can accept on one capability: at most
  its maximum times the ratio of the cluster to its quorum.
\<close>

section \<open>The bound\<close>

text \<open>C4: In every reachable state of a shard's cluster in which no capability was granted again, over all
  interleavings of messages, pumps, kills, fences and concurrent payments: let the agents sign no
  sequence number twice and the proposed payments have different digests. Then the quorum times
  what all validators together have accepted on a capability is at most the number of validators
  times its maximum, and what one validator has accepted is at most the maximum.\<close>

theorem cluster_spending_bounded:
  assumes "orderly_reachable X C" and "inj_on (body_digest X) (proposed C)" and "inj_on body_key (proposed C)"
    and "\<forall>v s. fmlookup (cl_nodes C) v = Some s \<longrightarrow> known_maximum c s \<le> M"
  shows "quorum_threshold (fcard (fmdom (cl_nodes C))) * (\<Sum>b \<in> accepted C c. amt (pb_amount b))
      \<le> fcard (fmdom (cl_nodes C)) * M
    \<and> (\<forall>i. (\<Sum>b \<in> accepted_by C c i. amt (pb_amount b)) \<le> M)"
  using spending_bounded [OF assms(1-3)] assms(4) by blast

lemma no_regrant_commit: "pay_commit X b d votes s = Ok u t \<Longrightarrow> no_regrant s t"
proof -
  assume "pay_commit X b d votes s = Ok u t"
  then obtain m where m: "commit_once X b (broadcast (Commit b (vote_list votes)) s) = Ok () m"
    and t: "t = broadcast (DurableAck d (engine_id m)) m"
    by (auto simp: pay_commit_def and_then_iff)
  have "left (consumed_state b st) c \<le> left st c" if "body_consumable b st" for st c
    using left_after [of st "pb_capability_id b" "pb_epoch b" "pb_sequence b" "pb_amount b" c] that
    by (simp add: body_consumable_def consumed_state_def)
  then show ?thesis
    using m by (auto simp: t no_regrant_def commit_once_def durable_commit_Ok broadcast_def
        dest!: append_record_frame split: if_splits)
qed

lemma sample_fresh: "fresh_node_state sample_engine"
  by (auto simp: fresh_node_state_def sample_engine_fields activated_state_def activate_capability_def shard_state_new_def
      left_def known_maximum_def signed_fields)

lemma sample_orderly:
  obtains d s where "orderly_reachable sample_crypto (sample_accepted d s)" and "proposed (sample_accepted d s) = {sample_body}"
    and "si_capabilities s = si_capabilities sample_engine"
proof -
  obtain d s where c: "pay_commit sample_crypto sample_body d (own_votes sample_crypto d sample_engine) (sample_proposer d) = Ok () s"
    and steps: "cluster_step sample_crypto sample_cluster (sample_voting d)"
      "cluster_step sample_crypto (sample_voting d) (sample_committed d s)"
      "cluster_step sample_crypto (sample_committed d s) (sample_accepted d s)"
    by (rule sample_cluster_run)
  have caps: "si_capabilities (sample_proposer d) = si_capabilities sample_engine"
    by (simp add: after_propose_def broadcast_def)
  have "orderly_reachable sample_crypto sample_cluster"
    using orderly_reachable.start [OF sample_cluster_start] sample_fresh by (simp add: sample_cluster_def)
  from orderly_reachable.step [OF this steps(1)] have "orderly_reachable sample_crypto (sample_voting d)"
    by (simp add: sample_cluster_def set_task_def set_node_def no_regrant_def caps)
  from orderly_reachable.step [OF this steps(2)] have "orderly_reachable sample_crypto (sample_committed d s)"
    using no_regrant_commit [OF c] by (simp add: set_task_def set_node_def sample_cluster_def)
  from orderly_reachable.step [OF this steps(3)] have o: "orderly_reachable sample_crypto (sample_accepted d s)"
    by (simp add: set_task_def set_node_def no_regrant_def sample_cluster_def)
  have "proposed (sample_accepted d s) = {sample_body}" by (rule sample_proposed [OF c])
  moreover have "si_capabilities s = si_capabilities sample_engine"
    using c by (auto simp: pay_commit_def and_then_iff commit_once_def durable_commit_Ok broadcast_def caps
        dest!: append_record_frame split: if_splits)
  ultimately show ?thesis using that o by blast
qed

lemma cluster_spending_bounded_witness:
  "\<exists>C. orderly_reachable sample_crypto C \<and> sample_body \<in> accepted C (CapabilityId 9) \<and>
     (\<forall>i. (\<Sum>b \<in> accepted_by C (CapabilityId 9) i. amt (pb_amount b)) \<le> 100)"
proof -
  obtain d s where o: "orderly_reachable sample_crypto (sample_accepted d s)"
    and prs: "proposed (sample_accepted d s) = {sample_body}" and caps: "si_capabilities s = si_capabilities sample_engine"
    by (rule sample_orderly)
  let ?C = "sample_accepted d s" and ?c = "CapabilityId 9"
  have inj: "inj_on (body_digest sample_crypto) (proposed ?C)" "inj_on body_key (proposed ?C)" unfolding prs by simp_all
  have M: "\<forall>v t. fmlookup (cl_nodes ?C) v = Some t \<longrightarrow> known_maximum ?c t \<le> 100"
    by (simp add: set_task_def set_node_def sample_cluster_def known_maximum_def caps sample_engine_fields signed_fields amt_def)
  have "sample_body \<in> accepted ?C ?c"
    by (auto simp: accepted_def accepted_by_def set_task_def pay_body_of_def body_from_pay_def signed_fields)
  then show ?thesis using cluster_spending_bounded [OF o inj M] o by blast
qed

end
