(* ===== verification/Cluster_Turns.thy ===== *)
theory Cluster_Turns
  imports Durability Testkit
begin

text \<open>
  The bound of \<open>cluster_spending_bounded\<close> is used up beyond the capability's maximum: a run of the
  cluster's step relation in which validators lead payments in turn while the messages between
  some of them are under way.
\<close>

section \<open>Validators and payments\<close>







section \<open>Messages between validators\<close>

lemma set_node_lookup [simp]:
  "fmlookup (cl_nodes (set_node i t C)) x = (if x = i then Some t else fmlookup (cl_nodes C) x)"
  "cl_tasks (set_node i t C) = cl_tasks C" "cl_nodes (set_task k i task C) = cl_nodes C"
  "fmlookup (cl_tasks (set_task k i task C)) l = (if l = k then Some (i, task) else fmlookup (cl_tasks C) l)"
  by (simp_all add: set_node_def set_task_def)






section \<open>A payment of three validators\<close>








text \<open>The ledger after several payments of one capability.\<close>

definition ledger_after_pays :: "crypto \<Rightarrow> pay list \<Rightarrow> shard_state \<Rightarrow> shard_state" where
  "ledger_after_pays X ps st = fold (\<lambda>p. consumed_state (pay_body_of X p)) ps st"

lemma ledger_after_pays_simps [simp]:
  "ledger_after_pays X [] st = st"
  "ledger_after_pays X (p # ps) st = ledger_after_pays X ps (consumed_state (pay_body_of X p) st)"
  by (simp_all add: ledger_after_pays_def)




section \<open>Four payments\<close>






end
