(* ===== verification/Spec2Isabelle.thy ===== *)
theory Spec2Isabelle
  imports Net_Theorems Payment_Theorems Trust_Theorems Ledger_Book Solvency Concurrency Replication Seef_Sim Bench Global_Cluster Cluster_Theorems Cluster_Turns
begin

text \<open>
  A model of BlockAI, a payment network for software agents, with the theorems that make its
  parts correct.

  \<^bold>\<open>The program.\<close> An account locks money on a global ledger and allocates it to a shard. An
  \<^emph>\<open>authority\<close> issues spend capabilities out of that allowance, on attested evidence. The
  validators of a \<^emph>\<open>shard\<close> authorise payments against capabilities by a quorum vote, each with
  its own spend ledger and write-ahead log. An edge acceptance and the service's receipt form a
  payment proof; proofs are collected in a receipt log, sealed under a Merkle root into a
  checkpoint, countersigned by witnesses, and finalised on the \<^emph>\<open>global ledger\<close>, whose own
  validators agree on blocks of transactions kept in a DAG.

  \<^bold>\<open>Theories, in the order of their imports, and the code they model\<close> (paths under
  \<open>src/crates\<close>).

  \<^item> \<open>Prelude\<close>: integers of fixed width, checked and saturating arithmetic, byte orders, the
    outcome type \<open>Ok\<close>/\<open>Err\<close>/\<open>Panic\<close> of an operation on \<open>&mut self\<close>, sums over finite maps.
  \<^item> \<open>External\<close>: the record of functions that stand for code outside the repository (Ed25519, the
    lattice signature, blake3, the CBOR writer) and the laws assumed of them;
    \<open>Sample_Codec\<close>: an instance that satisfies the laws, for the witnesses.
  \<^item> \<open>Types\<close>: \<open>types/src\<close>. \<open>Signing\<close>: \<open>crypto/src\<close>; its locale \<open>sig_scheme\<close> is the contract of
    every pair of sign and verify functions.
  \<^item> \<open>Shard_State\<close>: \<open>shard/src/state.rs\<close>. \<open>Wal\<close>: \<open>shard/src/wal.rs\<close>; its locale \<open>journal\<close> says what
    the history of a log bounds. \<open>Merkle\<close>: \<open>shard/src/merkle.rs\<close>. \<open>Receipts\<close>:
    \<open>receipt_log.rs\<close> and \<open>payment.rs\<close>, with the locale \<open>receipt_store\<close>. \<open>Checkpoint\<close>:
    \<open>checkpoint.rs\<close>, with the locale \<open>self_keyed\<close> of messages that embed their own key.
  \<^item> \<open>Witness\<close>: \<open>witness/src/lib.rs\<close>. \<open>Attest\<close>: \<open>attest/src/lib.rs\<close>. \<open>Authority\<close>:
    \<open>authority/src/issuer.rs\<close>. \<open>Wasm\<close>: \<open>wasm/src/lib.rs\<close>.
  \<^item> \<open>Execute\<close>: \<open>execute/src/lib.rs\<close>, one definition per transaction. \<open>Conservation\<close>, \<open>Ledger\<close>,
    \<open>Ledger_Errors\<close> and \<open>Ledger_Theorems\<close> show the invariant \<open>gs_ok\<close>, what a failed transaction
    leaves, when a transaction can panic, finality of checkpoints and delivery versus payment.
    \<open>Ledger_Book\<close>: the abstract specification of the ledger, double-entry bookkeeping over pots, and
    that the ledger refines it transaction by transaction.
  \<^item> \<open>Quorum\<close>: the quorum threshold, with the locale \<open>quorum_rule\<close> (two quorums share a member,
    a minority of faults leaves one).
  \<^item> \<open>Engine\<close>: \<open>shard/src/engine.rs\<close> and \<open>bft.rs\<close>. \<open>Engine_Contract\<close> holds the contract that an
    operation keeps a relation between the states before and after (locale \<open>engine_contract\<close>),
    proved once for every operation from the few primitive steps; \<open>Engine_Safety\<close> interprets it
    three times (consumed keys and fences only grow; what a validator recorded is backed; the log
    stays the image of the ledger). \<open>Engine_Pay\<close> describes a successful payment.
  \<^item> \<open>Cluster\<close>: the validators of a shard with their in-flight payments as one step relation.
    \<open>Shard_Theorems\<close>: the theorems about one validator, among them what committing a validated payment does.
    \<open>Cluster_Invariant\<close>: invariants of a whole cluster, for what depends on the payments a validator is told to
    commit (locale \<open>sourced_invariant\<close>) and on which of them are proposed, committed and acknowledged (locale
    \<open>cluster_invariant\<close>). It is interpreted twice: in \<open>Durability\<close>, that every consumed key has its payment's record in
    the log, with what an edge acceptance says about the logs of a quorum; in \<open>Cluster_Spending\<close>, what a ledger has
    recorded of a capability, with what a cluster can accept on it at most in \<open>Cluster_Theorems\<close>.
    \<open>Testkit\<close>: the four-validator set-up of \<open>shard/src/testkit.rs\<close>, and that a run of payments is
    accepted there with one follower down, with the same ledger on all live validators. \<open>Cluster_Turns\<close>: a run of
    the cluster, started from that set-up, in which four validators lead and more is accepted than the
    capability grants. \<open>Concurrency\<close>: two payments handled at the same time.
  \<^item> \<open>Dag\<close>: \<open>consensus/src/dag.rs\<close>. \<open>Consensus\<close>: \<open>consensus/src/bft.rs\<close>, with the locale
    \<open>block_executor\<close> for the ledger a validator executes blocks on. \<open>Consensus_Theorems\<close>: the traversal of the DAG,
    what a submission needs, and what repeated and reordered commits do. \<open>Replication\<close>: runs of
    submissions with the followers' tasks, and the ledger all live validators end with. \<open>Global_Cluster\<close>: submissions on any of
    the validators as steps between two acquisitions of the lock, interleaved with pumps, kills and a network
    that delays, reorders and repeats; what holds in every reachable state. \<open>Votes\<close> holds
    the lemmas on vote maps that \<open>Testkit\<close> and \<open>Replication\<close> share.
  \<^item> \<open>Settlement\<close>: from an edge acceptance to the finalised checkpoint, across all parts. \<open>Solvency\<close>: what
    services charge against what the authority issued: honest receipts always settle, others can
    block a checkpoint.
  \<^item> \<open>Ledger_Sims\<close>, \<open>Pay_Sims\<close>, \<open>Seef_Sim\<close>: the seven demonstration programs of \<open>tools/src/bin\<close>, from
    their arguments and generated keys to the values they print, and exactly when they end well.
    \<open>Bench\<close>: the benchmark \<open>shard/benches/pay_authorize.rs\<close>, and that its capability lasts for 999,999 iterations.
  \<^item> \<open>Net\<close>: \<open>net/src\<close>, with the locale \<open>framing\<close>; \<open>Transport\<close>: how its endpoints are set up; \<open>Net_Theorems\<close>.
  \<^item> \<open>Payment_Theorems\<close> and \<open>Trust_Theorems\<close>: log replay, spending, Merkle proofs, proof chains,
    sealing, the purpose of a signature; witnesses, issuance, floats and allowances.

  \<^bold>\<open>How state and effects are read.\<close> A struct is a record, a \<open>HashMap\<close> a finite map, a mutex
  disappears into explicit state passing. A channel is a list: what a validator broadcasts is
  appended to its sent list, what it receives is its inbox. A function that sleeps in a loop until
  enough messages are there takes the list of batches that arrive in successive rounds (one element
  per iteration of the loop); when the list ends the deadline has passed. So every number of
  rounds and every arrival order is covered, and no fuel is needed. The traversal of the DAG
  terminates because every iteration either drops an identifier already seen or marks one more
  filed block. Integers keep their width: amounts are 128-bit words, additions that Rust traps on with
  overflow checks (the workspace sets no profile, so in its development and test builds) are the outcome
  \<open>Panic\<close>, saturating and checked additions are written as such.

  \<^bold>\<open>Assumptions.\<close> \<open>crypto_ok\<close>: a signature made with a key verifies under its public key, keys and
  byte forms round trip. \<open>cbor_injective\<close>, \<open>wal_codec\<close>, \<open>frame_reader\<close>: the CBOR library reads back
  what it wrote. That a signature is not forged is assumed only in the theorem that a signature
  serves one purpose, for the objects at hand; collision freedom of the hash is assumed only in
  the theorem about Merkle proofs binding their leaves, for the inputs in question, and in the
  theorems about all interleavings of a shard's cluster, for the digests of the proposed payments.

  \<^bold>\<open>Schedules.\<close> The theorems that a cluster makes progress (\<open>Testkit\<close>, \<open>Replication\<close>, \<open>Pay_Sims\<close>, \<open>Seef_Sim\<close>)
  run the followers' tasks in lock step, one round per look at the inbox, well before any
  deadline; safety is stated over all interleavings (\<open>Cluster\<close>, \<open>Global_Cluster\<close>).

  \<^bold>\<open>Not modelled.\<close> Argument parsing, printing and timing of the demonstration programs and of the
  benchmark; the QUIC handshake and TLS themselves; the
  random generator (the bytes it yields are arguments), clocks (time is an argument), threads and sleeping; temporary directories of \<open>testkit.rs\<close>; the
  WebAssembly engine, read errors in the middle of a log file (opening and appending can fail), the CBOR library, the hash and signature primitives themselves.
\<close>

end
